(* ===== verification/Prelude.thy ===== *)
theory Prelude
  imports Main "HOL-Library.Word"
begin

text \<open>
  Shared vocabulary of the development: Go's byte slices and strings, the
  big-endian integers of \<open>encoding/binary\<close>, \<open>utf8.ValidString\<close> and
  \<open>strings.Split\<close>, and the small facts on options, maps and lists that several
  components use. A Go string is an Isabelle \<^typ>\<open>string\<close> (a list of 8-bit
  characters, so \<open>length\<close> counts bytes as Go's \<open>len\<close> does); a Go \<open>[]byte\<close>
  is a list of 8-bit words.
\<close>

named_theorems go_defs \<open>definitions of guards and one-line helpers of the code\<close>
named_theorems go_inv \<open>invariant preservation, one fact per operation\<close>

type_synonym byte = "8 word"
type_synonym bytes = "byte list"
type_synonym uint16 = "16 word"
type_synonym uint32 = "32 word"
type_synonym uint64 = "64 word"

subsection \<open>Strings as bytes\<close>

abbreviation ord_of :: "char \<Rightarrow> nat" where
  "ord_of c \<equiv> of_char c"

definition bytes_of_string :: "string \<Rightarrow> bytes" where
  "bytes_of_string s = map (\<lambda>c. word_of_nat (ord_of c)) s"

definition string_of_bytes :: "bytes \<Rightarrow> string" where
  "string_of_bytes bs = map (\<lambda>b. char_of (unat b)) bs"

lemma length_bytes_of_string [simp]: "length (bytes_of_string s) = length s"
  by (simp add: bytes_of_string_def)

lemma length_string_of_bytes [simp]: "length (string_of_bytes bs) = length bs"
  by (simp add: string_of_bytes_def)

lemma char_byte_char [simp]: "char_of (unat (word_of_nat (ord_of c) :: byte)) = c"
proof -
  have "ord_of c < 256" using nat_of_char_less_256 by simp
  then have "unat (word_of_nat (ord_of c) :: byte) = ord_of c"
    by (simp add: unat_of_nat)
  then show ?thesis by simp
qed

lemma unat_byte_less: "unat (b :: byte) < 256"
  using unsigned_less [of b] by simp

lemma unat_byte_mod [simp]: "unat (b :: byte) mod 256 = unat b"
  by (simp add: unat_byte_less)

lemma byte_char_byte [simp]: "word_of_nat (ord_of (char_of (unat (b :: byte)))) = b"
  by simp

lemma string_bytes_string [simp]: "string_of_bytes (bytes_of_string s) = s"
  by (simp add: bytes_of_string_def string_of_bytes_def comp_def)

lemma bytes_string_bytes [simp]: "bytes_of_string (string_of_bytes bs) = bs"
  by (simp add: bytes_of_string_def string_of_bytes_def comp_def)

subsection \<open>Big-endian integers\<close>

text \<open>
  \<open>be_bytes k n\<close> is what \<open>binary.BigEndian.PutUint\<close> writes for \<open>k\<close> bytes;
  \<open>be_nat\<close> reads them back.
\<close>

fun be_bytes :: "nat \<Rightarrow> nat \<Rightarrow> bytes" where
  "be_bytes 0 n = []"
| "be_bytes (Suc k) n = be_bytes k (n div 256) @ [word_of_nat n]"

definition be_nat :: "bytes \<Rightarrow> nat" where
  "be_nat bs = foldl (\<lambda>a b. a * 256 + unat b) 0 bs"

lemma length_be_bytes [simp]: "length (be_bytes k n) = k"
  by (induction k n rule: be_bytes.induct) auto

lemma be_nat_Nil [simp]: "be_nat [] = 0"
  by (simp add: be_nat_def)

lemma be_nat_snoc [simp]: "be_nat (bs @ [b]) = be_nat bs * 256 + unat b"
  by (simp add: be_nat_def)

lemma be_nat_bound: "be_nat bs < 256 ^ length bs"
proof (induction bs rule: rev_induct)
  case (snoc b bs)
  have "unat b < 256" by (rule unat_byte_less)
  moreover have "Suc (be_nat bs) * 256 \<le> 256 ^ length bs * 256"
    using snoc by (intro mult_right_mono) auto
  ultimately show ?case by simp
qed simp

lemma be_nat_be_bytes: "be_nat (be_bytes k n) = n mod 256 ^ k"
proof (induction k n rule: be_bytes.induct)
  case (2 k n)
  have "unat (word_of_nat n :: byte) = n mod 256"
    by (simp add: unat_of_nat)
  with 2 have "be_nat (be_bytes (Suc k) n) = (n div 256) mod 256 ^ k * 256 + n mod 256"
    by simp
  also have "\<dots> = n mod (256 * 256 ^ k)"
    by (simp add: mod_mult2_eq mult.commute)
  finally show ?case by simp
qed simp

lemma be_bytes_be_nat: "length bs = k \<Longrightarrow> be_bytes k (be_nat bs) = bs"
proof (induction bs arbitrary: k rule: rev_induct)
  case (snoc b bs)
  have b: "unat b < 256" by (rule unat_byte_less)
  have "word_of_nat (be_nat bs * 256 + unat b) = (word_of_nat (be_nat bs) * 256 + b :: byte)"
    by simp
  also have "(256 :: byte) = 0" by simp
  finally have "word_of_nat (be_nat bs * 256 + unat b) = b" by simp
  moreover have "(be_nat bs * 256 + unat b) div 256 = be_nat bs" using b by simp
  ultimately show ?case using snoc by auto
qed simp

definition put_uint :: "nat \<Rightarrow> 'a::len word \<Rightarrow> bytes" where
  "put_uint k w = be_bytes k (unat w)"

definition get_uint :: "bytes \<Rightarrow> 'a::len word" where
  "get_uint bs = word_of_nat (be_nat bs)"

lemma length_put_uint [simp]: "length (put_uint k w) = k"
  by (simp add: put_uint_def)

lemma get_put_uint: "LENGTH('a) \<le> 8 * k \<Longrightarrow> get_uint (put_uint k w) = (w :: 'a::len word)"
proof -
  assume k: "LENGTH('a) \<le> 8 * k"
  have "unat w < 2 ^ LENGTH('a)" by (rule unsigned_less)
  also have "(2 :: nat) ^ LENGTH('a) \<le> 2 ^ (8 * k)" using k by (intro power_increasing) auto
  also have "(2 :: nat) ^ (8 * k) = 256 ^ k" by (simp add: power_mult)
  finally have "unat w mod 256 ^ k = unat w" by simp
  then show ?thesis by (simp add: get_uint_def put_uint_def be_nat_be_bytes)
qed

lemma put_get_uint:
  assumes "length bs = k" and "8 * k \<le> LENGTH('a)"
  shows "put_uint k (get_uint bs :: 'a::len word) = bs"
proof -
  have "be_nat bs < 256 ^ k" using be_nat_bound [of bs] assms(1) by simp
  also have "(256 :: nat) ^ k = 2 ^ (8 * k)" by (simp add: power_mult)
  also have "\<dots> \<le> 2 ^ LENGTH('a)" using assms(2) by (intro power_increasing) auto
  finally have "unat (word_of_nat (be_nat bs) :: 'a word) = be_nat bs"
    by (simp add: unat_of_nat)
  then show ?thesis using assms(1) by (simp add: put_uint_def get_uint_def be_bytes_be_nat)
qed

subsection \<open>strings.Split, strings.Join and decimal numbers\<close>

fun split_on :: "char \<Rightarrow> string \<Rightarrow> string list" where
  "split_on sep [] = [[]]"
| "split_on sep (c # cs) =
     (if c = sep then [] # split_on sep cs
      else (case split_on sep cs of [] \<Rightarrow> [[c]] | p # ps \<Rightarrow> (c # p) # ps))"

fun join_with :: "char \<Rightarrow> string list \<Rightarrow> string" where
  "join_with sep [] = []"
| "join_with sep [p] = p"
| "join_with sep (p # q # ps) = p @ sep # join_with sep (q # ps)"

lemma split_on_nonempty [simp]: "split_on sep s \<noteq> []"
  by (induction s) (auto split: list.splits)

lemma join_split_on [simp]: "join_with sep (split_on sep s) = s"
proof (induction s)
  case (Cons c cs)
  then show ?case by (cases "split_on sep cs"; cases "tl (split_on sep cs)") auto
qed simp

lemma split_on_no_sep: "p \<in> set (split_on sep s) \<Longrightarrow> sep \<notin> set p"
  by (induction s arbitrary: p) (auto split: if_splits list.splits)

lemma split_on_append:
  "sep \<notin> set p \<Longrightarrow> split_on sep (p @ sep # s) = p # split_on sep s"
  by (induction p) auto

lemma split_on_plain: "sep \<notin> set p \<Longrightarrow> split_on sep p = [p]"
  by (induction p) auto

lemma split_join_with:
  "ps \<noteq> [] \<Longrightarrow> \<forall>p \<in> set ps. sep \<notin> set p \<Longrightarrow> split_on sep (join_with sep ps) = ps"
  by (induction sep ps rule: join_with.induct) (auto simp: split_on_append split_on_plain)

text \<open>
  \<open>strconv.FormatUint(n, 10)\<close>, and \<open>strconv.ParseUint(s, 10, 64)\<close>: digits only,
  \<open>None\<close> for an empty string, another character or a value past 64 bits.
\<close>

definition digit_char :: "nat \<Rightarrow> char" where
  "digit_char d = char_of (48 + d)"

definition is_digit :: "char \<Rightarrow> bool" where
  "is_digit c \<longleftrightarrow> 48 \<le> ord_of c \<and> ord_of c \<le> 57"

fun format_uint :: "nat \<Rightarrow> string" where
  "format_uint n =
     (if n < 10 then [digit_char n] else format_uint (n div 10) @ [digit_char (n mod 10)])"

declare format_uint.simps [simp del]

definition digits_value :: "string \<Rightarrow> nat" where
  "digits_value s = foldl (\<lambda>a c. a * 10 + (ord_of c - 48)) 0 s"

definition parse_uint64 :: "string \<Rightarrow> uint64 option" where
  "parse_uint64 s =
     (if s = [] \<or> \<not> list_all is_digit s \<or> digits_value s \<ge> 2 ^ 64 then None
      else Some (word_of_nat (digits_value s)))"

lemma ord_digit_char: "d < 10 \<Longrightarrow> ord_of (digit_char d) = 48 + d"
  by (simp add: digit_char_def)

lemma is_digit_digit_char: "d < 10 \<Longrightarrow> is_digit (digit_char d)"
  by (simp add: is_digit_def ord_digit_char)

lemma digits_value_snoc [simp]:
  "digits_value (s @ [c]) = digits_value s * 10 + (ord_of c - 48)"
  by (simp add: digits_value_def)

lemma digits_value_Nil [simp]: "digits_value [] = 0"
  by (simp add: digits_value_def)

lemma format_uint_nonempty [simp]: "format_uint n \<noteq> []"
  by (subst format_uint.simps) simp

lemma format_uint_digits: "list_all is_digit (format_uint n)"
proof (induction n rule: format_uint.induct)
  case (1 n)
  then show ?case
    by (subst format_uint.simps) (auto simp: is_digit_digit_char)
qed

lemma digits_value_format_uint: "digits_value (format_uint n) = n"
proof (induction n rule: format_uint.induct)
  case (1 n)
  have "digits_value [digit_char n] = n" if "n < 10"
    using that digits_value_snoc [of "[]"] by (simp add: ord_digit_char del: digits_value_snoc)
  with 1 show ?case
    by (subst format_uint.simps) (auto simp: ord_digit_char)
qed

lemma parse_format_uint: "n < 2 ^ 64 \<Longrightarrow> parse_uint64 (format_uint n) = Some (word_of_nat n)"
  using format_uint_digits [of n]
  by (simp add: parse_uint64_def digits_value_format_uint)

lemma format_uint_inj: "format_uint m = format_uint n \<Longrightarrow> m = n"
  by (metis digits_value_format_uint)

lemma colon_not_digit: "CHR '':'' \<notin> set (format_uint n)"
  using format_uint_digits [of n] by (auto simp: list_all_iff is_digit_def)

lemma format_uint_length: "0 < k \<Longrightarrow> n < 10 ^ k \<Longrightarrow> length (format_uint n) \<le> k"
proof (induction n arbitrary: k rule: format_uint.induct)
  case (1 n)
  show ?case
  proof (cases "n < 10")
    case True
    with "1.prems" show ?thesis by (subst format_uint.simps) simp
  next
    case False
    obtain j where k: "k = Suc j" using "1.prems"(1) by (cases k) auto
    with False "1.prems"(2) have "0 < j" by (cases j) auto
    moreover have "n div 10 < 10 ^ j" using "1.prems"(2) k
      by (simp add: less_mult_imp_div_less mult.commute)
    ultimately have "length (format_uint (n div 10)) \<le> j" using "1.IH" False by blast
    with False k show ?thesis by (subst format_uint.simps) simp
  qed
qed

subsection \<open>utf8.ValidString\<close>

definition cont_byte :: "char \<Rightarrow> bool" where
  "cont_byte c \<longleftrightarrow> 128 \<le> ord_of c \<and> ord_of c \<le> 191"

definition in_range :: "char \<Rightarrow> nat \<Rightarrow> nat \<Rightarrow> bool" where
  "in_range c lo hi \<longleftrightarrow> lo \<le> ord_of c \<and> ord_of c \<le> hi"

text \<open>
  The accept ranges of \<open>unicode/utf8\<close>: overlong forms (\<open>C0\<close>, \<open>C1\<close>, \<open>E0 80..9F\<close>,
  \<open>F0 80..8F\<close>), surrogates (\<open>ED A0..BF\<close>) and values past \<open>10FFFF\<close> are refused.
\<close>

fun utf8_valid :: "string \<Rightarrow> bool" where
  "utf8_valid [] = True"
| "utf8_valid (a # s) =
     (if ord_of a < 128 then utf8_valid s
      else if in_range a 194 223 then
        (case s of b # s' \<Rightarrow> cont_byte b \<and> utf8_valid s' | _ \<Rightarrow> False)
      else if in_range a 224 239 then
        (case s of b # c # s' \<Rightarrow>
           in_range b (if ord_of a = 224 then 160 else 128) (if ord_of a = 237 then 159 else 191) \<and>
           cont_byte c \<and> utf8_valid s' | _ \<Rightarrow> False)
      else if in_range a 240 244 then
        (case s of b # c # d # s' \<Rightarrow>
           in_range b (if ord_of a = 240 then 144 else 128) (if ord_of a = 244 then 143 else 191) \<and>
           cont_byte c \<and> cont_byte d \<and> utf8_valid s' | _ \<Rightarrow> False)
      else False)"

lemma utf8_valid_ascii: "\<forall>c \<in> set s. ord_of c < 128 \<Longrightarrow> utf8_valid s"
  by (induction s) auto

subsection \<open>Step relations and what they keep\<close>

text \<open>
  The contract between a component that is a step relation and the predicate its steps preserve: every run
  preserves it, and it holds of everything that is reached from a state that has it.
\<close>

locale steps_keep =
  fixes step :: "'s \<Rightarrow> 's \<Rightarrow> bool" and inv :: "'s \<Rightarrow> bool"
  assumes keep: "step s t \<Longrightarrow> inv s \<Longrightarrow> inv t"
begin

lemma kept_along: "step\<^sup>*\<^sup>* s t \<Longrightarrow> inv s \<Longrightarrow> inv t"
  by (induction rule: rtranclp_induct) (auto intro: keep)

end

text \<open>With the states a component begins in.\<close>

locale steps_keep_from = steps_keep step inv for step :: "'s \<Rightarrow> 's \<Rightarrow> bool" and inv +
  fixes fresh :: "'s \<Rightarrow> bool"
  assumes begins: "fresh s \<Longrightarrow> inv s"
begin

lemma kept_reached: "fresh s \<Longrightarrow> step\<^sup>*\<^sup>* s t \<Longrightarrow> inv t"
  using kept_along begins by blast

end

end
