(* ===== verification/Errors.thy ===== *)
theory Errors
  imports Prelude
begin

text \<open>
  Error values (\<open>errors.go\<close>) and their names on the wire (\<open>internal/mux/status.go\<close>).
  A Go \<open>error\<close> that may be nil is a \<open>go_error option\<close>; a function that returns
  \<open>(T, error)\<close> is a \<open>go_error + 'a\<close> (\<open>Inl\<close> the error, \<open>Inr\<close> the value).
  \<open>Foreign\<close> stands for an error of another package, known by its text only.
\<close>

datatype sentinel =
    ErrInvalid | ErrUnknownImage | ErrCapacity | ErrConflict | ErrUnavailable | ErrFrozen
  | ErrRevoked | ErrBusy | ErrClosed | ErrNotFound | ErrLagged | ErrTooLarge
  | ErrConnection | ErrNetwork

fun sentinel_text :: "sentinel \<Rightarrow> string" where
  "sentinel_text ErrInvalid = ''execenv: invalid''"
| "sentinel_text ErrUnknownImage = ''execenv: unknown image''"
| "sentinel_text ErrCapacity = ''execenv: no capacity''"
| "sentinel_text ErrConflict = ''execenv: grant conflict''"
| "sentinel_text ErrUnavailable = ''execenv: host unavailable''"
| "sentinel_text ErrFrozen = ''execenv: grant frozen''"
| "sentinel_text ErrRevoked = ''execenv: grant revoked''"
| "sentinel_text ErrBusy = ''execenv: terminal busy''"
| "sentinel_text ErrClosed = ''execenv: closed''"
| "sentinel_text ErrNotFound = ''execenv: not found''"
| "sentinel_text ErrLagged = ''execenv: observation lagged''"
| "sentinel_text ErrTooLarge = ''execenv: too large''"
| "sentinel_text ErrConnection = ''execenv: connection failed''"
| "sentinel_text ErrNetwork = ''execenv: network not offered''"

datatype go_error =
    Sent sentinel
  | OpError string go_error
  | CtxCanceled
  | CtxDeadlineExceeded
  | IoEOF
  | IoUnexpectedEOF
  | Foreign string

type_synonym 'a res = "go_error + 'a"

fun error_text :: "go_error \<Rightarrow> string" where
  "error_text (Sent s) = sentinel_text s"
| "error_text (OpError op e) = ''execenv '' @ op @ '': '' @ error_text e"
| "error_text CtxCanceled = ''context canceled''"
| "error_text CtxDeadlineExceeded = ''context deadline exceeded''"
| "error_text IoEOF = ''EOF''"
| "error_text IoUnexpectedEOF = ''unexpected EOF''"
| "error_text (Foreign t) = t"

fun unwrap :: "go_error \<Rightarrow> go_error option" where
  "unwrap (OpError op e) = Some e"
| "unwrap e = None"

text \<open>\<open>execenv.Error(op, err)\<close>: a nil error stays nil.\<close>

definition annotate :: "string \<Rightarrow> go_error option \<Rightarrow> go_error option" where
  "annotate op err = (case err of None \<Rightarrow> None | Some e \<Rightarrow> Some (OpError op e))"

text \<open>\<open>errors.Is\<close>: the error itself or anything it unwraps to is the target.\<close>

fun errors_is :: "go_error \<Rightarrow> go_error \<Rightarrow> bool" where
  "errors_is (OpError op e) target \<longleftrightarrow> OpError op e = target \<or> errors_is e target"
| "errors_is e target \<longleftrightarrow> e = target"

abbreviation err_is :: "go_error \<Rightarrow> sentinel \<Rightarrow> bool" where
  "err_is e s \<equiv> errors_is e (Sent s)"

text \<open>The error at the end of the chain of operations.\<close>

fun root_error :: "go_error \<Rightarrow> go_error" where
  "root_error (OpError op e) = root_error e"
| "root_error e = e"

lemma errors_is_root: "(\<And>op e. target \<noteq> OpError op e) \<Longrightarrow> errors_is e target \<longleftrightarrow> root_error e = target"
  by (induction e) auto

lemma err_is_root: "err_is e s \<longleftrightarrow> root_error e = Sent s"
  by (rule errors_is_root) simp

lemma annotate_simps [simp]:
  "annotate op None = None" "annotate op (Some e) = Some (OpError op e)"
  by (simp_all add: annotate_def)

subsection \<open>Status names\<close>

definition status_of :: "go_error option \<Rightarrow> string" where
  "status_of err =
     (case err of
        None \<Rightarrow> ''''
      | Some e \<Rightarrow>
          if err_is e ErrInvalid then ''invalid''
          else if err_is e ErrUnknownImage then ''unknown_image''
          else if err_is e ErrCapacity then ''capacity''
          else if err_is e ErrConflict then ''conflict''
          else if err_is e ErrUnavailable then ''unavailable''
          else if err_is e ErrFrozen then ''frozen''
          else if err_is e ErrRevoked then ''revoked''
          else if err_is e ErrBusy then ''busy''
          else if err_is e ErrClosed then ''closed''
          else if err_is e ErrNotFound then ''not_found''
          else if err_is e ErrLagged then ''lagged''
          else if err_is e ErrTooLarge then ''too_large''
          else if err_is e ErrConnection then ''connection''
          else if err_is e ErrNetwork then ''network''
          else if errors_is e CtxCanceled \<or> errors_is e CtxDeadlineExceeded then ''canceled''
          else ''unavailable'')"

definition error_from_status :: "string \<Rightarrow> go_error option" where
  "error_from_status status =
     (if status = '''' then None
      else if status = ''invalid'' then Some (Sent ErrInvalid)
      else if status = ''unknown_image'' then Some (Sent ErrUnknownImage)
      else if status = ''capacity'' then Some (Sent ErrCapacity)
      else if status = ''conflict'' then Some (Sent ErrConflict)
      else if status = ''unavailable'' then Some (Sent ErrUnavailable)
      else if status = ''frozen'' then Some (Sent ErrFrozen)
      else if status = ''revoked'' then Some (Sent ErrRevoked)
      else if status = ''busy'' then Some (Sent ErrBusy)
      else if status = ''closed'' then Some (Sent ErrClosed)
      else if status = ''not_found'' then Some (Sent ErrNotFound)
      else if status = ''lagged'' then Some (Sent ErrLagged)
      else if status = ''too_large'' then Some (Sent ErrTooLarge)
      else if status = ''connection'' then Some (Sent ErrConnection)
      else if status = ''network'' then Some (Sent ErrNetwork)
      else if status = ''canceled'' then Some CtxCanceled
      else Some (Sent ErrUnavailable))"

text \<open>What an error looks like on the other side of one hop.\<close>

fun wire_error :: "go_error \<Rightarrow> go_error" where
  "wire_error (Sent s) = Sent s"
| "wire_error (OpError op e) = wire_error e"
| "wire_error CtxCanceled = CtxCanceled"
| "wire_error CtxDeadlineExceeded = CtxCanceled"
| "wire_error e = Sent ErrUnavailable"

lemma status_of_None [simp]: "status_of None = ''''"
  by (simp add: status_of_def)

lemma status_of_OpError: "status_of (Some (OpError op e)) = status_of (Some e)"
  by (simp add: status_of_def)

lemma wire_error_root: "wire_error e = wire_error (root_error e)"
  by (induction e) auto

lemma status_of_root: "status_of (Some e) = status_of (Some (root_error e))"
  by (induction e) (auto simp: status_of_OpError)

lemma status_of_sentinel: "error_from_status (status_of (Some (Sent s))) = Some (Sent s)"
  by (cases s) (simp_all add: status_of_def error_from_status_def)

lemma error_from_status_of_Some: "error_from_status (status_of (Some e)) = Some (wire_error e)"
proof (induction e)
  case (Sent s)
  then show ?case by (simp add: status_of_sentinel)
next
  case (OpError op e)
  then show ?case by (simp add: status_of_OpError)
qed (simp_all add: status_of_def error_from_status_def)

lemma status_of_eq_empty [simp]: "status_of err = '''' \<longleftrightarrow> err = None"
  by (simp add: status_of_def split: option.splits)

text \<open>
  A status name carries the sentinel across a hop: decoding the status of any error
  gives an error that \<open>errors.Is\<close> matches against exactly the same sentinels, if the
  error matches any sentinel; every other error, which must not cross the wire, arrives
  as a cancellation or as \<open>ErrUnavailable\<close>; and only nil has the empty status.
\<close>

lemma status_roundtrip:
  "(status_of err = '''' \<longleftrightarrow> err = None) \<and>
   (case err of
      None \<Rightarrow> error_from_status (status_of err) = None
    | Some e \<Rightarrow> (\<exists>e'. error_from_status (status_of err) = Some e' \<and>
        (if \<exists>s. err_is e s then (\<forall>s. err_is e' s \<longleftrightarrow> err_is e s)
         else e' = (if errors_is e CtxCanceled \<or> errors_is e CtxDeadlineExceeded
                    then CtxCanceled else Sent ErrUnavailable))))"
proof (cases err)
  case None
  then show ?thesis by (simp add: error_from_status_def)
next
  case (Some e)
  have "wire_error (root_error e) = root_error e" if "\<exists>s. err_is e s"
    using that by (auto simp: err_is_root)
  moreover have "wire_error (root_error e) =
      (if errors_is e CtxCanceled \<or> errors_is e CtxDeadlineExceeded
       then CtxCanceled else Sent ErrUnavailable)" if "\<nexists>s. err_is e s"
    using that by (induction e) (auto simp: err_is_root errors_is_root)
  ultimately show ?thesis
    using Some wire_error_root [of e]
    by (auto simp: error_from_status_of_Some err_is_root)
qed

end
