(* ===== verification/Contract.thy ===== *)
theory Contract
  imports Errors
begin

text \<open>
  The occupancy contract's data and identities: \<open>execenv.go\<close> (grants, windows,
  reports), \<open>id.go\<close> (\<open>ValidateSpec\<close>) and \<open>isolated.go\<close> (\<open>RequireIsolated\<close>).
  Go's enumerations are open \<open>uint8\<close> types, so a value outside the named constants
  can arrive from a caller or from the wire; they are words here, and every
  \<open>switch\<close> keeps its default branch.
\<close>

type_synonym image_name = string
type_synonym grant_id = string
type_synonym network = byte

abbreviation NetworkNone :: network where "NetworkNone \<equiv> 0"
abbreviation NetworkAllowlist :: network where "NetworkAllowlist \<equiv> 1"

record capabilities =
  cap_isolated :: bool
  cap_freeze :: bool

record report =
  rep_usable :: bool
  rep_images :: "image_name list"
  rep_networks :: "network list"
  rep_slots :: int
  rep_release :: string

record spec =
  spec_id :: grant_id
  spec_image :: image_name
  spec_network :: network

record window =
  win_cols :: uint16
  win_rows :: uint16

text \<open>
  \<open>newTerminal\<close>, \<open>Resize\<close> and \<open>setWindow\<close> all replace a zero side by 80 or 24.
\<close>

definition default_window :: "window \<Rightarrow> window" where
  "default_window w =
     (let w = (if win_cols w = 0 then w\<lparr>win_cols := 80\<rparr> else w)
      in if win_rows w = 0 then w\<lparr>win_rows := 24\<rparr> else w)"

lemma default_window_nonzero:
  "win_cols (default_window w) \<noteq> 0 \<and> win_rows (default_window w) \<noteq> 0"
  by (simp add: default_window_def Let_def)

lemma default_window_idem [simp]: "default_window (default_window w) = default_window w"
  by (simp add: default_window_def Let_def)

subsection \<open>Grant ids and image names\<close>

definition min_id_bytes :: nat where "min_id_bytes = 1"
definition max_id_bytes :: nat where "max_id_bytes = 64"

definition name_char_ok :: "char \<Rightarrow> bool" where
  "name_char_ok c \<longleftrightarrow>
     (ord_of c \<ge> ord_of CHR ''A'' \<and> ord_of c \<le> ord_of CHR ''Z'') \<or>
     (ord_of c \<ge> ord_of CHR ''a'' \<and> ord_of c \<le> ord_of CHR ''z'') \<or>
     (ord_of c \<ge> ord_of CHR ''0'' \<and> ord_of c \<le> ord_of CHR ''9'') \<or>
     c = CHR ''.'' \<or> c = CHR ''_'' \<or> c = CHR ''-'' \<or> c = CHR '':''"

fun check_name_chars :: "string \<Rightarrow> go_error option" where
  "check_name_chars [] = None"
| "check_name_chars (c # cs) =
     (if name_char_ok c then check_name_chars cs else Some (Sent ErrInvalid))"

definition validate_name :: "string \<Rightarrow> go_error option" where
  "validate_name value =
     (if length value < min_id_bytes \<or> length value > max_id_bytes \<or> \<not> utf8_valid value
      then Some (Sent ErrInvalid)
      else check_name_chars value)"

definition validate_spec :: "spec \<Rightarrow> go_error option" where
  "validate_spec sp =
     (case validate_name (spec_id sp) of
        Some e \<Rightarrow> Some e
      | None \<Rightarrow>
          (case validate_name (spec_image sp) of
             Some e \<Rightarrow> Some e
           | None \<Rightarrow>
               if spec_network sp = NetworkNone \<or> spec_network sp = NetworkAllowlist then None
               else Some (Sent ErrInvalid)))"

text \<open>The documented alphabet, \<open>[A-Za-z0-9._-:]\<close>, as a list of characters.\<close>

definition name_alphabet :: string where
  "name_alphabet =
     ''ABCDEFGHIJKLMNOPQRSTUVWXYZabcdefghijklmnopqrstuvwxyz0123456789._-:''"

lemma check_name_chars_iff: "check_name_chars s = None \<longleftrightarrow> (\<forall>c \<in> set s. name_char_ok c)"
  by (induction s) auto

lemma char_eq_ord_iff: "ord_of d = n \<Longrightarrow> c = d \<longleftrightarrow> ord_of c = n"
  by auto

lemma name_char_ok_less: "name_char_ok c \<Longrightarrow> ord_of c < 128"
  by (auto simp: name_char_ok_def)

lemma name_alphabet_codes:
  "map ord_of name_alphabet = [65..<91] @ [97..<123] @ [48..<58] @ [46, 95, 45, 58]"
  by code_simp

lemma name_char_ok_alphabet: "name_char_ok c \<longleftrightarrow> c \<in> set name_alphabet"
proof -
  have marks: "c = CHR ''.'' \<longleftrightarrow> ord_of c = 46" "c = CHR ''_'' \<longleftrightarrow> ord_of c = 95"
      "c = CHR ''-'' \<longleftrightarrow> ord_of c = 45" "c = CHR '':'' \<longleftrightarrow> ord_of c = 58"
    by (rule char_eq_ord_iff, simp)+
  have "c \<in> set name_alphabet \<longleftrightarrow> ord_of c \<in> set (map ord_of name_alphabet)"
    by (simp add: inj_image_mem_iff inj_on_def)
  also have "\<dots> \<longleftrightarrow> (65 \<le> ord_of c \<and> ord_of c < 91) \<or> (97 \<le> ord_of c \<and> ord_of c < 123) \<or>
      (48 \<le> ord_of c \<and> ord_of c < 58) \<or> ord_of c \<in> {46, 95, 45, 58}"
    unfolding name_alphabet_codes set_append set_upt by (simp only: Un_iff atLeastLessThan_iff) simp
  also have "\<dots> \<longleftrightarrow> name_char_ok c"
    unfolding name_char_ok_def marks by simp arith
  finally show ?thesis by simp
qed

lemma validate_name_iff:
  "validate_name s = None \<longleftrightarrow> 1 \<le> length s \<and> length s \<le> 64 \<and> set s \<subseteq> set name_alphabet"
proof -
  have "utf8_valid s" if "set s \<subseteq> set name_alphabet"
    using that by (intro utf8_valid_ascii) (auto dest!: subsetD intro: name_char_ok_less simp flip: name_char_ok_alphabet)
  then show ?thesis
    by (auto simp: validate_name_def min_id_bytes_def max_id_bytes_def check_name_chars_iff
        name_char_ok_alphabet Suc_le_eq)
qed

lemma check_name_chars_error: "check_name_chars s = Some e \<Longrightarrow> e = Sent ErrInvalid"
  by (induction s) (auto split: if_splits)

lemma validate_name_error: "validate_name s = Some e \<Longrightarrow> e = Sent ErrInvalid"
  by (auto simp: validate_name_def check_name_chars_error split: if_splits)

lemma validate_spec_error: "validate_spec sp = Some e \<Longrightarrow> e = Sent ErrInvalid"
  by (auto simp: validate_spec_def validate_name_error split: option.splits if_splits)

lemma validate_spec_iff:
  "validate_spec sp = None \<longleftrightarrow>
     validate_name (spec_id sp) = None \<and> validate_name (spec_image sp) = None \<and>
     (spec_network sp = NetworkNone \<or> spec_network sp = NetworkAllowlist)"
  by (auto simp: validate_spec_def split: option.splits)

text \<open>
  \<open>ValidateSpec\<close> accepts exactly the documented specs: id and image are 1 to 64
  characters of the alphabet \<open>[A-Za-z0-9._-:]\<close> and the network is one of the two
  modes; anything else is \<open>ErrInvalid\<close> and no other error.
\<close>

lemma validate_spec_exact:
  "validate_spec sp =
     (if 1 \<le> length (spec_id sp) \<and> length (spec_id sp) \<le> 64 \<and>
         set (spec_id sp) \<subseteq> set name_alphabet \<and>
         1 \<le> length (spec_image sp) \<and> length (spec_image sp) \<le> 64 \<and>
         set (spec_image sp) \<subseteq> set name_alphabet \<and>
         spec_network sp \<in> {NetworkNone, NetworkAllowlist}
      then None else Some (Sent ErrInvalid))"
proof (cases "validate_spec sp")
  case None
  then show ?thesis by (auto simp: validate_spec_iff validate_name_iff)
next
  case (Some e)
  moreover from this have "validate_spec sp \<noteq> None" by simp
  ultimately show ?thesis
    using validate_spec_error [OF Some] unfolding validate_spec_iff validate_name_iff by simp
qed

subsection \<open>RequireIsolated\<close>

text \<open>A host is its capabilities here; \<open>None\<close> is a nil interface.\<close>

definition require_isolated :: "capabilities option \<Rightarrow> go_error option" where
  "require_isolated host =
     (case host of
        None \<Rightarrow> annotate ''isolate'' (Some (Sent ErrUnavailable))
      | Some caps \<Rightarrow>
          if \<not> cap_isolated caps then annotate ''isolate'' (Some (Sent ErrUnavailable)) else None)"

end
