(* ===== verification/Paths.thy ===== *)
theory Paths
  imports Contract
begin

text \<open>
  Projected paths (\<open>tree.go\<close>): \<open>ValidatePath\<close>, \<open>ValidateEvent\<close> and \<open>ResolvePath\<close>,
  with the parts of \<open>path/filepath\<close> that \<open>ResolvePath\<close> calls (\<open>Clean\<close>, \<open>Join\<close>,
  \<open>Rel\<close> on a system whose separator is the slash).
\<close>

definition max_tree_entries :: nat where "max_tree_entries = 500"
definition max_file_bytes :: nat where "max_file_bytes = 10485760"
definition max_tree_bytes :: nat where "max_tree_bytes = 52428800"
definition max_path_bytes :: nat where "max_path_bytes = 1024"
definition max_path_segments :: nat where "max_path_segments = 16"
definition max_segment_bytes :: nat where "max_segment_bytes = 255"
definition max_cursor_bytes :: nat where "max_cursor_bytes = 128"

type_synonym version = string
type_synonym node_kind = byte
type_synonym op = byte
type_synonym cursor = string

abbreviation KindFile :: node_kind where "KindFile \<equiv> 0"
abbreviation KindDirectory :: node_kind where "KindDirectory \<equiv> 1"

abbreviation OpCreate :: op where "OpCreate \<equiv> 1"
abbreviation OpReplace :: op where "OpReplace \<equiv> 2"
abbreviation OpMove :: op where "OpMove \<equiv> 3"
abbreviation OpDelete :: op where "OpDelete \<equiv> 4"

text \<open>A body of \<open>None\<close> is Go's nil slice ("do not transfer"); \<open>Some []\<close> is an empty file.\<close>

record node =
  nd_path :: string
  nd_kind :: node_kind
  nd_version :: version
  nd_data :: "bytes option"

record mutation =
  mu_op :: op
  mu_path :: string
  mu_from :: string
  mu_kind :: node_kind
  mu_version :: version
  mu_expected :: version
  mu_data :: "bytes option"

record event =
  ev_cursor :: cursor
  ev_op :: op
  ev_path :: string
  ev_from :: string

subsection \<open>ValidatePath\<close>

fun check_part_bytes :: "string \<Rightarrow> go_error option" where
  "check_part_bytes [] = None"
| "check_part_bytes (c # cs) =
     (if ord_of c < 32 then Some (Sent ErrInvalid) else check_part_bytes cs)"

fun check_parts :: "string list \<Rightarrow> go_error option" where
  "check_parts [] = None"
| "check_parts (part # parts) =
     (if part = '''' \<or> part = ''.'' \<or> part = ''..'' then Some (Sent ErrInvalid)
      else if length part > max_segment_bytes then Some (Sent ErrInvalid)
      else (case check_part_bytes part of
              Some e \<Rightarrow> Some e
            | None \<Rightarrow> check_parts parts))"

definition validate_path :: "string \<Rightarrow> go_error option" where
  "validate_path path =
     (if path = '''' \<or> \<not> utf8_valid path \<or> length path > max_path_bytes
      then Some (Sent ErrInvalid)
      else if hd path = CHR ''/'' \<or> CHR 0x5C \<in> set path \<or> CHR 0x00 \<in> set path
      then Some (Sent ErrInvalid)
      else if last path = CHR ''/'' then Some (Sent ErrInvalid)
      else (let parts = split_on CHR ''/'' path
            in if length parts > max_path_segments then Some (Sent ErrInvalid)
               else check_parts parts))"

definition valid_path :: "string \<Rightarrow> bool" where
  "valid_path path \<longleftrightarrow> validate_path path = None"

lemma check_part_bytes_iff: "check_part_bytes p = None \<longleftrightarrow> (\<forall>c \<in> set p. 32 \<le> ord_of c)"
  by (induction p) auto

lemma check_part_bytes_error: "check_part_bytes p = Some e \<Longrightarrow> e = Sent ErrInvalid"
  by (induction p) (auto split: if_splits)

lemma check_parts_iff:
  "check_parts ps = None \<longleftrightarrow>
     (\<forall>p \<in> set ps. p \<notin> {'''', ''.'', ''..''} \<and> length p \<le> 255 \<and> (\<forall>c \<in> set p. 32 \<le> ord_of c))"
proof (induction ps)
  case (Cons p ps)
  then show ?case
    by (cases "check_part_bytes p")
      (simp_all add: max_segment_bytes_def not_less flip: check_part_bytes_iff)
qed simp

lemma check_parts_error: "check_parts ps = Some e \<Longrightarrow> e = Sent ErrInvalid"
  by (induction ps) (auto split: if_splits option.splits dest: check_part_bytes_error)

lemma validate_path_error: "validate_path p = Some e \<Longrightarrow> e = Sent ErrInvalid"
  by (auto simp: validate_path_def Let_def check_parts_error split: if_splits)

lemma validate_path_cases [case_names ok bad]:
  obtains "validate_path p = None" | "validate_path p = Some (Sent ErrInvalid)"
  using validate_path_error by (cases "validate_path p") auto

lemma split_on_snoc_sep: "split_on sep (s @ [sep]) = split_on sep s @ [[]]"
proof (induction s)
  case (Cons c s)
  then show ?case by (cases "split_on sep s") auto
qed simp

lemma valid_path_nonempty [simp]: "\<not> valid_path ''''"
  by (simp add: valid_path_def validate_path_def)

definition segment_ok :: "string \<Rightarrow> bool" where
  "segment_ok q \<longleftrightarrow> q \<notin> {'''', ''.'', ''..''} \<and> length q \<le> 255 \<and>
     (\<forall>c \<in> set q. 32 \<le> ord_of c \<and> c \<noteq> CHR ''/'')"

lemma valid_path_split:
  "valid_path p \<longleftrightarrow>
     utf8_valid p \<and> length p \<le> 1024 \<and> CHR 0x5C \<notin> set p \<and>
     length (split_on CHR ''/'' p) \<le> 16 \<and>
     (\<forall>q \<in> set (split_on CHR ''/'' p). segment_ok q)" (is "_ \<longleftrightarrow> ?rhs")
proof
  assume "valid_path p"
  then show ?rhs
    using split_on_no_sep [of _ "CHR ''/''" p]
    by (auto simp: valid_path_def validate_path_def Let_def check_parts_iff segment_ok_def
        max_path_bytes_def max_path_segments_def split: if_splits)
next
  assume r: ?rhs
  have seg: "\<And>q. q \<in> set (split_on CHR ''/'' p) \<Longrightarrow> segment_ok q" using r by blast
  have ne: "p \<noteq> ''''" using seg [of "''''"] by (auto simp: segment_ok_def)
  have hd: "hd p \<noteq> CHR ''/''"
  proof
    assume "hd p = CHR ''/''"
    then have "'''' \<in> set (split_on CHR ''/'' p)" using ne by (cases p) auto
    then have "segment_ok ''''" by (rule seg)
    then show False by (simp add: segment_ok_def)
  qed
  have last: "last p \<noteq> CHR ''/''"
  proof
    assume "last p = CHR ''/''"
    then have "p = butlast p @ [CHR ''/'']" using ne by (metis append_butlast_last_id)
    then have "'''' \<in> set (split_on CHR ''/'' p)"
      by (metis split_on_snoc_sep in_set_conv_decomp)
    then have "segment_ok ''''" by (rule seg)
    then show False by (simp add: segment_ok_def)
  qed
  have nul: "CHR 0x00 \<notin> set p"
  proof
    assume "CHR 0x00 \<in> set p"
    then have "\<exists>q \<in> set (split_on CHR ''/'' p). CHR 0x00 \<in> set q"
      by (induction p) (auto split: list.splits)
    then obtain q where "q \<in> set (split_on CHR ''/'' p)" and z: "CHR 0x00 \<in> set q" by blast
    then have "32 \<le> ord_of (CHR 0x00)" using seg unfolding segment_ok_def by blast
    then show False by simp
  qed
  have "check_parts (split_on CHR ''/'' p) = None"
    using seg by (auto simp: check_parts_iff segment_ok_def)
  then show "valid_path p"
    using r ne hd last nul
    by (simp add: valid_path_def validate_path_def max_path_bytes_def max_path_segments_def Let_def)
qed

lemma valid_path_parts:
  "valid_path p \<Longrightarrow> q \<in> set (split_on CHR ''/'' p) \<Longrightarrow> q \<notin> {'''', ''.'', ''..''}"
  by (auto simp: valid_path_split segment_ok_def)

text \<open>
  C20. \<open>ValidatePath\<close> accepts exactly the bounded POSIX-relative locations: UTF-8, at most
  1024 bytes, no backslash, and one to sixteen slash-separated segments, each of one to
  255 bytes, none of them \<open>.\<close> or \<open>..\<close> and none with a control byte; every other path
  is \<open>ErrInvalid\<close>.
\<close>

theorem validate_path_exact:
  "validate_path p =
     (if utf8_valid p \<and> length p \<le> 1024 \<and> CHR 0x5C \<notin> set p \<and>
         (\<exists>segs. p = join_with CHR ''/'' segs \<and> 1 \<le> length segs \<and> length segs \<le> 16 \<and>
            list_all segment_ok segs)
      then None else Some (Sent ErrInvalid))"
proof -
  have "valid_path p \<longleftrightarrow>
      utf8_valid p \<and> length p \<le> 1024 \<and> CHR 0x5C \<notin> set p \<and>
      (\<exists>segs. p = join_with CHR ''/'' segs \<and> 1 \<le> length segs \<and> length segs \<le> 16 \<and>
         list_all segment_ok segs)"
  proof -
    have "split_on CHR ''/'' (join_with CHR ''/'' segs) = segs"
      if "1 \<le> length segs" and ok: "list_all segment_ok segs" for segs
    proof (rule split_join_with)
      show "segs \<noteq> []" using that(1) by auto
      show "\<forall>q \<in> set segs. CHR ''/'' \<notin> set q" using ok unfolding segment_ok_def list_all_iff by blast
    qed
    moreover have "p = join_with CHR ''/'' (split_on CHR ''/'' p)" by simp
    moreover have "1 \<le> length (split_on CHR ''/'' p)" by (simp add: Suc_le_eq)
    ultimately show ?thesis unfolding valid_path_split list_all_iff by metis
  qed
  then show ?thesis
    using validate_path_error [of p] by (cases "validate_path p") (auto simp: valid_path_def)
qed

subsection \<open>ValidateEvent\<close>

definition validate_event :: "event \<Rightarrow> go_error option" where
  "validate_event event =
     (if ev_cursor event = '''' \<or> length (ev_cursor event) > max_cursor_bytes \<or>
         \<not> utf8_valid (ev_cursor event)
      then Some (Sent ErrInvalid)
      else (case validate_path (ev_path event) of
              Some e \<Rightarrow> Some e
            | None \<Rightarrow>
                if ev_op event = OpCreate \<or> ev_op event = OpReplace \<or> ev_op event = OpDelete
                then (if ev_from event \<noteq> '''' then Some (Sent ErrInvalid) else None)
                else if ev_op event = OpMove
                then (case validate_path (ev_from event) of Some e \<Rightarrow> Some e | None \<Rightarrow> None)
                else Some (Sent ErrInvalid)))"

lemma validate_event_iff:
  "validate_event ev = None \<longleftrightarrow>
     ev_cursor ev \<noteq> '''' \<and> length (ev_cursor ev) \<le> 128 \<and> utf8_valid (ev_cursor ev) \<and>
     valid_path (ev_path ev) \<and>
     (ev_op ev \<in> {OpCreate, OpReplace, OpDelete} \<and> ev_from ev = '''' \<or>
      ev_op ev = OpMove \<and> valid_path (ev_from ev))"
  by (auto simp: validate_event_def valid_path_def max_cursor_bytes_def not_less
      split: option.splits if_splits)

subsection \<open>path/filepath: Clean, Join, Rel\<close>

text \<open>
  \<open>Clean\<close> walks the slash-separated elements of a path: an empty element and a dot are
  dropped, a dot-dot removes the element before it unless that is itself a dot-dot kept
  at the front of a relative path, and at the root it is dropped. The result is the
  pair of "starts with a slash" and the elements that remain; \<open>render\<close> writes it out.
\<close>

definition rooted :: "string \<Rightarrow> bool" where
  "rooted p \<longleftrightarrow> p \<noteq> '''' \<and> hd p = CHR ''/''"

definition clean_step :: "bool \<Rightarrow> string list \<Rightarrow> string \<Rightarrow> string list" where
  "clean_step r stack elem =
     (if elem = '''' \<or> elem = ''.'' then stack
      else if elem = ''..'' then
        (case stack of
           [] \<Rightarrow> if r then [] else [''..'']
         | e # es \<Rightarrow> if e = ''..'' then ''..'' # stack else es)
      else elem # stack)"

definition clean_elems :: "string \<Rightarrow> string list" where
  "clean_elems p = rev (foldl (clean_step (rooted p)) [] (split_on CHR ''/'' p))"

definition render :: "bool \<Rightarrow> string list \<Rightarrow> string" where
  "render r es =
     (if r then CHR ''/'' # join_with CHR ''/'' es
      else if es = [] then ''.'' else join_with CHR ''/'' es)"

definition fp_clean :: "string \<Rightarrow> string" where
  "fp_clean p = render (rooted p) (clean_elems p)"

definition fp_join :: "string \<Rightarrow> string \<Rightarrow> string" where
  "fp_join a b =
     (if a \<noteq> '''' then fp_clean (a @ CHR ''/'' # b)
      else if b \<noteq> '''' then fp_clean b else '''')"

text \<open>
  \<open>Rel\<close> cleans both paths and compares their elements: past the common ones, each base
  element left is one step up, and a dot-dot that would have to be undone is an error.
\<close>

fun rel_elems :: "string list \<Rightarrow> string list \<Rightarrow> string list option" where
  "rel_elems (b # bs) (t # ts) =
     (if b = t then rel_elems bs ts
      else if b = ''..'' then None
      else Some (map (\<lambda>_. ''..'') (b # bs) @ t # ts))"
| "rel_elems bs ts = Some (map (\<lambda>_. ''..'') bs @ ts)"

definition fp_rel :: "string \<Rightarrow> string \<Rightarrow> string option" where
  "fp_rel base targ =
     (if fp_clean targ = fp_clean base then Some ''.''
      else if rooted (fp_clean base) \<noteq> rooted (fp_clean targ) then None
      else map_option (join_with CHR ''/'')
             (rel_elems (clean_elems base)
                (if fp_clean targ = ''.'' then [''.''] else clean_elems targ)))"

definition resolve_path :: "string \<Rightarrow> string \<Rightarrow> string res" where
  "resolve_path root path =
     (case validate_path path of
        Some e \<Rightarrow> Inl e
      | None \<Rightarrow>
          (let full = fp_join root path
           in case fp_rel root full of
                None \<Rightarrow> Inl (Sent ErrInvalid)
              | Some rel \<Rightarrow>
                  if rel = ''..'' \<or> take 3 rel = ''../'' then Inl (Sent ErrInvalid)
                  else Inr full))"

definition plain_elem :: "string \<Rightarrow> bool" where
  "plain_elem q \<longleftrightarrow> q \<notin> {'''', ''.'', ''..''} \<and> CHR ''/'' \<notin> set q"

text \<open>What \<open>Clean\<close> leaves: dot-dots only in front, and only on a relative path.\<close>

definition clean_form :: "bool \<Rightarrow> string list \<Rightarrow> bool" where
  "clean_form r es \<longleftrightarrow>
     (\<exists>k ns. es = replicate k ''..'' @ ns \<and> (r \<longrightarrow> k = 0) \<and> (\<forall>q \<in> set ns. plain_elem q))"

lemma clean_step_plain [simp]: "plain_elem q \<Longrightarrow> clean_step r st q = q # st"
  by (simp add: clean_step_def plain_elem_def)

lemma foldl_clean_plain:
  "\<forall>q \<in> set ns. plain_elem q \<Longrightarrow> foldl (clean_step r) st ns = rev ns @ st"
  by (induction ns arbitrary: st) auto

lemma foldl_clean_dots:
  "foldl (clean_step False) (replicate j ''..'') (replicate k ''..'') = replicate (j + k) ''..''"
proof (induction k arbitrary: j)
  case (Suc k)
  have "clean_step False (replicate j ''..'') ''..'' = replicate (Suc j) ''..''"
    by (cases j) (simp_all add: clean_step_def)
  then show ?case using Suc [of "Suc j"] by simp
qed simp

lemma foldl_clean_form:
  assumes "clean_form r es"
  shows "foldl (clean_step r) [] es = rev es"
proof -
  obtain k ns where es: "es = replicate k ''..'' @ ns" and k: "r \<longrightarrow> k = 0"
    and ns: "\<forall>q \<in> set ns. plain_elem q"
    using assms unfolding clean_form_def by blast
  have "foldl (clean_step r) [] (replicate k ''..'') = replicate k ''..''"
    using k foldl_clean_dots [of 0 k] by (cases r) auto
  with es ns show ?thesis by (simp add: foldl_clean_plain)
qed

lemma clean_form_step:
  assumes "clean_form r (rev st)" and "CHR ''/'' \<notin> set q"
  shows "clean_form r (rev (clean_step r st q))"
proof -
  obtain k ns where "rev st = replicate k ''..'' @ ns" and k: "r \<longrightarrow> k = 0"
    and ns: "\<forall>q \<in> set ns. plain_elem q"
    using assms(1) unfolding clean_form_def by blast
  then have st: "st = rev ns @ replicate k ''..''"
    by (metis rev_append rev_replicate rev_rev_ident)
  consider (drop) "q = '''' \<or> q = ''.''" | (up) "q = ''..''" | (plain) "plain_elem q"
    using assms(2) unfolding plain_elem_def by blast
  then show ?thesis
  proof cases
    case drop
    then have "clean_step r st q = st" by (simp add: clean_step_def)
    with assms(1) show ?thesis by simp
  next
    case up
    show ?thesis
    proof (cases ns rule: rev_cases)
      case (snoc ms m)
      then have "m \<noteq> ''..''" and ms: "\<forall>q \<in> set ms. plain_elem q"
        using ns by (auto simp: plain_elem_def)
      then have "clean_step r st q = rev ms @ replicate k ''..''"
        using up st snoc by (simp add: clean_step_def)
      then show ?thesis using k ms unfolding clean_form_def by auto
    next
      case Nil
      have "clean_step r st q = replicate (if r then 0 else Suc k) ''..''"
        using up st Nil k by (cases k) (auto simp: clean_step_def)
      then have "rev (clean_step r st q) = replicate (if r then 0 else Suc k) ''..'' @ []"
        by (simp only: rev_replicate append_Nil2)
      then show ?thesis
        unfolding clean_form_def
        by (intro exI [of _ "if r then 0 else Suc k"] exI [of _ "[]"]) simp
    qed
  next
    case plain
    then have "clean_step r st q = q # rev ns @ replicate k ''..''" using st by simp
    then have "rev (clean_step r st q) = replicate k ''..'' @ (ns @ [q])" by simp
    moreover have "\<forall>x \<in> set (ns @ [q]). plain_elem x" using ns plain by simp
    ultimately show ?thesis using k unfolding clean_form_def by blast
  qed
qed

lemma clean_form_foldl:
  "clean_form r (rev st) \<Longrightarrow> \<forall>q \<in> set qs. CHR ''/'' \<notin> set q \<Longrightarrow>
   clean_form r (rev (foldl (clean_step r) st qs))"
  by (induction qs arbitrary: st) (auto intro: clean_form_step)

lemma clean_form_elems: "clean_form (rooted p) (clean_elems p)"
proof -
  have "clean_form (rooted p) (rev [])" by (auto simp: clean_form_def)
  then show ?thesis
    unfolding clean_elems_def by (intro clean_form_foldl) (auto dest: split_on_no_sep)
qed

lemma clean_form_append:
  assumes "clean_form r es" and "\<forall>q \<in> set ns. plain_elem q"
  shows "clean_form r (es @ ns)"
proof -
  obtain k ms where "es = replicate k ''..'' @ ms" "r \<longrightarrow> k = 0" "\<forall>q \<in> set ms. plain_elem q"
    using assms(1) unfolding clean_form_def by blast
  then show ?thesis
    unfolding clean_form_def using assms(2)
    by (intro exI [of _ k] exI [of _ "ms @ ns"]) auto
qed

lemma clean_form_elem:
  assumes "clean_form r es" and "q \<in> set es"
  shows "q \<noteq> '''' \<and> CHR ''/'' \<notin> set q"
proof -
  obtain k ns where "es = replicate k ''..'' @ ns" and ns: "\<forall>q \<in> set ns. plain_elem q"
    using assms(1) unfolding clean_form_def by blast
  with assms(2) have "q = ''..'' \<or> q \<in> set ns" by (auto simp: in_set_replicate)
  then show ?thesis
  proof
    assume "q = ''..''"
    then show ?thesis by simp
  next
    assume "q \<in> set ns"
    with ns have "plain_elem q" by blast
    then show ?thesis by (simp add: plain_elem_def)
  qed
qed

lemma split_on_append_split:
  "split_on sep (s @ sep # t) = split_on sep s @ split_on sep t"
proof (induction s)
  case (Cons c s)
  then show ?case by (cases "split_on sep s") auto
qed simp

lemma hd_join_with: "es \<noteq> [] \<Longrightarrow> hd es \<noteq> '''' \<Longrightarrow> hd (join_with sep es) = hd (hd es)"
  by (cases "(sep, es)" rule: join_with.cases) auto

lemma join_with_not_Nil: "es \<noteq> [] \<Longrightarrow> hd es \<noteq> '''' \<Longrightarrow> join_with sep es \<noteq> ''''"
  by (cases "(sep, es)" rule: join_with.cases) auto

lemma rooted_render:
  assumes "clean_form r es"
  shows "rooted (render r es) = r"
proof (cases "r \<or> es = []")
  case True
  then show ?thesis by (auto simp: render_def rooted_def)
next
  case False
  then have "hd es \<in> set es" by simp
  then have "hd es \<noteq> ''''" and "CHR ''/'' \<notin> set (hd es)"
    using clean_form_elem [OF assms] by blast+
  moreover from this have "hd (hd es) \<noteq> CHR ''/''" by (metis list.set_sel(1))
  ultimately show ?thesis using False by (simp add: render_def rooted_def hd_join_with)
qed

lemma clean_elems_render:
  assumes "clean_form r es"
  shows "clean_elems (render r es) = es"
proof (cases "es = []")
  case True
  then show ?thesis by (cases r) (simp_all add: clean_elems_def render_def clean_step_def)
next
  case False
  have sp: "split_on CHR ''/'' (join_with CHR ''/'' es) = es"
    using False clean_form_elem [OF assms] by (intro split_join_with) auto
  have "foldl (clean_step r) [] (split_on CHR ''/'' (render r es)) = rev es"
    using False foldl_clean_form [OF assms] by (cases r) (simp_all add: render_def sp clean_step_def)
  then show ?thesis by (simp add: clean_elems_def rooted_render [OF assms])
qed

lemma fp_clean_idem: "fp_clean (fp_clean p) = fp_clean p"
  using clean_form_elems [of p] by (simp add: fp_clean_def rooted_render clean_elems_render)

lemma valid_path_plain:
  "valid_path p \<Longrightarrow> q \<in> set (split_on CHR ''/'' p) \<Longrightarrow> plain_elem q"
  using valid_path_parts [of p q] split_on_no_sep [of q "CHR ''/''" p] by (simp add: plain_elem_def)

lemma valid_path_not_rooted: "valid_path p \<Longrightarrow> \<not> rooted p"
  by (auto simp: valid_path_def validate_path_def rooted_def split: if_splits)

lemma clean_elems_valid: "valid_path p \<Longrightarrow> clean_elems p = split_on CHR ''/'' p"
  by (simp add: clean_elems_def foldl_clean_plain valid_path_plain)

lemma clean_elems_Nil [simp]: "clean_elems '''' = []"
  by (simp add: clean_elems_def clean_step_def)

lemma rooted_Nil [simp]: "\<not> rooted ''''"
  by (simp add: rooted_def)

lemma fp_join_valid:
  assumes "valid_path p"
  shows "fp_join root p = render (rooted root) (clean_elems root @ split_on CHR ''/'' p)"
proof (cases "root = ''''")
  case True
  moreover have "p \<noteq> ''''" using assms by auto
  ultimately show ?thesis
    using assms by (simp add: fp_join_def fp_clean_def clean_elems_valid valid_path_not_rooted)
next
  case False
  then have r: "rooted (root @ CHR ''/'' # p) = rooted root" by (simp add: rooted_def)
  then have "clean_elems (root @ CHR ''/'' # p) = clean_elems root @ split_on CHR ''/'' p"
    using assms by (simp add: clean_elems_def split_on_append_split foldl_clean_plain valid_path_plain)
  with False r show ?thesis by (simp add: fp_join_def fp_clean_def)
qed

lemma rel_elems_append [simp]: "rel_elems bs (bs @ ts) = Some ts"
  by (induction bs) (cases ts, auto)

lemma valid_path_not_up:
  assumes "valid_path p"
  shows "p \<noteq> ''..'' \<and> take 3 p \<noteq> ''../''"
proof -
  have "''..'' \<notin> set (split_on CHR ''/'' p)" using valid_path_parts [OF assms] by blast
  moreover have "''..'' \<in> set (split_on CHR ''/'' p)" if "take 3 p = ''../''"
  proof -
    have "p = ''..'' @ CHR ''/'' # drop 3 p" using that append_take_drop_id [of 3 p] by simp
    then have "split_on CHR ''/'' p = ''..'' # split_on CHR ''/'' (drop 3 p)"
      using split_on_append [of "CHR ''/''" "''..''" "drop 3 p"] by simp
    then show ?thesis by simp
  qed
  moreover have "''..'' \<in> set (split_on CHR ''/'' p)" if "p = ''..''"
    using that by simp
  ultimately show ?thesis by blast
qed

lemma fp_rel_join:
  assumes "valid_path p"
  shows "fp_rel root (fp_join root p) = Some p"
proof -
  let ?es = "clean_elems root @ split_on CHR ''/'' p"
  have cf: "clean_form (rooted root) ?es"
    using clean_form_elems valid_path_plain [OF assms] by (blast intro: clean_form_append)
  have full: "fp_join root p = render (rooted root) ?es" by (rule fp_join_valid [OF assms])
  have el: "clean_elems (fp_join root p) = ?es" and ro: "rooted (fp_join root p) = rooted root"
    using full clean_elems_render [OF cf] rooted_render [OF cf] by simp_all
  have cl: "fp_clean (fp_join root p) = fp_join root p"
    using full by (simp add: fp_clean_def clean_elems_render [OF cf] rooted_render [OF cf])
  have "clean_elems (fp_clean root) = clean_elems root"
    using clean_form_elems [of root] by (simp add: fp_clean_def clean_elems_render)
  then have ne: "fp_join root p \<noteq> fp_clean root"
    using el by (metis append_self_conv split_on_nonempty)
  have nd: "fp_join root p \<noteq> ''.''"
    using el by (auto simp: clean_elems_def clean_step_def)
  have rb: "rooted (fp_clean root) = rooted root"
    using clean_form_elems [of root] by (simp add: fp_clean_def rooted_render)
  show ?thesis using ne nd by (simp add: fp_rel_def cl ro rb el)
qed

lemma resolve_path_spec:
  "resolve_path root p =
     (if valid_path p
      then Inr (render (rooted root) (clean_elems root @ split_on CHR ''/'' p))
      else Inl (Sent ErrInvalid)) \<and>
   (case resolve_path root p of
      Inl e \<Rightarrow> \<not> valid_path p
    | Inr full \<Rightarrow>
        fp_rel root full = Some p \<and> fp_clean full = full \<and> rooted full = rooted root \<and>
        clean_elems full = clean_elems root @ split_on CHR ''/'' p \<and>
        ''..'' \<notin> set (split_on CHR ''/'' p))"
proof (cases "valid_path p")
  case False
  then have "resolve_path root p = Inl (Sent ErrInvalid)"
    using validate_path_error [of p] by (auto simp: resolve_path_def valid_path_def)
  with False show ?thesis by simp
next
  case True
  let ?es = "clean_elems root @ split_on CHR ''/'' p"
  have cf: "clean_form (rooted root) ?es"
    using clean_form_elems valid_path_plain [OF True] by (blast intro: clean_form_append)
  have "resolve_path root p = Inr (fp_join root p)"
    using True valid_path_not_up [OF True] fp_rel_join [OF True]
    by (simp add: resolve_path_def valid_path_def)
  moreover have "''..'' \<notin> set (split_on CHR ''/'' p)" using valid_path_parts [OF True] by blast
  ultimately show ?thesis
    using True fp_rel_join [OF True, of root] fp_join_valid [OF True, of root]
    by (simp add: fp_clean_def clean_elems_render [OF cf] rooted_render [OF cf])
qed

text \<open>
  C19. \<open>ResolvePath\<close> is containment by construction: for every root, a valid path resolves
  to the cleaned root followed by the path's own segments, none of which is a dot-dot, so
  the result is strictly inside root and the escape check after \<open>Rel\<close> never refuses a
  valid path; an invalid path is refused with \<open>ValidatePath\<close>'s error.
\<close>
theorem resolve_path_inside:
  "resolve_path root p =
     (if valid_path p
      then Inr (render (rooted root) (clean_elems root @ split_on CHR ''/'' p))
      else Inl (Sent ErrInvalid)) \<and>
   (case resolve_path root p of
      Inl e \<Rightarrow> \<not> valid_path p
    | Inr full \<Rightarrow>
        fp_rel root full = Some p \<and> fp_clean full = full \<and> rooted full = rooted root \<and>
        clean_elems full = clean_elems root @ split_on CHR ''/'' p \<and>
        ''..'' \<notin> set (split_on CHR ''/'' p))"
  by (rule resolve_path_spec)

end
