(* ===== verification/Tree_Ops.thy ===== *)
theory Tree_Ops
  imports Paths
begin

text \<open>
  The next projected snapshot (\<open>internal/tree/tree.go\<close>): \<open>Replace\<close> and \<open>Apply\<close>.
  A snapshot is a map from validated paths to nodes. The code builds the next snapshot
  in a fresh map and hands it back, so an error leaves the current one untouched: here
  the operations return \<open>Inl\<close> the error or \<open>Inr\<close> the new map. The running byte total
  is an \<open>int64\<close> in the code; it is checked against 50 MiB after every addition of one
  slice length, so it never comes near its width and is a \<open>nat\<close> here.
\<close>

record tree_node =
  tn_kind :: node_kind
  tn_version :: version
  tn_data :: bytes

type_synonym snapshot = "string \<rightharpoonup> tree_node"

definition zero_node :: tree_node where
  "zero_node = \<lparr>tn_kind = KindFile, tn_version = '''', tn_data = []\<rparr>"

definition dir_node :: tree_node where
  "dir_node = \<lparr>tn_kind = KindDirectory, tn_version = '''', tn_data = []\<rparr>"

text \<open>Reading a missing key of a Go map gives the zero node.\<close>

definition map_index :: "snapshot \<Rightarrow> string \<Rightarrow> tree_node" where
  "map_index m p = (case m p of None \<Rightarrow> zero_node | Some n \<Rightarrow> n)"

subsection \<open>Replace\<close>

definition resolve_body :: "tree_node \<Rightarrow> node \<Rightarrow> bytes res" where
  "resolve_body existing item =
     (case nd_data item of
        Some d \<Rightarrow> Inr d
      | None \<Rightarrow>
          if tn_kind existing \<noteq> KindFile \<or> tn_version existing = '''' \<or>
             tn_version existing \<noteq> nd_version item
          then Inl (Sent ErrInvalid)
          else Inr (tn_data existing))"

fun replace_loop ::
    "snapshot \<Rightarrow> node list \<Rightarrow> nat \<Rightarrow> string set \<Rightarrow> snapshot \<Rightarrow> snapshot res" where
  "replace_loop current [] sofar seen nxt = Inr nxt"
| "replace_loop current (item # items) sofar seen nxt =
     (case validate_path (nd_path item) of
        Some e \<Rightarrow> Inl e
      | None \<Rightarrow>
          if nd_path item \<in> seen then Inl (Sent ErrInvalid)
          else if nd_kind item = KindDirectory then
            (if nd_version item \<noteq> '''' \<or> nd_data item \<noteq> None then Inl (Sent ErrInvalid)
             else replace_loop current items sofar (insert (nd_path item) seen)
                    (nxt(nd_path item \<mapsto> dir_node)))
          else if nd_kind item = KindFile then
            (case resolve_body (map_index current (nd_path item)) item of
               Inl e \<Rightarrow> Inl e
             | Inr body \<Rightarrow>
                 if length body > max_file_bytes \<or> sofar + length body > max_tree_bytes
                 then Inl (Sent ErrTooLarge)
                 else replace_loop current items (sofar + length body) (insert (nd_path item) seen)
                        (nxt(nd_path item \<mapsto>
                           \<lparr>tn_kind = KindFile, tn_version = nd_version item, tn_data = body\<rparr>)))
          else Inl (Sent ErrInvalid))"

definition replace_tree :: "snapshot \<Rightarrow> node list \<Rightarrow> snapshot res" where
  "replace_tree current tree =
     (if length tree > max_tree_entries then Inl (Sent ErrTooLarge)
      else replace_loop current tree 0 {} Map.empty)"

subsection \<open>Apply\<close>

definition put :: "snapshot \<Rightarrow> mutation \<Rightarrow> nat \<Rightarrow> (snapshot \<times> nat) res" where
  "put nxt mut sofar =
     (if mu_kind mut = KindDirectory then
        (if mu_data mut \<noteq> None \<or> mu_version mut \<noteq> '''' then Inl (Sent ErrInvalid)
         else Inr (nxt(mu_path mut \<mapsto> dir_node), sofar))
      else if mu_kind mut = KindFile then
        (case mu_data mut of
           None \<Rightarrow> Inl (Sent ErrInvalid)
         | Some d \<Rightarrow>
             if length d > max_file_bytes then Inl (Sent ErrTooLarge)
             else if sofar + length d > max_tree_bytes then Inl (Sent ErrTooLarge)
             else Inr (nxt(mu_path mut \<mapsto>
                         \<lparr>tn_kind = KindFile, tn_version = mu_version mut, tn_data = d\<rparr>),
                       sofar + length d))
      else Inl (Sent ErrInvalid))"

definition apply_one :: "snapshot \<Rightarrow> mutation \<Rightarrow> nat \<Rightarrow> (snapshot \<times> nat) res" where
  "apply_one nxt mut sofar =
     (case validate_path (mu_path mut) of
        Some e \<Rightarrow> Inl e
      | None \<Rightarrow>
          if mu_op mut = OpCreate then
            (if nxt (mu_path mut) \<noteq> None then Inl (Sent ErrConflict) else put nxt mut sofar)
          else if mu_op mut = OpReplace then
            (case nxt (mu_path mut) of
               None \<Rightarrow> Inl (Sent ErrNotFound)
             | Some ent \<Rightarrow>
                 if tn_kind ent \<noteq> KindFile then Inl (Sent ErrNotFound)
                 else if mu_expected mut \<noteq> '''' \<and> tn_version ent \<noteq> mu_expected mut
                 then Inl (Sent ErrConflict)
                 else put nxt mut sofar)
          else if mu_op mut = OpDelete then
            (case nxt (mu_path mut) of
               None \<Rightarrow> Inl (Sent ErrNotFound)
             | Some ent \<Rightarrow>
                 if mu_expected mut \<noteq> '''' \<and> tn_kind ent = KindFile \<and>
                    tn_version ent \<noteq> mu_expected mut
                 then Inl (Sent ErrConflict)
                 else Inr (nxt(mu_path mut := None), sofar))
          else if mu_op mut = OpMove then
            (case validate_path (mu_from mut) of
               Some e \<Rightarrow> Inl e
             | None \<Rightarrow>
                 (case nxt (mu_from mut) of
                    None \<Rightarrow> Inl (Sent ErrNotFound)
                  | Some ent \<Rightarrow>
                      if mu_expected mut \<noteq> '''' \<and> tn_kind ent = KindFile \<and>
                         tn_version ent \<noteq> mu_expected mut
                      then Inl (Sent ErrConflict)
                      else if nxt (mu_path mut) \<noteq> None then Inl (Sent ErrConflict)
                      else Inr ((nxt(mu_from mut := None))(mu_path mut \<mapsto> ent), sofar)))
          else Inl (Sent ErrInvalid))"

fun apply_loop :: "snapshot \<Rightarrow> mutation list \<Rightarrow> nat \<Rightarrow> snapshot res" where
  "apply_loop nxt [] sofar = Inr nxt"
| "apply_loop nxt (mut # muts) sofar =
     (case apply_one nxt mut sofar of
        Inl e \<Rightarrow> Inl e
      | Inr (nxt', sofar') \<Rightarrow> apply_loop nxt' muts sofar')"

definition apply_batch :: "snapshot \<Rightarrow> mutation list \<Rightarrow> snapshot res" where
  "apply_batch current muts =
     (if length muts > max_tree_entries then Inl (Sent ErrTooLarge)
      else apply_loop current muts 0)"

subsection \<open>What Replace promises\<close>

definition body_of :: "snapshot \<Rightarrow> node \<Rightarrow> bytes" where
  "body_of current item =
     (case nd_data item of Some d \<Rightarrow> d | None \<Rightarrow> tn_data (map_index current (nd_path item)))"

definition node_of :: "snapshot \<Rightarrow> node \<Rightarrow> tree_node" where
  "node_of current item =
     (if nd_kind item = KindDirectory then dir_node
      else \<lparr>tn_kind = KindFile, tn_version = nd_version item, tn_data = body_of current item\<rparr>)"

text \<open>A file without a body is allowed exactly when the host has that path at that version.\<close>

definition has_version :: "snapshot \<Rightarrow> string \<Rightarrow> version \<Rightarrow> bool" where
  "has_version current p v \<longleftrightarrow>
     v \<noteq> '''' \<and> (case current p of None \<Rightarrow> False
                | Some n \<Rightarrow> tn_kind n = KindFile \<and> tn_version n = v)"

definition item_ok :: "snapshot \<Rightarrow> node \<Rightarrow> bool" where
  "item_ok current item \<longleftrightarrow>
     valid_path (nd_path item) \<and>
     (if nd_kind item = KindDirectory then nd_version item = '''' \<and> nd_data item = None
      else nd_kind item = KindFile \<and>
           (nd_data item = None \<longrightarrow> has_version current (nd_path item) (nd_version item)) \<and>
           length (body_of current item) \<le> max_file_bytes)"

definition item_bytes :: "snapshot \<Rightarrow> node \<Rightarrow> nat" where
  "item_bytes current item =
     (if nd_kind item = KindDirectory then 0 else length (body_of current item))"

definition tree_ok :: "snapshot \<Rightarrow> node list \<Rightarrow> bool" where
  "tree_ok current tree \<longleftrightarrow>
     length tree \<le> max_tree_entries \<and> distinct (map nd_path tree) \<and>
     list_all (item_ok current) tree \<and>
     sum_list (map (item_bytes current) tree) \<le> max_tree_bytes"

definition listed :: "snapshot \<Rightarrow> node list \<Rightarrow> snapshot" where
  "listed current tree = map_of (map (\<lambda>it. (nd_path it, node_of current it)) tree)"

lemma resolve_body_iff:
  "resolve_body (map_index current (nd_path item)) item = Inr body \<longleftrightarrow>
     (nd_data item = None \<longrightarrow> has_version current (nd_path item) (nd_version item)) \<and>
     body = body_of current item"
  by (auto simp: resolve_body_def has_version_def body_of_def map_index_def zero_node_def
      split: option.splits)

lemma resolve_body_error:
  "resolve_body n item = Inl e \<Longrightarrow> e = Sent ErrInvalid"
  by (auto simp: resolve_body_def split: option.splits if_splits)

lemma kind_dir_file [simp]: "(KindDirectory :: byte) \<noteq> KindFile" "(KindFile :: byte) \<noteq> KindDirectory"
  by simp_all

lemma replace_loop_accept:
  assumes "item_ok current item" and "nd_path item \<notin> seen"
    and "sofar + item_bytes current item \<le> max_tree_bytes"
  shows "replace_loop current (item # items) sofar seen nxt =
    replace_loop current items (sofar + item_bytes current item) (insert (nd_path item) seen)
      (nxt(nd_path item \<mapsto> node_of current item))"
proof (cases "nd_kind item = KindDirectory")
  case True
  with assms show ?thesis by (simp add: item_ok_def valid_path_def item_bytes_def node_of_def)
next
  case False
  with assms(1) have "resolve_body (map_index current (nd_path item)) item = Inr (body_of current item)"
    by (simp add: resolve_body_iff item_ok_def)
  with False assms show ?thesis by (simp add: item_ok_def valid_path_def item_bytes_def node_of_def)
qed

lemma replace_loop_refuse:
  assumes "\<not> (item_ok current item \<and> nd_path item \<notin> seen \<and>
    sofar + item_bytes current item \<le> max_tree_bytes)" and "sofar \<le> max_tree_bytes"
  shows "\<exists>e. e \<in> {Sent ErrInvalid, Sent ErrTooLarge} \<and>
    replace_loop current (item # items) sofar seen nxt = Inl e"
proof (cases "validate_path (nd_path item) = None \<and> nd_path item \<notin> seen")
  case False
  then show ?thesis using validate_path_error [of "nd_path item"] by (auto split: option.splits)
next
  case ok: True
  show ?thesis
  proof (cases "nd_kind item = KindFile")
    case False
    with ok assms show ?thesis by (auto simp: item_ok_def valid_path_def item_bytes_def)
  next
    case True
    show ?thesis
    proof (cases "resolve_body (map_index current (nd_path item)) item")
      case (Inl e)
      with True ok show ?thesis using resolve_body_error [OF Inl] by simp
    next
      case (Inr body)
      then have "nd_data item = None \<longrightarrow> has_version current (nd_path item) (nd_version item)"
        and body: "body = body_of current item" by (simp_all add: resolve_body_iff)
      then have "length body > max_file_bytes \<or> sofar + length body > max_tree_bytes"
        using True ok assms by (auto simp: item_ok_def valid_path_def item_bytes_def)
      with Inr True ok show ?thesis by simp
    qed
  qed
qed

declare replace_loop.simps(2) [simp del]

lemma listed_Cons:
  "nd_path item \<notin> nd_path ` set items \<Longrightarrow>
   nxt(nd_path item \<mapsto> node_of current item) ++ listed current items =
   nxt ++ listed current (item # items)"
proof -
  assume "nd_path item \<notin> nd_path ` set items"
  then have "nd_path item \<notin> dom (listed current items)"
    by (simp add: listed_def dom_map_of_conv_image_fst image_image)
  then show ?thesis by (auto simp: listed_def map_add_def fun_eq_iff dom_def split: option.splits)
qed

lemma replace_loop_iff:
  "sofar \<le> max_tree_bytes \<Longrightarrow>
   replace_loop current items sofar seen nxt = Inr r \<longleftrightarrow>
     distinct (map nd_path items) \<and> seen \<inter> set (map nd_path items) = {} \<and>
     list_all (item_ok current) items \<and>
     sofar + sum_list (map (item_bytes current) items) \<le> max_tree_bytes \<and>
     r = nxt ++ listed current items"
proof (induction items arbitrary: sofar seen nxt)
  case Nil
  then show ?case by (auto simp: listed_def)
next
  case (Cons item items)
  show ?case
  proof (cases "item_ok current item \<and> nd_path item \<notin> seen \<and>
      sofar + item_bytes current item \<le> max_tree_bytes")
    case True
    let ?nxt = "nxt(nd_path item \<mapsto> node_of current item)"
    have "replace_loop current (item # items) sofar seen nxt = Inr r \<longleftrightarrow>
        replace_loop current items (sofar + item_bytes current item)
          (insert (nd_path item) seen) ?nxt = Inr r"
      using replace_loop_accept [of current item seen sofar items nxt] True by simp
    also have "\<dots> \<longleftrightarrow> distinct (map nd_path items) \<and>
        insert (nd_path item) seen \<inter> set (map nd_path items) = {} \<and>
        list_all (item_ok current) items \<and>
        sofar + item_bytes current item + sum_list (map (item_bytes current) items) \<le> max_tree_bytes \<and>
        r = ?nxt ++ listed current items"
      using True by (intro Cons.IH) simp
    finally show ?thesis using True listed_Cons [of item items nxt current] by auto
  next
    case False
    have "\<exists>e. replace_loop current (item # items) sofar seen nxt = Inl e"
      using replace_loop_refuse [OF False Cons.prems] by blast
    then show ?thesis using False by auto
  qed
qed

lemma replace_loop_error:
  "sofar \<le> max_tree_bytes \<Longrightarrow> replace_loop current items sofar seen nxt = Inl e \<Longrightarrow>
   e = Sent ErrInvalid \<or> e = Sent ErrTooLarge"
proof (induction items arbitrary: sofar seen nxt)
  case (Cons item items)
  show ?case
  proof (cases "item_ok current item \<and> nd_path item \<notin> seen \<and>
      sofar + item_bytes current item \<le> max_tree_bytes")
    case True
    with Cons.prems(2) have "replace_loop current items (sofar + item_bytes current item)
        (insert (nd_path item) seen) (nxt(nd_path item \<mapsto> node_of current item)) = Inl e"
      using replace_loop_accept [of current item seen sofar items nxt] by simp
    with True Cons.IH show ?thesis by blast
  next
    case False
    show ?thesis
      using replace_loop_refuse [OF False Cons.prems(1), of items nxt] Cons.prems(2) by auto
  qed
qed simp

lemma replace_tree_iff:
  "replace_tree current tree = Inr r \<longleftrightarrow> tree_ok current tree \<and> r = listed current tree"
  by (auto simp: replace_tree_def replace_loop_iff tree_ok_def)

lemma replace_tree_error:
  "replace_tree current tree = Inl e \<Longrightarrow> e = Sent ErrInvalid \<or> e = Sent ErrTooLarge"
  using replace_loop_error [of 0 current tree] by (auto simp: replace_tree_def split: if_splits)


subsection \<open>Version skip and full transfer\<close>

definition strip_body :: "node \<Rightarrow> node" where
  "strip_body it = (if nd_kind it = KindFile then it\<lparr>nd_data := None\<rparr> else it)"

lemma strip_body_simps [simp]:
  "nd_path (strip_body it) = nd_path it" "nd_kind (strip_body it) = nd_kind it"
  "nd_version (strip_body it) = nd_version it"
  by (simp_all add: strip_body_def)

lemma strip_body_kept:
  assumes "item_ok current it" and "nd_kind it = KindFile \<Longrightarrow> nd_version it \<noteq> ''''"
    and "nxt (nd_path it) = Some (node_of current it)"
  shows "node_of nxt (strip_body it) = node_of current it \<and> item_ok nxt (strip_body it) \<and>
    item_bytes nxt (strip_body it) = item_bytes current it"
proof (cases "nd_kind it = KindFile")
  case True
  with assms show ?thesis
    by (simp add: body_of_def node_of_def item_ok_def item_bytes_def strip_body_def map_index_def
        has_version_def)
next
  case False
  with assms(1) have "nd_kind it = KindDirectory" by (simp add: item_ok_def split: if_splits)
  with assms show ?thesis
    by (simp add: node_of_def item_ok_def item_bytes_def strip_body_def)
qed

text \<open>
  The version skip: after a successful \<open>Replace\<close> whose files carry versions, sending the
  same tree again with every file body left out succeeds and gives the same snapshot, so
  a caller that reconnects need not resend what the host already has.
\<close>

lemma replace_version_skip:
  assumes "replace_tree current tree = Inr nxt"
    and "list_all (\<lambda>it. nd_kind it = KindFile \<longrightarrow> nd_version it \<noteq> '''') tree"
  shows "replace_tree nxt (map strip_body tree) = Inr nxt"
proof -
  have ok: "tree_ok current tree" and nxt: "nxt = listed current tree"
    using assms(1) by (simp_all add: replace_tree_iff)
  have at: "nxt (nd_path it) = Some (node_of current it)" if "it \<in> set tree" for it
    using that ok by (simp add: nxt listed_def tree_ok_def comp_def)
  have kept: "node_of nxt (strip_body it) = node_of current it" "item_ok nxt (strip_body it)"
    "item_bytes nxt (strip_body it) = item_bytes current it" if "it \<in> set tree" for it
    using strip_body_kept [of current it nxt] at [OF that] ok assms(2) that
    by (auto simp: tree_ok_def list_all_iff)
  have "listed nxt (map strip_body tree) = nxt"
    by (simp add: nxt listed_def comp_def kept(1) [unfolded nxt listed_def] cong: map_cong)
  moreover have "tree_ok nxt (map strip_body tree)"
    using ok kept by (simp add: tree_ok_def list_all_iff comp_def cong: map_cong)
  ultimately show ?thesis by (simp add: replace_tree_iff)
qed

lemma replace_version_skip_witness:
  "replace_tree [''a'' \<mapsto> \<lparr>tn_kind = KindFile, tn_version = ''v'', tn_data = [7]\<rparr>]
     (map strip_body [\<lparr>nd_path = ''a'', nd_kind = KindFile, nd_version = ''v'', nd_data = Some [7]\<rparr>]) =
   Inr [''a'' \<mapsto> \<lparr>tn_kind = KindFile, tn_version = ''v'', tn_data = [7]\<rparr>]"
proof (rule replace_version_skip [where current = Map.empty])
  have "validate_path ''a'' = None" by code_simp
  then show "replace_tree Map.empty
      [\<lparr>nd_path = ''a'', nd_kind = KindFile, nd_version = ''v'', nd_data = Some [7]\<rparr>] =
    Inr [''a'' \<mapsto> \<lparr>tn_kind = KindFile, tn_version = ''v'', tn_data = [7]\<rparr>]"
    by (simp add: replace_tree_def replace_loop.simps resolve_body_def max_tree_entries_def
        max_file_bytes_def max_tree_bytes_def)
qed simp

lemma replace_loop_current_cong:
  "list_all (\<lambda>it. nd_kind it = KindFile \<longrightarrow> nd_data it \<noteq> None) items \<Longrightarrow>
   replace_loop c1 items sofar seen nxt = replace_loop c2 items sofar seen nxt"
  by (induction items arbitrary: sofar seen nxt)
    (auto simp: replace_loop.simps resolve_body_def split: option.splits)

text \<open>
  A tree that carries every body does not depend on what the host had: the outcome,
  success or error, is the same from any two snapshots.
\<close>

lemma replace_full_transfer:
  assumes "list_all (\<lambda>it. nd_kind it = KindFile \<longrightarrow> nd_data it \<noteq> None) tree"
  shows "replace_tree c1 tree = replace_tree c2 tree"
  using replace_loop_current_cong [OF assms] by (simp add: replace_tree_def)

lemma replace_full_transfer_witness:
  "replace_tree [''a'' \<mapsto> zero_node]
     [\<lparr>nd_path = ''a'', nd_kind = KindFile, nd_version = ''v'', nd_data = Some [7]\<rparr>] =
   replace_tree Map.empty
     [\<lparr>nd_path = ''a'', nd_kind = KindFile, nd_version = ''v'', nd_data = Some [7]\<rparr>]"
  by (rule replace_full_transfer) simp

subsection \<open>What Apply promises\<close>

text \<open>
  The abstract steps: what one mutation may do to a snapshot, with no byte counting and
  no order of checks. \<open>fence\<close> is the optimistic fence of \<open>Expected\<close>.
\<close>

definition fence :: "mutation \<Rightarrow> tree_node \<Rightarrow> bool" where
  "fence m ent \<longleftrightarrow> mu_expected m = '''' \<or> tn_version ent = mu_expected m"

definition made_node :: "mutation \<Rightarrow> tree_node \<Rightarrow> bool" where
  "made_node m n \<longleftrightarrow>
     (mu_kind m = KindDirectory \<and> mu_data m = None \<and> mu_version m = '''' \<and> n = dir_node) \<or>
     (mu_kind m = KindFile \<and>
      (\<exists>d. mu_data m = Some d \<and> length d \<le> max_file_bytes \<and>
           n = \<lparr>tn_kind = KindFile, tn_version = mu_version m, tn_data = d\<rparr>))"

inductive mut_step :: "snapshot \<Rightarrow> mutation \<Rightarrow> snapshot \<Rightarrow> bool" where
  create: "valid_path (mu_path m) \<Longrightarrow> mu_op m = OpCreate \<Longrightarrow> s (mu_path m) = None \<Longrightarrow>
     made_node m n \<Longrightarrow> mut_step s m (s(mu_path m \<mapsto> n))"
| replace: "valid_path (mu_path m) \<Longrightarrow> mu_op m = OpReplace \<Longrightarrow> s (mu_path m) = Some ent \<Longrightarrow>
     tn_kind ent = KindFile \<Longrightarrow> fence m ent \<Longrightarrow> made_node m n \<Longrightarrow>
     mut_step s m (s(mu_path m \<mapsto> n))"
| delete: "valid_path (mu_path m) \<Longrightarrow> mu_op m = OpDelete \<Longrightarrow> s (mu_path m) = Some ent \<Longrightarrow>
     (tn_kind ent = KindFile \<Longrightarrow> fence m ent) \<Longrightarrow> mut_step s m (s(mu_path m := None))"
| move: "valid_path (mu_path m) \<Longrightarrow> valid_path (mu_from m) \<Longrightarrow> mu_op m = OpMove \<Longrightarrow>
     s (mu_from m) = Some ent \<Longrightarrow> (tn_kind ent = KindFile \<Longrightarrow> fence m ent) \<Longrightarrow>
     s (mu_path m) = None \<Longrightarrow>
     mut_step s m ((s(mu_from m := None))(mu_path m \<mapsto> ent))"

inductive mut_steps :: "snapshot \<Rightarrow> mutation list \<Rightarrow> snapshot \<Rightarrow> bool" where
  nil: "mut_steps s [] s"
| cons: "mut_step s m s' \<Longrightarrow> mut_steps s' ms t \<Longrightarrow> mut_steps s (m # ms) t"

inductive_simps mut_steps_Nil [simp]: "mut_steps s [] t"
inductive_simps mut_steps_Cons: "mut_steps s (m # ms) t"

definition put_bytes :: "mutation \<Rightarrow> nat" where
  "put_bytes m =
     (if (mu_op m = OpCreate \<or> mu_op m = OpReplace) \<and> mu_kind m = KindFile
      then (case mu_data m of None \<Rightarrow> 0 | Some d \<Rightarrow> length d) else 0)"

lemma op_distinct [simp]:
  "(OpCreate :: byte) \<noteq> OpReplace" "(OpCreate :: byte) \<noteq> OpMove" "(OpCreate :: byte) \<noteq> OpDelete"
  "(OpReplace :: byte) \<noteq> OpMove" "(OpReplace :: byte) \<noteq> OpDelete" "(OpMove :: byte) \<noteq> OpDelete"
  by simp_all

lemma put_iff:
  "mu_op m = OpCreate \<or> mu_op m = OpReplace \<Longrightarrow> sofar \<le> max_tree_bytes \<Longrightarrow>
   put s m sofar = Inr r \<longleftrightarrow>
     (\<exists>n. made_node m n \<and> r = (s(mu_path m \<mapsto> n), sofar + put_bytes m)) \<and>
     sofar + put_bytes m \<le> max_tree_bytes"
  by (auto simp: put_def made_node_def put_bytes_def split: option.splits)

lemma put_error:
  "put s m sofar = Inl e \<Longrightarrow> e \<in> {Sent ErrInvalid, Sent ErrTooLarge}"
  by (auto simp: put_def split: option.splits if_splits)

lemma apply_one_iff:
  assumes "sofar \<le> max_tree_bytes"
  shows "apply_one s m sofar = Inr (t, sofar') \<longleftrightarrow>
     mut_step s m t \<and> sofar' = sofar + put_bytes m \<and> sofar' \<le> max_tree_bytes"
proof (cases "validate_path (mu_path m)")
  case (Some e)
  then show ?thesis by (auto simp: apply_one_def valid_path_def elim: mut_step.cases)
next
  case None
  consider (c) "mu_op m = OpCreate" | (r) "mu_op m = OpReplace" | (d) "mu_op m = OpDelete"
    | (v) "mu_op m = OpMove"
    | (x) "mu_op m \<noteq> OpCreate" "mu_op m \<noteq> OpReplace" "mu_op m \<noteq> OpDelete" "mu_op m \<noteq> OpMove"
    by blast
  then show ?thesis
  proof cases
    case c
    with None assms show ?thesis
      by (auto simp: apply_one_def put_iff valid_path_def mut_step.simps split: option.splits)
  next
    case r
    with None assms show ?thesis
      by (auto simp: apply_one_def put_iff valid_path_def mut_step.simps fence_def split: option.splits)
  next
    case d
    with None assms show ?thesis
      by (auto simp: apply_one_def valid_path_def mut_step.simps fence_def put_bytes_def
          split: option.splits)
  next
    case v
    with None assms show ?thesis
      by (auto simp: apply_one_def valid_path_def mut_step.simps fence_def put_bytes_def
          split: option.splits)
  next
    case x
    with None show ?thesis by (auto simp: apply_one_def elim: mut_step.cases)
  qed
qed

lemma apply_loop_iff:
  "sofar \<le> max_tree_bytes \<Longrightarrow>
   apply_loop s ms sofar = Inr t \<longleftrightarrow>
     mut_steps s ms t \<and> sofar + sum_list (map put_bytes ms) \<le> max_tree_bytes"
proof (induction ms arbitrary: s sofar)
  case (Cons m ms)
  show ?case
  proof (cases "apply_one s m sofar")
    case (Inl e)
    then have "\<not> (mut_step s m u \<and> sofar + put_bytes m \<le> max_tree_bytes)" for u
      using apply_one_iff [OF Cons.prems, of s m u "sofar + put_bytes m"] by auto
    with Inl show ?thesis by (auto simp: mut_steps_Cons)
  next
    case (Inr us)
    obtain u k where us: "us = (u, k)" by (cases us)
    have one: "(u, k) = (v, j) \<longleftrightarrow>
        mut_step s m v \<and> j = sofar + put_bytes m \<and> j \<le> max_tree_bytes" for v j
      using apply_one_iff [OF Cons.prems, of s m v j] unfolding Inr us by simp
    have k: "k = sofar + put_bytes m" "k \<le> max_tree_bytes" using one [of u k] by auto
    moreover from this have "mut_step s m v \<longleftrightarrow> v = u" for v
      using one [of v k] by auto
    ultimately show ?thesis using Inr us Cons.IH [of k u] by (simp add: mut_steps_Cons add.assoc)
  qed
qed auto

text \<open>
  C5. \<open>Apply\<close> refines the abstract mutation steps: a batch succeeds with snapshot \<open>t\<close>
  exactly when it has at most 500 mutations, each one is allowed by its fence, its
  target and its kind in the snapshot left by the ones before it, and the bodies written
  add up to at most 50 MiB; \<open>t\<close> is then where those steps lead.
\<close>

theorem apply_batch_refines:
  "apply_batch current muts = Inr t \<longleftrightarrow>
     length muts \<le> max_tree_entries \<and> mut_steps current muts t \<and>
     sum_list (map put_bytes muts) \<le> max_tree_bytes"
  by (auto simp: apply_batch_def apply_loop_iff)

lemma apply_one_error:
  "apply_one s m sofar = Inl e \<Longrightarrow>
   e \<in> {Sent ErrInvalid, Sent ErrConflict, Sent ErrNotFound, Sent ErrTooLarge}"
  using validate_path_error [of "mu_path m"] validate_path_error [of "mu_from m"] put_error [of s m sofar e]
  by (auto simp: apply_one_def split: option.splits if_splits)

lemma apply_loop_error:
  "apply_loop s ms sofar = Inl e \<Longrightarrow>
   e \<in> {Sent ErrInvalid, Sent ErrConflict, Sent ErrNotFound, Sent ErrTooLarge}"
proof (induction ms arbitrary: s sofar)
  case (Cons m ms)
  then show ?case using apply_one_error [of s m sofar] by (auto split: sum.splits prod.splits)
qed simp

text \<open>
  A refused mutation names its reason: \<open>ErrConflict\<close> means the target exists or the
  fence does not match, \<open>ErrNotFound\<close> that the path to replace, delete or move is not
  there (or is not a file, for a replace), \<open>ErrTooLarge\<close> that a body is over a cap, and
  the only other error is \<open>ErrInvalid\<close>.
\<close>

lemma apply_one_refusal:
  "case apply_one s m sofar of
     Inr r \<Rightarrow> True
   | Inl e \<Rightarrow>
       (e = Sent ErrInvalid) \<or>
       (e = Sent ErrConflict \<and>
          ((mu_op m \<in> {OpCreate, OpMove} \<and> s (mu_path m) \<noteq> None) \<or>
           (\<exists>ent. s (if mu_op m = OpMove then mu_from m else mu_path m) = Some ent \<and>
              tn_kind ent = KindFile \<and> \<not> fence m ent))) \<or>
       (e = Sent ErrNotFound \<and>
          (case s (if mu_op m = OpMove then mu_from m else mu_path m) of
             None \<Rightarrow> mu_op m \<noteq> OpCreate
           | Some ent \<Rightarrow> mu_op m = OpReplace \<and> tn_kind ent \<noteq> KindFile)) \<or>
       (e = Sent ErrTooLarge \<and> mu_op m \<in> {OpCreate, OpReplace} \<and>
          (\<exists>d. mu_data m = Some d \<and>
             (length d > max_file_bytes \<or> sofar + length d > max_tree_bytes)))"
proof (cases "apply_one s m sofar")
  case (Inr r)
  then show ?thesis by simp
next
  case (Inl e)
  have put: "put s m sofar = Inl e \<Longrightarrow> e = Sent ErrInvalid \<or> e = Sent ErrTooLarge \<and>
      (\<exists>d. mu_data m = Some d \<and> (length d > max_file_bytes \<or> sofar + length d > max_tree_bytes))"
    by (auto simp: put_def split: option.splits if_splits)
  show ?thesis
    using Inl put validate_path_error [of "mu_path m"] validate_path_error [of "mu_from m"]
    by (auto simp: apply_one_def fence_def split: option.splits if_splits)
qed

subsection \<open>The snapshot invariant and the frame\<close>

text \<open>
  Every key is a valid path; a file's body is within 10 MiB and a directory has no
  version and no body.
\<close>

definition node_wf :: "tree_node \<Rightarrow> bool" where
  "node_wf n \<longleftrightarrow> (n = dir_node \<or> tn_kind n = KindFile \<and> length (tn_data n) \<le> max_file_bytes)"

definition snap_wf :: "snapshot \<Rightarrow> bool" where
  "snap_wf s \<longleftrightarrow> finite (dom s) \<and> (\<forall>p n. s p = Some n \<longrightarrow> valid_path p \<and> node_wf n)"

lemma snap_wf_empty [simp]: "snap_wf Map.empty"
  by (simp add: snap_wf_def)

lemma snap_wf_upd [intro]: "snap_wf s \<Longrightarrow> valid_path p \<Longrightarrow> node_wf n \<Longrightarrow> snap_wf (s(p \<mapsto> n))"
  by (auto simp: snap_wf_def)

lemma snap_wf_del [intro]: "snap_wf s \<Longrightarrow> snap_wf (s(p := None))"
  by (auto simp: snap_wf_def)

lemma snap_wf_lookup: "snap_wf s \<Longrightarrow> s p = Some n \<Longrightarrow> valid_path p \<and> node_wf n"
  by (auto simp: snap_wf_def)

lemma made_node_wf: "made_node m n \<Longrightarrow> node_wf n"
  by (auto simp: made_node_def node_wf_def)

lemma mut_step_wf [go_inv]: "mut_step s m t \<Longrightarrow> snap_wf s \<Longrightarrow> snap_wf t"
  by (induction rule: mut_step.induct) (auto intro!: snap_wf_upd snap_wf_del dest: snap_wf_lookup made_node_wf)

lemma mut_steps_wf: "mut_steps s ms t \<Longrightarrow> snap_wf s \<Longrightarrow> snap_wf t"
  by (induction rule: mut_steps.induct) (auto dest: mut_step_wf)

lemma item_ok_node_wf: "item_ok current it \<Longrightarrow> node_wf (node_of current it)"
  by (auto simp: item_ok_def node_of_def node_wf_def split: if_splits)

lemma listed_wf: "list_all (item_ok current) tree \<Longrightarrow> snap_wf (listed current tree)"
  by (auto simp: snap_wf_def listed_def finite_dom_map_of list_all_iff item_ok_node_wf item_ok_def
      dest!: map_of_SomeD)

lemma replace_tree_wf [go_inv]: "replace_tree current tree = Inr t \<Longrightarrow> snap_wf t"
  by (auto simp: replace_tree_iff tree_ok_def intro: listed_wf)

lemma apply_batch_wf [go_inv]: "apply_batch current ms = Inr t \<Longrightarrow> snap_wf current \<Longrightarrow> snap_wf t"
  by (auto simp: apply_batch_def apply_loop_iff dest: mut_steps_wf split: if_splits)

definition mentions :: "mutation \<Rightarrow> string \<Rightarrow> bool" where
  "mentions m p \<longleftrightarrow> p = mu_path m \<or> mu_op m = OpMove \<and> p = mu_from m"

lemma mut_step_frame: "mut_step s m t \<Longrightarrow> \<not> mentions m p \<Longrightarrow> t p = s p"
  by (induction rule: mut_step.induct) (auto simp: mentions_def)

lemma mut_steps_frame: "mut_steps s ms t \<Longrightarrow> list_all (\<lambda>m. \<not> mentions m p) ms \<Longrightarrow> t p = s p"
  by (induction rule: mut_steps.induct) (auto simp: mut_step_frame)

text \<open>
  \<open>Apply\<close> keeps the snapshot well formed (valid keys, files within the cap, bare
  directories) and changes no path that the batch does not name.
\<close>

lemma apply_batch_preserves:
  assumes "snap_wf current" and "apply_batch current muts = Inr t"
  shows "snap_wf t \<and> (\<forall>p. t p \<noteq> current p \<longrightarrow> list_ex (\<lambda>m. mentions m p) muts)"
proof -
  have st: "mut_steps current muts t"
    using assms(2) by (auto simp: apply_batch_def apply_loop_iff split: if_splits)
  have "list_ex (\<lambda>m. mentions m p) muts" if "t p \<noteq> current p" for p
    using mut_steps_frame [OF st, of p] that by (auto simp: list_all_iff list_ex_iff)
  with assms show ?thesis by (blast intro: apply_batch_wf)
qed

lemma apply_batch_preserves_witness:
  "\<exists>t. apply_batch Map.empty
      [\<lparr>mu_op = OpCreate, mu_path = ''a'', mu_from = '''', mu_kind = KindFile, mu_version = ''v'',
        mu_expected = '''', mu_data = Some [7]\<rparr>] = Inr t \<and> snap_wf t"
proof -
  let ?ms = "[\<lparr>mu_op = OpCreate, mu_path = ''a'', mu_from = '''', mu_kind = KindFile,
    mu_version = ''v'', mu_expected = '''', mu_data = Some [7]\<rparr>]"
  have "validate_path ''a'' = None" by code_simp
  then have ap: "\<exists>t. apply_batch Map.empty ?ms = Inr t"
    by (simp add: apply_batch_def apply_one_def put_def max_tree_entries_def max_file_bytes_def
        max_tree_bytes_def)
  then show ?thesis using apply_batch_preserves [OF snap_wf_empty] by blast
qed

end
