(* ===== verification/Watch_Log.thy ===== *)
theory Watch_Log
  imports Paths
begin

text \<open>
  The bounded replay window of guest events (\<open>internal/watchlog/watchlog.go\<close>), and the
  interface its two owners rely on, the locale \<open>replay_log\<close>: a log stands for the whole
  history of its generation, of which it can replay the last \<open>window\<close> events. The
  sequence number is a \<open>uint64\<close>. The randomness, the clock and the process-wide counter
  behind \<open>newEpoch\<close> are arguments.
\<close>

definition default_capacity :: nat where "default_capacity = 64"

record watch_log =
  wl_epoch :: string
  wl_next :: uint64
  wl_capacity :: nat
  wl_events :: "event list"

subsection \<open>Epochs and cursors\<close>

definition hex_digit :: "nat \<Rightarrow> char" where
  "hex_digit n = (if n < 10 then char_of (48 + n) else char_of (87 + n))"

definition hex_encode :: "bytes \<Rightarrow> string" where
  "hex_encode bs = concat (map (\<lambda>b. [hex_digit (unat b div 16), hex_digit (unat b mod 16)]) bs)"

definition format_int :: "64 word \<Rightarrow> string" where
  "format_int w =
     (if sint w < 0 then CHR ''-'' # format_uint (nat (- sint w)) else format_uint (nat (sint w)))"

text \<open>\<open>None\<close> for the random bytes is a failed \<open>rand.Read\<close>.\<close>

definition new_epoch :: "bytes option \<Rightarrow> 64 word \<Rightarrow> uint64 \<Rightarrow> string" where
  "new_epoch random nanos count =
     (case random of
        Some raw \<Rightarrow> hex_encode raw
      | None \<Rightarrow> ''fallback-'' @ format_int nanos @ ''-'' @ format_uint (unat count))"

definition make_cursor :: "string \<Rightarrow> uint64 \<Rightarrow> cursor" where
  "make_cursor epoch seq = epoch @ '':'' @ format_uint (unat seq)"

text \<open>\<open>strings.Cut\<close> at the first colon.\<close>

fun cut_colon :: "string \<Rightarrow> (string \<times> string) option" where
  "cut_colon [] = None"
| "cut_colon (c # cs) =
     (if c = CHR '':'' then Some ([], cs)
      else (case cut_colon cs of None \<Rightarrow> None | Some (a, b) \<Rightarrow> Some (c # a, b)))"

definition parse_cursor :: "cursor \<Rightarrow> (string \<times> uint64) option" where
  "parse_cursor cur =
     (case cut_colon cur of
        None \<Rightarrow> None
      | Some (epoch, raw) \<Rightarrow>
          if epoch = '''' \<or> raw = '''' then None
          else (case parse_uint64 raw of None \<Rightarrow> None | Some seq \<Rightarrow> Some (epoch, seq)))"

subsection \<open>The log\<close>

definition new_log :: "string \<Rightarrow> int \<Rightarrow> watch_log" where
  "new_log epoch capacity =
     \<lparr>wl_epoch = epoch, wl_next = 0,
      wl_capacity = (if capacity \<le> 0 then default_capacity else nat capacity), wl_events = []\<rparr>"

definition reset_log :: "string \<Rightarrow> watch_log \<Rightarrow> watch_log" where
  "reset_log epoch l = l\<lparr>wl_epoch := epoch, wl_next := 0, wl_events := []\<rparr>"

definition append_log :: "watch_log \<Rightarrow> event \<Rightarrow> watch_log \<times> event" where
  "append_log l ev =
     (let next_seq = wl_next l + 1;
          ev' = ev\<lparr>ev_cursor := make_cursor (wl_epoch l) next_seq\<rparr>;
          evs = wl_events l @ [ev'];
          kept = (if length evs > wl_capacity l then drop (length evs - wl_capacity l) evs else evs)
      in (l\<lparr>wl_next := next_seq, wl_events := kept\<rparr>, ev'))"

definition current_log :: "watch_log \<Rightarrow> cursor" where
  "current_log l = make_cursor (wl_epoch l) (wl_next l)"

definition since_log :: "watch_log \<Rightarrow> cursor \<Rightarrow> (cursor \<times> event list) res" where
  "since_log l cur =
     (if cur = '''' then Inr (current_log l, [])
      else if length cur > max_cursor_bytes then Inl (Sent ErrLagged)
      else if cur = current_log l then Inr (cur, [])
      else (case parse_cursor cur of
              None \<Rightarrow> Inl (Sent ErrLagged)
            | Some (epoch, seq) \<Rightarrow>
                if epoch \<noteq> wl_epoch l \<or> seq > wl_next l then Inl (Sent ErrLagged)
                else (let oldest = wl_next l - word_of_nat (length (wl_events l))
                      in if seq < oldest then Inl (Sent ErrLagged)
                         else Inr (cur, drop (unat (seq - oldest)) (wl_events l)))))"

subsection \<open>The interface\<close>

text \<open>
  \<open>rep l h\<close>: the log stands for the history \<open>h\<close> of its generation, oldest first.
  \<open>pos l n\<close> is the cursor just after the first \<open>n\<close> events; \<open>foreign\<close> are the cursors of
  other generations.
\<close>

locale replay_log =
  fixes append :: "'l \<Rightarrow> event \<Rightarrow> 'l \<times> event"
    and since :: "'l \<Rightarrow> cursor \<Rightarrow> (cursor \<times> event list) res"
    and rep :: "'l \<Rightarrow> event list \<Rightarrow> bool"
    and pos :: "'l \<Rightarrow> nat \<Rightarrow> cursor"
    and window :: "'l \<Rightarrow> nat"
    and foreign :: "'l \<Rightarrow> cursor \<Rightarrow> bool"
    and limit :: nat
  assumes rep_append: "rep l h \<Longrightarrow> length h + 1 < limit \<Longrightarrow> append l e = (l', e') \<Longrightarrow> rep l' (h @ [e'])"
    and pos_append: "append l e = (l', e') \<Longrightarrow> pos l' n = pos l n"
    and window_append: "append l e = (l', e') \<Longrightarrow> window l' = window l"
    and append_event: "append l e = (l', e') \<Longrightarrow>
      ev_op e' = ev_op e \<and> ev_path e' = ev_path e \<and> ev_from e' = ev_from e"
    and rep_cursor: "rep l h \<Longrightarrow> i < length h \<Longrightarrow> ev_cursor (h ! i) = pos l (Suc i)"
    and since_start: "rep l h \<Longrightarrow> since l '''' = Inr (pos l (length h), [])"
    and since_pos: "rep l h \<Longrightarrow> n < limit \<Longrightarrow>
      since l (pos l n) =
        (if length h - window l \<le> n \<and> n \<le> length h then Inr (pos l n, drop n h)
         else Inl (Sent ErrLagged))"
    and since_foreign: "rep l h \<Longrightarrow> foreign l c \<Longrightarrow> since l c = Inl (Sent ErrLagged)"
    and rep_limit: "rep l h \<Longrightarrow> length h < limit"
begin

fun append_all :: "'l \<Rightarrow> event list \<Rightarrow> 'l \<times> event list" where
  "append_all l [] = (l, [])"
| "append_all l (e # es) =
     (let (l1, e1) = append l e; (l2, es2) = append_all l1 es in (l2, e1 # es2))"

lemma append_all_rep:
  "rep l h \<Longrightarrow> length h + length es < limit \<Longrightarrow> append_all l es = (l', es') \<Longrightarrow>
   rep l' (h @ es') \<and> length es' = length es \<and> window l' = window l \<and> (\<forall>n. pos l' n = pos l n)"
proof (induction es arbitrary: l h l' es')
  case (Cons e es)
  obtain l1 e1 where a: "append l e = (l1, e1)" by (cases "append l e")
  obtain es2 where r: "append_all l1 es = (l', es2)" and es': "es' = e1 # es2"
    using Cons.prems(3) a by (auto split: prod.splits)
  have "rep l1 (h @ [e1])" using rep_append [OF Cons.prems(1) _ a] Cons.prems(2) by simp
  from Cons.IH [OF this _ r] Cons.prems(2) show ?case
    using es' window_append [OF a] pos_append [OF a] by simp
qed simp

lemma resume_exact:
  assumes "rep l (h1 @ e # h2)" and "length h2 \<le> window l"
  shows "since l (ev_cursor e) = Inr (ev_cursor e, h2)"
proof -
  have c: "ev_cursor e = pos l (Suc (length h1))"
    using rep_cursor [OF assms(1), of "length h1"] by (simp add: nth_append)
  have "Suc (length h1) < limit \<or> Suc (length h1) = length (h1 @ e # h2)"
    using rep_limit [OF assms(1)] by auto
  then show ?thesis
    using since_pos [OF assms(1), of "Suc (length h1)"] rep_limit [OF assms(1)] assms(2)
    by (auto simp: c)
qed

lemma resume_evicted:
  assumes "rep l (h1 @ e # h2)" and "window l < length h2"
  shows "since l (ev_cursor e) = Inl (Sent ErrLagged)"
proof -
  have c: "ev_cursor e = pos l (Suc (length h1))"
    using rep_cursor [OF assms(1), of "length h1"] by (simp add: nth_append)
  then show ?thesis
    using since_pos [OF assms(1), of "Suc (length h1)"] rep_limit [OF assms(1)] assms(2) by auto
qed

lemma resume_from_start:
  assumes "rep l h" and "length h + length es < limit" and "append_all l es = (l', es')"
    and "length es \<le> window l"
  shows "since l' (pos l (length h)) = Inr (pos l (length h), es')"
proof -
  have r: "rep l' (h @ es')" and len: "length es' = length es" and w: "window l' = window l"
    and p: "pos l' (length h) = pos l (length h)"
    using append_all_rep [OF assms(1-3)] by auto
  show ?thesis
    using since_pos [OF r, of "length h"] assms(2,4) by (simp add: len w p)
qed

end

subsection \<open>The code's log is a replay log\<close>

definition epoch_ok :: "string \<Rightarrow> bool" where
  "epoch_ok ep \<longleftrightarrow> ep \<noteq> '''' \<and> length ep \<le> 64 \<and> CHR '':'' \<notin> set ep \<and> (\<forall>c \<in> set ep. ord_of c < 128)"

definition log_rep :: "watch_log \<Rightarrow> event list \<Rightarrow> bool" where
  "log_rep l h \<longleftrightarrow>
     epoch_ok (wl_epoch l) \<and> 0 < wl_capacity l \<and> length h < 2 ^ 64 \<and>
     wl_next l = word_of_nat (length h) \<and>
     wl_events l = drop (length h - wl_capacity l) h \<and>
     (\<forall>i < length h. ev_cursor (h ! i) = make_cursor (wl_epoch l) (word_of_nat (Suc i)))"

definition log_pos :: "watch_log \<Rightarrow> nat \<Rightarrow> cursor" where
  "log_pos l n = make_cursor (wl_epoch l) (word_of_nat n)"

definition log_foreign :: "watch_log \<Rightarrow> cursor \<Rightarrow> bool" where
  "log_foreign l c \<longleftrightarrow>
     c \<noteq> '''' \<and> (case parse_cursor c of None \<Rightarrow> True | Some (ep, s) \<Rightarrow> ep \<noteq> wl_epoch l)"

lemma unat_of_nat64: "n < 2 ^ 64 \<Longrightarrow> unat (word_of_nat n :: uint64) = n"
  by (simp add: unat_of_nat)

lemma unat_less64: "unat (w :: uint64) < 18446744073709551616"
proof -
  have "unat w < 2 ^ LENGTH(64)" by (rule unsigned_less)
  then show ?thesis by simp
qed

lemma cut_colon_append: "CHR '':'' \<notin> set ep \<Longrightarrow> cut_colon (ep @ CHR '':'' # s) = Some (ep, s)"
  by (induction ep) auto

lemma parse_make_cursor: "epoch_ok ep \<Longrightarrow> parse_cursor (make_cursor ep seq) = Some (ep, seq)"
  using unat_less64 [of seq] format_uint_nonempty [of "unat seq"]
  by (simp add: parse_cursor_def make_cursor_def epoch_ok_def cut_colon_append parse_format_uint)

lemma make_cursor_inj: "epoch_ok ep \<Longrightarrow> make_cursor ep s = make_cursor ep t \<Longrightarrow> s = t"
  by (metis parse_make_cursor option.inject prod.inject)

lemma format_uint64_length: "length (format_uint (unat (w :: uint64))) \<le> 20"
proof -
  have "unat w < 2 ^ 64" using unsigned_less [of w] by simp
  also have "(2 :: nat) ^ 64 \<le> 10 ^ 20" by simp
  finally show ?thesis by (intro format_uint_length) auto
qed

lemma make_cursor_length: "epoch_ok ep \<Longrightarrow> length (make_cursor ep s) \<le> 85"
  using format_uint64_length [of s] by (simp add: make_cursor_def epoch_ok_def)

lemma make_cursor_utf8: "epoch_ok ep \<Longrightarrow> utf8_valid (make_cursor ep s)"
  using format_uint_digits [of "unat s"]
  by (intro utf8_valid_ascii) (auto simp: make_cursor_def epoch_ok_def list_all_iff is_digit_def)

lemma make_cursor_nonempty [simp]: "make_cursor ep s \<noteq> ''''"
  by (simp add: make_cursor_def)

lemma log_rep_append:
  assumes r: "log_rep l h" and len: "length h + 1 < 2 ^ 64" and a: "append_log l e = (l', e')"
  shows "log_rep l' (h @ [e'])"
proof -
  have e': "ev_cursor e' = make_cursor (wl_epoch l) (word_of_nat (Suc (length h)))"
    and ep: "wl_epoch l' = wl_epoch l" and cap: "wl_capacity l' = wl_capacity l"
    and nx: "wl_next l' = word_of_nat (Suc (length h))"
    using r a by (auto simp: append_log_def log_rep_def Let_def add.commute)
  have "wl_events l' = (let evs = wl_events l @ [e'] in
      if length evs > wl_capacity l then drop (length evs - wl_capacity l) evs else evs)"
    using a by (auto simp: append_log_def Let_def)
  also have "\<dots> = drop (Suc (length h) - wl_capacity l) (h @ [e'])"
    using r by (auto simp: log_rep_def Let_def Suc_diff_le)
  finally have evs: "wl_events l' = drop (length (h @ [e']) - wl_capacity l') (h @ [e'])"
    by (simp add: cap)
  have "ev_cursor ((h @ [e']) ! i) = make_cursor (wl_epoch l') (word_of_nat (Suc i))"
    if "i < length (h @ [e'])" for i
    using that r e' by (cases "i = length h") (auto simp: nth_append log_rep_def ep)
  then show ?thesis using r len evs nx by (simp add: log_rep_def ep cap)
qed

text \<open>
  A cursor need not be the canonical text of its position: leading zeros parse as well.
\<close>

definition cursor_at :: "watch_log \<Rightarrow> nat \<Rightarrow> cursor \<Rightarrow> bool" where
  "cursor_at l n c \<longleftrightarrow>
     length c \<le> max_cursor_bytes \<and> parse_cursor c = Some (wl_epoch l, word_of_nat n)"

lemma cursor_at_pos: "epoch_ok (wl_epoch l) \<Longrightarrow> cursor_at l n (log_pos l n)"
  using make_cursor_length [of "wl_epoch l" "word_of_nat n"]
  by (simp add: cursor_at_def log_pos_def parse_make_cursor max_cursor_bytes_def)

lemma since_log_at:
  assumes r: "log_rep l h" and n: "n < 2 ^ 64" and c: "cursor_at l n c"
  shows "since_log l c =
    (if length h - wl_capacity l \<le> n \<and> n \<le> length h then Inr (c, drop n h)
     else Inl (Sent ErrLagged))"
proof -
  let ?k = "length (wl_events l)"
  have ep: "epoch_ok (wl_epoch l)" and h: "length h < 2 ^ 64" and nx: "unat (wl_next l) = length h"
    and evs: "wl_events l = drop (length h - wl_capacity l) h"
    using r by (auto simp: log_rep_def unat_of_nat64)
  have k: "?k \<le> length h" by (simp add: evs)
  have kk: "length h - ?k = length h - wl_capacity l" by (simp add: evs)
  have old: "unat (wl_next l - word_of_nat ?k) = length h - wl_capacity l"
    using k h nx kk by (simp add: unat_sub word_le_nat_alt unat_of_nat64)
  have big: "wl_next l < word_of_nat n \<longleftrightarrow> length h < n"
    by (simp add: word_less_nat_alt nx unat_of_nat64 [OF n])
  have small: "word_of_nat n < wl_next l - word_of_nat ?k \<longleftrightarrow> n < length h - wl_capacity l"
    by (simp add: word_less_nat_alt old unat_of_nat64 [OF n])
  have p: "parse_cursor c = Some (wl_epoch l, word_of_nat n)" and len: "\<not> max_cursor_bytes < length c"
    using c by (auto simp: cursor_at_def)
  have ne: "c \<noteq> ''''" using p by (auto simp: parse_cursor_def)
  show ?thesis
  proof (cases "c = current_log l")
    case True
    then have "word_of_nat n = wl_next l"
      using p parse_make_cursor [OF ep, of "wl_next l"] by (simp add: current_log_def)
    then have "n = length h" using nx unat_of_nat64 [OF n] by metis
    then show ?thesis using True ne len by (simp add: since_log_def)
  next
    case False
    have d: "unat (word_of_nat n - (wl_next l - word_of_nat ?k)) = n - (length h - wl_capacity l)"
      if "length h - wl_capacity l \<le> n"
      using that by (simp add: unat_sub word_le_nat_alt old unat_of_nat64 [OF n])
    have "since_log l c =
        (if word_of_nat n > wl_next l then Inl (Sent ErrLagged)
         else if word_of_nat n < wl_next l - word_of_nat ?k then Inl (Sent ErrLagged)
         else Inr (c, drop (unat (word_of_nat n - (wl_next l - word_of_nat ?k))) (wl_events l)))"
      using False ne len p by (simp add: since_log_def Let_def)
    also have "\<dots> = (if length h < n \<or> n < length h - wl_capacity l then Inl (Sent ErrLagged)
        else Inr (c, drop (n - (length h - wl_capacity l)) (wl_events l)))"
      using d by (simp only: big small if_P if_not_P not_less split: if_split) auto
    also have "\<dots> = (if length h - wl_capacity l \<le> n \<and> n \<le> length h
        then Inr (c, drop n h) else Inl (Sent ErrLagged))"
      by (auto simp: evs)
    finally show ?thesis .
  qed
qed

lemma since_log_pos:
  assumes "log_rep l h" and "n < 2 ^ 64"
  shows "since_log l (log_pos l n) =
    (if length h - wl_capacity l \<le> n \<and> n \<le> length h then Inr (log_pos l n, drop n h)
     else Inl (Sent ErrLagged))"
proof -
  have "epoch_ok (wl_epoch l)" using assms(1) by (simp add: log_rep_def)
  from since_log_at [OF assms cursor_at_pos [OF this]] show ?thesis .
qed

text \<open>What any accepted cursor gives back: a position in the window and what follows it.\<close>

lemma since_log_result:
  assumes r: "log_rep l h" and s: "since_log l c = Inr (c', q)"
  obtains k where "k \<le> length h" "cursor_at l k c'" "q = drop k h" "length q \<le> wl_capacity l"
proof -
  have ep: "epoch_ok (wl_epoch l)" and h: "length h < 2 ^ 64" and nx: "wl_next l = word_of_nat (length h)"
    using r by (auto simp: log_rep_def)
  have here: "cursor_at l (length h) (current_log l)"
    using cursor_at_pos [OF ep, of "length h"] by (simp add: log_pos_def current_log_def nx)
  consider "c = '''' \<or> c = current_log l"
    | seq :: uint64 where "cursor_at l (unat seq) c" "c \<noteq> ''''" "c \<noteq> current_log l"
    using s by (auto simp: since_log_def cursor_at_def Let_def not_less split: if_splits option.splits prod.splits)
  then show thesis
  proof cases
    case 1
    then have "c' = current_log l" "q = []" using s by (auto simp: since_log_def split: if_splits)
    with here that [of "length h"] show thesis by simp
  next
    case (2 seq)
    have "unat seq < 2 ^ 64" using unat_less64 [of seq] by simp
    from since_log_at [OF r this 2(1)] s have "length h - wl_capacity l \<le> unat seq"
      "unat seq \<le> length h" "c' = c" "q = drop (unat seq) h"
      by (auto split: if_splits)
    with 2(1) that [of "unat seq"] show thesis by simp
  qed
qed

lemma since_log_foreign:
  "log_rep l h \<Longrightarrow> log_foreign l c \<Longrightarrow> since_log l c = Inl (Sent ErrLagged)"
  using parse_make_cursor [of "wl_epoch l" "wl_next l"]
  by (auto simp: since_log_def log_foreign_def log_rep_def current_log_def
      split: option.splits prod.splits)

interpretation wlog: replay_log append_log since_log log_rep log_pos wl_capacity log_foreign "2 ^ 64"
proof unfold_locales
  show "log_rep l h \<Longrightarrow> length h + 1 < 2 ^ 64 \<Longrightarrow> append_log l e = (l', e') \<Longrightarrow> log_rep l' (h @ [e'])"
    for l h e l' e' by (rule log_rep_append)
  show "log_rep l h \<Longrightarrow> n < 2 ^ 64 \<Longrightarrow> since_log l (log_pos l n) =
      (if length h - wl_capacity l \<le> n \<and> n \<le> length h then Inr (log_pos l n, drop n h)
       else Inl (Sent ErrLagged))" for l h n by (rule since_log_pos)
  show "log_rep l h \<Longrightarrow> log_foreign l c \<Longrightarrow> since_log l c = Inl (Sent ErrLagged)" for l h c
    by (rule since_log_foreign)
qed (auto simp: append_log_def Let_def log_pos_def since_log_def current_log_def log_rep_def)

lemma hex_digit_ord: "n < 16 \<Longrightarrow> 48 \<le> ord_of (hex_digit n) \<and> ord_of (hex_digit n) < 128 \<and> ord_of (hex_digit n) \<noteq> 58"
  by (auto simp: hex_digit_def)

lemma format_int_chars:
  "c \<in> set (format_int w) \<Longrightarrow> c = CHR ''-'' \<or> is_digit c"
  using format_uint_digits by (auto simp: format_int_def list_all_iff split: if_splits)

lemma format_int_length: "length (format_int w) \<le> 21"
proof -
  have "sint w < 9223372036854775808" and "- 9223372036854775808 \<le> sint w"
    using sint_ge [of w] sint_less [of w] by simp_all
  then have "nat (sint w) < 10 ^ 20" and "nat (- sint w) < 10 ^ 20"
    by (simp_all add: nat_less_iff)
  then show ?thesis
    using format_uint_length [of 20 "nat (sint w)"] format_uint_length [of 20 "nat (- sint w)"]
    by (simp add: format_int_def)
qed

lemma new_epoch_ok:
  assumes "case random of Some raw \<Rightarrow> length raw = 16 | None \<Rightarrow> True"
  shows "epoch_ok (new_epoch random nanos count)"
proof (cases random)
  case (Some raw)
  then have len: "length raw = 16" using assms by simp
  have "length (hex_encode raw) = 2 * length raw" for raw
    by (induction raw) (auto simp: hex_encode_def)
  moreover have "48 \<le> ord_of c \<and> ord_of c < 128 \<and> ord_of c \<noteq> 58" if "c \<in> set (hex_encode raw)" for c
    using that hex_digit_ord by (auto simp: hex_encode_def unat_byte_less less_mult_imp_div_less)
  ultimately have hex: "length (hex_encode raw) = 32"
      "\<And>c. c \<in> set (hex_encode raw) \<Longrightarrow> ord_of c < 128 \<and> ord_of c \<noteq> 58"
    using len by auto
  then have "CHR '':'' \<notin> set (hex_encode raw)" by force
  moreover have "hex_encode raw \<noteq> []" using hex(1) by auto
  ultimately show ?thesis using hex Some
    by (simp add: new_epoch_def epoch_ok_def)
next
  case None
  have "c \<noteq> CHR '':'' \<and> ord_of c < 128" if "c \<in> set (format_int nanos) \<union> set (format_uint (unat count))" for c
    using that format_int_chars [of c nanos] format_uint_digits [of "unat count"]
    by (auto simp: list_all_iff is_digit_def)
  then show ?thesis
    using None format_int_length [of nanos] format_uint64_length [of count]
    by (auto simp: new_epoch_def epoch_ok_def)
qed

subsection \<open>Properties\<close>

lemma log_rep_new: "epoch_ok ep \<Longrightarrow> log_rep (new_log ep cap) []"
  by (auto simp: log_rep_def new_log_def default_capacity_def)

lemma log_rep_reset: "log_rep l h \<Longrightarrow> epoch_ok ep \<Longrightarrow> log_rep (reset_log ep l) []"
  by (simp add: log_rep_def reset_log_def)

lemma append_all_new:
  assumes "epoch_ok ep" and "length es < 2 ^ 64" and "wlog.append_all (new_log ep cap) es = (l, out)"
  shows "log_rep l out" and "length out = length es" and "wl_capacity l = wl_capacity (new_log ep cap)"
    and "log_pos l n = log_pos (new_log ep cap) n"
  using wlog.append_all_rep [OF log_rep_new [OF assms(1)] _ assms(3)] assms(2) by auto

text \<open>
  C9. Replay is exact: after any sequence of guest events, the cursor of any delivered event
  resumes with precisely the events after it, in order and each with the cursor it was
  delivered under, when at most \<open>capacity\<close> of them are missing, and with \<open>ErrLagged\<close>
  otherwise; so a reader never silently loses or repeats an event.
\<close>

theorem watch_replay_exact:
  assumes "epoch_ok ep" and "length es < 2 ^ 64"
    and "wlog.append_all (new_log ep cap) es = (l, out)" and "i < length out"
  shows "since_log l (ev_cursor (out ! i)) =
    (if length out - Suc i \<le> wl_capacity (new_log ep cap)
     then Inr (ev_cursor (out ! i), drop (Suc i) out) else Inl (Sent ErrLagged))"
proof -
  note r = append_all_new [OF assms(1-3)]
  have split: "out = take i out @ out ! i # drop (Suc i) out" using assms(4) by (rule id_take_nth_drop)
  have rep: "log_rep l (take i out @ out ! i # drop (Suc i) out)" using r(1) split by simp
  show ?thesis
    using wlog.resume_exact [OF rep] wlog.resume_evicted [OF rep] r(3) by auto
qed

lemma watch_replay_exact_witness:
  "\<exists>l out. wlog.append_all (new_log ''e'' 1)
      (replicate 2 \<lparr>ev_cursor = '''', ev_op = OpCreate, ev_path = ''a'', ev_from = ''''\<rparr>) = (l, out) \<and>
    since_log l (ev_cursor (out ! 0)) = Inr (ev_cursor (out ! 0), drop 1 out)"
proof -
  let ?e = "\<lparr>ev_cursor = '''', ev_op = OpCreate, ev_path = ''a'', ev_from = ''''\<rparr>"
  obtain l out where a: "wlog.append_all (new_log ''e'' 1) (replicate 2 ?e) = (l, out)"
    by (cases "wlog.append_all (new_log ''e'' 1) (replicate 2 ?e)")
  have ok: "epoch_ok ''e''" by (simp add: epoch_ok_def)
  have "length out = 2" using append_all_new(2) [OF ok _ a] by simp
  then show ?thesis
    using watch_replay_exact [OF ok _ a, of 0] a by (simp add: new_log_def)
qed

text \<open>
  A new generation cuts every old cursor off: after \<open>Reset\<close> under a different epoch,
  any cursor of the generation before, whatever its sequence number, is answered with
  \<open>ErrLagged\<close>, and an empty cursor starts at the fresh position with nothing to replay.
\<close>

lemma watch_reset_cuts:
  assumes "epoch_ok (wl_epoch l)" and "epoch_ok ep" and "ep \<noteq> wl_epoch l" and "0 < wl_capacity l"
  shows "since_log (reset_log ep l) (make_cursor (wl_epoch l) seq) = Inl (Sent ErrLagged) \<and>
    since_log (reset_log ep l) '''' = Inr (make_cursor ep 0, [])"
proof -
  have rep: "log_rep (reset_log ep l) []" using assms by (simp add: log_rep_def reset_log_def)
  have "log_foreign (reset_log ep l) (make_cursor (wl_epoch l) seq)"
    using parse_make_cursor [OF assms(1)] assms(3) by (simp add: log_foreign_def reset_log_def)
  then have "since_log (reset_log ep l) (make_cursor (wl_epoch l) seq) = Inl (Sent ErrLagged)"
    by (rule wlog.since_foreign [OF rep])
  moreover have "since_log (reset_log ep l) '''' = Inr (make_cursor ep 0, [])"
    using wlog.since_start [OF rep] by (simp add: log_pos_def reset_log_def)
  ultimately show ?thesis by blast
qed

lemma watch_reset_cuts_witness:
  "since_log (reset_log ''b'' (new_log ''a'' 0)) (make_cursor ''a'' 7) = Inl (Sent ErrLagged)"
  using watch_reset_cuts [of "new_log ''a'' 0" "''b''" 7]
  by (simp add: epoch_ok_def new_log_def default_capacity_def)

text \<open>
  C21. Every event the log stamps passes the contract's own \<open>ValidateEvent\<close>: under any epoch
  \<open>newEpoch\<close> can produce, random or fallback, the cursor of an appended event is UTF-8 within
  \<open>MaxCursorBytes\<close>, so an event with valid paths is never refused on its way to the caller.
\<close>

theorem watch_append_valid:
  assumes "case random of Some raw \<Rightarrow> length raw = 16 | None \<Rightarrow> True"
    and "valid_path p" and "op \<in> {OpCreate, OpReplace, OpDelete} \<and> from = '''' \<or> op = OpMove \<and> valid_path from"
    and "wl_epoch l = new_epoch random nanos count"
  shows "validate_event (snd (append_log l \<lparr>ev_cursor = cur, ev_op = op, ev_path = p, ev_from = from\<rparr>)) = None"
proof -
  have ep: "epoch_ok (wl_epoch l)" using new_epoch_ok [OF assms(1)] assms(4) by simp
  have len: "length (make_cursor (wl_epoch l) s) \<le> 128" for s using make_cursor_length [OF ep, of s] by simp
  show ?thesis
    unfolding validate_event_iff using assms(2,3) make_cursor_utf8 [OF ep] len
    by (simp add: append_log_def Let_def)
qed

lemma watch_append_valid_witness:
  "validate_event (snd (append_log (new_log (new_epoch None 5 1) 0)
     \<lparr>ev_cursor = '''', ev_op = OpCreate, ev_path = ''a'', ev_from = ''''\<rparr>)) = None"
proof (rule watch_append_valid [where random = None and nanos = 5 and count = 1])
  show "valid_path ''a''" by code_simp
qed (simp_all add: new_log_def)

end
