(* ===== verification/Memory_Host.thy ===== *)
theory Memory_Host
  imports Contract Tree_Ops Watch_Log
begin

text \<open>
  The in-process host (\<open>memory/memory.go\<close>, \<open>memory/tree.go\<close>). The objects the code shares by
  pointer (environments, terminals, observations) live in stores, lists indexed by the
  reference, so that a handle kept by a caller and the one in \<open>grants\<close> are the same object.
  A method is one function of the whole state; what a method does under one lock is one
  function, and a method with two locked sections is the composition of two, so that other
  calls can run in between (theory Memory_Inv). The context argument is \<open>ctx.Err()\<close>, the
  epoch arguments are what \<open>newEpoch\<close> returned, and \<open>None\<close> is a call that blocks.
\<close>

record terminal =
  te_env :: nat
  te_buf :: bytes
  te_win :: window
  te_closed :: bool
  te_dead :: "go_error option"

record observation =
  ob_env :: nat
  ob_cursor :: cursor
  ob_queue :: "event list"
  ob_cap :: nat
  ob_closed :: bool
  ob_err :: "go_error option"

record environment =
  en_id :: grant_id
  en_image :: image_name
  en_network :: network
  en_frozen :: bool
  en_revoked :: bool
  en_term :: "nat option"
  en_files :: snapshot
  en_obs :: "nat option"
  en_log :: watch_log

record mem_state =
  ms_images :: "image_name list"
  ms_slots :: int
  ms_unusable :: bool
  ms_grants :: "(grant_id \<times> nat) list"
  ms_envs :: "environment list"
  ms_terms :: "terminal list"
  ms_obs :: "observation list"

definition fail_op :: "string \<Rightarrow> go_error \<Rightarrow> 'a res" where
  "fail_op op e = Inl (OpError op e)"

definition set_env :: "nat \<Rightarrow> environment \<Rightarrow> mem_state \<Rightarrow> mem_state" where
  "set_env r e m = m\<lparr>ms_envs := (ms_envs m)[r := e]\<rparr>"

definition set_term :: "nat \<Rightarrow> terminal \<Rightarrow> mem_state \<Rightarrow> mem_state" where
  "set_term t x m = m\<lparr>ms_terms := (ms_terms m)[t := x]\<rparr>"

definition set_obs :: "nat \<Rightarrow> observation \<Rightarrow> mem_state \<Rightarrow> mem_state" where
  "set_obs b x m = m\<lparr>ms_obs := (ms_obs m)[b := x]\<rparr>"

subsection \<open>The host\<close>

definition host_new :: "image_name list \<Rightarrow> int \<Rightarrow> bool \<Rightarrow> mem_state" where
  "host_new images slots unusable =
     \<lparr>ms_images = images, ms_slots = (if slots \<le> 0 then 1 else slots), ms_unusable = unusable,
      ms_grants = [], ms_envs = [], ms_terms = [], ms_obs = []\<rparr>"

definition host_capabilities :: "mem_state \<Rightarrow> capabilities" where
  "host_capabilities m = \<lparr>cap_isolated = False, cap_freeze = True\<rparr>"

definition host_ready :: "string \<Rightarrow> go_error option \<Rightarrow> mem_state \<Rightarrow> report res" where
  "host_ready release ctx m =
     (case ctx of
        Some e \<Rightarrow> fail_op ''ready'' e
      | None \<Rightarrow>
          Inr \<lparr>rep_usable = \<not> ms_unusable m, rep_images = ms_images m,
               rep_networks = [NetworkNone, NetworkAllowlist],
               rep_slots = (let free = ms_slots m - int (length (ms_grants m))
                            in if free < 0 then 0 else free),
               rep_release = release\<rparr>)"

definition new_environment :: "spec \<Rightarrow> string \<Rightarrow> environment" where
  "new_environment sp epoch =
     \<lparr>en_id = spec_id sp, en_image = spec_image sp, en_network = spec_network sp,
      en_frozen = False, en_revoked = False, en_term = None, en_files = Map.empty,
      en_obs = None, en_log = new_log epoch (int default_capacity)\<rparr>"

definition host_ensure :: "go_error option \<Rightarrow> spec \<Rightarrow> string \<Rightarrow> mem_state \<Rightarrow> mem_state \<times> nat res" where
  "host_ensure ctx sp epoch m =
     (case ctx of
        Some e \<Rightarrow> (m, fail_op ''ensure'' e)
      | None \<Rightarrow>
     (case validate_spec sp of
        Some e \<Rightarrow> (m, fail_op ''ensure'' e)
      | None \<Rightarrow>
          if ms_unusable m then (m, fail_op ''ensure'' (Sent ErrUnavailable))
          else (case map_of (ms_grants m) (spec_id sp) of
            Some r \<Rightarrow>
              if en_image (ms_envs m ! r) \<noteq> spec_image sp \<or> en_network (ms_envs m ! r) \<noteq> spec_network sp
              then (m, fail_op ''ensure'' (Sent ErrConflict))
              else (m, Inr r)
          | None \<Rightarrow>
              if spec_image sp \<notin> set (ms_images m)
              then (m, fail_op ''ensure'' (Sent ErrUnknownImage))
              else if int (length (ms_grants m)) \<ge> ms_slots m
              then (m, fail_op ''ensure'' (Sent ErrCapacity))
              else (let r = length (ms_envs m)
                    in (m\<lparr>ms_envs := ms_envs m @ [new_environment sp epoch],
                          ms_grants := (spec_id sp, r) # ms_grants m\<rparr>, Inr r)))))"

subsection \<open>Terminals and observations\<close>

definition finished :: "terminal \<Rightarrow> bool" where
  "finished t \<longleftrightarrow> te_closed t \<or> te_dead t \<noteq> None"

definition new_terminal :: "nat \<Rightarrow> window \<Rightarrow> terminal" where
  "new_terminal r win =
     \<lparr>te_env = r, te_buf = [], te_win = default_window win, te_closed = False, te_dead = None\<rparr>"

definition kill_term :: "go_error \<Rightarrow> nat option \<Rightarrow> mem_state \<Rightarrow> mem_state" where
  "kill_term reason tr m =
     (case tr of None \<Rightarrow> m | Some t \<Rightarrow> set_term t ((ms_terms m ! t)\<lparr>te_dead := Some reason\<rparr>) m)"

text \<open>\<open>sync.Once\<close>: only the first failure of an observation counts.\<close>

definition obs_fail :: "go_error \<Rightarrow> observation \<Rightarrow> observation" where
  "obs_fail e b = (if ob_closed b then b else b\<lparr>ob_err := Some e, ob_closed := True\<rparr>)"

definition fail_watch :: "go_error \<Rightarrow> nat \<Rightarrow> mem_state \<Rightarrow> mem_state" where
  "fail_watch e r m =
     (let en = ms_envs m ! r in
      case en_obs en of
        None \<Rightarrow> m
      | Some b \<Rightarrow> set_env r (en\<lparr>en_obs := None\<rparr>) (set_obs b (obs_fail e (ms_obs m ! b)) m))"

definition guard :: "string \<Rightarrow> environment \<Rightarrow> go_error option" where
  "guard op en =
     (if en_revoked en then Some (OpError op (Sent ErrRevoked))
      else if en_frozen en then Some (OpError op (Sent ErrFrozen))
      else None)"

subsection \<open>Attach, Freeze, Thaw, Revoke\<close>

definition env_attach :: "go_error option \<Rightarrow> nat \<Rightarrow> window \<Rightarrow> mem_state \<Rightarrow> mem_state \<times> nat res" where
  "env_attach ctx r win m =
     (let en = ms_envs m ! r in
      case ctx of
        Some e \<Rightarrow> (m, fail_op ''attach'' e)
      | None \<Rightarrow>
          if en_revoked en then (m, fail_op ''attach'' (Sent ErrRevoked))
          else if en_frozen en then (m, fail_op ''attach'' (Sent ErrFrozen))
          else if (case en_term en of None \<Rightarrow> False | Some t \<Rightarrow> \<not> finished (ms_terms m ! t))
          then (m, fail_op ''attach'' (Sent ErrBusy))
          else (let t = length (ms_terms m)
                in (set_env r (en\<lparr>en_term := Some t\<rparr>)
                      (m\<lparr>ms_terms := ms_terms m @ [new_terminal r win]\<rparr>), Inr t)))"

definition drop_term :: "go_error \<Rightarrow> nat \<Rightarrow> mem_state \<Rightarrow> mem_state" where
  "drop_term reason r m =
     (let en = ms_envs m ! r in
      set_env r (en\<lparr>en_term := None\<rparr>) (kill_term reason (en_term en) m))"

definition env_freeze :: "go_error option \<Rightarrow> nat \<Rightarrow> mem_state \<Rightarrow> mem_state \<times> unit res" where
  "env_freeze ctx r m =
     (let en = ms_envs m ! r in
      case ctx of
        Some e \<Rightarrow> (m, fail_op ''freeze'' e)
      | None \<Rightarrow>
          if en_revoked en then (m, fail_op ''freeze'' (Sent ErrRevoked))
          else (fail_watch (Sent ErrFrozen) r
                  (drop_term (Sent ErrFrozen) r (set_env r (en\<lparr>en_frozen := True\<rparr>) m)), Inr ()))"

definition env_thaw :: "go_error option \<Rightarrow> nat \<Rightarrow> mem_state \<Rightarrow> mem_state \<times> unit res" where
  "env_thaw ctx r m =
     (let en = ms_envs m ! r in
      case ctx of
        Some e \<Rightarrow> (m, fail_op ''thaw'' e)
      | None \<Rightarrow>
          if en_revoked en then (m, fail_op ''thaw'' (Sent ErrRevoked))
          else (set_env r (en\<lparr>en_frozen := False\<rparr>) m, Inr ()))"

text \<open>\<open>environment.revoke\<close>, the second section of \<open>Host.Revoke\<close>.\<close>

definition env_do_revoke :: "nat \<Rightarrow> mem_state \<Rightarrow> mem_state" where
  "env_do_revoke r m =
     fail_watch (Sent ErrRevoked) r
       (drop_term (Sent ErrRevoked) r
         (set_env r ((ms_envs m ! r)\<lparr>en_revoked := True, en_frozen := False\<rparr>) m))"

text \<open>The first section: find the grant and delete it.\<close>

definition revoke_delete :: "grant_id \<Rightarrow> mem_state \<Rightarrow> mem_state \<times> nat option" where
  "revoke_delete i m =
     (m\<lparr>ms_grants := filter (\<lambda>g. fst g \<noteq> i) (ms_grants m)\<rparr>, map_of (ms_grants m) i)"

definition host_revoke :: "go_error option \<Rightarrow> grant_id \<Rightarrow> mem_state \<Rightarrow> mem_state \<times> unit res" where
  "host_revoke ctx i m =
     (case ctx of
        Some e \<Rightarrow> (m, fail_op ''revoke'' e)
      | None \<Rightarrow>
          (case revoke_delete i m of
             (m', None) \<Rightarrow> (m', Inr ())
           | (m', Some r) \<Rightarrow> (env_do_revoke r m', Inr ())))"

definition env_revoke :: "go_error option \<Rightarrow> nat \<Rightarrow> mem_state \<Rightarrow> mem_state \<times> unit res" where
  "env_revoke ctx r m =
     (case ctx of
        Some e \<Rightarrow> (m, fail_op ''revoke'' e)
      | None \<Rightarrow> host_revoke ctx (en_id (ms_envs m ! r)) m)"

subsection \<open>The projection\<close>

definition env_replace_tree ::
    "go_error option \<Rightarrow> nat \<Rightarrow> node list \<Rightarrow> string \<Rightarrow> mem_state \<Rightarrow> mem_state \<times> unit res" where
  "env_replace_tree ctx r snap epoch m =
     (let en = ms_envs m ! r in
      case ctx of
        Some e \<Rightarrow> (m, fail_op ''replace'' e)
      | None \<Rightarrow>
     (case guard ''replace'' en of
        Some e \<Rightarrow> (m, Inl e)
      | None \<Rightarrow>
     (case replace_tree (en_files en) snap of
        Inl e \<Rightarrow> (m, fail_op ''replace'' e)
      | Inr nxt \<Rightarrow>
          (let m1 = fail_watch (Sent ErrLagged) r (set_env r (en\<lparr>en_files := nxt\<rparr>) m);
               en1 = ms_envs m1 ! r
           in (set_env r (en1\<lparr>en_log := reset_log epoch (en_log en1)\<rparr>) m1, Inr ())))))"

definition env_apply :: "go_error option \<Rightarrow> nat \<Rightarrow> mutation list \<Rightarrow> mem_state \<Rightarrow> mem_state \<times> unit res" where
  "env_apply ctx r batch m =
     (let en = ms_envs m ! r in
      case ctx of
        Some e \<Rightarrow> (m, fail_op ''apply'' e)
      | None \<Rightarrow>
     (case guard ''apply'' en of
        Some e \<Rightarrow> (m, Inl e)
      | None \<Rightarrow>
     (case apply_batch (en_files en) batch of
        Inl e \<Rightarrow> (m, fail_op ''apply'' e)
      | Inr nxt \<Rightarrow> (set_env r (en\<lparr>en_files := nxt\<rparr>) m, Inr ()))))"

definition watch_buffer :: nat where "watch_buffer = 32"

definition env_watch :: "go_error option \<Rightarrow> nat \<Rightarrow> cursor \<Rightarrow> mem_state \<Rightarrow> mem_state \<times> nat res" where
  "env_watch ctx r after m =
     (let en = ms_envs m ! r in
      case ctx of
        Some e \<Rightarrow> (m, fail_op ''watch'' e)
      | None \<Rightarrow>
     (case guard ''watch'' en of
        Some e \<Rightarrow> (m, Inl e)
      | None \<Rightarrow>
          if en_obs en \<noteq> None then (m, fail_op ''watch'' (Sent ErrBusy))
          else (case since_log (en_log en) after of
            Inl e \<Rightarrow> (m, fail_op ''watch'' e)
          | Inr (cur, replay) \<Rightarrow>
              (let b = length (ms_obs m);
                   ob = \<lparr>ob_env = r, ob_cursor = cur, ob_queue = replay,
                         ob_cap = max watch_buffer (length replay), ob_closed = False, ob_err = None\<rparr>
               in (set_env r (en\<lparr>en_obs := Some b\<rparr>) (m\<lparr>ms_obs := ms_obs m @ [ob]\<rparr>), Inr b)))))"

definition env_open :: "go_error option \<Rightarrow> nat \<Rightarrow> string \<Rightarrow> mem_state \<Rightarrow> bytes res" where
  "env_open ctx r path m =
     (let en = ms_envs m ! r in
      case ctx of
        Some e \<Rightarrow> fail_op ''open'' e
      | None \<Rightarrow>
     (case validate_path path of
        Some e \<Rightarrow> fail_op ''open'' e
      | None \<Rightarrow>
     (case guard ''open'' en of
        Some e \<Rightarrow> Inl e
      | None \<Rightarrow>
     (case en_files en path of
        None \<Rightarrow> fail_op ''open'' (Sent ErrNotFound)
      | Some ent \<Rightarrow>
          if tn_kind ent \<noteq> KindFile then fail_op ''open'' (Sent ErrNotFound)
          else Inr (tn_data ent)))))"

subsection \<open>Guest changes\<close>

text \<open>
  The channel send of \<open>emit\<close> never waits: a full buffer fails the observation. The event is
  in the replay log either way.
\<close>

definition emit :: "event \<Rightarrow> nat \<Rightarrow> mem_state \<Rightarrow> mem_state" where
  "emit ev r m =
     (let en = ms_envs m ! r;
          (log', ev') = append_log (en_log en) ev;
          m1 = set_env r (en\<lparr>en_log := log'\<rparr>) m
      in case en_obs en of
           None \<Rightarrow> m1
         | Some b \<Rightarrow>
             (let ob = ms_obs m1 ! b
              in if length (ob_queue ob) < ob_cap ob
                 then set_obs b (ob\<lparr>ob_queue := ob_queue ob @ [ev']\<rparr>) m1
                 else fail_watch (Sent ErrLagged) r m1))"

definition guest_event :: "op \<Rightarrow> string \<Rightarrow> string \<Rightarrow> event" where
  "guest_event op path from = \<lparr>ev_cursor = '''', ev_op = op, ev_path = path, ev_from = from\<rparr>"

definition host_grant :: "grant_id \<Rightarrow> mem_state \<Rightarrow> nat res" where
  "host_grant i m =
     (case map_of (ms_grants m) i of
        None \<Rightarrow> fail_op ''guest'' (Sent ErrRevoked)
      | Some r \<Rightarrow> Inr r)"

definition env_write_guest :: "nat \<Rightarrow> string \<Rightarrow> bytes \<Rightarrow> mem_state \<Rightarrow> mem_state \<times> unit res" where
  "env_write_guest r path data m =
     (let en = ms_envs m ! r in
      case guard ''guest'' en of
        Some e \<Rightarrow> (m, Inl e)
      | None \<Rightarrow>
          (let existed = en_files en path \<noteq> None;
               n = \<lparr>tn_kind = KindFile, tn_version = ''guest'', tn_data = data\<rparr>;
               op = (if existed then OpReplace else OpCreate)
           in (emit (guest_event op path '''') r
                 (set_env r (en\<lparr>en_files := (en_files en)(path \<mapsto> n)\<rparr>) m), Inr ())))"

definition env_remove_guest :: "nat \<Rightarrow> string \<Rightarrow> mem_state \<Rightarrow> mem_state \<times> unit res" where
  "env_remove_guest r path m =
     (let en = ms_envs m ! r in
      case guard ''guest'' en of
        Some e \<Rightarrow> (m, Inl e)
      | None \<Rightarrow>
          if en_files en path = None then (m, fail_op ''guest'' (Sent ErrNotFound))
          else (emit (guest_event OpDelete path '''') r
                  (set_env r (en\<lparr>en_files := (en_files en)(path := None)\<rparr>) m), Inr ()))"

definition env_move_guest :: "nat \<Rightarrow> string \<Rightarrow> string \<Rightarrow> mem_state \<Rightarrow> mem_state \<times> unit res" where
  "env_move_guest r from to m =
     (let en = ms_envs m ! r in
      case guard ''guest'' en of
        Some e \<Rightarrow> (m, Inl e)
      | None \<Rightarrow>
     (case en_files en from of
        None \<Rightarrow> (m, fail_op ''guest'' (Sent ErrNotFound))
      | Some ent \<Rightarrow>
          if en_files en to \<noteq> None then (m, fail_op ''guest'' (Sent ErrConflict))
          else (emit (guest_event OpMove to from) r
                  (set_env r (en\<lparr>en_files := ((en_files en)(from := None))(to \<mapsto> ent)\<rparr>) m), Inr ())))"

text \<open>
  The exported methods check their arguments, take the host's lock for the lookup, and then
  the environment's.
\<close>

definition write_guest_check :: "go_error option \<Rightarrow> string \<Rightarrow> bytes \<Rightarrow> go_error option" where
  "write_guest_check ctx path data =
     (case ctx of
        Some e \<Rightarrow> Some (OpError ''guest'' e)
      | None \<Rightarrow>
     (case validate_path path of
        Some e \<Rightarrow> Some (OpError ''guest'' e)
      | None \<Rightarrow> if length data > max_file_bytes then Some (OpError ''guest'' (Sent ErrTooLarge)) else None))"

definition host_write_guest ::
    "go_error option \<Rightarrow> grant_id \<Rightarrow> string \<Rightarrow> bytes \<Rightarrow> mem_state \<Rightarrow> mem_state \<times> unit res" where
  "host_write_guest ctx i path data m =
     (case write_guest_check ctx path data of
        Some e \<Rightarrow> (m, Inl e)
      | None \<Rightarrow>
     (case host_grant i m of Inl e \<Rightarrow> (m, Inl e) | Inr r \<Rightarrow> env_write_guest r path data m))"

definition host_remove_guest ::
    "go_error option \<Rightarrow> grant_id \<Rightarrow> string \<Rightarrow> mem_state \<Rightarrow> mem_state \<times> unit res" where
  "host_remove_guest ctx i path m =
     (case ctx of
        Some e \<Rightarrow> (m, fail_op ''guest'' e)
      | None \<Rightarrow>
     (case validate_path path of
        Some e \<Rightarrow> (m, fail_op ''guest'' e)
      | None \<Rightarrow>
     (case host_grant i m of Inl e \<Rightarrow> (m, Inl e) | Inr r \<Rightarrow> env_remove_guest r path m)))"

definition host_move_guest ::
    "go_error option \<Rightarrow> grant_id \<Rightarrow> string \<Rightarrow> string \<Rightarrow> mem_state \<Rightarrow> mem_state \<times> unit res" where
  "host_move_guest ctx i from to m =
     (case ctx of
        Some e \<Rightarrow> (m, fail_op ''guest'' e)
      | None \<Rightarrow>
     (case validate_path from of
        Some e \<Rightarrow> (m, fail_op ''guest'' e)
      | None \<Rightarrow>
     (case validate_path to of
        Some e \<Rightarrow> (m, fail_op ''guest'' e)
      | None \<Rightarrow>
     (case host_grant i m of Inl e \<Rightarrow> (m, Inl e) | Inr r \<Rightarrow> env_move_guest r from to m))))"

subsection \<open>Terminal methods\<close>

text \<open>\<open>cap\<close> is the length of the caller's buffer; a \<open>Read\<close> with nothing to report waits.\<close>

definition term_read :: "nat \<Rightarrow> nat \<Rightarrow> mem_state \<Rightarrow> (mem_state \<times> bytes res) option" where
  "term_read cap t m =
     (let x = ms_terms m ! t in
      if te_buf x = [] \<and> \<not> te_closed x \<and> te_dead x = None then None
      else Some
        (case te_dead x of
           Some e \<Rightarrow> (m, fail_op ''read'' e)
         | None \<Rightarrow>
             if te_buf x = [] then (m, Inl IoEOF)
             else (set_term t (x\<lparr>te_buf := drop cap (te_buf x)\<rparr>) m, Inr (take cap (te_buf x)))))"

definition term_write :: "bytes \<Rightarrow> nat \<Rightarrow> mem_state \<Rightarrow> mem_state \<times> nat res" where
  "term_write p t m =
     (let x = ms_terms m ! t in
      case te_dead x of
        Some e \<Rightarrow> (m, fail_op ''write'' e)
      | None \<Rightarrow>
          if te_closed x then (m, fail_op ''write'' (Sent ErrClosed))
          else (set_term t (x\<lparr>te_buf := te_buf x @ p\<rparr>) m, Inr (length p)))"

definition term_resize :: "go_error option \<Rightarrow> window \<Rightarrow> nat \<Rightarrow> mem_state \<Rightarrow> mem_state \<times> unit res" where
  "term_resize ctx win t m =
     (let x = ms_terms m ! t in
      case ctx of
        Some e \<Rightarrow> (m, fail_op ''resize'' e)
      | None \<Rightarrow>
     (case te_dead x of
        Some e \<Rightarrow> (m, fail_op ''resize'' e)
      | None \<Rightarrow>
          if te_closed x then (m, fail_op ''resize'' (Sent ErrClosed))
          else (set_term t (x\<lparr>te_win := default_window win\<rparr>) m, Inr ())))"

definition term_close :: "nat \<Rightarrow> mem_state \<Rightarrow> mem_state \<times> unit res" where
  "term_close t m =
     (let x = ms_terms m ! t in
      if te_closed x then (m, Inr ()) else (set_term t (x\<lparr>te_closed := True\<rparr>) m, Inr ()))"

subsection \<open>Observation methods\<close>

text \<open>
  \<open>Next\<close> looks at the error, and then selects between the context and the channel; when both
  are ready the runtime picks, \<open>pick_ctx\<close>. The two halves are separate sections.
\<close>

definition next_check :: "nat \<Rightarrow> mem_state \<Rightarrow> go_error option" where
  "next_check b m = map_option (OpError ''watch'') (ob_err (ms_obs m ! b))"

definition next_receive :: "nat \<Rightarrow> mem_state \<Rightarrow> (mem_state \<times> event res) option" where
  "next_receive b m =
     (let ob = ms_obs m ! b in
      case ob_queue ob of
        [] \<Rightarrow>
          if ob_closed ob
          then Some (m, fail_op ''watch'' (case ob_err ob of None \<Rightarrow> Sent ErrClosed | Some e \<Rightarrow> e))
          else None
      | ev # rest \<Rightarrow>
          Some (case ob_err ob of
                  Some e \<Rightarrow> (set_obs b (ob\<lparr>ob_queue := rest\<rparr>) m, fail_op ''watch'' e)
                | None \<Rightarrow> (set_obs b (ob\<lparr>ob_queue := rest, ob_cursor := ev_cursor ev\<rparr>) m, Inr ev)))"

definition next_select :: "go_error option \<Rightarrow> bool \<Rightarrow> nat \<Rightarrow> mem_state \<Rightarrow> (mem_state \<times> event res) option" where
  "next_select ctx pick_ctx b m =
     (case (ctx, next_receive b m) of
        (Some e, None) \<Rightarrow> Some (m, fail_op ''watch'' e)
      | (Some e, Some r) \<Rightarrow> if pick_ctx then Some (m, fail_op ''watch'' e) else Some r
      | (None, r) \<Rightarrow> r)"

definition obs_next :: "go_error option \<Rightarrow> bool \<Rightarrow> nat \<Rightarrow> mem_state \<Rightarrow> (mem_state \<times> event res) option" where
  "obs_next ctx pick_ctx b m =
     (case next_check b m of
        Some e \<Rightarrow> Some (m, Inl e)
      | None \<Rightarrow> next_select ctx pick_ctx b m)"

definition obs_close :: "nat \<Rightarrow> mem_state \<Rightarrow> mem_state \<times> unit res" where
  "obs_close b m =
     (let r = ob_env (ms_obs m ! b) in
      if en_obs (ms_envs m ! r) = Some b then (fail_watch (Sent ErrClosed) r m, Inr ())
      else (m, Inr ()))"

end
