(* ===== verification/Memory_Inv.thy ===== *)
theory Memory_Inv
  imports Memory_Host
begin

text \<open>
  The memory host under any interleaving of its callers: the step relation of its locked
  sections, the invariant they keep, and the properties of whole runs. A step is one
  locked section of one call, with arbitrary arguments; \<open>Host.Revoke\<close> and the guest
  writes, which lock twice, are two steps, so other calls may run between them.
\<close>

subsection \<open>Steps\<close>

text \<open>
  The guest steps ask that the generation has not used up its \<open>uint64\<close> of sequence
  numbers. \<open>do_revoke\<close> runs on the environment that \<open>delete\<close> took out of the grants.
\<close>

inductive mstep :: "mem_state \<Rightarrow> mem_state \<Rightarrow> bool" where
  ensure: "epoch_ok ep \<Longrightarrow> mstep m (fst (host_ensure ctx sp ep m))"
| delete: "mstep m (fst (revoke_delete i m))"
| do_revoke: "r < length (ms_envs m) \<Longrightarrow> r \<notin> snd ` set (ms_grants m) \<Longrightarrow> mstep m (env_do_revoke r m)"
| attach: "r < length (ms_envs m) \<Longrightarrow> mstep m (fst (env_attach ctx r win m))"
| freeze: "r < length (ms_envs m) \<Longrightarrow> mstep m (fst (env_freeze ctx r m))"
| thaw: "r < length (ms_envs m) \<Longrightarrow> mstep m (fst (env_thaw ctx r m))"
| replace: "r < length (ms_envs m) \<Longrightarrow> epoch_ok ep \<Longrightarrow> mstep m (fst (env_replace_tree ctx r snap ep m))"
| apply_muts: "r < length (ms_envs m) \<Longrightarrow> mstep m (fst (env_apply ctx r batch m))"
| watch: "r < length (ms_envs m) \<Longrightarrow> mstep m (fst (env_watch ctx r after m))"
| write_guest: "r < length (ms_envs m) \<Longrightarrow> wl_next (en_log (ms_envs m ! r)) \<noteq> - 1 \<Longrightarrow>
    valid_path path \<Longrightarrow> length data \<le> max_file_bytes \<Longrightarrow> mstep m (fst (env_write_guest r path data m))"
| remove_guest: "r < length (ms_envs m) \<Longrightarrow> wl_next (en_log (ms_envs m ! r)) \<noteq> - 1 \<Longrightarrow>
    mstep m (fst (env_remove_guest r path m))"
| move_guest: "r < length (ms_envs m) \<Longrightarrow> wl_next (en_log (ms_envs m ! r)) \<noteq> - 1 \<Longrightarrow>
    valid_path to \<Longrightarrow> mstep m (fst (env_move_guest r from to m))"
| t_read: "t < length (ms_terms m) \<Longrightarrow> term_read cap t m = Some (m', res) \<Longrightarrow> mstep m m'"
| t_write: "t < length (ms_terms m) \<Longrightarrow> mstep m (fst (term_write p t m))"
| t_resize: "t < length (ms_terms m) \<Longrightarrow> mstep m (fst (term_resize ctx win t m))"
| t_close: "t < length (ms_terms m) \<Longrightarrow> mstep m (fst (term_close t m))"
| receive: "b < length (ms_obs m) \<Longrightarrow> next_select ctx pick b m = Some (m', ev) \<Longrightarrow> mstep m m'"
| obs_close: "b < length (ms_obs m) \<Longrightarrow> mstep m (fst (obs_close b m))"

abbreviation mem_run :: "mem_state \<Rightarrow> mem_state \<Rightarrow> bool" where
  "mem_run \<equiv> mstep\<^sup>*\<^sup>*"

subsection \<open>The invariant\<close>

text \<open>A live observation: its queue is the rest of the history after its cursor.\<close>

definition tracks :: "watch_log \<Rightarrow> event list \<Rightarrow> observation \<Rightarrow> bool" where
  "tracks l h ob \<longleftrightarrow>
     (\<exists>k \<le> length h. cursor_at l k (ob_cursor ob) \<and> ob_queue ob = drop k h)"

definition obs_live :: "observation \<Rightarrow> bool" where
  "obs_live ob \<longleftrightarrow> ob_err ob = None \<and> \<not> ob_closed ob \<and>
     length (ob_queue ob) \<le> ob_cap ob \<and> watch_buffer \<le> ob_cap ob \<and> ob_cap ob \<le> default_capacity"

definition term_own :: "terminal list \<Rightarrow> nat \<Rightarrow> nat option \<Rightarrow> bool" where
  "term_own terms r tr \<longleftrightarrow> (case tr of None \<Rightarrow> True | Some t \<Rightarrow> t < length terms \<and> te_env (terms ! t) = r)"

definition log_own :: "observation list \<Rightarrow> nat \<Rightarrow> watch_log \<Rightarrow> nat option \<Rightarrow> bool" where
  "log_own obs r l br \<longleftrightarrow>
     wl_capacity l = default_capacity \<and>
     (\<exists>h. log_rep l h \<and>
        (case br of
           None \<Rightarrow> True
         | Some b \<Rightarrow> b < length obs \<and> ob_env (obs ! b) = r \<and> obs_live (obs ! b) \<and> tracks l h (obs ! b)))"

definition env_ok :: "terminal list \<Rightarrow> observation list \<Rightarrow> nat \<Rightarrow> environment \<Rightarrow> bool" where
  "env_ok terms obs r en \<longleftrightarrow>
     (en_revoked en \<longrightarrow> \<not> en_frozen en) \<and>
     (en_revoked en \<or> en_frozen en \<longrightarrow> en_term en = None \<and> en_obs en = None) \<and>
     snap_wf (en_files en) \<and> term_own terms r (en_term en) \<and> log_own obs r (en_log en) (en_obs en)"

definition term_ok :: "environment list \<Rightarrow> nat \<Rightarrow> terminal \<Rightarrow> bool" where
  "term_ok envs t x \<longleftrightarrow>
     te_env x < length envs \<and> (\<not> finished x \<longrightarrow> en_term (envs ! te_env x) = Some t)"

definition obs_ok :: "environment list \<Rightarrow> nat \<Rightarrow> observation \<Rightarrow> bool" where
  "obs_ok envs b x \<longleftrightarrow>
     ob_env x < length envs \<and> (ob_closed x \<longleftrightarrow> ob_err x \<noteq> None) \<and>
     (ob_err x = None \<longrightarrow> en_obs (envs ! ob_env x) = Some b)"

definition grant_ok :: "environment list \<Rightarrow> grant_id \<times> nat \<Rightarrow> bool" where
  "grant_ok envs g \<longleftrightarrow>
     snd g < length envs \<and> en_id (envs ! snd g) = fst g \<and> \<not> en_revoked (envs ! snd g)"

definition mem_inv :: "mem_state \<Rightarrow> bool" where
  "mem_inv m \<longleftrightarrow>
     1 \<le> ms_slots m \<and> distinct (map fst (ms_grants m)) \<and>
     int (length (ms_grants m)) \<le> ms_slots m \<and>
     (\<forall>g \<in> set (ms_grants m). grant_ok (ms_envs m) g) \<and>
     (\<forall>r < length (ms_envs m). env_ok (ms_terms m) (ms_obs m) r (ms_envs m ! r)) \<and>
     (\<forall>t < length (ms_terms m). term_ok (ms_envs m) t (ms_terms m ! t)) \<and>
     (\<forall>b < length (ms_obs m). obs_ok (ms_envs m) b (ms_obs m ! b))"

lemma mem_inv_new: "mem_inv (host_new images slots unusable)"
  by (simp add: mem_inv_def host_new_def)

lemma term_own_None [simp]: "term_own terms r None"
  by (simp add: term_own_def)

lemma log_own_None: "log_own obs r l br \<Longrightarrow> log_own obs' r l None"
  by (auto simp: log_own_def)

lemma log_ownI: "log_rep l h \<Longrightarrow> wl_capacity l = default_capacity \<Longrightarrow> log_own obs r l None"
  by (auto simp: log_own_def)

lemma env_okD:
  assumes "mem_inv m" and "r < length (ms_envs m)"
  shows "env_ok (ms_terms m) (ms_obs m) r (ms_envs m ! r)"
  using assms by (simp add: mem_inv_def)

subsection \<open>Changing one environment and its own objects\<close>

text \<open>
  The frame rule of the invariant. A step that changes environment \<open>r\<close>, and of the other
  stores only objects that belong to \<open>r\<close>, keeps the invariant when \<open>r\<close> and those objects
  are in order afterwards.
\<close>

lemma mem_inv_local:
  assumes inv: "mem_inv m" and r: "r < length (ms_envs m)"
    and envs: "ms_envs m' = (ms_envs m)[r := en']"
    and same: "ms_slots m' = ms_slots m" "ms_grants m' = ms_grants m"
    and id: "en_id en' = en_id (ms_envs m ! r)"
    and rev: "en_revoked en' \<Longrightarrow> en_revoked (ms_envs m ! r) \<or> r \<notin> snd ` set (ms_grants m)"
    and lens: "length (ms_terms m) \<le> length (ms_terms m')" "length (ms_obs m) \<le> length (ms_obs m')"
    and terms: "\<And>t. t < length (ms_terms m) \<Longrightarrow> te_env (ms_terms m ! t) \<noteq> r \<Longrightarrow>
      ms_terms m' ! t = ms_terms m ! t"
    and obs: "\<And>b. b < length (ms_obs m) \<Longrightarrow> ob_env (ms_obs m ! b) \<noteq> r \<Longrightarrow> ms_obs m' ! b = ms_obs m ! b"
    and own_terms: "\<And>t. t < length (ms_terms m') \<Longrightarrow>
      (t < length (ms_terms m) \<Longrightarrow> te_env (ms_terms m ! t) = r) \<Longrightarrow>
      te_env (ms_terms m' ! t) = r \<and> (\<not> finished (ms_terms m' ! t) \<longrightarrow> en_term en' = Some t)"
    and own_obs: "\<And>b. b < length (ms_obs m') \<Longrightarrow>
      (b < length (ms_obs m) \<Longrightarrow> ob_env (ms_obs m ! b) = r) \<Longrightarrow>
      ob_env (ms_obs m' ! b) = r \<and> (ob_closed (ms_obs m' ! b) \<longleftrightarrow> ob_err (ms_obs m' ! b) \<noteq> None) \<and>
      (ob_err (ms_obs m' ! b) = None \<longrightarrow> en_obs en' = Some b)"
    and ok: "env_ok (ms_terms m') (ms_obs m') r en'"
  shows "mem_inv m'"
proof -
  have other: "env_ok (ms_terms m') (ms_obs m') s (ms_envs m ! s)"
    if s: "s < length (ms_envs m)" "s \<noteq> r" for s
  proof -
    have e: "env_ok (ms_terms m) (ms_obs m) s (ms_envs m ! s)" using inv s by (simp add: mem_inv_def)
    have "ms_terms m' ! t = ms_terms m ! t \<and> t < length (ms_terms m')"
      if "t < length (ms_terms m)" "te_env (ms_terms m ! t) = s" for t
      using terms [of t] that s lens by auto
    moreover have "ms_obs m' ! b = ms_obs m ! b \<and> b < length (ms_obs m')"
      if "b < length (ms_obs m)" "ob_env (ms_obs m ! b) = s" for b
      using obs [of b] that s lens by auto
    ultimately show ?thesis using e by (auto simp: env_ok_def term_own_def log_own_def split: option.splits) blast?
  qed
  have "term_ok (ms_envs m') t (ms_terms m' ! t)" if t: "t < length (ms_terms m')" for t
  proof (cases "t < length (ms_terms m) \<and> te_env (ms_terms m ! t) \<noteq> r")
    case True
    then have "term_ok (ms_envs m) t (ms_terms m ! t)" using inv by (simp add: mem_inv_def)
    with True terms [of t] show ?thesis by (simp add: term_ok_def envs)
  next
    case False
    with own_terms [OF t] r show ?thesis by (auto simp: term_ok_def envs)
  qed
  moreover have "obs_ok (ms_envs m') b (ms_obs m' ! b)" if b: "b < length (ms_obs m')" for b
  proof (cases "b < length (ms_obs m) \<and> ob_env (ms_obs m ! b) \<noteq> r")
    case True
    then have "obs_ok (ms_envs m) b (ms_obs m ! b)" using inv by (simp add: mem_inv_def)
    with True obs [of b] show ?thesis by (simp add: obs_ok_def envs)
  next
    case False
    with own_obs [OF b] r show ?thesis by (auto simp: obs_ok_def envs)
  qed
  moreover have "grant_ok (ms_envs m') g" if "g \<in> set (ms_grants m)" for g
    using inv that id rev r by (cases "snd g = r") (auto simp: mem_inv_def grant_ok_def envs image_iff)
  moreover have "env_ok (ms_terms m') (ms_obs m') s (ms_envs m' ! s)" if "s < length (ms_envs m')" for s
    using other [of s] ok that by (cases "s = r") (auto simp: envs)
  ultimately show ?thesis using inv by (simp add: mem_inv_def same)
qed

subsection \<open>What the primitives change\<close>

lemma store_simps [simp]:
  "ms_envs (set_env r e m) = (ms_envs m)[r := e]" "ms_terms (set_env r e m) = ms_terms m"
  "ms_obs (set_env r e m) = ms_obs m" "ms_grants (set_env r e m) = ms_grants m"
  "ms_slots (set_env r e m) = ms_slots m"
  "ms_envs (set_term t x m) = ms_envs m" "ms_terms (set_term t x m) = (ms_terms m)[t := x]"
  "ms_obs (set_term t x m) = ms_obs m" "ms_grants (set_term t x m) = ms_grants m"
  "ms_slots (set_term t x m) = ms_slots m"
  "ms_envs (set_obs b y m) = ms_envs m" "ms_terms (set_obs b y m) = ms_terms m"
  "ms_obs (set_obs b y m) = (ms_obs m)[b := y]" "ms_grants (set_obs b y m) = ms_grants m"
  "ms_slots (set_obs b y m) = ms_slots m"
  by (simp_all add: set_env_def set_term_def set_obs_def)

lemma clear_id: "en_obs en = None \<Longrightarrow> en\<lparr>en_obs := None\<rparr> = en"
  by simp

lemma fail_watch_simps [simp]:
  "ms_terms (fail_watch e r m) = ms_terms m" "ms_grants (fail_watch e r m) = ms_grants m"
  "ms_slots (fail_watch e r m) = ms_slots m"
  "ms_envs (fail_watch e r m) = (ms_envs m)[r := (ms_envs m ! r)\<lparr>en_obs := None\<rparr>]"
  "ms_obs (fail_watch e r m) =
     (case en_obs (ms_envs m ! r) of None \<Rightarrow> ms_obs m | Some b \<Rightarrow> (ms_obs m)[b := obs_fail e (ms_obs m ! b)])"
  by (auto simp: fail_watch_def Let_def clear_id split: option.splits)

lemma drop_term_simps [simp]:
  "ms_obs (drop_term e r m) = ms_obs m" "ms_grants (drop_term e r m) = ms_grants m"
  "ms_slots (drop_term e r m) = ms_slots m"
  "ms_envs (drop_term e r m) = (ms_envs m)[r := (ms_envs m ! r)\<lparr>en_term := None\<rparr>]"
  "ms_terms (drop_term e r m) =
     (case en_term (ms_envs m ! r) of None \<Rightarrow> ms_terms m
      | Some t \<Rightarrow> (ms_terms m)[t := (ms_terms m ! t)\<lparr>te_dead := Some e\<rparr>])"
  by (auto simp: drop_term_def kill_term_def Let_def split: option.splits)

lemma obs_fail_simps [simp]:
  "ob_env (obs_fail e b) = ob_env b" "ob_cursor (obs_fail e b) = ob_cursor b"
  "ob_queue (obs_fail e b) = ob_queue b" "ob_closed (obs_fail e b)"
  by (simp_all add: obs_fail_def)

lemma obs_fail_err: "ob_closed b \<longleftrightarrow> ob_err b \<noteq> None \<Longrightarrow> ob_err (obs_fail e b) \<noteq> None"
  by (simp add: obs_fail_def)

text \<open>The objects of an environment, from the invariant.\<close>

lemma own_term:
  assumes "mem_inv m" and "t < length (ms_terms m)" and "te_env (ms_terms m ! t) = r"
    and "\<not> finished (ms_terms m ! t)"
  shows "en_term (ms_envs m ! r) = Some t"
  using assms by (auto simp: mem_inv_def term_ok_def)

lemma own_obs:
  assumes "mem_inv m" and "b < length (ms_obs m)" and "ob_env (ms_obs m ! b) = r"
  shows "(ob_closed (ms_obs m ! b) \<longleftrightarrow> ob_err (ms_obs m ! b) \<noteq> None) \<and>
    (ob_err (ms_obs m ! b) = None \<longrightarrow> en_obs (ms_envs m ! r) = Some b)"
  using assms by (auto simp: mem_inv_def obs_ok_def)

lemma own_obs_env: "mem_inv m \<Longrightarrow> b < length (ms_obs m) \<Longrightarrow> ob_env (ms_obs m ! b) < length (ms_envs m)"
  by (simp add: mem_inv_def obs_ok_def)

lemma own_term_env: "mem_inv m \<Longrightarrow> t < length (ms_terms m) \<Longrightarrow> te_env (ms_terms m ! t) < length (ms_envs m)"
  by (simp add: mem_inv_def term_ok_def)

lemma cur_term:
  assumes "mem_inv m" and "r < length (ms_envs m)" and "en_term (ms_envs m ! r) = Some t"
  shows "t < length (ms_terms m) \<and> te_env (ms_terms m ! t) = r"
  using env_okD [OF assms(1,2)] assms(3) by (simp add: env_ok_def term_own_def)

lemma cur_obs:
  assumes "mem_inv m" and "r < length (ms_envs m)" and "en_obs (ms_envs m ! r) = Some b"
  shows "b < length (ms_obs m) \<and> ob_env (ms_obs m ! b) = r \<and> obs_live (ms_obs m ! b)"
  using env_okD [OF assms(1,2)] assms(3) by (auto simp: env_ok_def log_own_def)

lemma finished_dead [simp]: "finished (x\<lparr>te_dead := Some e\<rparr>)"
  by (simp add: finished_def)

lemma stop_inv:
  assumes inv: "mem_inv m" and r: "r < length (ms_envs m)"
    and en': "en' = (ms_envs m ! r)\<lparr>en_frozen := f, en_revoked := v\<rparr>" and fv: "v \<Longrightarrow> \<not> f"
    and rev: "v \<Longrightarrow> en_revoked (ms_envs m ! r) \<or> r \<notin> snd ` set (ms_grants m)"
  shows "mem_inv (fail_watch e2 r (drop_term e1 r (set_env r en' m)))" (is "mem_inv ?m")
proof (rule mem_inv_local [OF inv r, where en' = "en'\<lparr>en_term := None, en_obs := None\<rparr>"])
  show "ms_envs ?m = (ms_envs m)[r := en'\<lparr>en_term := None, en_obs := None\<rparr>]" using r by simp
  show "length (ms_terms m) \<le> length (ms_terms ?m)" "length (ms_obs m) \<le> length (ms_obs ?m)"
    using r by (auto split: option.splits)
  show "ms_terms ?m ! t = ms_terms m ! t"
    if "t < length (ms_terms m)" "te_env (ms_terms m ! t) \<noteq> r" for t
    using that r cur_term [OF inv r] by (auto simp: en' nth_list_update split: option.splits)
  show "ms_obs ?m ! b = ms_obs m ! b"
    if "b < length (ms_obs m)" "ob_env (ms_obs m ! b) \<noteq> r" for b
    using that r cur_obs [OF inv r] by (auto simp: en' nth_list_update split: option.splits)
  show "te_env (ms_terms ?m ! t) = r \<and>
      (\<not> finished (ms_terms ?m ! t) \<longrightarrow> en_term (en'\<lparr>en_term := None, en_obs := None\<rparr>) = Some t)"
    if "t < length (ms_terms ?m)" "t < length (ms_terms m) \<Longrightarrow> te_env (ms_terms m ! t) = r" for t
    using that r own_term [OF inv, of t r]
    by (cases "en_term (ms_envs m ! r) = Some t") (auto simp: en' nth_list_update split: option.splits)
  show "ob_env (ms_obs ?m ! b) = r \<and> (ob_closed (ms_obs ?m ! b) \<longleftrightarrow> ob_err (ms_obs ?m ! b) \<noteq> None) \<and>
      (ob_err (ms_obs ?m ! b) = None \<longrightarrow> en_obs (en'\<lparr>en_term := None, en_obs := None\<rparr>) = Some b)"
    if "b < length (ms_obs ?m)" "b < length (ms_obs m) \<Longrightarrow> ob_env (ms_obs m ! b) = r" for b
    using that r own_obs [OF inv, of b r] obs_fail_err [of "ms_obs m ! b"]
    by (cases "en_obs (ms_envs m ! r) = Some b") (auto simp: en' nth_list_update split: option.splits)
  show "env_ok (ms_terms ?m) (ms_obs ?m) r (en'\<lparr>en_term := None, en_obs := None\<rparr>)"
    using env_okD [OF inv r] fv by (auto simp: env_ok_def en' intro: log_own_None)
qed (use rev in \<open>simp_all add: en'\<close>)

lemma freeze_inv: "mem_inv m \<Longrightarrow> r < length (ms_envs m) \<Longrightarrow> mem_inv (fst (env_freeze ctx r m))"
  by (auto simp: env_freeze_def Let_def split: option.splits intro!: stop_inv [where f = True and v = False])

lemma do_revoke_inv:
  "mem_inv m \<Longrightarrow> r < length (ms_envs m) \<Longrightarrow> r \<notin> snd ` set (ms_grants m) \<Longrightarrow> mem_inv (env_do_revoke r m)"
  unfolding env_do_revoke_def by (rule stop_inv [where f = False and v = True]) auto

text \<open>A step that leaves terminals and observations alone.\<close>

lemma plain_inv:
  assumes inv: "mem_inv m" and r: "r < length (ms_envs m)"
    and same: "en_id en' = en_id (ms_envs m ! r)" "en_revoked en' = en_revoked (ms_envs m ! r)"
      "en_term en' = en_term (ms_envs m ! r)" "en_obs en' = en_obs (ms_envs m ! r)"
    and ok: "env_ok (ms_terms m) (ms_obs m) r en'"
  shows "mem_inv (set_env r en' m)"
  by (rule mem_inv_local [OF inv r, where en' = en'])
    (use ok in \<open>auto simp: same dest: own_term [OF inv] own_obs [OF inv]\<close>)

lemma env_ok_files: "env_ok T B r en \<Longrightarrow> snap_wf f \<Longrightarrow> env_ok T B r (en\<lparr>en_files := f\<rparr>)"
  by (simp add: env_ok_def)

lemma env_ok_thaw: "env_ok T B r en \<Longrightarrow> env_ok T B r (en\<lparr>en_frozen := False\<rparr>)"
  by (auto simp: env_ok_def)

lemma env_ok_wf: "env_ok T B r en \<Longrightarrow> snap_wf (en_files en)"
  by (simp add: env_ok_def)

lemma thaw_inv: "mem_inv m \<Longrightarrow> r < length (ms_envs m) \<Longrightarrow> mem_inv (fst (env_thaw ctx r m))"
  by (auto simp: env_thaw_def Let_def env_ok_thaw env_okD split: option.splits intro!: plain_inv)

lemma files_inv:
  "mem_inv m \<Longrightarrow> r < length (ms_envs m) \<Longrightarrow> snap_wf f \<Longrightarrow>
   mem_inv (set_env r ((ms_envs m ! r)\<lparr>en_files := f\<rparr>) m)"
  by (rule plain_inv) (simp_all add: env_ok_files env_okD)

lemma files_wf: "mem_inv m \<Longrightarrow> r < length (ms_envs m) \<Longrightarrow> snap_wf (en_files (ms_envs m ! r))"
  by (rule env_ok_wf [OF env_okD])

lemma apply_inv:
  assumes "mem_inv m" and "r < length (ms_envs m)"
  shows "mem_inv (fst (env_apply ctx r batch m))"
  using files_inv [OF assms apply_batch_wf [OF _ files_wf [OF assms]]] assms(1)
  by (simp add: env_apply_def Let_def split: option.split sum.split)

text \<open>Failing the observation alone, as the lag paths and \<open>Close\<close> do.\<close>

lemma fail_watch_inv:
  assumes inv: "mem_inv m" and r: "r < length (ms_envs m)"
  shows "mem_inv (fail_watch e r m)" (is "mem_inv ?m")
proof (rule mem_inv_local [OF inv r, where en' = "(ms_envs m ! r)\<lparr>en_obs := None\<rparr>"])
  show "length (ms_obs m) \<le> length (ms_obs ?m)" by (auto split: option.splits)
  show "ms_obs ?m ! b = ms_obs m ! b" if "b < length (ms_obs m)" "ob_env (ms_obs m ! b) \<noteq> r" for b
    using that r cur_obs [OF inv r] by (auto simp: nth_list_update split: option.splits)
  show "ob_env (ms_obs ?m ! b) = r \<and> (ob_closed (ms_obs ?m ! b) \<longleftrightarrow> ob_err (ms_obs ?m ! b) \<noteq> None) \<and>
      (ob_err (ms_obs ?m ! b) = None \<longrightarrow> en_obs ((ms_envs m ! r)\<lparr>en_obs := None\<rparr>) = Some b)"
    if "b < length (ms_obs ?m)" "b < length (ms_obs m) \<Longrightarrow> ob_env (ms_obs m ! b) = r" for b
    using that r own_obs [OF inv, of b r] obs_fail_err [of "ms_obs m ! b"]
    by (cases "en_obs (ms_envs m ! r) = Some b") (auto simp: nth_list_update split: option.splits)
  show "env_ok (ms_terms ?m) (ms_obs ?m) r ((ms_envs m ! r)\<lparr>en_obs := None\<rparr>)"
    using env_okD [OF inv r] by (auto simp: env_ok_def intro: log_own_None)
  show "te_env (ms_terms ?m ! t) = r \<and>
      (\<not> finished (ms_terms ?m ! t) \<longrightarrow> en_term ((ms_envs m ! r)\<lparr>en_obs := None\<rparr>) = Some t)"
    if "t < length (ms_terms ?m)" "t < length (ms_terms m) \<Longrightarrow> te_env (ms_terms m ! t) = r" for t
    using that own_term [OF inv, of t r] by simp
qed simp_all

lemma obs_close_inv: "mem_inv m \<Longrightarrow> b < length (ms_obs m) \<Longrightarrow> mem_inv (fst (obs_close b m))"
  using own_obs_env [of m b] by (auto simp: obs_close_def Let_def intro!: fail_watch_inv)

text \<open>Replacing the log of an environment that nobody observes.\<close>

lemma log_inv:
  assumes "mem_inv m" and "r < length (ms_envs m)" and "en_obs (ms_envs m ! r) = None"
    and "log_rep l h" and "wl_capacity l = default_capacity"
  shows "mem_inv (set_env r ((ms_envs m ! r)\<lparr>en_log := l\<rparr>) m)"
  by (rule plain_inv) (use assms env_okD [OF assms(1,2)] in \<open>auto simp: env_ok_def intro: log_ownI\<close>)

lemma log_of:
  assumes "mem_inv m" and "r < length (ms_envs m)"
  obtains h where "log_rep (en_log (ms_envs m ! r)) h" "wl_capacity (en_log (ms_envs m ! r)) = default_capacity"
    "\<And>b. en_obs (ms_envs m ! r) = Some b \<Longrightarrow> tracks (en_log (ms_envs m ! r)) h (ms_obs m ! b)"
  using env_okD [OF assms] by (auto simp: env_ok_def log_own_def split: option.splits)

lemma replace_inv:
  assumes inv: "mem_inv m" and r: "r < length (ms_envs m)" and ep: "epoch_ok ep"
  shows "mem_inv (fst (env_replace_tree ctx r snap ep m))"
proof (cases "ctx = None \<and> guard ''replace'' (ms_envs m ! r) = None \<and>
    (\<exists>nxt. replace_tree (en_files (ms_envs m ! r)) snap = Inr nxt)")
  case False
  then show ?thesis using inv by (auto simp: env_replace_tree_def Let_def split: option.splits sum.splits)
next
  case True
  then obtain nxt where nxt: "replace_tree (en_files (ms_envs m ! r)) snap = Inr nxt" by blast
  let ?m1 = "fail_watch (Sent ErrLagged) r (set_env r ((ms_envs m ! r)\<lparr>en_files := nxt\<rparr>) m)"
  have inv1: "mem_inv ?m1"
    using inv r replace_tree_wf [OF nxt] by (intro fail_watch_inv files_inv) auto
  have r1: "r < length (ms_envs ?m1)" using r by simp
  obtain h where h: "log_rep (en_log (ms_envs ?m1 ! r)) h" "wl_capacity (en_log (ms_envs ?m1 ! r)) = default_capacity"
    by (rule log_of [OF inv1 r1])
  have "mem_inv (set_env r ((ms_envs ?m1 ! r)\<lparr>en_log := reset_log ep (en_log (ms_envs ?m1 ! r))\<rparr>) ?m1)"
    using inv1 r1 log_rep_reset [OF h(1) ep] h(2) r
    by (intro log_inv) (auto simp: reset_log_def)
  moreover have "fst (env_replace_tree ctx r snap ep m) =
      set_env r ((ms_envs ?m1 ! r)\<lparr>en_log := reset_log ep (en_log (ms_envs ?m1 ! r))\<rparr>) ?m1"
    using True nxt by (simp add: env_replace_tree_def Let_def)
  ultimately show ?thesis by (simp only:)
qed

subsection \<open>Guest events\<close>

lemma append_log_facts:
  assumes "append_log l ev = (l', ev')"
  shows "wl_epoch l' = wl_epoch l" "wl_capacity l' = wl_capacity l"
  using assms by (auto simp: append_log_def Let_def)

lemma wl_next_room: "log_rep l h \<Longrightarrow> wl_next l \<noteq> - 1 \<Longrightarrow> length h + 1 < 2 ^ 64"
proof -
  assume r: "log_rep l h" and ne: "wl_next l \<noteq> - 1"
  have "length h \<noteq> 2 ^ 64 - 1"
  proof
    assume "length h = 2 ^ 64 - 1"
    then have "wl_next l = word_of_nat (2 ^ 64 - 1)" using r by (simp add: log_rep_def)
    also have "(word_of_nat (2 ^ 64 - 1) :: uint64) = - 1" by simp
    finally show False using ne by simp
  qed
  moreover have "length h < 2 ^ 64" using r by (simp add: log_rep_def)
  ultimately show ?thesis by simp
qed

lemma tracks_append:
  assumes "append_log l ev = (l', ev')" and "tracks l h ob"
  shows "tracks l' (h @ [ev']) (ob\<lparr>ob_queue := ob_queue ob @ [ev']\<rparr>)"
proof -
  obtain k where "k \<le> length h" "cursor_at l k (ob_cursor ob)" "ob_queue ob = drop k h"
    using assms(2) by (auto simp: tracks_def)
  then have "k \<le> length (h @ [ev']) \<and> cursor_at l' k (ob_cursor ob) \<and> ob_queue ob @ [ev'] = drop k (h @ [ev'])"
    using append_log_facts [OF assms(1)] by (simp add: cursor_at_def)
  then show ?thesis by (auto simp: tracks_def)
qed

lemma log_obs_swap: "en\<lparr>en_log := l, en_obs := x\<rparr> = en\<lparr>en_obs := x, en_log := l\<rparr>"
  by (cases en) simp

lemma fail_watch_log:
  "r < length (ms_envs m) \<Longrightarrow>
   fail_watch e r (set_env r ((ms_envs m ! r)\<lparr>en_log := l\<rparr>) m) =
   set_env r ((ms_envs (fail_watch e r m) ! r)\<lparr>en_log := l\<rparr>) (fail_watch e r m)"
  by (auto simp: fail_watch_def Let_def set_env_def set_obs_def log_obs_swap split: option.splits)

lemma emit_inv:
  assumes inv: "mem_inv m" and r: "r < length (ms_envs m)" and room: "wl_next (en_log (ms_envs m ! r)) \<noteq> - 1"
  shows "mem_inv (emit ev r m)"
proof -
  let ?en = "ms_envs m ! r"
  obtain l' ev' where ap: "append_log (en_log ?en) ev = (l', ev')" by (cases "append_log (en_log ?en) ev")
  obtain h where h: "log_rep (en_log ?en) h" "wl_capacity (en_log ?en) = default_capacity"
    "\<And>b. en_obs ?en = Some b \<Longrightarrow> tracks (en_log ?en) h (ms_obs m ! b)"
    using log_of [OF inv r] by blast
  have h': "log_rep l' (h @ [ev'])" by (rule log_rep_append [OF h(1) wl_next_room [OF h(1) room] ap])
  have cap: "wl_capacity l' = default_capacity" using append_log_facts [OF ap] h(2) by simp
  show ?thesis
  proof (cases "en_obs ?en")
    case None
    then have "emit ev r m = set_env r (?en\<lparr>en_log := l'\<rparr>) m" by (simp add: emit_def ap)
    then show ?thesis using log_inv [OF inv r None h' cap] by simp
  next
    case (Some b)
    have b: "b < length (ms_obs m)" "ob_env (ms_obs m ! b) = r" "obs_live (ms_obs m ! b)"
      using cur_obs [OF inv r Some] by auto
    show ?thesis
    proof (cases "length (ob_queue (ms_obs m ! b)) < ob_cap (ms_obs m ! b)")
      case False
      then have "emit ev r m = fail_watch (Sent ErrLagged) r (set_env r (?en\<lparr>en_log := l'\<rparr>) m)"
        using Some by (simp add: emit_def ap)
      also have "\<dots> = set_env r ((ms_envs (fail_watch (Sent ErrLagged) r m) ! r)\<lparr>en_log := l'\<rparr>)
          (fail_watch (Sent ErrLagged) r m)" by (rule fail_watch_log [OF r])
      finally have e: "emit ev r m = set_env r ((ms_envs (fail_watch (Sent ErrLagged) r m) ! r)\<lparr>en_log := l'\<rparr>)
          (fail_watch (Sent ErrLagged) r m)" .
      have "mem_inv (set_env r ((ms_envs (fail_watch (Sent ErrLagged) r m) ! r)\<lparr>en_log := l'\<rparr>)
          (fail_watch (Sent ErrLagged) r m))"
        by (rule log_inv [OF fail_watch_inv [OF inv r] _ _ h' cap]) (use r in simp_all)
      then show ?thesis by (simp only: e)
    next
      case True
      let ?ob = "(ms_obs m ! b)\<lparr>ob_queue := ob_queue (ms_obs m ! b) @ [ev']\<rparr>"
      have e: "emit ev r m = set_obs b ?ob (set_env r (?en\<lparr>en_log := l'\<rparr>) m)" (is "_ = ?m")
        using Some True by (simp add: emit_def ap Let_def)
      have "mem_inv ?m"
      proof (rule mem_inv_local [OF inv r, where en' = "?en\<lparr>en_log := l'\<rparr>"])
        show "te_env (ms_terms ?m ! t) = r \<and>
            (\<not> finished (ms_terms ?m ! t) \<longrightarrow> en_term (?en\<lparr>en_log := l'\<rparr>) = Some t)"
          if "t < length (ms_terms ?m)" "t < length (ms_terms m) \<Longrightarrow> te_env (ms_terms m ! t) = r" for t
          using that own_term [OF inv, of t r] by simp
        show "ob_env (ms_obs ?m ! c) = r \<and> (ob_closed (ms_obs ?m ! c) \<longleftrightarrow> ob_err (ms_obs ?m ! c) \<noteq> None) \<and>
            (ob_err (ms_obs ?m ! c) = None \<longrightarrow> en_obs (?en\<lparr>en_log := l'\<rparr>) = Some c)"
          if "c < length (ms_obs ?m)" "c < length (ms_obs m) \<Longrightarrow> ob_env (ms_obs m ! c) = r" for c
          using that own_obs [OF inv, of c r] b by (cases "c = b") auto
        show "ms_obs ?m ! c = ms_obs m ! c" if "c < length (ms_obs m)" "ob_env (ms_obs m ! c) \<noteq> r" for c
          using that b by (cases "c = b") auto
        have "log_own (ms_obs ?m) r l' (Some b)"
          using h' cap b True tracks_append [OF ap h(3) [OF Some]]
          by (auto simp: log_own_def obs_live_def intro!: exI)
        then show "env_ok (ms_terms ?m) (ms_obs ?m) r (?en\<lparr>en_log := l'\<rparr>)"
          using env_okD [OF inv r] Some by (auto simp: env_ok_def)
      qed simp_all
      then show ?thesis by (simp only: e)
    qed
  qed
qed

lemma emit_files_inv:
  assumes "mem_inv m" and "r < length (ms_envs m)" and "wl_next (en_log (ms_envs m ! r)) \<noteq> - 1"
    and "snap_wf f"
  shows "mem_inv (emit ev r (set_env r ((ms_envs m ! r)\<lparr>en_files := f\<rparr>) m))"
  by (rule emit_inv) (use assms in \<open>simp_all add: files_inv\<close>)

lemma write_guest_inv:
  assumes "mem_inv m" and "r < length (ms_envs m)" and "wl_next (en_log (ms_envs m ! r)) \<noteq> - 1"
    and "valid_path path" and "length data \<le> max_file_bytes"
  shows "mem_inv (fst (env_write_guest r path data m))"
proof -
  have "node_wf \<lparr>tn_kind = KindFile, tn_version = ''guest'', tn_data = data\<rparr>"
    using assms(5) by (simp add: node_wf_def)
  from emit_files_inv [OF assms(1-3) snap_wf_upd [OF files_wf [OF assms(1,2)] assms(4) this]]
  show ?thesis using assms(1) by (simp add: env_write_guest_def Let_def split: option.split)
qed

lemma remove_guest_inv:
  assumes "mem_inv m" and "r < length (ms_envs m)" and "wl_next (en_log (ms_envs m ! r)) \<noteq> - 1"
  shows "mem_inv (fst (env_remove_guest r path m))"
  using emit_files_inv [OF assms(1-3) snap_wf_del [OF files_wf [OF assms(1,2)]]] assms(1)
  by (simp add: env_remove_guest_def Let_def split: option.split)

lemma move_guest_inv:
  assumes "mem_inv m" and "r < length (ms_envs m)" and "wl_next (en_log (ms_envs m ! r)) \<noteq> - 1"
    and "valid_path to"
  shows "mem_inv (fst (env_move_guest r from to m))"
proof -
  have wf: "snap_wf (en_files (ms_envs m ! r))" by (rule files_wf [OF assms(1,2)])
  have "mem_inv (emit ev r (set_env r ((ms_envs m ! r)
      \<lparr>en_files := ((en_files (ms_envs m ! r))(from := None))(to \<mapsto> ent)\<rparr>) m))"
    if "en_files (ms_envs m ! r) from = Some ent" for ent ev
    using snap_wf_lookup [OF wf that] wf assms(4)
    by (intro emit_files_inv assms(1-3) snap_wf_upd snap_wf_del) auto
  then show ?thesis using assms(1) by (simp add: env_move_guest_def Let_def split: option.split)
qed

subsection \<open>The other steps\<close>

lemma attach_inv:
  assumes inv: "mem_inv m" and r: "r < length (ms_envs m)"
  shows "mem_inv (fst (env_attach ctx r win m))"
proof (cases "ctx = None \<and> \<not> en_revoked (ms_envs m ! r) \<and> \<not> en_frozen (ms_envs m ! r) \<and>
    (\<forall>t. en_term (ms_envs m ! r) = Some t \<longrightarrow> finished (ms_terms m ! t))")
  case False
  then show ?thesis using inv by (auto simp: env_attach_def Let_def split: option.splits)
next
  case True
  let ?m = "set_env r ((ms_envs m ! r)\<lparr>en_term := Some (length (ms_terms m))\<rparr>)
    (m\<lparr>ms_terms := ms_terms m @ [new_terminal r win]\<rparr>)"
  have "mem_inv ?m"
  proof (rule mem_inv_local [OF inv r, where en' = "(ms_envs m ! r)\<lparr>en_term := Some (length (ms_terms m))\<rparr>"])
    show "te_env (ms_terms ?m ! t) = r \<and> (\<not> finished (ms_terms ?m ! t) \<longrightarrow>
        en_term ((ms_envs m ! r)\<lparr>en_term := Some (length (ms_terms m))\<rparr>) = Some t)"
      if "t < length (ms_terms ?m)" "t < length (ms_terms m) \<Longrightarrow> te_env (ms_terms m ! t) = r" for t
      using that own_term [OF inv, of t r] True
      by (cases "t < length (ms_terms m)") (auto simp: nth_append new_terminal_def less_Suc_eq)
    show "env_ok (ms_terms ?m) (ms_obs ?m) r ((ms_envs m ! r)\<lparr>en_term := Some (length (ms_terms m))\<rparr>)"
      using env_okD [OF inv r] True by (simp add: env_ok_def term_own_def new_terminal_def)
    show "ob_env (ms_obs ?m ! b) = r \<and> (ob_closed (ms_obs ?m ! b) \<longleftrightarrow> ob_err (ms_obs ?m ! b) \<noteq> None) \<and>
        (ob_err (ms_obs ?m ! b) = None \<longrightarrow>
         en_obs ((ms_envs m ! r)\<lparr>en_term := Some (length (ms_terms m))\<rparr>) = Some b)"
      if "b < length (ms_obs ?m)" "b < length (ms_obs m) \<Longrightarrow> ob_env (ms_obs m ! b) = r" for b
      using that own_obs [OF inv, of b r] by simp
  qed (simp_all add: nth_append)
  moreover have "fst (env_attach ctx r win m) = ?m"
    using True by (auto simp: env_attach_def Let_def split: option.splits)
  ultimately show ?thesis by simp
qed

lemma watch_inv:
  assumes inv: "mem_inv m" and r: "r < length (ms_envs m)"
  shows "mem_inv (fst (env_watch ctx r after m))"
proof (cases "ctx = None \<and> guard ''watch'' (ms_envs m ! r) = None \<and> en_obs (ms_envs m ! r) = None \<and>
    (\<exists>c q. since_log (en_log (ms_envs m ! r)) after = Inr (c, q))")
  case False
  then show ?thesis using inv by (auto simp: env_watch_def Let_def split: option.splits sum.splits)
next
  case True
  then obtain c q where s: "since_log (en_log (ms_envs m ! r)) after = Inr (c, q)" by blast
  let ?ob = "\<lparr>ob_env = r, ob_cursor = c, ob_queue = q, ob_cap = max watch_buffer (length q),
    ob_closed = False, ob_err = None\<rparr>"
  let ?en = "(ms_envs m ! r)\<lparr>en_obs := Some (length (ms_obs m))\<rparr>"
  let ?m = "set_env r ?en (m\<lparr>ms_obs := ms_obs m @ [?ob]\<rparr>)"
  obtain h where h: "log_rep (en_log (ms_envs m ! r)) h" "wl_capacity (en_log (ms_envs m ! r)) = default_capacity"
    using log_of [OF inv r] by blast
  obtain k where k: "k \<le> length h" "cursor_at (en_log (ms_envs m ! r)) k c" "q = drop k h"
    "length q \<le> default_capacity"
    using since_log_result [OF h(1) s] h(2) by metis
  have live: "obs_live ?ob"
    using k(4) by (simp add: obs_live_def watch_buffer_def default_capacity_def)
  have own: "log_own (ms_obs m @ [?ob]) r (en_log (ms_envs m ! r)) (Some (length (ms_obs m)))"
    using h k live by (auto simp: log_own_def tracks_def intro!: exI [of _ h])
  have "mem_inv ?m"
  proof (rule mem_inv_local [OF inv r, where en' = ?en])
    show "ob_env (ms_obs ?m ! b) = r \<and> (ob_closed (ms_obs ?m ! b) \<longleftrightarrow> ob_err (ms_obs ?m ! b) \<noteq> None) \<and>
        (ob_err (ms_obs ?m ! b) = None \<longrightarrow> en_obs ?en = Some b)"
      if "b < length (ms_obs ?m)" "b < length (ms_obs m) \<Longrightarrow> ob_env (ms_obs m ! b) = r" for b
      using that own_obs [OF inv, of b r] True
      by (cases "b < length (ms_obs m)") (auto simp: nth_append less_Suc_eq)
    show "te_env (ms_terms ?m ! t) = r \<and> (\<not> finished (ms_terms ?m ! t) \<longrightarrow> en_term ?en = Some t)"
      if "t < length (ms_terms ?m)" "t < length (ms_terms m) \<Longrightarrow> te_env (ms_terms m ! t) = r" for t
      using that own_term [OF inv, of t r] by simp
    show "env_ok (ms_terms ?m) (ms_obs ?m) r ?en"
      using env_okD [OF inv r] True own by (simp add: env_ok_def guard_def split: if_splits)
  qed (simp_all add: nth_append)
  moreover have "fst (env_watch ctx r after m) = ?m"
    using True s by (simp add: env_watch_def Let_def)
  ultimately show ?thesis by simp
qed

text \<open>Changes of one terminal or one observation that stays what it is to its environment.\<close>

lemma term_change_inv:
  assumes inv: "mem_inv m" and t: "t < length (ms_terms m)"
    and x: "te_env x = te_env (ms_terms m ! t)" "finished (ms_terms m ! t) \<Longrightarrow> finished x"
  shows "mem_inv (set_term t x m)"
proof (rule mem_inv_local [OF inv own_term_env [OF inv t], where en' = "ms_envs m ! te_env (ms_terms m ! t)"])
  let ?r = "te_env (ms_terms m ! t)"
  have r: "?r < length (ms_envs m)" by (rule own_term_env [OF inv t])
  show "te_env (ms_terms (set_term t x m) ! s) = ?r \<and>
      (\<not> finished (ms_terms (set_term t x m) ! s) \<longrightarrow> en_term (ms_envs m ! ?r) = Some s)"
    if "s < length (ms_terms (set_term t x m))" "s < length (ms_terms m) \<Longrightarrow> te_env (ms_terms m ! s) = ?r" for s
    using that own_term [OF inv, of s ?r] x by (cases "s = t") auto
  show "ms_terms (set_term t x m) ! s = ms_terms m ! s"
    if "s < length (ms_terms m)" "te_env (ms_terms m ! s) \<noteq> ?r" for s
    using that by (cases "s = t") auto
  show "ob_env (ms_obs (set_term t x m) ! b) = ?r \<and>
      (ob_closed (ms_obs (set_term t x m) ! b) \<longleftrightarrow> ob_err (ms_obs (set_term t x m) ! b) \<noteq> None) \<and>
      (ob_err (ms_obs (set_term t x m) ! b) = None \<longrightarrow> en_obs (ms_envs m ! ?r) = Some b)"
    if "b < length (ms_obs (set_term t x m))" "b < length (ms_obs m) \<Longrightarrow> ob_env (ms_obs m ! b) = ?r" for b
    using that own_obs [OF inv, of b ?r] by simp
  have "term_own ((ms_terms m)[t := x]) ?r tr = term_own (ms_terms m) ?r tr" for tr
    using x(1) t by (cases tr) (auto simp: term_own_def nth_list_update)
  then show "env_ok (ms_terms (set_term t x m)) (ms_obs (set_term t x m)) ?r (ms_envs m ! ?r)"
    using env_okD [OF inv r] by (simp add: env_ok_def)
qed simp_all

lemma obs_change_inv:
  assumes inv: "mem_inv m" and b: "b < length (ms_obs m)"
    and x: "ob_env x = ob_env (ms_obs m ! b)" "ob_closed x = ob_closed (ms_obs m ! b)"
      "ob_err x = ob_err (ms_obs m ! b)"
    and own: "log_own ((ms_obs m)[b := x]) (ob_env x) (en_log (ms_envs m ! ob_env x)) (en_obs (ms_envs m ! ob_env x))"
  shows "mem_inv (set_obs b x m)"
proof (rule mem_inv_local [OF inv own_obs_env [OF inv b], where en' = "ms_envs m ! ob_env (ms_obs m ! b)"])
  let ?r = "ob_env (ms_obs m ! b)"
  have r: "?r < length (ms_envs m)" by (rule own_obs_env [OF inv b])
  show "te_env (ms_terms (set_obs b x m) ! s) = ?r \<and>
      (\<not> finished (ms_terms (set_obs b x m) ! s) \<longrightarrow> en_term (ms_envs m ! ?r) = Some s)"
    if "s < length (ms_terms (set_obs b x m))" "s < length (ms_terms m) \<Longrightarrow> te_env (ms_terms m ! s) = ?r" for s
    using that own_term [OF inv, of s ?r] by simp
  show "ms_obs (set_obs b x m) ! s = ms_obs m ! s"
    if "s < length (ms_obs m)" "ob_env (ms_obs m ! s) \<noteq> ?r" for s
    using that by (cases "s = b") auto
  show "ob_env (ms_obs (set_obs b x m) ! c) = ?r \<and>
      (ob_closed (ms_obs (set_obs b x m) ! c) \<longleftrightarrow> ob_err (ms_obs (set_obs b x m) ! c) \<noteq> None) \<and>
      (ob_err (ms_obs (set_obs b x m) ! c) = None \<longrightarrow> en_obs (ms_envs m ! ?r) = Some c)"
    if "c < length (ms_obs (set_obs b x m))" "c < length (ms_obs m) \<Longrightarrow> ob_env (ms_obs m ! c) = ?r" for c
    using that own_obs [OF inv, of c ?r] x by (cases "c = b") auto
  show "env_ok (ms_terms (set_obs b x m)) (ms_obs (set_obs b x m)) ?r (ms_envs m ! ?r)"
    using env_okD [OF inv r] own by (simp add: env_ok_def x)
qed simp_all

lemma tracks_next:
  assumes "log_rep l h" and "tracks l h ob" and "ob_queue ob = ev # rest"
  shows "tracks l h (ob\<lparr>ob_queue := rest, ob_cursor := ev_cursor ev\<rparr>)"
proof -
  obtain k where k: "k \<le> length h" "ob_queue ob = drop k h" using assms(2) by (auto simp: tracks_def)
  then have lt: "k < length h" using assms(3) by (cases "k = length h") auto
  then have ev: "ev = h ! k" "rest = drop (Suc k) h"
    using k(2) assms(3) by (simp_all add: Cons_nth_drop_Suc [symmetric])
  have "cursor_at l (Suc k) (ev_cursor ev)"
    using cursor_at_pos [of l "Suc k"] wlog.rep_cursor [OF assms(1) lt] assms(1) by (simp add: ev log_rep_def)
  with ev lt show ?thesis by (auto simp: tracks_def intro!: exI [of _ "Suc k"])
qed

lemma receive_inv:
  assumes inv: "mem_inv m" and b: "b < length (ms_obs m)" and n: "next_receive b m = Some (m', res)"
  shows "mem_inv m'"
proof (cases "ob_queue (ms_obs m ! b)")
  case Nil
  with n inv show ?thesis by (auto simp: next_receive_def Let_def split: if_splits)
next
  case (Cons ev rest)
  let ?ob = "ms_obs m ! b" and ?r = "ob_env (ms_obs m ! b)"
  have r: "?r < length (ms_envs m)" by (rule own_obs_env [OF inv b])
  have own: "log_own (ms_obs m) ?r (en_log (ms_envs m ! ?r)) (en_obs (ms_envs m ! ?r))"
    using env_okD [OF inv r] by (simp add: env_ok_def)
  show ?thesis
  proof (cases "ob_err ?ob")
    case None
    then have m': "m' = set_obs b (?ob\<lparr>ob_queue := rest, ob_cursor := ev_cursor ev\<rparr>) m"
      using n Cons by (auto simp: next_receive_def Let_def)
    have cur: "en_obs (ms_envs m ! ?r) = Some b" using own_obs [OF inv b refl] None by simp
    obtain h where h: "log_rep (en_log (ms_envs m ! ?r)) h"
        "wl_capacity (en_log (ms_envs m ! ?r)) = default_capacity"
        "tracks (en_log (ms_envs m ! ?r)) h ?ob"
      using log_of [OF inv r] cur by metis
    have "obs_live ?ob" using cur_obs [OF inv r cur] by simp
    then have live: "obs_live (?ob\<lparr>ob_queue := rest, ob_cursor := ev_cursor ev\<rparr>)"
      using Cons by (simp add: obs_live_def)
    show ?thesis unfolding m'
      by (rule obs_change_inv [OF inv b])
        (use live h b cur tracks_next [OF h(1,3) Cons] in \<open>auto simp: log_own_def\<close>)
  next
    case (Some e)
    then have m': "m' = set_obs b (?ob\<lparr>ob_queue := rest\<rparr>) m"
      using n Cons by (auto simp: next_receive_def Let_def)
    have "en_obs (ms_envs m ! ?r) \<noteq> Some b"
      using cur_obs [OF inv r, of b] Some by (auto simp: obs_live_def)
    then have "log_own ((ms_obs m)[b := ?ob\<lparr>ob_queue := rest\<rparr>]) ?r (en_log (ms_envs m ! ?r)) (en_obs (ms_envs m ! ?r))"
      using own by (auto simp: log_own_def split: option.splits)
    then show ?thesis unfolding m' by (intro obs_change_inv [OF inv b]) auto
  qed
qed

lemma select_inv:
  assumes "mem_inv m" and "b < length (ms_obs m)" and "next_select ctx pick b m = Some (m', res)"
  shows "mem_inv m'"
proof (cases "next_receive b m")
  case None
  with assms show ?thesis by (auto simp: next_select_def split: option.splits)
next
  case (Some a)
  with assms receive_inv [OF assms(1,2), of "fst a" "snd a"] show ?thesis
    by (auto simp: next_select_def split: option.splits if_splits)
qed

lemma term_steps_inv:
  assumes "mem_inv m" and "t < length (ms_terms m)"
  shows "term_read cap t m = Some (m', res) \<Longrightarrow> mem_inv m'"
    and "mem_inv (fst (term_write p t m))" and "mem_inv (fst (term_resize ctx win t m))"
    and "mem_inv (fst (term_close t m))"
proof -
  have ch: "mem_inv (set_term t x m)"
    if "te_env x = te_env (ms_terms m ! t)" "finished (ms_terms m ! t) \<Longrightarrow> finished x" for x
    by (rule term_change_inv [OF assms that])
  note f = finished_def
  show "term_read cap t m = Some (m', res) \<Longrightarrow> mem_inv m'"
    using assms(1) ch by (auto simp: term_read_def Let_def f split: if_splits option.splits)
  show "mem_inv (fst (term_write p t m))"
    using assms(1) ch by (auto simp: term_write_def Let_def f split: option.split)
  show "mem_inv (fst (term_resize ctx win t m))"
    using assms(1) ch by (auto simp: term_resize_def Let_def f split: option.split)
  show "mem_inv (fst (term_close t m))"
    using assms(1) ch by (auto simp: term_close_def Let_def f)
qed

lemma delete_inv: "mem_inv m \<Longrightarrow> mem_inv (fst (revoke_delete i m))"
proof -
  assume inv: "mem_inv m"
  have "int (length (filter (\<lambda>g. fst g \<noteq> i) (ms_grants m))) \<le> ms_slots m"
    using inv length_filter_le [of "\<lambda>g. fst g \<noteq> i" "ms_grants m"] unfolding mem_inv_def by linarith
  with inv show "mem_inv (fst (revoke_delete i m))"
    by (simp add: mem_inv_def revoke_delete_def distinct_map_filter)
qed

lemma ensure_cases:
  obtains (same) "fst (host_ensure ctx sp ep m) = m"
  | (fresh) "map_of (ms_grants m) (spec_id sp) = None" "int (length (ms_grants m)) < ms_slots m"
      "fst (host_ensure ctx sp ep m) = m\<lparr>ms_envs := ms_envs m @ [new_environment sp ep],
         ms_grants := (spec_id sp, length (ms_envs m)) # ms_grants m\<rparr>"
proof (cases "ctx = None \<and> validate_spec sp = None \<and> \<not> ms_unusable m \<and>
    map_of (ms_grants m) (spec_id sp) = None \<and> spec_image sp \<in> set (ms_images m) \<and>
    int (length (ms_grants m)) < ms_slots m")
  case True
  then show ?thesis by (intro fresh) (simp_all add: host_ensure_def Let_def)
next
  case False
  then show ?thesis by (intro same) (auto simp: host_ensure_def Let_def split: option.splits)
qed

lemma ensure_inv:
  assumes inv: "mem_inv m" and ep: "epoch_ok ep"
  shows "mem_inv (fst (host_ensure ctx sp ep m))"
proof (cases rule: ensure_cases [of ctx sp ep m])
  case same
  then show ?thesis using inv by simp
next
  case fresh
  have new: "env_ok T B r (new_environment sp ep)" for T B r
  proof -
    have "wl_capacity (new_log ep (int default_capacity)) = default_capacity"
      by (simp add: new_log_def default_capacity_def)
    then show ?thesis
      using log_ownI [OF log_rep_new [OF ep]] by (simp add: env_ok_def new_environment_def)
  qed
  have old: "grant_ok (ms_envs m @ [new_environment sp ep]) g" if "g \<in> set (ms_grants m)" for g
    using inv that by (auto simp: mem_inv_def grant_ok_def nth_append)
  have envs: "env_ok (ms_terms m) (ms_obs m) r ((ms_envs m @ [new_environment sp ep]) ! r)"
    if "r < Suc (length (ms_envs m))" for r
    using that new env_okD [OF inv, of r] by (cases "r = length (ms_envs m)") (auto simp: nth_append)
  show ?thesis
    unfolding fresh(3) using inv fresh old envs
    by (auto simp: mem_inv_def map_of_eq_None_iff term_ok_def obs_ok_def nth_append
        grant_ok_def [of _ "(spec_id sp, length (ms_envs m))"] new_environment_def [of sp ep, THEN arg_cong [of _ _ en_id]]
        new_environment_def [of sp ep, THEN arg_cong [of _ _ en_revoked]])
qed

subsection \<open>Every run keeps the invariant\<close>

lemma mstep_inv [go_inv]: "mstep m m' \<Longrightarrow> mem_inv m \<Longrightarrow> mem_inv m'"
  by (induction rule: mstep.induct)
    (blast intro: ensure_inv delete_inv do_revoke_inv attach_inv freeze_inv thaw_inv replace_inv
      apply_inv watch_inv write_guest_inv remove_guest_inv move_guest_inv term_steps_inv select_inv
      obs_close_inv)+

interpretation memory_steps: steps_keep_from mstep mem_inv "\<lambda>m. \<exists>images slots unusable. m = host_new images slots unusable"
  by unfold_locales (auto intro: mstep_inv mem_inv_new)

lemmas mem_run_inv = memory_steps.kept_along

lemma reachable_inv: "mem_run (host_new images slots unusable) m \<Longrightarrow> mem_inv m"
  using memory_steps.kept_reached by blast

end
