(* ===== verification/Memory_Props.thy ===== *)
theory Memory_Props
  imports Memory_Inv
begin

text \<open>
  What the memory host's callers rely on, over every reachable state: bounded and exclusive
  occupancy, lossless resumption of a watch, and the meaning of \<open>Ensure\<close>, \<open>Freeze\<close> and
  \<open>Revoke\<close>.
\<close>

subsection \<open>Facts about all runs\<close>

lemma mstep_slots: "mstep m m' \<Longrightarrow> ms_slots m' = ms_slots m"
proof (induction rule: mstep.induct)
  case (ensure ep m ctx sp)
  show ?case by (cases rule: ensure_cases [of ctx sp ep m]) simp_all
next
  case (t_read t m cap m' res)
  then show ?case by (auto simp: term_read_def Let_def split: if_splits option.splits)
next
  case (receive b m ctx pick m' ev)
  then show ?case
    by (auto simp: next_select_def next_receive_def Let_def split: if_splits option.splits list.splits)
qed (auto simp: revoke_delete_def env_do_revoke_def env_attach_def env_freeze_def env_thaw_def
    env_replace_tree_def env_apply_def env_watch_def env_write_guest_def env_remove_guest_def
    env_move_guest_def emit_def term_write_def term_resize_def term_close_def obs_close_def Let_def
    split: option.splits sum.splits prod.splits)

interpretation memory_slots: steps_keep mstep "\<lambda>m. ms_slots m = n" for n
  by unfold_locales (auto dest: mstep_slots)

lemma mem_run_slots: "mem_run m m' \<Longrightarrow> ms_slots m' = ms_slots m"
  by (rule memory_slots.kept_along) simp_all

text \<open>A host with one grant, for the concrete instances of the properties below.\<close>

definition sample_spec :: spec where
  "sample_spec = \<lparr>spec_id = ''a'', spec_image = ''i'', spec_network = NetworkNone\<rparr>"

definition sample_granted :: mem_state where
  "sample_granted = (host_new [''i''] 2 False)
     \<lparr>ms_envs := [new_environment sample_spec ''e''], ms_grants := [(''a'', 0)]\<rparr>"

abbreviation Window :: "uint16 \<Rightarrow> uint16 \<Rightarrow> window" where
  "Window c r \<equiv> \<lparr>win_cols = c, win_rows = r\<rparr>"

lemma sample_valid: "validate_spec sample_spec = None"
  by code_simp

lemma sample_ensure: "host_ensure None sample_spec ''e'' (host_new [''i''] 2 False) = (sample_granted, Inr 0)"
  using sample_valid by (simp add: host_ensure_def sample_granted_def host_new_def sample_spec_def Let_def)

lemma epoch_e: "epoch_ok ''e''"
  by (simp add: epoch_ok_def)

lemma sample_run: "mem_run (host_new [''i''] 2 False) sample_granted"
  using mstep.ensure [OF epoch_e, of "host_new [''i''] 2 False" None sample_spec]
  by (simp add: sample_ensure r_into_rtranclp)

text \<open>
  C10. Occupancy is bounded: in every reachable state, under any interleaving of callers,
  there are at most as many grants as slots, no id is granted twice, and every granted
  environment exists, carries its id and is not revoked.
\<close>

theorem memory_occupancy:
  assumes "mem_run (host_new images slots unusable) m"
  shows "int (length (ms_grants m)) \<le> max 1 slots \<and> distinct (map fst (ms_grants m)) \<and>
    list_all (\<lambda>(i, r). r < length (ms_envs m) \<and> en_id (ms_envs m ! r) = i \<and> \<not> en_revoked (ms_envs m ! r))
      (ms_grants m)"
proof -
  have "ms_slots m = max 1 slots"
    using mem_run_slots [OF assms] by (simp add: host_new_def)
  with reachable_inv [OF assms] show ?thesis
    by (auto simp: mem_inv_def grant_ok_def list_all_iff)
qed

lemma memory_occupancy_witness: "int (length (ms_grants sample_granted)) \<le> max 1 2"
  by (rule memory_occupancy [THEN conjunct1, OF sample_run])

text \<open>
  One terminal at a time: in every reachable state an environment has at most one
  terminal that is neither closed nor dead, and none at all while it is frozen or revoked.
\<close>

lemma memory_single_terminal:
  assumes "mem_run (host_new images slots unusable) m"
    and "s < length (ms_terms m)" and "\<not> finished (ms_terms m ! s)"
  shows "\<not> en_frozen (ms_envs m ! te_env (ms_terms m ! s)) \<and> \<not> en_revoked (ms_envs m ! te_env (ms_terms m ! s)) \<and>
    (\<forall>t < length (ms_terms m). \<not> finished (ms_terms m ! t) \<and>
       te_env (ms_terms m ! t) = te_env (ms_terms m ! s) \<longrightarrow> t = s)"
proof -
  have inv: "mem_inv m" by (rule reachable_inv [OF assms(1)])
  have s: "en_term (ms_envs m ! te_env (ms_terms m ! s)) = Some s"
    by (rule own_term [OF inv assms(2) refl assms(3)])
  moreover have "env_ok (ms_terms m) (ms_obs m) (te_env (ms_terms m ! s)) (ms_envs m ! te_env (ms_terms m ! s))"
    using env_okD [OF inv own_term_env [OF inv assms(2)]] .
  ultimately show ?thesis using own_term [OF inv] by (auto simp: env_ok_def)
qed

lemma memory_single_terminal_witness:
  "\<not> en_frozen (ms_envs (fst (env_attach None 0 (Window 0 0) sample_granted)) ! 0)"
proof -
  let ?m = "fst (env_attach None 0 (Window 0 0) sample_granted)"
  have t: "ms_terms ?m = [new_terminal 0 (Window 0 0)]"
    by (simp add: env_attach_def sample_granted_def new_environment_def host_new_def Let_def)
  have "mem_run (host_new [''i''] 2 False) ?m"
    using sample_run mstep.attach [of 0 sample_granted None "Window 0 0"]
    by (simp add: sample_granted_def rtranclp.rtrancl_into_rtrancl)
  from memory_single_terminal [OF this, of 0] show ?thesis
    by (simp add: t finished_def new_terminal_def)
qed

subsection \<open>Watching\<close>

lemma live_obs_since:
  assumes "mem_inv m" and "r < length (ms_envs m)" and "en_obs (ms_envs m ! r) = Some b"
  shows "since_log (en_log (ms_envs m ! r)) (ob_cursor (ms_obs m ! b)) =
    Inr (ob_cursor (ms_obs m ! b), ob_queue (ms_obs m ! b))"
proof -
  obtain h where h: "log_rep (en_log (ms_envs m ! r)) h" "wl_capacity (en_log (ms_envs m ! r)) = default_capacity"
    "tracks (en_log (ms_envs m ! r)) h (ms_obs m ! b)"
    using log_of [OF assms(1,2)] assms(3) by metis
  obtain k where k: "k \<le> length h" "cursor_at (en_log (ms_envs m ! r)) k (ob_cursor (ms_obs m ! b))"
    "ob_queue (ms_obs m ! b) = drop k h"
    using h(3) by (auto simp: tracks_def)
  have "length h - k \<le> default_capacity"
    using cur_obs [OF assms] k(3) by (simp add: obs_live_def)
  moreover have "k < 2 ^ 64" using k(1) h(1) by (simp add: log_rep_def)
  ultimately show ?thesis using since_log_at [OF h(1) _ k(2)] k(1,3) h(2) by auto
qed

lemma live_obs_active:
  assumes "mem_inv m" and "r < length (ms_envs m)" and "en_obs (ms_envs m ! r) = Some b"
  shows "guard op (ms_envs m ! r) = None"
  using env_okD [OF assms(1,2)] assms(3) by (auto simp: env_ok_def guard_def)

text \<open>
  C1. Watching loses nothing: at any moment of any run, a caller that closes its live
  observation and calls \<open>Watch\<close> again with the observation's \<open>Cursor\<close> gets an observation
  at the same position whose pending events are exactly those it had not yet received.
\<close>

theorem memory_watch_resume:
  assumes "mem_run (host_new images slots unusable) m"
    and "r < length (ms_envs m)" and "en_obs (ms_envs m ! r) = Some b"
  shows "case env_watch None r (ob_cursor (ms_obs m ! b)) (fst (obs_close b m)) of
      (m', Inr b') \<Rightarrow> b' \<noteq> b \<and> ob_cursor (ms_obs m' ! b') = ob_cursor (ms_obs m ! b) \<and>
        ob_queue (ms_obs m' ! b') = ob_queue (ms_obs m ! b)
    | (m', Inl e) \<Rightarrow> False"
proof -
  have inv: "mem_inv m" by (rule reachable_inv [OF assms(1)])
  note b = cur_obs [OF inv assms(2,3)]
  have g: "guard ''watch'' ((ms_envs m ! r)\<lparr>en_obs := None\<rparr>) = None"
    using live_obs_active [OF inv assms(2,3), of "''watch''"] by (simp add: guard_def split: if_splits)
  show ?thesis
    using b assms(2,3) g live_obs_since [OF inv assms(2,3)]
    by (simp add: obs_close_def env_watch_def Let_def nth_append)
qed

lemma memory_watch_resume_witness:
  "case env_watch None 0 ''e:0'' (fst (obs_close 0 (fst (env_watch None 0 '''' sample_granted)))) of
     (m', Inr b') \<Rightarrow> b' \<noteq> 0 | (m', Inl e) \<Rightarrow> False"
proof -
  let ?m = "fst (env_watch None 0 '''' sample_granted)"
  have c: "make_cursor ''e'' 0 = ''e:0''" by code_simp
  have run: "mem_run (host_new [''i''] 2 False) ?m"
    using sample_run mstep.watch [of 0 sample_granted None "''''"]
    by (simp add: sample_granted_def rtranclp.rtrancl_into_rtrancl)
  have "ms_obs ?m ! 0 = \<lparr>ob_env = 0, ob_cursor = ''e:0'', ob_queue = [], ob_cap = 32,
      ob_closed = False, ob_err = None\<rparr>" "en_obs (ms_envs ?m ! 0) = Some 0" "0 < length (ms_envs ?m)"
    by (simp_all add: env_watch_def guard_def since_log_def current_log_def new_log_def watch_buffer_def
        sample_granted_def new_environment_def host_new_def Let_def c)
  with memory_watch_resume [OF run, of 0 0] show ?thesis
    by (auto split: prod.splits sum.splits)
qed

text \<open>
  Overflow fails closed and stays recoverable: a guest event that finds the standard
  32-event buffer full ends the observation with \<open>ErrLagged\<close> (the next \<open>Next\<close> reports
  it), yet the log still holds everything after the reader's cursor, the new event included,
  so re-opening at that cursor replays the 33 missed events.
\<close>

lemma memory_overflow_recoverable:
  assumes "mem_run (host_new images slots unusable) m"
    and "r < length (ms_envs m)" and "en_obs (ms_envs m ! r) = Some b"
    and "length (ob_queue (ms_obs m ! b)) = watch_buffer" and "ob_cap (ms_obs m ! b) = watch_buffer"
    and "wl_next (en_log (ms_envs m ! r)) \<noteq> - 1"
  shows "next_check b (emit ev r m) = Some (OpError ''watch'' (Sent ErrLagged)) \<and>
    en_obs (ms_envs (emit ev r m) ! r) = None \<and>
    since_log (en_log (ms_envs (emit ev r m) ! r)) (ob_cursor (ms_obs m ! b)) =
      Inr (ob_cursor (ms_obs m ! b),
           ob_queue (ms_obs m ! b) @ [snd (append_log (en_log (ms_envs m ! r)) ev)])"
proof -
  have inv: "mem_inv m" by (rule reachable_inv [OF assms(1)])
  let ?l = "en_log (ms_envs m ! r)"
  note b = cur_obs [OF inv assms(2,3)]
  obtain l' ev' where ap: "append_log ?l ev = (l', ev')" by (cases "append_log ?l ev")
  obtain h where h: "log_rep ?l h" "wl_capacity ?l = default_capacity" "tracks ?l h (ms_obs m ! b)"
    using log_of [OF inv assms(2)] assms(3) by metis
  have h': "log_rep l' (h @ [ev'])" by (rule log_rep_append [OF h(1) wl_next_room [OF h(1) assms(6)] ap])
  obtain k where k: "k \<le> length (h @ [ev'])" "cursor_at l' k (ob_cursor (ms_obs m ! b))"
    "ob_queue (ms_obs m ! b) @ [ev'] = drop k (h @ [ev'])"
    using tracks_append [OF ap h(3)] by (auto simp: tracks_def)
  have "length (drop k (h @ [ev'])) = watch_buffer + 1"
    using k(3) assms(4) by (metis length_append_singleton Suc_eq_plus1)
  then have "length (h @ [ev']) - default_capacity \<le> k"
    by (simp add: watch_buffer_def default_capacity_def)
  moreover have "k < 2 ^ 64" using k(1) h' by (simp add: log_rep_def)
  ultimately have since: "since_log l' (ob_cursor (ms_obs m ! b)) =
      Inr (ob_cursor (ms_obs m ! b), ob_queue (ms_obs m ! b) @ [ev'])"
    using since_log_at [OF h' _ k(2)] k(1,3) append_log_facts [OF ap] h(2) by simp
  have e: "emit ev r m = fail_watch (Sent ErrLagged) r (set_env r ((ms_envs m ! r)\<lparr>en_log := l'\<rparr>) m)"
    using assms(3-5) by (simp add: emit_def ap)
  have "next_check b (emit ev r m) = Some (OpError ''watch'' (Sent ErrLagged))"
    using b assms(2,3) by (simp add: e next_check_def obs_fail_def obs_live_def)
  moreover have "ms_envs (emit ev r m) ! r = (ms_envs m ! r)\<lparr>en_log := l', en_obs := None\<rparr>"
    using assms(2) by (simp add: e)
  ultimately show ?thesis using since by (simp add: ap)
qed

text \<open>The sample grant, watched, after \<open>n\<close> guest writes nobody has read.\<close>

definition sample_burst :: "nat \<Rightarrow> mem_state" where
  "sample_burst n =
     ((\<lambda>m. fst (env_write_guest 0 ''a'' [] m)) ^^ n) (fst (env_watch None 0 '''' sample_granted))"

lemma write_guest_queues:
  assumes "r < length (ms_envs m)" and "en_obs (ms_envs m ! r) = Some b" and "b < length (ms_obs m)"
    and "length (ob_queue (ms_obs m ! b)) < ob_cap (ms_obs m ! b)" and "guard ''guest'' (ms_envs m ! r) = None"
    and "m' = fst (env_write_guest r p d m)"
  shows "length (ms_envs m') = length (ms_envs m) \<and> en_obs (ms_envs m' ! r) = Some b \<and>
    length (ms_obs m') = length (ms_obs m) \<and> ob_cap (ms_obs m' ! b) = ob_cap (ms_obs m ! b) \<and>
    length (ob_queue (ms_obs m' ! b)) = Suc (length (ob_queue (ms_obs m ! b))) \<and>
    guard ''guest'' (ms_envs m' ! r) = None \<and>
    wl_next (en_log (ms_envs m' ! r)) = wl_next (en_log (ms_envs m ! r)) + 1"
  unfolding assms(6) using assms(1-5)
  by (auto simp: env_write_guest_def emit_def append_log_def Let_def guard_def split: if_splits)

lemma sample_burst_state:
  "n \<le> 32 \<Longrightarrow> mem_run (host_new [''i''] 2 False) (sample_burst n) \<and>
     0 < length (ms_envs (sample_burst n)) \<and> en_obs (ms_envs (sample_burst n) ! 0) = Some 0 \<and>
     0 < length (ms_obs (sample_burst n)) \<and> ob_cap (ms_obs (sample_burst n) ! 0) = 32 \<and>
     length (ob_queue (ms_obs (sample_burst n) ! 0)) = n \<and>
     guard ''guest'' (ms_envs (sample_burst n) ! 0) = None \<and>
     wl_next (en_log (ms_envs (sample_burst n) ! 0)) = word_of_nat n"
proof (induction n)
  case 0
  let ?m = "fst (env_watch None 0 '''' sample_granted)"
  have "mem_run (host_new [''i''] 2 False) ?m"
    using sample_run mstep.watch [of 0 sample_granted None "''''"]
    by (simp add: sample_granted_def rtranclp.rtrancl_into_rtrancl)
  then show ?case
    by (simp add: sample_burst_def env_watch_def guard_def since_log_def current_log_def new_log_def
        watch_buffer_def sample_granted_def new_environment_def host_new_def Let_def)
next
  case (Suc n)
  let ?m = "sample_burst n"
  have m': "sample_burst (Suc n) = fst (env_write_guest 0 ''a'' [] ?m)" by (simp add: sample_burst_def)
  have ih: "mem_run (host_new [''i''] 2 False) ?m" "0 < length (ms_envs ?m)"
    "en_obs (ms_envs ?m ! 0) = Some 0" "0 < length (ms_obs ?m)" "ob_cap (ms_obs ?m ! 0) = 32"
    "length (ob_queue (ms_obs ?m ! 0)) = n" "guard ''guest'' (ms_envs ?m ! 0) = None"
    "wl_next (en_log (ms_envs ?m ! 0)) = word_of_nat n"
    using Suc by simp_all
  have "unat (word_of_nat n :: uint64) < 33" using Suc.prems by (simp add: unat_of_nat64)
  moreover have "unat (- 1 :: uint64) = 2 ^ 64 - 1" by (simp add: unsigned_minus_1_eq_mask mask_eq_exp_minus_1)
  ultimately have "wl_next (en_log (ms_envs ?m ! 0)) \<noteq> - 1" unfolding ih(8) by fastforce
  moreover have "valid_path ''a''" by code_simp
  ultimately have "mstep ?m (sample_burst (Suc n))"
    unfolding m' using ih(2) by (intro mstep.write_guest) simp_all
  with ih(1) have "mem_run (host_new [''i''] 2 False) (sample_burst (Suc n))"
    by (rule rtranclp.rtrancl_into_rtrancl)
  moreover have "length (ob_queue (ms_obs ?m ! 0)) < ob_cap (ms_obs ?m ! 0)"
    using ih(5,6) Suc.prems by simp
  ultimately show ?case
    using write_guest_queues [OF ih(2-4) _ ih(7) m'] ih by (simp add: add.commute)
qed

lemma memory_overflow_recoverable_witness:
  "next_check 0 (emit (guest_event OpDelete ''a'' '''') 0 (sample_burst 32)) =
     Some (OpError ''watch'' (Sent ErrLagged))"
proof (rule memory_overflow_recoverable [THEN conjunct1])
  show "mem_run (host_new [''i''] 2 False) (sample_burst 32)" using sample_burst_state [of 32] by simp
qed (use sample_burst_state [of 32] in \<open>simp_all add: watch_buffer_def\<close>)

subsection \<open>Ensure and Revoke\<close>

lemma ensure_success:
  assumes "host_ensure None sp ep m = (m1, Inr r)"
  shows "validate_spec sp = None" "\<not> ms_unusable m" "ms_unusable m1 = ms_unusable m"
    and "map_of (ms_grants m1) (spec_id sp) = Some r"
    and "i \<noteq> spec_id sp \<Longrightarrow> map_of (ms_grants m1) i = map_of (ms_grants m) i"
    and "en_image (ms_envs m1 ! r) = spec_image sp" "en_network (ms_envs m1 ! r) = spec_network sp"
  using assms
  by (auto simp: host_ensure_def fail_op_def Let_def new_environment_def split: option.splits if_splits)

text \<open>
  \<open>Ensure\<close> is idempotent and exclusive: after it succeeds, the same spec returns the same
  environment with nothing changed, the same id under another image or network is
  \<open>ErrConflict\<close> with nothing changed, and no other id was touched.
\<close>

lemma memory_ensure_idempotent:
  assumes "host_ensure None sp ep m = (m1, Inr r)"
  shows "host_ensure None sp ep' m1 = (m1, Inr r) \<and>
    (\<forall>i. i \<noteq> spec_id sp \<longrightarrow> map_of (ms_grants m1) i = map_of (ms_grants m) i) \<and>
    (\<forall>sp2. spec_id sp2 = spec_id sp \<and> sp2 \<noteq> sp \<and> validate_spec sp2 = None \<longrightarrow>
       host_ensure None sp2 ep' m1 = (m1, fail_op ''ensure'' (Sent ErrConflict)))"
proof -
  note s = ensure_success [OF assms]
  have "spec_image sp2 \<noteq> spec_image sp \<or> spec_network sp2 \<noteq> spec_network sp"
    if "spec_id sp2 = spec_id sp" "sp2 \<noteq> sp" for sp2
    using that by (cases sp; cases sp2) auto
  then show ?thesis using s by (auto simp: host_ensure_def)
qed

lemma memory_ensure_idempotent_witness:
  "host_ensure None sample_spec ''f'' sample_granted = (sample_granted, Inr 0)"
  by (rule memory_ensure_idempotent [OF sample_ensure, THEN conjunct1])

text \<open>The answer of every environment method on a revoked environment, and on a frozen one.\<close>

definition refuses :: "sentinel \<Rightarrow> nat \<Rightarrow> mem_state \<Rightarrow> bool" where
  "refuses s r m \<longleftrightarrow>
     (\<forall>win. env_attach None r win m = (m, fail_op ''attach'' (Sent s))) \<and>
     (\<forall>tree ep. env_replace_tree None r tree ep m = (m, fail_op ''replace'' (Sent s))) \<and>
     (\<forall>batch. env_apply None r batch m = (m, fail_op ''apply'' (Sent s))) \<and>
     (\<forall>after. env_watch None r after m = (m, fail_op ''watch'' (Sent s))) \<and>
     (\<forall>p. valid_path p \<longrightarrow> env_open None r p m = fail_op ''open'' (Sent s)) \<and>
     (\<forall>p d. env_write_guest r p d m = (m, fail_op ''guest'' (Sent s)))"

lemma refuses_revoked: "en_revoked (ms_envs m ! r) \<Longrightarrow> refuses ErrRevoked r m"
  by (simp add: refuses_def env_attach_def env_replace_tree_def env_apply_def env_watch_def env_open_def
      env_write_guest_def guard_def fail_op_def valid_path_def Let_def)

lemma refuses_frozen: "en_frozen (ms_envs m ! r) \<Longrightarrow> \<not> en_revoked (ms_envs m ! r) \<Longrightarrow> refuses ErrFrozen r m"
  by (simp add: refuses_def env_attach_def env_replace_tree_def env_apply_def env_watch_def env_open_def
      env_write_guest_def guard_def fail_op_def valid_path_def Let_def)

text \<open>A terminal or observation that the host ended for reason \<open>s\<close> says so.\<close>

definition ended :: "sentinel \<Rightarrow> environment \<Rightarrow> mem_state \<Rightarrow> bool" where
  "ended s en m \<longleftrightarrow>
     (case en_term en of
        None \<Rightarrow> True
      | Some t \<Rightarrow> (\<forall>cap. term_read cap t m = Some (m, fail_op ''read'' (Sent s))) \<and>
          (\<forall>p. term_write p t m = (m, fail_op ''write'' (Sent s)))) \<and>
     (case en_obs en of None \<Rightarrow> True | Some b \<Rightarrow> next_check b m = Some (OpError ''watch'' (Sent s)))"

lemma stop_ended:
  assumes inv: "mem_inv m" and r: "r < length (ms_envs m)"
    and en': "en' = (ms_envs m ! r)\<lparr>en_frozen := f, en_revoked := v\<rparr>"
    and m': "m' = fail_watch (Sent s) r (drop_term (Sent s) r (set_env r en' m))"
  shows "ended s (ms_envs m ! r) m'"
proof -
  have "(\<forall>cap. term_read cap t m' = Some (m', fail_op ''read'' (Sent s))) \<and>
      (\<forall>p. term_write p t m' = (m', fail_op ''write'' (Sent s)))"
    if "en_term (ms_envs m ! r) = Some t" for t
    using cur_term [OF inv r that] that r by (simp add: m' en' term_read_def term_write_def Let_def)
  moreover have "next_check b m' = Some (OpError ''watch'' (Sent s))"
    if "en_obs (ms_envs m ! r) = Some b" for b
    using cur_obs [OF inv r that] that r by (simp add: m' en' next_check_def obs_fail_def obs_live_def)
  ultimately show ?thesis by (simp add: ended_def split: option.split)
qed

lemma map_of_filter_key:
  "map_of (filter (\<lambda>g. fst g \<noteq> i) xs) j = (if j = i then None else map_of xs j)"
  by (induction xs) auto

lemma length_filter_key:
  "distinct (map fst xs) \<Longrightarrow> map_of xs i = Some r \<Longrightarrow> Suc (length (filter (\<lambda>g. fst g \<noteq> i) xs)) = length xs"
proof (induction xs)
  case (Cons x xs)
  show ?case
  proof (cases "fst x = i")
    case True
    then have "fst g \<noteq> i" if "g \<in> set xs" for g
      using Cons.prems(1) that by (force simp: image_iff)
    then have "filter (\<lambda>g. fst g \<noteq> i) xs = xs" by (simp add: filter_id_conv)
    with True show ?thesis by simp
  qed (use Cons in auto)
qed simp

text \<open>
  C6. \<open>Revoke\<close> destroys occupancy and is final: in any reachable state it succeeds on a
  granted id, frees its slot and its id, leaves every other grant alone, ends the live
  terminal and observation with \<open>ErrRevoked\<close>, makes every method of a handle the caller
  kept answer \<open>ErrRevoked\<close>, and a second \<open>Revoke\<close> is a no-op.
\<close>

theorem memory_revoke_final:
  assumes "mem_run (host_new images slots unusable) m" and "map_of (ms_grants m) i = Some r"
    and "host_revoke None i m = (m', res)"
  shows "res = Inr () \<and> map_of (ms_grants m') i = None \<and>
    Suc (length (ms_grants m')) = length (ms_grants m) \<and>
    (\<forall>j. j \<noteq> i \<longrightarrow> map_of (ms_grants m') j = map_of (ms_grants m) j) \<and>
    ended ErrRevoked (ms_envs m ! r) m' \<and> refuses ErrRevoked r m' \<and>
    host_revoke None i m' = (m', Inr ())"
proof -
  have inv: "mem_inv m" by (rule reachable_inv [OF assms(1)])
  let ?m1 = "fst (revoke_delete i m)"
  have inv1: "mem_inv ?m1" by (rule delete_inv [OF inv])
  have r: "r < length (ms_envs m)"
    using inv map_of_SomeD [OF assms(2)] by (auto simp: mem_inv_def grant_ok_def)
  have m': "m' = env_do_revoke r ?m1" and res: "res = Inr ()"
    using assms(2,3) by (auto simp: host_revoke_def revoke_delete_def)
  have g: "ms_grants m' = filter (\<lambda>g. fst g \<noteq> i) (ms_grants m)"
    by (simp add: m' env_do_revoke_def revoke_delete_def)
  have g1: "map_of (ms_grants m') j = (if j = i then None else map_of (ms_grants m) j)" for j
    unfolding g by (rule map_of_filter_key)
  have len: "Suc (length (ms_grants m')) = length (ms_grants m)"
    unfolding g using inv assms(2) by (intro length_filter_key) (auto simp: mem_inv_def)
  have envs: "ms_envs ?m1 = ms_envs m" by (simp add: revoke_delete_def)
  have "ended ErrRevoked (ms_envs ?m1 ! r) m'"
    by (rule stop_ended [OF inv1, where f = False and v = True])
      (use r in \<open>simp_all add: m' env_do_revoke_def envs\<close>)
  moreover have "refuses ErrRevoked r m'"
    by (rule refuses_revoked) (use r in \<open>simp add: m' env_do_revoke_def envs\<close>)
  moreover have "filter (\<lambda>g. fst g \<noteq> i) (ms_grants m') = ms_grants m'" by (simp add: g)
  then have "host_revoke None i m' = (m', Inr ())"
    by (simp add: host_revoke_def revoke_delete_def g1)
  ultimately show ?thesis using res len g1 envs by simp
qed

lemma memory_revoke_final_witness:
  "refuses ErrRevoked 0 (fst (host_revoke None ''a'' sample_granted))"
proof -
  obtain m' res where h: "host_revoke None ''a'' sample_granted = (m', res)"
    by (cases "host_revoke None ''a'' sample_granted")
  have "map_of (ms_grants sample_granted) ''a'' = Some 0" by (simp add: sample_granted_def)
  from memory_revoke_final [OF sample_run this h] show ?thesis by (simp add: h)
qed

text \<open>
  \<open>Freeze\<close> stops an environment without losing it: it ends the live terminal and
  observation with \<open>ErrFrozen\<close>, every other method then answers \<open>ErrFrozen\<close>, and \<open>Thaw\<close>
  gives back an active environment with exactly the files, replay log and identity it had.
\<close>

lemma memory_freeze_thaw:
  assumes "mem_run (host_new images slots unusable) m"
    and "r < length (ms_envs m)" and "\<not> en_revoked (ms_envs m ! r)"
    and "env_freeze None r m = (m1, res1)" and "env_thaw None r m1 = (m2, res2)"
  shows "res1 = Inr () \<and> ended ErrFrozen (ms_envs m ! r) m1 \<and> refuses ErrFrozen r m1 \<and> res2 = Inr () \<and>
    ms_envs m2 ! r = (ms_envs m ! r)\<lparr>en_frozen := False, en_term := None, en_obs := None\<rparr>"
proof -
  have inv: "mem_inv m" by (rule reachable_inv [OF assms(1)])
  have m1: "m1 = fail_watch (Sent ErrFrozen) r
      (drop_term (Sent ErrFrozen) r (set_env r ((ms_envs m ! r)\<lparr>en_frozen := True\<rparr>) m))" "res1 = Inr ()"
    using assms(3,4) by (auto simp: env_freeze_def Let_def)
  have e: "ended ErrFrozen (ms_envs m ! r) m1"
    by (rule stop_ended [OF inv assms(2), where f = True and v = False])
      (use assms(3) in \<open>simp_all add: m1\<close>)
  have r1: "ms_envs m1 ! r = (ms_envs m ! r)\<lparr>en_frozen := True, en_term := None, en_obs := None\<rparr>"
    using assms(2) by (simp add: m1)
  have "refuses ErrFrozen r m1" by (rule refuses_frozen) (use assms(3) in \<open>simp_all add: r1\<close>)
  moreover have "res2 = Inr ()" "m2 = set_env r ((ms_envs m1 ! r)\<lparr>en_frozen := False\<rparr>) m1"
    using assms(3,5) by (auto simp: env_thaw_def Let_def r1)
  moreover have "r < length (ms_envs m1)" using assms(2) by (simp add: m1)
  ultimately show ?thesis using e m1(2) by (simp add: r1)
qed

lemma memory_freeze_thaw_witness: "refuses ErrFrozen 0 (fst (env_freeze None 0 sample_granted))"
proof -
  obtain m1 res1 where f: "env_freeze None 0 sample_granted = (m1, res1)"
    by (cases "env_freeze None 0 sample_granted")
  obtain m2 res2 where t: "env_thaw None 0 m1 = (m2, res2)" by (cases "env_thaw None 0 m1")
  have "refuses ErrFrozen 0 m1"
    using memory_freeze_thaw [OF sample_run _ _ f t] by (simp add: sample_granted_def new_environment_def)
  then show ?thesis by (simp add: f)
qed

text \<open>What a step can do to an environment that is already revoked: nothing.\<close>

lemma revoked_still:
  assumes "en_revoked (ms_envs m ! r)"
  shows "fst (env_attach ctx s win m) = m \<or> s \<noteq> r" "fst (env_freeze ctx s m) = m \<or> s \<noteq> r"
    "fst (env_thaw ctx s m) = m \<or> s \<noteq> r" "fst (env_replace_tree ctx s snap ep m) = m \<or> s \<noteq> r"
    "fst (env_apply ctx s batch m) = m \<or> s \<noteq> r" "fst (env_watch ctx s after m) = m \<or> s \<noteq> r"
    "fst (env_write_guest s p d m) = m \<or> s \<noteq> r" "fst (env_remove_guest s p m) = m \<or> s \<noteq> r"
    "fst (env_move_guest s p q m) = m \<or> s \<noteq> r"
  using assms
  by (auto simp: env_attach_def env_freeze_def env_thaw_def env_replace_tree_def env_apply_def
      env_watch_def env_write_guest_def env_remove_guest_def env_move_guest_def guard_def Let_def
      split: option.split)

lemma other_env_kept:
  assumes "s \<noteq> r"
  shows "ms_envs (fst (env_attach ctx s win m)) ! r = ms_envs m ! r"
    "ms_envs (fst (env_freeze ctx s m)) ! r = ms_envs m ! r"
    "ms_envs (fst (env_thaw ctx s m)) ! r = ms_envs m ! r"
    "ms_envs (fst (env_replace_tree ctx s snap ep m)) ! r = ms_envs m ! r"
    "ms_envs (fst (env_apply ctx s batch m)) ! r = ms_envs m ! r"
    "ms_envs (fst (env_watch ctx s after m)) ! r = ms_envs m ! r"
    "ms_envs (emit ev s m) ! r = ms_envs m ! r"
    "ms_envs (fst (env_write_guest s p d m)) ! r = ms_envs m ! r"
    "ms_envs (fst (env_remove_guest s p m)) ! r = ms_envs m ! r"
    "ms_envs (fst (env_move_guest s p q m)) ! r = ms_envs m ! r"
    "ms_envs (env_do_revoke s m) ! r = ms_envs m ! r"
  using assms
  by (auto simp: env_attach_def env_freeze_def env_thaw_def env_replace_tree_def env_apply_def
      env_watch_def env_write_guest_def env_remove_guest_def env_move_guest_def emit_def
      env_do_revoke_def Let_def split: option.split sum.split prod.split)

lemma objects_keep_envs:
  "ms_envs (fst (term_write p t m)) = ms_envs m" "ms_envs (fst (term_resize ctx win t m)) = ms_envs m"
  "ms_envs (fst (term_close t m)) = ms_envs m" "ms_envs (fst (revoke_delete i m)) = ms_envs m"
  "term_read cap t m = Some (m', res) \<Longrightarrow> ms_envs m' = ms_envs m"
  "next_select ctx pick b m = Some (m', ev) \<Longrightarrow> ms_envs m' = ms_envs m"
  by (auto simp: term_write_def term_resize_def term_close_def revoke_delete_def term_read_def
      next_select_def next_receive_def Let_def split: option.splits if_splits list.splits)

lemma mstep_envs_length: "mstep m m' \<Longrightarrow> length (ms_envs m) \<le> length (ms_envs m')"
proof (induction rule: mstep.induct)
  case (ensure ep m ctx sp)
  show ?case by (cases rule: ensure_cases [of ctx sp ep m]) simp_all
qed (auto simp: objects_keep_envs env_do_revoke_def env_attach_def env_freeze_def env_thaw_def
    env_replace_tree_def env_apply_def env_watch_def env_write_guest_def env_remove_guest_def
    env_move_guest_def emit_def obs_close_def Let_def split: option.splits sum.splits prod.splits)

lemma revoked_shape:
  assumes "mem_inv m" and "r < length (ms_envs m)" and "en_revoked (ms_envs m ! r)"
  shows "\<not> en_frozen (ms_envs m ! r)" "en_term (ms_envs m ! r) = None" "en_obs (ms_envs m ! r) = None"
  using env_okD [OF assms(1,2)] assms(3) by (auto simp: env_ok_def)

lemma mstep_revoked:
  assumes "mstep m m'" and "mem_inv m" and "r < length (ms_envs m)" and "en_revoked (ms_envs m ! r)"
  shows "ms_envs m' ! r = ms_envs m ! r"
  using assms
proof (induction rule: mstep.induct)
  case (ensure ep m ctx sp)
  then show ?case by (cases rule: ensure_cases [of ctx sp ep m]) (simp_all add: nth_append)
next
  case (do_revoke s m)
  note sh = revoked_shape [OF do_revoke.prems]
  have e: "en\<lparr>en_revoked := True, en_frozen := False, en_term := None, en_obs := None\<rparr> = en"
    if "en_revoked en" "\<not> en_frozen en" "en_term en = None" "en_obs en = None" for en :: environment
    using that by (cases en) simp
  show ?case
  proof (cases "s = r")
    case True
    then show ?thesis using do_revoke.prems sh e [of "ms_envs m ! r"] by (simp add: env_do_revoke_def)
  qed (simp add: other_env_kept)
next
  case (obs_close b m)
  then show ?case
    using revoked_shape [OF obs_close.prems]
    by (cases "ob_env (ms_obs m ! b) = r") (auto simp: obs_close_def Let_def)
next
  case (attach s m ctx win)
  then show ?case using revoked_still(1) [of m r] other_env_kept(1) [of s r] by metis
next
  case (freeze s m ctx)
  then show ?case using revoked_still(2) [of m r] other_env_kept(2) [of s r] by metis
next
  case (thaw s m ctx)
  then show ?case using revoked_still(3) [of m r] other_env_kept(3) [of s r] by metis
next
  case (replace s m ep ctx snap)
  then show ?case using revoked_still(4) [of m r] other_env_kept(4) [of s r] by metis
next
  case (apply_muts s m ctx batch)
  then show ?case using revoked_still(5) [of m r] other_env_kept(5) [of s r] by metis
next
  case (watch s m ctx after)
  then show ?case using revoked_still(6) [of m r] other_env_kept(6) [of s r] by metis
next
  case (write_guest s m path data)
  then show ?case using revoked_still(7) [of m r] other_env_kept(8) [of s r] by metis
next
  case (remove_guest s m path)
  then show ?case using revoked_still(8) [of m r] other_env_kept(9) [of s r] by metis
next
  case (move_guest s m to src)
  then show ?case using revoked_still(9) [of m r] other_env_kept(10) [of s r] by metis
qed (simp_all add: objects_keep_envs)

lemma mem_run_revoked:
  assumes "mem_run m m'" and "mem_inv m" and "r < length (ms_envs m)" and "en_revoked (ms_envs m ! r)"
  shows "ms_envs m' ! r = ms_envs m ! r \<and> r < length (ms_envs m') \<and> mem_inv m'"
  using assms(1)
proof (induction rule: rtranclp_induct)
  case (step y z)
  then show ?case
    using mstep_revoked [OF step.hyps(2), of r] mstep_inv [OF step.hyps(2)] mstep_envs_length [OF step.hyps(2)]
      assms(4) by auto
qed (use assms in auto)

text \<open>
  Nothing brings a revoked environment back: along any further run its record (files, log,
  flags) never changes and its methods keep answering \<open>ErrRevoked\<close>, even if the id is
  ensured again, which makes a different environment.
\<close>

lemma memory_revoked_forever:
  assumes "mem_run (host_new images slots unusable) m" and "mem_run m m'"
    and "r < length (ms_envs m)" and "en_revoked (ms_envs m ! r)"
  shows "ms_envs m' ! r = ms_envs m ! r \<and> refuses ErrRevoked r m' \<and> r \<notin> snd ` set (ms_grants m')"
proof -
  note k = mem_run_revoked [OF assms(2) reachable_inv [OF assms(1)] assms(3,4)]
  then have "refuses ErrRevoked r m'" using assms(4) by (intro refuses_revoked) simp
  moreover have "r \<notin> snd ` set (ms_grants m')"
  proof
    assume "r \<in> snd ` set (ms_grants m')"
    then have "\<not> en_revoked (ms_envs m' ! r)" using k by (auto simp: mem_inv_def grant_ok_def)
    then show False using k assms(4) by simp
  qed
  ultimately show ?thesis using k by blast
qed

lemma memory_revoked_forever_witness:
  "\<exists>m. en_revoked (ms_envs m ! 0) \<and> refuses ErrRevoked 0 (fst (host_ensure None sample_spec ''e'' m))"
proof -
  let ?m1 = "fst (revoke_delete ''a'' sample_granted)" and ?m = "env_do_revoke 0 (fst (revoke_delete ''a'' sample_granted))"
  have "mstep sample_granted ?m1" by (rule mstep.delete)
  moreover have "mstep ?m1 ?m"
    by (rule mstep.do_revoke) (simp_all add: revoke_delete_def sample_granted_def)
  ultimately have run: "mem_run (host_new [''i''] 2 False) ?m"
    using sample_run by (meson rtranclp.rtrancl_into_rtrancl)
  have step: "mem_run ?m (fst (host_ensure None sample_spec ''e'' ?m))"
    using mstep.ensure [OF epoch_e] by (rule r_into_rtranclp)
  have "en_revoked (ms_envs ?m ! 0)" "0 < length (ms_envs ?m)"
    by (simp_all add: env_do_revoke_def revoke_delete_def sample_granted_def)
  with memory_revoked_forever [OF run step, of 0] show ?thesis by blast
qed

subsection \<open>The calls are runs of steps\<close>

lemma host_revoke_run: "mem_inv m \<Longrightarrow> mem_run m (fst (host_revoke ctx i m))"
proof (cases "ctx = None \<and> map_of (ms_grants m) i \<noteq> None")
  case True
  assume inv: "mem_inv m"
  from True obtain r where r: "map_of (ms_grants m) i = Some r" by blast
  let ?m1 = "fst (revoke_delete i m)"
  have g: "(i, r) \<in> set (ms_grants m)" by (rule map_of_SomeD [OF r])
  then have id: "r < length (ms_envs m)" "en_id (ms_envs m ! r) = i" using inv by (auto simp: mem_inv_def grant_ok_def)
  have "r \<notin> snd ` set (ms_grants ?m1)"
    using inv id(2) by (auto simp: revoke_delete_def mem_inv_def grant_ok_def)
  then have "mstep ?m1 (env_do_revoke r ?m1)"
    using id(1) by (intro mstep.do_revoke) (simp_all add: revoke_delete_def)
  moreover have "mstep m ?m1" by (rule mstep.delete)
  moreover have "fst (host_revoke ctx i m) = env_do_revoke r ?m1"
    using True r by (simp add: host_revoke_def revoke_delete_def)
  ultimately show ?thesis by (metis converse_rtranclp_into_rtranclp r_into_rtranclp)
next
  case False
  then have "fst (host_revoke ctx i m) = m \<or> fst (host_revoke ctx i m) = fst (revoke_delete i m)"
    by (auto simp: host_revoke_def revoke_delete_def split: option.split)
  then show ?thesis using mstep.delete [of m i] by (metis r_into_rtranclp rtranclp.rtrancl_refl)
qed

lemma obs_next_run:
  assumes "b < length (ms_obs m)" and "obs_next ctx pick b m = Some (m', res)"
  shows "mem_run m m'"
  using assms mstep.receive [OF assms(1), of ctx pick m' res]
  by (auto simp: obs_next_def split: option.splits)

subsection \<open>Terminal bytes\<close>

text \<open>One use of a terminal by its owner: writes, and reads with a buffer size.\<close>

datatype term_io = WriteIO bytes | ReadIO nat

text \<open>The bytes the reads returned, in order; a read that would wait returns nothing.\<close>

fun term_session :: "nat \<Rightarrow> term_io list \<Rightarrow> mem_state \<Rightarrow> mem_state \<times> bytes" where
  "term_session t [] m = (m, [])"
| "term_session t (WriteIO p # ios) m = term_session t ios (fst (term_write p t m))"
| "term_session t (ReadIO cap # ios) m =
     (case term_read cap t m of
        Some (m', Inr bs) \<Rightarrow> (let (m2, rest) = term_session t ios m' in (m2, bs @ rest))
      | _ \<Rightarrow> term_session t ios m)"

fun written :: "term_io list \<Rightarrow> bytes" where
  "written [] = []"
| "written (WriteIO p # ios) = p @ written ios"
| "written (ReadIO cap # ios) = written ios"

text \<open>
  The terminal is a byte pipe: over any sequence of writes and reads, of any sizes, on a
  live terminal, the bytes read followed by those still buffered are exactly the bytes that
  were buffered before followed by those written, so nothing is lost, repeated or reordered.
\<close>

lemma memory_terminal_pipe:
  assumes "t < length (ms_terms m)" and "\<not> finished (ms_terms m ! t)"
    and "term_session t ios m = (m', out)"
  shows "out @ te_buf (ms_terms m' ! t) = te_buf (ms_terms m ! t) @ written ios"
  using assms
proof (induction ios arbitrary: m out)
  case (Cons io ios)
  show ?case
  proof (cases io)
    case (WriteIO p)
    let ?m = "set_term t ((ms_terms m ! t)\<lparr>te_buf := te_buf (ms_terms m ! t) @ p\<rparr>) m"
    have "fst (term_write p t m) = ?m"
      using Cons.prems(2) by (auto simp: term_write_def Let_def finished_def split: option.split)
    then have "term_session t ios ?m = (m', out)" using Cons.prems(3) WriteIO by simp
    from Cons.IH [OF _ _ this] Cons.prems(1,2) show ?thesis
      by (simp add: WriteIO finished_def)
  next
    case (ReadIO cap)
    show ?thesis
    proof (cases "te_buf (ms_terms m ! t)")
      case Nil
      then have "term_read cap t m = None"
        using Cons.prems(2) by (simp add: term_read_def Let_def finished_def)
      then show ?thesis using Cons.IH [OF Cons.prems(1,2)] Cons.prems(3) ReadIO by simp
    next
      case (Cons c cs)
      let ?b = "te_buf (ms_terms m ! t)"
      let ?m = "set_term t ((ms_terms m ! t)\<lparr>te_buf := drop cap ?b\<rparr>) m"
      have r: "term_read cap t m = Some (?m, Inr (take cap ?b))"
        using Cons.prems(2) Cons by (auto simp: term_read_def Let_def finished_def split: option.split)
      obtain m2 rest where s: "term_session t ios ?m = (m2, rest)" by (cases "term_session t ios ?m")
      have o: "m' = m2" "out = take cap ?b @ rest" using Cons.prems(3) ReadIO r s by simp_all
      have s': "term_session t ios ?m = (m', rest)" using s o(1) by simp
      from Cons.IH [OF _ _ s'] Cons.prems(1,2) have "rest @ te_buf (ms_terms m2 ! t) = drop cap ?b @ written ios"
        by (simp add: finished_def o(1))
      then have "take cap ?b @ rest @ te_buf (ms_terms m2 ! t) = ?b @ written ios" by simp
      then show ?thesis by (simp add: o ReadIO)
    qed
  qed
qed simp

lemma memory_terminal_pipe_witness:
  "\<exists>m' out. term_session 0 [WriteIO [1, 2], ReadIO 1]
      (fst (env_attach None 0 (Window 0 0) sample_granted)) = (m', out) \<and>
     out @ te_buf (ms_terms m' ! 0) = [1, 2]"
proof -
  let ?m = "fst (env_attach None 0 (Window 0 0) sample_granted)"
  have t: "ms_terms ?m = [new_terminal 0 (Window 0 0)]"
    by (simp add: env_attach_def sample_granted_def new_environment_def host_new_def Let_def)
  obtain m' out where s: "term_session 0 [WriteIO [1, 2], ReadIO 1] ?m = (m', out)"
    by (cases "term_session 0 [WriteIO [1, 2], ReadIO 1] ?m")
  have "out @ te_buf (ms_terms m' ! 0) = [1, 2]"
    using memory_terminal_pipe [OF _ _ s] by (simp add: t new_terminal_def finished_def)
  with s show ?thesis by blast
qed

end
