(* ===== verification/Mux_Frame.thy ===== *)
theory Mux_Frame
  imports Errors
begin

text \<open>
  The shared frame codec and session of both hops (\<open>internal/mux/mux.go\<close>). A frame is
  a 35-byte big-endian header, four lengths among it, and the four variable parts; on the wire
  it follows its 32-bit size. A connection is a byte stream that ends in an error on
  the read side, and on the write side any function that takes some of the bytes it is
  offered. An \<open>Extra\<close> is its bytes; the JSON payload helpers are in theory Remote_Server.
\<close>

definition max_frame_bytes :: nat where "max_frame_bytes = 75497472"
definition max_pty_bytes :: nat where "max_pty_bytes = 65536"
definition fixed_frame_bytes :: nat where "fixed_frame_bytes = 35"

abbreviation KindRequest :: byte where "KindRequest \<equiv> 1"
abbreviation KindResponse :: byte where "KindResponse \<equiv> 2"
abbreviation KindPty :: byte where "KindPty \<equiv> 3"
abbreviation KindWatch :: byte where "KindWatch \<equiv> 4"

record frame =
  fr_seq :: uint64
  fr_kind :: byte
  fr_method :: string
  fr_grant :: string
  fr_stream :: uint64
  fr_status :: string
  fr_extra :: bytes
  fr_deadline :: "64 word"

definition validate_frame :: "frame \<Rightarrow> go_error option" where
  "validate_frame f =
     (if fr_kind f < KindRequest \<or> fr_kind f > KindWatch \<or> length (fr_method f) > 64 \<or>
         length (fr_grant f) > 64 \<or> length (fr_status f) > 64
      then Some (Sent ErrInvalid)
      else if \<not> utf8_valid (fr_method f) \<or> \<not> utf8_valid (fr_grant f) \<or> \<not> utf8_valid (fr_status f)
      then Some (Sent ErrInvalid)
      else if length (fr_extra f) > max_frame_bytes then Some (Sent ErrTooLarge)
      else if fr_kind f = KindPty \<and> length (fr_extra f) > max_pty_bytes then Some (Sent ErrTooLarge)
      else None)"

definition encode_frame :: "frame \<Rightarrow> bytes res" where
  "encode_frame f =
     (let size = fixed_frame_bytes + length (fr_method f) + length (fr_grant f) +
                 length (fr_status f) + length (fr_extra f)
      in if size > max_frame_bytes then Inl (Sent ErrTooLarge)
         else Inr (put_uint 8 (fr_seq f) @ [fr_kind f] @ put_uint 8 (fr_stream f) @
                   put_uint 8 (fr_deadline f) @
                   put_uint 2 (word_of_nat (length (fr_method f)) :: uint16) @
                   put_uint 2 (word_of_nat (length (fr_grant f)) :: uint16) @
                   put_uint 2 (word_of_nat (length (fr_status f)) :: uint16) @
                   put_uint 4 (word_of_nat (length (fr_extra f)) :: uint32) @
                   bytes_of_string (fr_method f) @ bytes_of_string (fr_grant f) @
                   bytes_of_string (fr_status f) @ fr_extra f))"

text \<open>\<open>payload[a:b]\<close>.\<close>

definition subslice :: "nat \<Rightarrow> nat \<Rightarrow> bytes \<Rightarrow> bytes" where
  "subslice a b p = take (b - a) (drop a p)"

definition decode_frame :: "bytes \<Rightarrow> frame res" where
  "decode_frame p =
     (if length p < fixed_frame_bytes then Inl (Sent ErrInvalid)
      else
        (let method_len = unat (get_uint (subslice 25 27 p) :: uint16);
             grant_len = unat (get_uint (subslice 27 29 p) :: uint16);
             status_len = unat (get_uint (subslice 29 31 p) :: uint16);
             extra_len = unat (get_uint (subslice 31 35 p) :: uint32);
             o1 = fixed_frame_bytes + method_len; o2 = o1 + grant_len; o3 = o2 + status_len
         in if extra_len > max_frame_bytes - fixed_frame_bytes then Inl (Sent ErrTooLarge)
            else if o3 + extra_len \<noteq> length p then Inl (Sent ErrInvalid)
            else Inr \<lparr>fr_seq = get_uint (subslice 0 8 p), fr_kind = p ! 8,
                      fr_method = string_of_bytes (subslice fixed_frame_bytes o1 p),
                      fr_grant = string_of_bytes (subslice o1 o2 p),
                      fr_stream = get_uint (subslice 9 17 p),
                      fr_status = string_of_bytes (subslice o2 o3 p),
                      fr_extra = drop o3 p,
                      fr_deadline = get_uint (subslice 17 25 p)\<rparr>))"

subsection \<open>The session\<close>

text \<open>
  \<open>Write\<close> as the connection chooses: how many bytes of those offered it takes, and an error.
\<close>

type_synonym 'c conn_write = "'c \<Rightarrow> bytes \<Rightarrow> 'c \<times> nat \<times> go_error option"

function write_all :: "'c conn_write \<Rightarrow> 'c \<Rightarrow> bytes \<Rightarrow> 'c \<times> bytes \<times> go_error option" where
  "write_all w c data =
     (if data = [] then (c, [], None)
      else (case w c data of
              (c', n, Some e) \<Rightarrow> (c', take n data, Some e)
            | (c', n, None) \<Rightarrow>
                if n = 0 then (c', [], Some IoUnexpectedEOF)
                else (let (c2, out, err) = write_all w c' (drop n data) in (c2, take n data @ out, err))))"
  by auto
termination by (relation "measure (\<lambda>(w, c, data). length data)") auto

declare write_all.simps [simp del]

definition send_frame :: "'c conn_write \<Rightarrow> 'c \<Rightarrow> frame \<Rightarrow> 'c \<times> bytes \<times> go_error option" where
  "send_frame w c f =
     (case validate_frame f of
        Some e \<Rightarrow> (c, [], Some e)
      | None \<Rightarrow>
     (case encode_frame f of
        Inl e \<Rightarrow> (c, [], Some e)
      | Inr payload \<Rightarrow>
          if length payload > max_frame_bytes then (c, [], Some (Sent ErrTooLarge))
          else (case write_all w c (put_uint 4 (word_of_nat (length payload) :: uint32)) of
                  (c', out, Some e) \<Rightarrow> (c', out, Some e)
                | (c', out, None) \<Rightarrow>
                    (let (c2, out2, err) = write_all w c' payload in (c2, out @ out2, err)))))"

record conn_in =
  ci_bytes :: bytes
  ci_end :: go_error

text \<open>\<open>io.ReadFull\<close>: an \<open>EOF\<close> in the middle is \<open>ErrUnexpectedEOF\<close>.\<close>

definition read_full :: "nat \<Rightarrow> conn_in \<Rightarrow> (bytes \<times> conn_in) res" where
  "read_full n c =
     (if n \<le> length (ci_bytes c) then Inr (take n (ci_bytes c), c\<lparr>ci_bytes := drop n (ci_bytes c)\<rparr>)
      else if ci_bytes c \<noteq> [] \<and> ci_end c = IoEOF then Inl IoUnexpectedEOF
      else Inl (ci_end c))"

definition recv_frame :: "conn_in \<Rightarrow> (frame \<times> conn_in) res" where
  "recv_frame c =
     (case read_full 4 c of
        Inl e \<Rightarrow> Inl e
      | Inr (header, c1) \<Rightarrow>
          (let size = unat (get_uint header :: uint32)
           in if size = 0 then Inl (Sent ErrInvalid)
              else if size > max_frame_bytes then Inl (Sent ErrTooLarge)
              else (case read_full size c1 of
                      Inl e \<Rightarrow> Inl e
                    | Inr (payload, c2) \<Rightarrow>
                        (case decode_frame payload of
                           Inl e \<Rightarrow> Inl e
                         | Inr f \<Rightarrow>
                             (case validate_frame f of Some e \<Rightarrow> Inl e | None \<Rightarrow> Inr (f, c2))))))"

subsection \<open>The codec\<close>

definition small_parts :: "frame \<Rightarrow> bool" where
  "small_parts f \<longleftrightarrow>
     length (fr_method f) < 65536 \<and> length (fr_grant f) < 65536 \<and> length (fr_status f) < 65536"

lemma validate_small: "validate_frame f = None \<Longrightarrow> small_parts f"
  by (auto simp: validate_frame_def small_parts_def split: if_splits)

lemma encode_frame_length: "encode_frame f = Inr p \<Longrightarrow> fixed_frame_bytes \<le> length p \<and> length p \<le> max_frame_bytes"
  by (auto simp: encode_frame_def Let_def fixed_frame_bytes_def bytes_of_string_def split: if_splits)

lemma get_put_len16: "n < 65536 \<Longrightarrow> unat (get_uint (put_uint 2 (word_of_nat n :: uint16)) :: uint16) = n"
  by (simp add: get_put_uint unat_of_nat)

lemma get_put_len32: "n < 4294967296 \<Longrightarrow> unat (get_uint (put_uint 4 (word_of_nat n :: uint32)) :: uint32) = n"
  by (simp add: get_put_uint unat_of_nat)

lemma decode_encode:
  assumes "small_parts f" and "encode_frame f = Inr p"
  shows "decode_frame p = Inr f"
proof -
  let ?m = "bytes_of_string (fr_method f)" and ?g = "bytes_of_string (fr_grant f)"
    and ?s = "bytes_of_string (fr_status f)" and ?e = "fr_extra f"
  have len: "length ?m = length (fr_method f)" "length ?g = length (fr_grant f)"
    "length ?s = length (fr_status f)" by (simp_all add: bytes_of_string_def)
  have size: "35 + length ?m + length ?g + length ?s + length ?e \<le> max_frame_bytes"
    and p: "p = put_uint 8 (fr_seq f) @ fr_kind f # put_uint 8 (fr_stream f) @ put_uint 8 (fr_deadline f) @
      put_uint 2 (word_of_nat (length ?m) :: uint16) @ put_uint 2 (word_of_nat (length ?g) :: uint16) @
      put_uint 2 (word_of_nat (length ?s) :: uint16) @ put_uint 4 (word_of_nat (length ?e) :: uint32) @
      ?m @ ?g @ ?s @ ?e"
    using assms(2) by (auto simp: encode_frame_def Let_def fixed_frame_bytes_def len split: if_splits)
  have e32: "length ?e < 4294967296" using size by (simp add: max_frame_bytes_def)
  have s: "subslice 25 27 p = put_uint 2 (word_of_nat (length ?m) :: uint16)"
    "subslice 27 29 p = put_uint 2 (word_of_nat (length ?g) :: uint16)"
    "subslice 29 31 p = put_uint 2 (word_of_nat (length ?s) :: uint16)"
    "subslice 31 35 p = put_uint 4 (word_of_nat (length ?e) :: uint32)"
    "subslice 0 8 p = put_uint 8 (fr_seq f)" "subslice 9 17 p = put_uint 8 (fr_stream f)"
    "subslice 17 25 p = put_uint 8 (fr_deadline f)" "p ! 8 = fr_kind f"
    "subslice 35 (35 + length ?m) p = ?m" "subslice (35 + length ?m) (35 + length ?m + length ?g) p = ?g"
    "subslice (35 + length ?m + length ?g) (35 + length ?m + length ?g + length ?s) p = ?s"
    "drop (35 + length ?m + length ?g + length ?s) p = ?e"
    by (simp_all add: p subslice_def nth_append drop_Cons')
  have l: "length p = 35 + length ?m + length ?g + length ?s + length ?e" by (simp add: p)
  have lens: "length ?m < 65536" "length ?g < 65536" "length ?s < 65536"
    using assms(1) by (simp_all add: small_parts_def len)
  have v: "unat (get_uint (subslice 25 27 p) :: uint16) = length ?m"
    "unat (get_uint (subslice 27 29 p) :: uint16) = length ?g"
    "unat (get_uint (subslice 29 31 p) :: uint16) = length ?s"
    "unat (get_uint (subslice 31 35 p) :: uint32) = length ?e"
    unfolding s by (rule get_put_len16 [OF lens(1)] get_put_len16 [OF lens(2)] get_put_len16 [OF lens(3)]
        get_put_len32 [OF e32])+
  have w: "get_uint (subslice 0 8 p) = fr_seq f" "get_uint (subslice 9 17 p) = fr_stream f"
    "get_uint (subslice 17 25 p) = fr_deadline f"
    unfolding s by (simp_all add: get_put_uint)
  have "\<not> max_frame_bytes - 35 < length ?e" using size by simp
  then show ?thesis
    by (simp add: decode_frame_def Let_def fixed_frame_bytes_def v w s(8-) [unfolded len] l len)
qed

lemma subslice_split:
  assumes "a \<le> b"
  shows "drop a p = subslice a b p @ drop b p"
proof -
  have "drop b p = drop (b - a) (drop a p)" using assms by simp
  then show ?thesis by (simp only: subslice_def append_take_drop_id)
qed

lemma length_subslice: "b \<le> length p \<Longrightarrow> length (subslice a b p) = b - a"
  by (simp add: subslice_def)

lemma header_split:
  assumes "35 \<le> length p"
  shows "p = subslice 0 8 p @ [p ! 8] @ subslice 9 17 p @ subslice 17 25 p @ subslice 25 27 p @ subslice 27 29 p @
    subslice 29 31 p @ subslice 31 35 p @ drop 35 p"
proof -
  have "p = subslice 0 8 p @ drop 8 p" using subslice_split [of 0 8 p] by simp
  moreover have "drop 8 p = p ! 8 # drop 9 p" using assms Cons_nth_drop_Suc [of 8 p] by simp
  moreover have "drop 9 p = subslice 9 17 p @ drop 17 p" "drop 17 p = subslice 17 25 p @ drop 25 p"
    "drop 25 p = subslice 25 27 p @ drop 27 p" "drop 27 p = subslice 27 29 p @ drop 29 p"
    "drop 29 p = subslice 29 31 p @ drop 31 p" "drop 31 p = subslice 31 35 p @ drop 35 p"
    by (rule subslice_split; simp)+
  ultimately show ?thesis by (simp only: append_Cons append_Nil)
qed

lemma encode_decode:
  assumes d: "decode_frame p = Inr f" and len: "length p \<le> max_frame_bytes"
  shows "encode_frame f = Inr p"
proof -
  let ?m = "unat (get_uint (subslice 25 27 p) :: uint16)" and ?g = "unat (get_uint (subslice 27 29 p) :: uint16)"
    and ?s = "unat (get_uint (subslice 29 31 p) :: uint16)" and ?e = "unat (get_uint (subslice 31 35 p) :: uint32)"
  let ?o1 = "35 + ?m" let ?o2 = "?o1 + ?g" let ?o3 = "?o2 + ?s"
  have l: "35 \<le> length p" "?o3 + ?e = length p"
    using d by (auto simp: decode_frame_def fixed_frame_bytes_def Let_def split: if_splits)
  have f: "f = \<lparr>fr_seq = get_uint (subslice 0 8 p), fr_kind = p ! 8,
      fr_method = string_of_bytes (subslice 35 ?o1 p), fr_grant = string_of_bytes (subslice ?o1 ?o2 p),
      fr_stream = get_uint (subslice 9 17 p), fr_status = string_of_bytes (subslice ?o2 ?o3 p),
      fr_extra = drop ?o3 p, fr_deadline = get_uint (subslice 17 25 p)\<rparr>"
    using d by (auto simp: decode_frame_def fixed_frame_bytes_def Let_def split: if_splits)
  have str: "length (string_of_bytes bs) = length bs" for bs by (simp add: string_of_bytes_def)
  have le: "?o1 \<le> length p" "?o2 \<le> length p" "?o3 \<le> length p" using l(2) by linarith+
  have flen: "length (fr_method f) = ?m" "length (fr_grant f) = ?g" "length (fr_status f) = ?s"
    using le by (simp_all add: f str length_subslice)
  have elen: "length (fr_extra f) = ?e" using l(2) by (simp add: f)
  have "put_uint 2 (word_of_nat ?m :: uint16) = subslice 25 27 p" "put_uint 2 (word_of_nat ?g :: uint16) = subslice 27 29 p"
    "put_uint 2 (word_of_nat ?s :: uint16) = subslice 29 31 p" "put_uint 4 (word_of_nat ?e :: uint32) = subslice 31 35 p"
    "put_uint 8 (fr_seq f) = subslice 0 8 p" "put_uint 8 (fr_stream f) = subslice 9 17 p"
    "put_uint 8 (fr_deadline f) = subslice 17 25 p"
    using l(1) by (simp_all add: f put_get_uint length_subslice)
  moreover have "drop 35 p = bytes_of_string (fr_method f) @ bytes_of_string (fr_grant f) @
      bytes_of_string (fr_status f) @ fr_extra f"
    using subslice_split [of 35 ?o1 p] subslice_split [of ?o1 ?o2 p] subslice_split [of ?o2 ?o3 p] by (simp add: f)
  moreover have "p ! 8 = fr_kind f" by (simp add: f)
  moreover have "35 + ?m + ?g + ?s + ?e \<le> max_frame_bytes" using l(2) len by simp
  ultimately show ?thesis
    using header_split [OF l(1)] by (simp add: encode_frame_def Let_def flen elen fixed_frame_bytes_def)
qed

subsection \<open>Sending and receiving\<close>

lemma write_all_out:
  "write_all w c data = (c', out, err) \<Longrightarrow> (\<exists>rest. data = out @ rest) \<and> (err = None \<longrightarrow> out = data)"
proof (induction w c data arbitrary: c' out err rule: write_all.induct)
  case (1 w c data)
  show ?case
  proof (cases "data = []")
    case True
    then show ?thesis using "1.prems" by (simp add: write_all.simps)
  next
    case False
    obtain c1 n e where w: "w c data = (c1, n, e)" by (cases "w c data")
    show ?thesis
    proof (cases "e = None \<and> n \<noteq> 0")
      case True
      obtain c2 out2 err2 where r: "write_all w c1 (drop n data) = (c2, out2, err2)"
        by (cases "write_all w c1 (drop n data)")
      have o: "out = take n data @ out2" "err = err2"
        using "1.prems" False True w r by (simp_all add: write_all.simps [of w c data])
      have "(\<exists>rest. drop n data = out2 @ rest) \<and> (err2 = None \<longrightarrow> out2 = drop n data)"
        using "1.IH" [OF False w [symmetric] refl] True r by simp
      then show ?thesis unfolding o by (metis append.assoc append_take_drop_id)
    next
      case False
      with \<open>data \<noteq> []\<close> have "out = take n data \<or> out = []" "err \<noteq> None"
        using "1.prems" w by (auto simp: write_all.simps [of w c data] split: option.splits)
      then show ?thesis by (metis append_Nil append_take_drop_id)
    qed
  qed
qed

text \<open>The bytes of one frame on the wire.\<close>

definition wire :: "bytes \<Rightarrow> bytes" where
  "wire p = put_uint 4 (word_of_nat (length p) :: uint32) @ p"

lemma send_frame_out:
  assumes "send_frame w c f = (c', out, err)"
  shows "(\<exists>p rest. validate_frame f = None \<and> encode_frame f = Inr p \<and> wire p = out @ rest \<and>
      (err = None \<longrightarrow> rest = [])) \<or> out = [] \<and> err \<noteq> None"
proof (cases "validate_frame f = None \<and> (\<exists>p. encode_frame f = Inr p)")
  case False
  then show ?thesis using assms by (auto simp: send_frame_def split: option.splits sum.splits)
next
  case True
  then obtain p where p: "validate_frame f = None" "encode_frame f = Inr p" by blast
  have len: "\<not> max_frame_bytes < length p" using encode_frame_length [OF p(2)] by simp
  let ?h = "put_uint 4 (word_of_nat (length p) :: uint32)"
  obtain c1 o1 e1 where h: "write_all w c ?h = (c1, o1, e1)" by (cases "write_all w c ?h")
  obtain c2 o2 e2 where b: "write_all w c1 p = (c2, o2, e2)" by (cases "write_all w c1 p")
  have "out = (if e1 = None then o1 @ o2 else o1) \<and> err = (if e1 = None then e2 else e1)"
    using assms p len h b by (auto simp: send_frame_def split: option.splits)
  moreover note write_all_out [OF h] write_all_out [OF b]
  ultimately have "\<exists>rest. wire p = out @ rest \<and> (err = None \<longrightarrow> rest = [])"
    by (auto simp: wire_def split: if_splits)
  with p show ?thesis by blast
qed

lemma get_wire_size: "length p \<le> max_frame_bytes \<Longrightarrow>
  unat (get_uint (put_uint 4 (word_of_nat (length p) :: uint32)) :: uint32) = length p"
  by (rule get_put_len32) (simp add: max_frame_bytes_def)

lemma recv_wire:
  assumes "validate_frame f = None" and "encode_frame f = Inr p"
  shows "recv_frame \<lparr>ci_bytes = wire p @ beyond, ci_end = e\<rparr> = Inr (f, \<lparr>ci_bytes = beyond, ci_end = e\<rparr>)"
proof -
  have len: "35 \<le> length p" "length p \<le> max_frame_bytes"
    using encode_frame_length [OF assms(2)] by (simp_all add: fixed_frame_bytes_def)
  have "length p \<noteq> 0" using len(1) by linarith
  then show ?thesis
    using decode_encode [OF validate_small [OF assms(1)] assms(2)] len assms(1)
    by (simp add: recv_frame_def read_full_def wire_def get_wire_size Let_def)
qed

lemma recv_frameD:
  assumes "recv_frame c = Inr (f, c')"
  shows "validate_frame f = None \<and> (\<exists>p. encode_frame f = Inr p \<and> ci_bytes c = wire p @ ci_bytes c') \<and>
    ci_end c' = ci_end c"
proof -
  let ?h = "take 4 (ci_bytes c)" and ?r = "drop 4 (ci_bytes c)"
  let ?n = "unat (get_uint ?h :: uint32)"
  have l: "4 \<le> length (ci_bytes c)" and n: "?n \<noteq> 0" "?n \<le> max_frame_bytes" "?n \<le> length ?r"
    and d: "decode_frame (take ?n ?r) = Inr f" and v: "validate_frame f = None"
    and c': "c' = c\<lparr>ci_bytes := drop ?n ?r\<rparr>"
    using assms by (auto simp: recv_frame_def read_full_def Let_def split: if_splits sum.splits option.splits)
  have "length (take ?n ?r) \<le> max_frame_bytes" using n(2) by simp
  from encode_decode [OF d this] have e: "encode_frame f = Inr (take ?n ?r)" .
  have "put_uint 4 (word_of_nat ?n :: uint32) = ?h" using l by (simp add: put_get_uint)
  then have "wire (take ?n ?r) = ?h @ take ?n ?r" using n(3) by (simp add: wire_def)
  moreover have "ci_bytes c = ?h @ take ?n ?r @ drop ?n ?r" by (metis append_take_drop_id)
  moreover have "ci_bytes c' = drop ?n ?r" by (simp add: c')
  ultimately have "ci_bytes c = wire (take ?n ?r) @ ci_bytes c'" by (simp only: append_assoc)
  with v e show ?thesis by (auto simp: c')
qed

subsection \<open>Concrete instances\<close>

text \<open>A connection that takes one byte at a time, and a request frame.\<close>

definition bytewise :: "unit conn_write" where
  "bytewise c data = (c, 1, None)"

definition sample_frame :: frame where
  "sample_frame = \<lparr>fr_seq = 1, fr_kind = KindRequest, fr_method = ''ensure'', fr_grant = ''g'',
     fr_stream = 0, fr_status = '''', fr_extra = [7], fr_deadline = 0\<rparr>"

lemma bytewise_all: "write_all bytewise c data = (c, data, None)"
proof (induction data)
  case (Cons b data)
  have "bytewise c (b # data) = (c, 1, None)" by (simp add: bytewise_def)
  with Cons show ?case by (subst write_all.simps) simp
qed (simp add: write_all.simps)

lemma sample_frame_valid: "validate_frame sample_frame = None"
  by (simp add: validate_frame_def sample_frame_def max_frame_bytes_def max_pty_bytes_def)

lemma sample_frame_encodes: "\<exists>p. encode_frame sample_frame = Inr p"
  by (simp add: encode_frame_def sample_frame_def fixed_frame_bytes_def max_frame_bytes_def)

lemma bytewise_send:
  assumes "validate_frame f = None" and "encode_frame f = Inr p"
  shows "send_frame bytewise c f = (c, wire p, None)"
  using assms encode_frame_length [OF assms(2)] by (simp add: send_frame_def bytewise_all wire_def)

text \<open>
  A frame crosses the wire intact: whatever sizes the connection's writes take, a \<open>Send\<close>
  that reports success has put bytes on the stream from which \<open>Recv\<close> reads back exactly the
  same frame and stops exactly where the next one starts.
\<close>

lemma mux_transport:
  assumes "send_frame w c f = (c', out, None)"
  shows "recv_frame \<lparr>ci_bytes = out @ beyond, ci_end = e\<rparr> = Inr (f, \<lparr>ci_bytes = beyond, ci_end = e\<rparr>)"
  using send_frame_out [OF assms] recv_wire by auto

lemma mux_transport_witness:
  "\<exists>out. send_frame bytewise () sample_frame = ((), out, None) \<and>
     recv_frame \<lparr>ci_bytes = out @ [9], ci_end = IoEOF\<rparr> = Inr (sample_frame, \<lparr>ci_bytes = [9], ci_end = IoEOF\<rparr>)"
proof -
  obtain p where p: "encode_frame sample_frame = Inr p" using sample_frame_encodes by blast
  note s = bytewise_send [OF sample_frame_valid p, of "()"]
  from s mux_transport [OF s] show ?thesis by blast
qed

text \<open>
  C2. \<open>Recv\<close> is the exact inverse of \<open>Send\<close>: it returns a frame only if the frame is valid and
  the bytes it consumed are the one encoding \<open>Send\<close> writes for it, so no two byte strings
  decode to the same frame and no other bytes are accepted.
\<close>

theorem mux_recv_exact:
  "recv_frame c = Inr (f, c') \<longleftrightarrow>
     validate_frame f = None \<and>
     (case encode_frame f of Inl e \<Rightarrow> False | Inr p \<Rightarrow> ci_bytes c = wire p @ ci_bytes c') \<and>
     ci_end c' = ci_end c"
proof
  assume "recv_frame c = Inr (f, c')"
  from recv_frameD [OF this] show "validate_frame f = None \<and>
     (case encode_frame f of Inl e \<Rightarrow> False | Inr p \<Rightarrow> ci_bytes c = wire p @ ci_bytes c') \<and>
     ci_end c' = ci_end c" by auto
next
  assume a: "validate_frame f = None \<and>
     (case encode_frame f of Inl e \<Rightarrow> False | Inr p \<Rightarrow> ci_bytes c = wire p @ ci_bytes c') \<and>
     ci_end c' = ci_end c"
  then obtain p where p: "encode_frame f = Inr p" "ci_bytes c = wire p @ ci_bytes c'"
    by (cases "encode_frame f") auto
  have "c = \<lparr>ci_bytes = wire p @ ci_bytes c', ci_end = ci_end c'\<rparr>" using a p(2) by (cases c) simp
  moreover have "c' = \<lparr>ci_bytes = ci_bytes c', ci_end = ci_end c'\<rparr>" by simp
  ultimately show "recv_frame c = Inr (f, c')" using recv_wire [OF _ p(1)] a by metis
qed


subsection \<open>Streams of frames\<close>

fun send_many :: "'c conn_write \<Rightarrow> 'c \<Rightarrow> frame list \<Rightarrow> 'c \<times> bytes \<times> go_error option" where
  "send_many w c [] = (c, [], None)"
| "send_many w c (f # fs) =
     (case send_frame w c f of
        (c1, out, Some e) \<Rightarrow> (c1, out, Some e)
      | (c1, out, None) \<Rightarrow> (let (c2, out2, err) = send_many w c1 fs in (c2, out @ out2, err)))"

fun recv_many :: "nat \<Rightarrow> conn_in \<Rightarrow> (frame list \<times> conn_in) res" where
  "recv_many 0 c = Inr ([], c)"
| "recv_many (Suc n) c =
     (case recv_frame c of
        Inl e \<Rightarrow> Inl e
      | Inr (f, c1) \<Rightarrow> (case recv_many n c1 of Inl e \<Rightarrow> Inl e | Inr (fs, c2) \<Rightarrow> Inr (f # fs, c2)))"

text \<open>
  Frames stay sequenced: a whole series of frames sent on one session is received as the
  same series, in order and with nothing in between.
\<close>

lemma mux_stream_order:
  assumes "send_many w c fs = (c', out, None)"
  shows "recv_many (length fs) \<lparr>ci_bytes = out @ beyond, ci_end = e\<rparr> =
    Inr (fs, \<lparr>ci_bytes = beyond, ci_end = e\<rparr>)"
  using assms
proof (induction fs arbitrary: c out)
  case (Cons f fs)
  obtain c1 o1 where f: "send_frame w c f = (c1, o1, None)"
    using Cons.prems by (auto split: prod.splits option.splits)
  obtain o2 where fs: "send_many w c1 fs = (c', o2, None)" "out = o1 @ o2"
    using Cons.prems f by (auto split: prod.splits)
  have "recv_frame \<lparr>ci_bytes = o1 @ o2 @ beyond, ci_end = e\<rparr> = Inr (f, \<lparr>ci_bytes = o2 @ beyond, ci_end = e\<rparr>)"
    using send_frame_out [OF f] recv_wire by auto
  then show ?case using Cons.IH [OF fs(1)] by (simp add: fs(2))
qed simp

lemma mux_stream_order_witness:
  "\<exists>out. recv_many 2 \<lparr>ci_bytes = out, ci_end = IoEOF\<rparr> =
     Inr ([sample_frame, sample_frame], \<lparr>ci_bytes = [], ci_end = IoEOF\<rparr>)"
proof -
  obtain p where p: "encode_frame sample_frame = Inr p" using sample_frame_encodes by blast
  have "send_many bytewise () [sample_frame, sample_frame] = ((), wire p @ wire p, None)"
    by (simp add: bytewise_send [OF sample_frame_valid p])
  from mux_stream_order [OF this, where beyond = "[]"] show ?thesis by (auto simp: numeral_2_eq_2)
qed

text \<open>
  A torn stream never yields a frame: if it ends inside a frame, \<open>Recv\<close> reports
  \<open>io.ErrUnexpectedEOF\<close>, or plain \<open>io.EOF\<close> exactly when nothing, or the size header and
  nothing else, had arrived.
\<close>

lemma mux_torn_stream:
  assumes "validate_frame f = None" and "encode_frame f = Inr p" and "wire p = part @ rest" and "rest \<noteq> []"
  shows "recv_frame \<lparr>ci_bytes = part, ci_end = IoEOF\<rparr> =
    Inl (if length part = 0 \<or> length part = 4 then IoEOF else IoUnexpectedEOF)"
proof -
  have len: "35 \<le> length p" "length p \<le> max_frame_bytes"
    using encode_frame_length [OF assms(2)] by (simp_all add: fixed_frame_bytes_def)
  have "length (wire p) = length part + length rest" by (simp add: assms(3))
  moreover have "length (wire p) = 4 + length p" by (simp add: wire_def)
  moreover have "0 < length rest" using assms(4) by simp
  ultimately have cut: "length part < 4 + length p" by linarith
  show ?thesis
  proof (cases "length part < 4")
    case True
    then show ?thesis by (auto simp: recv_frame_def read_full_def)
  next
    case False
    have "take 4 part = take 4 (wire p)" using False by (simp add: assms(3))
    also have "\<dots> = put_uint 4 (word_of_nat (length p) :: uint32)" by (simp add: wire_def)
    finally have h: "take 4 part = put_uint 4 (word_of_nat (length p) :: uint32)" .
    have "length p \<noteq> 0" using len(1) by linarith
    with h False cut len(2) show ?thesis
      by (auto simp: recv_frame_def read_full_def Let_def get_wire_size)
  qed
qed

lemma mux_torn_stream_witness:
  "recv_frame \<lparr>ci_bytes = [], ci_end = IoEOF\<rparr> = Inl IoEOF"
proof -
  obtain p where p: "encode_frame sample_frame = Inr p" using sample_frame_encodes by blast
  have "length (wire p) \<noteq> 0" by (simp add: wire_def)
  then have "wire p \<noteq> []" by auto
  from mux_torn_stream [OF sample_frame_valid p, of "[]" "wire p"] this show ?thesis by simp
qed

end
