(* ===== verification/Remote_Dispatch.thy ===== *)
theory Remote_Dispatch
  imports Mux_Frame
begin

text \<open>
  The per-connection dispatcher of the remote server (\<open>serverConn.dispatch\<close>,
  \<open>remote/server.go\<close>) as a state machine. An admitted frame is an operation with a
  goroutine of its own; its \<open>done\<close> channel is its index, a closed channel a status. The
  goroutine waits for the operation that was its grant's tail when it was admitted, runs the
  handler, and then closes its channel, gives its slot back and clears the tail, in three
  separate steps, so that the reader and the other goroutines can move in between.
\<close>

definition max_connection_operations :: nat where "max_connection_operations = 128"

datatype op_status = Waiting | Running | DoneHeld | DoneFreed | Gone

record dispatched =
  op_key :: string
  op_prev :: "nat option"
  op_status :: op_status

record dispatcher =
  dp_ops :: "dispatched list"
  dp_tails :: "string \<rightharpoonup> nat"
  dp_inflight :: nat
  dp_closed :: bool
  dp_cancelled :: bool

definition new_dispatcher :: dispatcher where
  "new_dispatcher =
     \<lparr>dp_ops = [], dp_tails = Map.empty, dp_inflight = 0, dp_closed = False, dp_cancelled = False\<rparr>"

datatype admission = Ignored | BusyReply | SessionClosed | Dropped | Admitted nat

definition dispatch_key :: "frame \<Rightarrow> string" where
  "dispatch_key f = (if fr_grant f = '''' then ''$host'' else fr_grant f)"

text \<open>The part of \<open>dispatch\<close> that runs on the reader.\<close>

definition dispatch_admit :: "frame \<Rightarrow> dispatcher \<Rightarrow> dispatcher \<times> admission" where
  "dispatch_admit f d =
     (if fr_kind f \<noteq> KindRequest \<and> fr_kind f \<noteq> KindPty then (d, Ignored)
      else if dp_inflight d \<ge> max_connection_operations
      then (d, if fr_kind f = KindRequest then BusyReply else SessionClosed)
      else if dp_closed d then (d, Dropped)
      else (let i = length (dp_ops d); key = dispatch_key f in
        (d\<lparr>dp_ops := dp_ops d @ [\<lparr>op_key = key, op_prev = dp_tails d key, op_status = Waiting\<rparr>],
           dp_tails := (dp_tails d)(key \<mapsto> i), dp_inflight := Suc (dp_inflight d)\<rparr>, Admitted i)))"

definition chan_closed :: "op_status \<Rightarrow> bool" where
  "chan_closed s \<longleftrightarrow> s = DoneHeld \<or> s = DoneFreed \<or> s = Gone"

definition status_at :: "dispatcher \<Rightarrow> nat \<Rightarrow> op_status" where
  "status_at d i = op_status (dp_ops d ! i)"

definition key_at :: "dispatcher \<Rightarrow> nat \<Rightarrow> string" where
  "key_at d i = op_key (dp_ops d ! i)"

definition prev_at :: "dispatcher \<Rightarrow> nat \<Rightarrow> nat option" where
  "prev_at d i = op_prev (dp_ops d ! i)"

definition set_status :: "nat \<Rightarrow> op_status \<Rightarrow> dispatcher \<Rightarrow> dispatcher" where
  "set_status i s d = d\<lparr>dp_ops := (dp_ops d)[i := (dp_ops d ! i)\<lparr>op_status := s\<rparr>]\<rparr>"

definition may_start :: "dispatcher \<Rightarrow> nat \<Rightarrow> bool" where
  "may_start d i \<longleftrightarrow>
     status_at d i = Waiting \<and>
     (case prev_at d i of None \<Rightarrow> True | Some j \<Rightarrow> chan_closed (status_at d j))"

definition release_slot :: "nat \<Rightarrow> dispatcher \<Rightarrow> dispatcher" where
  "release_slot i d = (set_status i DoneFreed d)\<lparr>dp_inflight := dp_inflight d - 1\<rparr>"

definition clear_tail :: "nat \<Rightarrow> dispatcher \<Rightarrow> dispatcher" where
  "clear_tail i d =
     (let d' = set_status i Gone d in
      if dp_tails d (key_at d i) = Some i then d'\<lparr>dp_tails := (dp_tails d)(key_at d i := None)\<rparr> else d')"

inductive dstep :: "dispatcher \<Rightarrow> dispatcher \<Rightarrow> bool" where
  admit: "dstep d (fst (dispatch_admit f d))"
| start: "i < length (dp_ops d) \<Longrightarrow> may_start d i \<Longrightarrow> dstep d (set_status i Running d)"
| abandon: "i < length (dp_ops d) \<Longrightarrow> status_at d i = Waiting \<Longrightarrow> prev_at d i \<noteq> None \<Longrightarrow>
    dp_cancelled d \<Longrightarrow> dstep d (set_status i DoneHeld d)"
| finish: "i < length (dp_ops d) \<Longrightarrow> status_at d i = Running \<Longrightarrow> dstep d (set_status i DoneHeld d)"
| release: "i < length (dp_ops d) \<Longrightarrow> status_at d i = DoneHeld \<Longrightarrow> dstep d (release_slot i d)"
| clear: "i < length (dp_ops d) \<Longrightarrow> status_at d i = DoneFreed \<Longrightarrow> dstep d (clear_tail i d)"
| cancel: "dstep d (d\<lparr>dp_cancelled := True\<rparr>)"
| shut: "dp_cancelled d \<Longrightarrow> dstep d (d\<lparr>dp_closed := True\<rparr>)"

abbreviation dispatch_run :: "dispatcher \<Rightarrow> dispatcher \<Rightarrow> bool" where
  "dispatch_run \<equiv> dstep\<^sup>*\<^sup>*"

subsection \<open>The invariant\<close>

text \<open>\<open>last_of d key i\<close>: \<open>i\<close> is the latest operation admitted for \<open>key\<close>.\<close>

definition last_of :: "dispatcher \<Rightarrow> string \<Rightarrow> nat \<Rightarrow> bool" where
  "last_of d key i \<longleftrightarrow>
     i < length (dp_ops d) \<and> key_at d i = key \<and>
     (\<forall>k. i < k \<and> k < length (dp_ops d) \<longrightarrow> key_at d k \<noteq> key)"

definition holds_slot :: "op_status \<Rightarrow> bool" where
  "holds_slot s \<longleftrightarrow> s = Waiting \<or> s = Running \<or> s = DoneHeld"

definition chain_ok :: "dispatcher \<Rightarrow> bool" where
  "chain_ok d \<longleftrightarrow>
     (\<forall>key i. dp_tails d key = Some i \<longrightarrow> last_of d key i) \<and>
     (\<forall>i j. i < length (dp_ops d) \<and> prev_at d i = Some j \<longrightarrow>
        j < i \<and> key_at d j = key_at d i \<and> (\<forall>k. j < k \<and> k < i \<longrightarrow> key_at d k \<noteq> key_at d i)) \<and>
     dp_inflight d = length (filter (\<lambda>x. holds_slot (op_status x)) (dp_ops d)) \<and>
     dp_inflight d \<le> max_connection_operations \<and>
     (dp_closed d \<longrightarrow> dp_cancelled d)"

definition serial_ok :: "dispatcher \<Rightarrow> bool" where
  "serial_ok d \<longleftrightarrow>
     (\<forall>i k. i < k \<and> k < length (dp_ops d) \<and> key_at d i = key_at d k \<and>
        (status_at d k \<noteq> Waiting \<or> prev_at d k = None) \<longrightarrow> chan_closed (status_at d i)) \<and>
     (\<forall>i < length (dp_ops d). dp_tails d (key_at d i) = None \<longrightarrow> chan_closed (status_at d i))"

lemma set_status_simps [simp]:
  "dp_tails (set_status i s d) = dp_tails d" "dp_inflight (set_status i s d) = dp_inflight d"
  "dp_closed (set_status i s d) = dp_closed d" "dp_cancelled (set_status i s d) = dp_cancelled d"
  "length (dp_ops (set_status i s d)) = length (dp_ops d)"
  by (simp_all add: set_status_def)

lemma at_set_status [simp]:
  assumes "i < length (dp_ops d)"
  shows "key_at (set_status i s d) k = key_at d k" "prev_at (set_status i s d) k = prev_at d k"
    "status_at (set_status i s d) k = (if k = i then s else status_at d k)"
  using assms by (auto simp: key_at_def prev_at_def status_at_def set_status_def nth_list_update)

lemma length_filter_update:
  assumes "i < length xs"
  shows "length (filter P (xs[i := y])) + (if P (xs ! i) then 1 else 0) =
    length (filter P xs) + (if P y then 1 else 0)"
  using assms
proof (induction xs arbitrary: i)
  case (Cons x xs)
  then show ?case by (cases i) auto
qed simp

lemma slots_set_status:
  assumes "i < length (dp_ops d)"
  shows "length (filter (\<lambda>x. holds_slot (op_status x)) (dp_ops (set_status i s d))) +
      (if holds_slot (status_at d i) then 1 else 0) =
    length (filter (\<lambda>x. holds_slot (op_status x)) (dp_ops d)) + (if holds_slot s then 1 else 0)"
  using length_filter_update [OF assms, of "\<lambda>x. holds_slot (op_status x)" "(dp_ops d ! i)\<lparr>op_status := s\<rparr>"]
  by (simp add: set_status_def status_at_def)

lemma chain_set_status:
  assumes "chain_ok d" and "i < length (dp_ops d)" and "holds_slot (status_at d i) = holds_slot s"
  shows "chain_ok (set_status i s d)"
proof -
  have "length (filter (\<lambda>x. holds_slot (op_status x)) (dp_ops (set_status i s d))) =
      length (filter (\<lambda>x. holds_slot (op_status x)) (dp_ops d))"
    using slots_set_status [OF assms(2), of s] assms(3) by (simp split: if_splits)
  then show ?thesis
    using assms(1) by (simp add: chain_ok_def last_of_def at_set_status [OF assms(2)])
qed

lemma chain_same:
  assumes "chain_ok d" and "key_at d' = key_at d" and "prev_at d' = prev_at d"
    and "dp_tails d' = dp_tails d" and "length (dp_ops d') = length (dp_ops d)"
    and "dp_closed d' = dp_closed d" and "dp_cancelled d' = dp_cancelled d"
    and "dp_inflight d' = length (filter (\<lambda>x. holds_slot (op_status x)) (dp_ops d'))"
    and "dp_inflight d' \<le> max_connection_operations"
  shows "chain_ok d'"
  unfolding chain_ok_def last_of_def assms(2-7)
  using assms(1,8,9) unfolding chain_ok_def last_of_def by (intro conjI) (elim conjE, assumption)+

lemma chain_release:
  assumes "chain_ok d" and "i < length (dp_ops d)" and "status_at d i = DoneHeld"
  shows "chain_ok (release_slot i d)"
proof -
  have n: "Suc (length (filter (\<lambda>x. holds_slot (op_status x)) (dp_ops (set_status i DoneFreed d)))) =
      length (filter (\<lambda>x. holds_slot (op_status x)) (dp_ops d))"
    using slots_set_status [OF assms(2), of DoneFreed] assms(3) by (simp add: holds_slot_def)
  have same: "key_at (release_slot i d) = key_at d" "prev_at (release_slot i d) = prev_at d"
    "dp_tails (release_slot i d) = dp_tails d" "length (dp_ops (release_slot i d)) = length (dp_ops d)"
    "dp_closed (release_slot i d) = dp_closed d" "dp_cancelled (release_slot i d) = dp_cancelled d"
    "dp_ops (release_slot i d) = dp_ops (set_status i DoneFreed d)"
    "dp_inflight (release_slot i d) = dp_inflight d - 1"
    using at_set_status [OF assms(2), of DoneFreed]
    by (auto simp: release_slot_def key_at_def prev_at_def fun_eq_iff)
  have "dp_inflight d = length (filter (\<lambda>x. holds_slot (op_status x)) (dp_ops d))"
    "dp_inflight d \<le> max_connection_operations" using assms(1) by (simp_all add: chain_ok_def)
  then have "dp_inflight d - 1 = length (filter (\<lambda>x. holds_slot (op_status x)) (dp_ops (set_status i DoneFreed d)))"
    "dp_inflight d - 1 \<le> max_connection_operations" using n by linarith+
  then show ?thesis by (intro chain_same [OF assms(1)]) (simp_all only: same set_status_simps)
qed

lemma chain_clear:
  assumes "chain_ok d" and "i < length (dp_ops d)" and "status_at d i = DoneFreed"
  shows "chain_ok (clear_tail i d)"
proof -
  have c: "chain_ok (set_status i Gone d)"
    by (rule chain_set_status) (use assms in \<open>simp_all add: holds_slot_def\<close>)
  have "chain_ok (d'\<lparr>dp_tails := (dp_tails d')(k := None)\<rparr>)" if "chain_ok d'" for d' k
    using that by (simp add: chain_ok_def last_of_def key_at_def prev_at_def)
  from this [OF c] c show ?thesis by (simp add: clear_tail_def Let_def)
qed

lemma nth_admitted:
  "k < Suc (length xs) \<Longrightarrow> (xs @ [x]) ! k = (if k = length xs then x else xs ! k)"
  by (auto simp: nth_append)

lemma chain_admit:
  assumes "chain_ok d"
  shows "chain_ok (fst (dispatch_admit f d))"
proof (cases "dispatch_admit f d")
  case (Pair e adm)
  let ?key = "dispatch_key f" and ?n = "length (dp_ops d)"
  have tails: "last_of d key i" if "dp_tails d key = Some i" for key i
    using assms that by (simp add: chain_ok_def)
  have prevs: "j < i \<and> key_at d j = key_at d i \<and> (\<forall>k. j < k \<and> k < i \<longrightarrow> key_at d k \<noteq> key_at d i)"
    if "i < ?n" "prev_at d i = Some j" for i j
    using assms that by (simp add: chain_ok_def)
  show ?thesis
  proof (cases "e = d")
    case False
    then have room: "dp_inflight d < max_connection_operations" "\<not> dp_closed d"
      and e: "e = d\<lparr>dp_ops := dp_ops d @ [\<lparr>op_key = ?key, op_prev = dp_tails d ?key, op_status = Waiting\<rparr>],
        dp_tails := (dp_tails d)(?key \<mapsto> ?n), dp_inflight := Suc (dp_inflight d)\<rparr>"
      using Pair by (auto simp: dispatch_admit_def Let_def split: if_splits)
    have at: "key_at e k = (if k = ?n then ?key else key_at d k)"
      "prev_at e k = (if k = ?n then dp_tails d ?key else prev_at d k)" if "k < Suc ?n" for k
      using that by (simp_all add: e key_at_def prev_at_def nth_admitted)
    have n: "length (dp_ops e) = Suc ?n" and tl: "dp_tails e key = (if key = ?key then Some ?n else dp_tails d key)"
      for key by (simp_all add: e)
    have "last_of e key i" if "dp_tails e key = Some i" for key i
    proof (cases "key = ?key")
      case True
      then show ?thesis using that by (simp add: last_of_def at n tl)
    next
      case False
      then have l: "last_of d key i" using that tails by (simp add: tl)
      then have "i < ?n" "key_at d i = key" by (simp_all add: last_of_def)
      moreover have "key_at e k \<noteq> key" if "i < k" "k < Suc ?n" for k
        using l that False by (cases "k = ?n") (simp_all add: at last_of_def)
      ultimately show ?thesis by (simp add: last_of_def at n)
    qed
    moreover have "j < i \<and> key_at e j = key_at e i \<and> (\<forall>k. j < k \<and> k < i \<longrightarrow> key_at e k \<noteq> key_at e i)"
      if i: "i < Suc ?n" and p: "prev_at e i = Some j" for i j
    proof (cases "i = ?n")
      case True
      then have "last_of d ?key j" using p tails by (simp add: at)
      then show ?thesis using True by (simp add: last_of_def at)
    next
      case False
      with i p have "i < ?n" "prev_at d i = Some j" by (simp_all add: at)
      from this(1) prevs [OF this] show ?thesis by (simp add: at)
    qed
    moreover have "dp_inflight e = length (filter (\<lambda>x. holds_slot (op_status x)) (dp_ops e)) \<and>
        dp_inflight e \<le> max_connection_operations \<and> (dp_closed e \<longrightarrow> dp_cancelled e)"
      using room assms by (simp add: e chain_ok_def holds_slot_def)
    ultimately show ?thesis unfolding Pair fst_conv chain_ok_def n by blast
  qed (use assms Pair in simp)
qed

lemma dstep_chain [go_inv]: "dstep d d' \<Longrightarrow> chain_ok d \<Longrightarrow> chain_ok d'"
proof (induction rule: dstep.induct)
  case (admit d f)
  then show ?case by (rule chain_admit)
next
  case (start i d)
  then show ?case by (intro chain_set_status) (simp_all add: may_start_def holds_slot_def)
next
  case (abandon i d)
  then show ?case by (intro chain_set_status) (simp_all add: holds_slot_def)
next
  case (finish i d)
  then show ?case by (intro chain_set_status) (simp_all add: holds_slot_def)
qed (simp_all add: chain_release chain_clear, simp_all add: chain_ok_def last_of_def key_at_def prev_at_def)

lemma chain_new: "chain_ok new_dispatcher"
  by (simp add: chain_ok_def new_dispatcher_def)

interpretation dispatcher_steps: steps_keep_from dstep chain_ok "\<lambda>d. d = new_dispatcher"
  by unfold_locales (auto simp: chain_new dstep_chain)

lemmas run_chain = dispatcher_steps.kept_reached[OF refl]

subsection \<open>Order within a grant\<close>

lemma serialD:
  "serial_ok d \<Longrightarrow> i < k \<Longrightarrow> k < length (dp_ops d) \<Longrightarrow> key_at d i = key_at d k \<Longrightarrow>
   status_at d k \<noteq> Waiting \<or> prev_at d k = None \<Longrightarrow> chan_closed (status_at d i)"
  "serial_ok d \<Longrightarrow> i < length (dp_ops d) \<Longrightarrow> dp_tails d (key_at d i) = None \<Longrightarrow> chan_closed (status_at d i)"
  by (auto simp: serial_ok_def)

lemma chan_closed_simps [simp]:
  "\<not> chan_closed Waiting" "\<not> chan_closed Running" "chan_closed DoneHeld" "chan_closed DoneFreed" "chan_closed Gone"
  by (simp_all add: chan_closed_def)

text \<open>A change of status that closes channels, or starts an operation whose turn it is.\<close>

lemma serial_set_status:
  assumes ser: "serial_ok d" and i: "i < length (dp_ops d)"
    and up: "chan_closed (status_at d i) \<Longrightarrow> chan_closed s"
    and turn: "\<And>h. h < i \<Longrightarrow> key_at d h = key_at d i \<Longrightarrow> chan_closed (status_at d h)"
  shows "serial_ok (set_status i s d)"
  unfolding serial_ok_def using serialD [OF ser] up turn i by (auto simp: at_set_status [OF i])

lemma may_start_turn:
  assumes "serial_ok d" and "chain_ok d" and "i < length (dp_ops d)" and "may_start d i"
    and "h < i" and "key_at d h = key_at d i"
  shows "chan_closed (status_at d h)"
proof (cases "prev_at d i")
  case None
  then show ?thesis using serialD(1) [OF assms(1,5,3,6)] by simp
next
  case (Some j)
  then have cj: "chan_closed (status_at d j)" using assms(4) by (simp add: may_start_def)
  have j: "j < i" "key_at d j = key_at d i" "\<And>k. j < k \<Longrightarrow> k < i \<Longrightarrow> key_at d k \<noteq> key_at d i"
    using assms(2,3) Some by (auto simp: chain_ok_def)
  consider "h = j" | "h < j" | "j < h" by linarith
  then show ?thesis
  proof cases
    case 2
    moreover have "status_at d j \<noteq> Waiting" using cj by auto
    ultimately show ?thesis
      using serialD(1) [OF assms(1), of h j] j(1,2) assms(3,6) by simp
  qed (use cj j(3) [of h] assms(5,6) in auto)
qed

lemma serial_admit:
  assumes "serial_ok d" and "chain_ok d"
  shows "serial_ok (fst (dispatch_admit f d))"
proof (cases "dispatch_admit f d")
  case (Pair e adm)
  let ?key = "dispatch_key f" and ?n = "length (dp_ops d)"
  show ?thesis
  proof (cases "e = d")
    case False
    then have e: "e = d\<lparr>dp_ops := dp_ops d @ [\<lparr>op_key = ?key, op_prev = dp_tails d ?key, op_status = Waiting\<rparr>],
        dp_tails := (dp_tails d)(?key \<mapsto> ?n), dp_inflight := Suc (dp_inflight d)\<rparr>"
      using Pair by (auto simp: dispatch_admit_def Let_def split: if_splits)
    have at: "key_at e k = (if k = ?n then ?key else key_at d k)"
      "prev_at e k = (if k = ?n then dp_tails d ?key else prev_at d k)"
      "status_at e k = (if k = ?n then Waiting else status_at d k)" if "k < Suc ?n" for k
      using that by (simp_all add: e key_at_def prev_at_def status_at_def nth_admitted)
    have n: "length (dp_ops e) = Suc ?n" and tl: "dp_tails e key = (if key = ?key then Some ?n else dp_tails d key)"
      for key by (simp_all add: e)
    have "chan_closed (status_at e i)" if "i < k" "k < Suc ?n" "key_at e i = key_at e k"
      "status_at e k \<noteq> Waiting \<or> prev_at e k = None" for i k
      using that serialD [OF assms(1)] by (cases "k = ?n") (simp_all add: at)
    moreover have "chan_closed (status_at e i)" if "i < Suc ?n" "dp_tails e (key_at e i) = None" for i
      using that serialD(2) [OF assms(1), of i] by (simp add: at tl split: if_splits)
    ultimately show ?thesis unfolding Pair fst_conv serial_ok_def n by blast
  qed (use assms Pair in simp)
qed

lemma serial_clear:
  assumes ser: "serial_ok d" and ch: "chain_ok d" and i: "i < length (dp_ops d)" and st: "status_at d i = DoneFreed"
  shows "serial_ok (clear_tail i d)"
proof -
  have turn: "chan_closed (status_at d h)" if "h < i" "key_at d h = key_at d i" for h
    using serialD(1) [OF ser that(1) i that(2)] st by simp
  have s: "serial_ok (set_status i Gone d)"
    by (rule serial_set_status [OF ser i]) (use turn in auto)
  show ?thesis
  proof (cases "dp_tails d (key_at d i) = Some i")
    case True
    let ?e = "(set_status i Gone d)\<lparr>dp_tails := (dp_tails d)(key_at d i := None)\<rparr>"
    have at: "key_at ?e = key_at d" "prev_at ?e = prev_at d" "length (dp_ops ?e) = length (dp_ops d)"
      "status_at ?e k = (if k = i then Gone else status_at d k)" for k
      using at_set_status [OF i, of Gone] by (auto simp: key_at_def prev_at_def status_at_def fun_eq_iff)
    have last: "last_of d (key_at d i) i" using ch True by (simp add: chain_ok_def)
    have "chan_closed (status_at ?e h)" if "h < k" "k < length (dp_ops d)" "key_at d h = key_at d k"
      "status_at ?e k \<noteq> Waiting \<or> prev_at d k = None" for h k
      using serialD(1) [OF ser that(1-3)] that(4) st by (auto simp: at split: if_splits)
    moreover have "chan_closed (status_at ?e h)"
      if "h < length (dp_ops d)" "((dp_tails d)(key_at d i := None)) (key_at d h) = None" for h
    proof (cases "key_at d h = key_at d i")
      case True
      then have "h \<le> i" using last that(1) unfolding last_of_def by (meson not_le)
      then show ?thesis using turn [of h] True by (cases "h = i") (simp_all add: at)
    qed (use serialD(2) [OF ser, of h] that in \<open>simp add: at\<close>)
    moreover have "dp_tails ?e = (dp_tails d)(key_at d i := None)" by simp
    ultimately have "serial_ok ?e" unfolding serial_ok_def at(1-3) by metis
    then show ?thesis using True by (simp add: clear_tail_def)
  qed (use s in \<open>simp add: clear_tail_def\<close>)
qed

lemma dstep_serial:
  "dstep d d' \<Longrightarrow> chain_ok d \<Longrightarrow> (\<not> dp_cancelled d \<Longrightarrow> serial_ok d) \<Longrightarrow> \<not> dp_cancelled d' \<Longrightarrow> serial_ok d'"
proof (induction rule: dstep.induct)
  case (admit d f)
  then have "\<not> dp_cancelled d" by (auto simp: dispatch_admit_def Let_def split: if_splits)
  with admit show ?case by (intro serial_admit) auto
next
  case (start i d)
  then have s: "serial_ok d" by simp
  show ?case
    by (rule serial_set_status [OF s start(1)])
      (use start may_start_turn [OF s start(3,1,2)] in \<open>simp_all add: may_start_def\<close>)
next
  case (finish i d)
  then have s: "serial_ok d" by simp
  show ?case
    by (rule serial_set_status [OF s finish(1)]) (use finish serialD(1) [OF s _ finish(1)] in auto)
next
  case (release i d)
  then have s: "serial_ok d" by (simp add: release_slot_def)
  have "serial_ok (set_status i DoneFreed d)"
    by (rule serial_set_status [OF s release(1)]) (use release serialD(1) [OF s _ release(1)] in auto)
  then show ?case by (simp add: serial_ok_def release_slot_def key_at_def prev_at_def status_at_def)
next
  case (clear i d)
  then have "serial_ok d" by (simp add: clear_tail_def Let_def split: if_splits)
  with clear show ?case by (intro serial_clear) auto
qed simp_all

lemma run_serial: "dispatch_run new_dispatcher d \<Longrightarrow> \<not> dp_cancelled d \<Longrightarrow> serial_ok d"
proof (induction rule: rtranclp_induct)
  case base
  show ?case by (simp add: serial_ok_def new_dispatcher_def)
next
  case (step y z)
  then show ?case using dstep_serial [OF step.hyps(2) run_chain [OF step.hyps(1)]] by blast
qed

subsection \<open>Properties\<close>

text \<open>
  C22. While the connection lives, requests of one grant run one at a time and in arrival order:
  in every reachable state, once an operation has started, every operation admitted earlier
  for the same grant has completed.
\<close>

theorem dispatch_fifo:
  assumes "dispatch_run new_dispatcher d" and "\<not> dp_cancelled d"
    and "i < k" and "k < length (dp_ops d)" and "key_at d i = key_at d k" and "status_at d k \<noteq> Waiting"
  shows "chan_closed (status_at d i)"
  using serialD(1) [OF run_serial [OF assms(1,2)] assms(3-5)] assms(6) by simp


text \<open>The state after a list of frames has been read, with nothing started.\<close>

definition admit_all :: "frame list \<Rightarrow> dispatcher \<Rightarrow> dispatcher" where
  "admit_all fs d = foldl (\<lambda>d f. fst (dispatch_admit f d)) d fs"

lemma admit_all_run: "dispatch_run d (admit_all fs d)"
proof (induction fs arbitrary: d)
  case (Cons f fs)
  have "dstep d (fst (dispatch_admit f d))" by (rule dstep.admit)
  then show ?case using Cons [of "fst (dispatch_admit f d)"] by (simp add: admit_all_def converse_rtranclp_into_rtranclp)
qed (simp add: admit_all_def)

definition sample_pty :: frame where
  "sample_pty = \<lparr>fr_seq = 0, fr_kind = KindPty, fr_method = '''', fr_grant = ''g'', fr_stream = 1,
     fr_status = '''', fr_extra = [7], fr_deadline = 0\<rparr>"

definition op_of :: "nat option \<Rightarrow> op_status \<Rightarrow> dispatched" where
  "op_of p s = \<lparr>op_key = ''g'', op_prev = p, op_status = s\<rparr>"

definition disp_of :: "dispatched list \<Rightarrow> nat \<Rightarrow> bool \<Rightarrow> dispatcher" where
  "disp_of ops n c =
     \<lparr>dp_ops = ops, dp_tails = [''g'' \<mapsto> length ops - 1], dp_inflight = n, dp_closed = False, dp_cancelled = c\<rparr>"

lemma sample_admitted:
  "admit_all [sample_pty, sample_pty] new_dispatcher = disp_of [op_of None Waiting, op_of (Some 0) Waiting] 2 False"
  "admit_all [sample_pty, sample_pty, sample_pty] new_dispatcher =
     disp_of [op_of None Waiting, op_of (Some 0) Waiting, op_of (Some 1) Waiting] 3 False"
  by (simp_all add: admit_all_def dispatch_admit_def sample_pty_def dispatch_key_def new_dispatcher_def disp_of_def
      op_of_def max_connection_operations_def Let_def)

lemma dispatch_fifo_witness:
  "chan_closed (status_at (disp_of [op_of None DoneHeld, op_of (Some 0) Running] 2 False) 0)"
proof -
  let ?d0 = "disp_of [op_of None Waiting, op_of (Some 0) Waiting] 2 False"
  let ?d1 = "disp_of [op_of None Running, op_of (Some 0) Waiting] 2 False"
  let ?d2 = "disp_of [op_of None DoneHeld, op_of (Some 0) Waiting] 2 False"
  let ?d3 = "disp_of [op_of None DoneHeld, op_of (Some 0) Running] 2 False"
  have r0: "dispatch_run new_dispatcher ?d0" using admit_all_run [of new_dispatcher "[sample_pty, sample_pty]"] by (simp add: sample_admitted)
  have "dstep ?d0 (set_status 0 Running ?d0)"
    by (rule dstep.start) (simp_all add: disp_of_def op_of_def may_start_def status_at_def prev_at_def)
  then have s1: "dstep ?d0 ?d1" by (simp add: set_status_def disp_of_def op_of_def)
  have "dstep ?d1 (set_status 0 DoneHeld ?d1)"
    by (rule dstep.finish) (simp_all add: disp_of_def op_of_def status_at_def)
  then have s2: "dstep ?d1 ?d2" by (simp add: set_status_def disp_of_def op_of_def)
  have "dstep ?d2 (set_status 1 Running ?d2)"
    by (rule dstep.start) (simp_all add: disp_of_def op_of_def may_start_def status_at_def prev_at_def)
  then have s3: "dstep ?d2 ?d3" by (simp add: set_status_def disp_of_def op_of_def)
  from r0 s1 s2 s3 have r: "dispatch_run new_dispatcher ?d3" by (meson rtranclp.rtrancl_into_rtrancl)
  show ?thesis
    by (rule dispatch_fifo [OF r, of 0 1])
      (simp_all add: disp_of_def op_of_def key_at_def status_at_def)
qed


text \<open>
  The order does not survive teardown: once the connection is cancelled, a waiting
  operation gives up and closes its channel, and an operation queued behind it may then run
  although the first one of the grant is still running. There is a run of the dispatcher
  that reaches two running operations of one grant.
\<close>

lemma dispatch_cancel_overlap:
  "\<exists>d. dispatch_run new_dispatcher d \<and> dp_cancelled d \<and> length (dp_ops d) = 3 \<and>
     key_at d 0 = key_at d 2 \<and> status_at d 0 = Running \<and> status_at d 2 = Running"
proof -
  let ?d0 = "disp_of [op_of None Waiting, op_of (Some 0) Waiting, op_of (Some 1) Waiting] 3 False"
  let ?d1 = "disp_of [op_of None Running, op_of (Some 0) Waiting, op_of (Some 1) Waiting] 3 False"
  let ?d2 = "disp_of [op_of None Running, op_of (Some 0) Waiting, op_of (Some 1) Waiting] 3 True"
  let ?d3 = "disp_of [op_of None Running, op_of (Some 0) DoneHeld, op_of (Some 1) Waiting] 3 True"
  let ?d4 = "disp_of [op_of None Running, op_of (Some 0) DoneHeld, op_of (Some 1) Running] 3 True"
  have r0: "dispatch_run new_dispatcher ?d0"
    using admit_all_run [of new_dispatcher "[sample_pty, sample_pty, sample_pty]"] by (simp only: sample_admitted)
  have "dstep ?d0 (set_status 0 Running ?d0)"
    by (rule dstep.start) (simp_all add: disp_of_def op_of_def may_start_def status_at_def prev_at_def)
  then have s1: "dstep ?d0 ?d1" by (simp add: set_status_def disp_of_def op_of_def)
  have s2: "dstep ?d1 ?d2" using dstep.cancel [of ?d1] by (simp add: disp_of_def)
  have "dstep ?d2 (set_status 1 DoneHeld ?d2)"
    by (rule dstep.abandon) (simp_all add: disp_of_def op_of_def status_at_def prev_at_def)
  then have s3: "dstep ?d2 ?d3" by (simp add: set_status_def disp_of_def op_of_def)
  have "dstep ?d3 (set_status 2 Running ?d3)"
    by (rule dstep.start) (simp_all add: disp_of_def op_of_def may_start_def status_at_def prev_at_def)
  then have s4: "dstep ?d3 ?d4" by (simp add: set_status_def disp_of_def op_of_def eval_nat_numeral)
  from r0 s1 s2 s3 s4 have "dispatch_run new_dispatcher ?d4" by (meson rtranclp.rtrancl_into_rtrancl)
  then show ?thesis by (intro exI [of _ ?d4]) (simp add: disp_of_def op_of_def key_at_def status_at_def)
qed

end
