(* ===== verification/Remote_Server.thy ===== *)
theory Remote_Server
  imports Remote_Dispatch Contract Paths
begin

text \<open>
  The host side of the remote hop (\<open>remote/server.go\<close>, \<open>remote/config.go\<close>): authentication,
  the handler of every method, the copiers that stream terminal bytes and events back, and
  the teardown of a connection. The wrapped \<open>execenv.Host\<close> is a record of operations on a
  host state; environments, terminals and observations are references. Handlers of one
  grant run one at a time (theory Remote_Dispatch), so each is one function. The JSON
  decoding of a payload is a record of functions; its length checks are the code's.
\<close>

subsection \<open>The wrapped host\<close>

record 'h host_ops =
  ho_ready :: "go_error option \<Rightarrow> 'h \<Rightarrow> report res"
  ho_ensure :: "go_error option \<Rightarrow> spec \<Rightarrow> 'h \<Rightarrow> 'h \<times> nat res"
  ho_revoke :: "go_error option \<Rightarrow> grant_id \<Rightarrow> 'h \<Rightarrow> 'h \<times> unit res"
  ho_attach :: "go_error option \<Rightarrow> nat \<Rightarrow> window \<Rightarrow> 'h \<Rightarrow> 'h \<times> nat res"
  ho_freeze :: "go_error option \<Rightarrow> nat \<Rightarrow> 'h \<Rightarrow> 'h \<times> unit res"
  ho_thaw :: "go_error option \<Rightarrow> nat \<Rightarrow> 'h \<Rightarrow> 'h \<times> unit res"
  ho_replace :: "go_error option \<Rightarrow> nat \<Rightarrow> node list \<Rightarrow> 'h \<Rightarrow> 'h \<times> unit res"
  ho_apply :: "go_error option \<Rightarrow> nat \<Rightarrow> mutation list \<Rightarrow> 'h \<Rightarrow> 'h \<times> unit res"
  ho_watch :: "go_error option \<Rightarrow> nat \<Rightarrow> cursor \<Rightarrow> 'h \<Rightarrow> 'h \<times> nat res"
  ho_open :: "go_error option \<Rightarrow> nat \<Rightarrow> string \<Rightarrow> 'h \<Rightarrow> bytes res"
  ho_term_read :: "nat \<Rightarrow> nat \<Rightarrow> 'h \<Rightarrow> ('h \<times> bytes \<times> go_error option) option"
  ho_term_write :: "bytes \<Rightarrow> nat \<Rightarrow> 'h \<Rightarrow> 'h \<times> nat res"
  ho_term_resize :: "go_error option \<Rightarrow> window \<Rightarrow> nat \<Rightarrow> 'h \<Rightarrow> 'h \<times> unit res"
  ho_term_close :: "nat \<Rightarrow> 'h \<Rightarrow> 'h \<times> unit res"
  ho_obs_cursor :: "nat \<Rightarrow> 'h \<Rightarrow> cursor"
  ho_obs_next :: "go_error option \<Rightarrow> nat \<Rightarrow> 'h \<Rightarrow> ('h \<times> event res) option"
  ho_obs_close :: "nat \<Rightarrow> 'h \<Rightarrow> 'h \<times> unit res"

subsection \<open>Payloads\<close>

text \<open>
  One JSON value and whether anything follows it, as \<open>json.Decoder\<close> finds them.
\<close>

type_synonym 'a json_decoder = "bytes \<Rightarrow> ('a \<times> bool) res"

definition decode_extra :: "'a json_decoder \<Rightarrow> 'a \<Rightarrow> bytes \<Rightarrow> 'a res" where
  "decode_extra dec zero data =
     (if data = [] then Inr zero
      else if length data > max_frame_bytes then Inl (Sent ErrTooLarge)
      else (case dec data of
              Inl e \<Rightarrow> Inl e
            | Inr (v, trailing) \<Rightarrow> if trailing then Inl (Sent ErrInvalid) else Inr v))"

text \<open>\<open>None\<close> is a nil value; the argument is what \<open>json.Marshal\<close> returned.\<close>

definition encode_extra :: "bytes res option \<Rightarrow> bytes res" where
  "encode_extra marshalled =
     (case marshalled of
        None \<Rightarrow> Inr []
      | Some (Inl e) \<Rightarrow> Inl e
      | Some (Inr data) \<Rightarrow>
          if length data > max_frame_bytes - fixed_frame_bytes then Inl (Sent ErrTooLarge) else Inr data)"

record auth_args = au_token :: bytes au_release :: string
record window_args = wa_window :: window wa_stream :: uint64
record watch_args = wt_after :: cursor wt_stream :: uint64

record json =
  js_auth :: "auth_args json_decoder"
  js_ensure :: "spec json_decoder"
  js_window :: "window_args json_decoder"
  js_stream :: "uint64 json_decoder"
  js_watch :: "watch_args json_decoder"
  js_replace :: "node list json_decoder"
  js_apply :: "mutation list json_decoder"
  js_open :: "string json_decoder"
  js_report :: "report \<Rightarrow> bytes res"
  js_cursor :: "cursor \<Rightarrow> bytes res"
  js_body :: "bytes \<Rightarrow> bytes res"
  js_event :: "event \<Rightarrow> bytes res"

definition zero_spec :: spec where
  "zero_spec = \<lparr>spec_id = '''', spec_image = '''', spec_network = 0\<rparr>"

definition zero_window_args :: window_args where
  "zero_window_args = \<lparr>wa_window = \<lparr>win_cols = 0, win_rows = 0\<rparr>, wa_stream = 0\<rparr>"

subsection \<open>Configuration and authentication\<close>

datatype security = SecurityTLS | SecurityInsecureLocal | SecurityOther

text \<open>What the server looks at in a \<open>tls.Config\<close>.\<close>

record tls_server =
  tls_client_cas :: bool
  tls_verify_if_given :: bool
  tls_require_and_verify :: bool

record server_config =
  cfg_security :: security
  cfg_tls :: "tls_server option"
  cfg_token :: bytes
  cfg_auth_timeout :: int
  cfg_operation_timeout :: int
  cfg_claim :: string

definition claimed :: "string \<Rightarrow> server_config \<Rightarrow> string" where
  "claimed release cfg = (if cfg_claim cfg \<noteq> '''' then cfg_claim cfg else release)"

definition validate_server :: "server_config \<Rightarrow> go_error option" where
  "validate_server cfg =
     (case cfg_security cfg of
        SecurityTLS \<Rightarrow>
          (case cfg_tls cfg of
             None \<Rightarrow> Some (OpError ''serve'' (Sent ErrInvalid))
           | Some t \<Rightarrow>
               let cert_auth = tls_client_cas t \<and> (tls_verify_if_given t \<or> tls_require_and_verify t)
               in if cfg_token cfg = [] \<and> \<not> cert_auth then Some (OpError ''serve'' (Sent ErrInvalid)) else None)
      | SecurityInsecureLocal \<Rightarrow>
          if cfg_token cfg = [] then Some (OpError ''serve'' (Sent ErrInvalid)) else None
      | SecurityOther \<Rightarrow> Some (OpError ''serve'' (Sent ErrInvalid)))"

definition seconds :: "int \<Rightarrow> int" where "seconds n = n * 1000000000"

definition operation_timeout_or_default :: "int \<Rightarrow> int" where
  "operation_timeout_or_default d = (if d \<le> 0 then seconds 30 else d)"

definition timeout_or_default :: "int \<Rightarrow> int" where
  "timeout_or_default d = (if d \<le> 0 then seconds 10 else d)"

text \<open>The deadline \<open>operationContext\<close> sets, in Unix nanoseconds.\<close>

definition operation_deadline :: "int \<Rightarrow> server_config \<Rightarrow> frame \<Rightarrow> int" where
  "operation_deadline now cfg f =
     (let deadline = now + operation_timeout_or_default (cfg_operation_timeout cfg)
      in if sint (fr_deadline f) > 0 then
           (if sint (fr_deadline f) < deadline then sint (fr_deadline f) else deadline)
         else deadline)"

definition srv_auth :: "json \<Rightarrow> server_config \<Rightarrow> string \<Rightarrow> bool \<Rightarrow> frame \<Rightarrow> go_error option" where
  "srv_auth js cfg release certificate_ok f =
     (case decode_extra (js_auth js) \<lparr>au_token = [], au_release = ''''\<rparr> (fr_extra f) of
        Inl _ \<Rightarrow> Some (Sent ErrInvalid)
      | Inr args \<Rightarrow>
          (let token_ok = cfg_token cfg \<noteq> [] \<and> cfg_token cfg = au_token args
           in if \<not> token_ok \<and> \<not> certificate_ok then Some (Sent ErrInvalid)
              else if au_release args \<noteq> release then Some (Sent ErrUnavailable)
              else None))"

subsection \<open>Connection state\<close>

record srv_conn =
  sc_closed :: bool
  sc_envs :: "grant_id \<rightharpoonup> nat"
  sc_terms :: "grant_id \<rightharpoonup> nat"
  sc_term_streams :: "grant_id \<rightharpoonup> uint64"
  sc_obs :: "grant_id \<rightharpoonup> nat"
  sc_obs_streams :: "grant_id \<rightharpoonup> uint64"

definition new_srv_conn :: srv_conn where
  "new_srv_conn = \<lparr>sc_closed = False, sc_envs = Map.empty, sc_terms = Map.empty,
     sc_term_streams = Map.empty, sc_obs = Map.empty, sc_obs_streams = Map.empty\<rparr>"

text \<open>A missing stream number reads as zero.\<close>

definition stream_at :: "(grant_id \<rightharpoonup> uint64) \<Rightarrow> grant_id \<Rightarrow> uint64" where
  "stream_at m g = (case m g of None \<Rightarrow> 0 | Some s \<Rightarrow> s)"

definition reply :: "frame \<Rightarrow> bytes res \<Rightarrow> frame" where
  "reply req result =
     \<lparr>fr_seq = fr_seq req, fr_kind = KindResponse, fr_method = fr_method req, fr_grant = fr_grant req,
      fr_stream = 0, fr_status = status_of (case result of Inl e \<Rightarrow> Some e | Inr _ \<Rightarrow> None),
      fr_extra = (case result of Inl _ \<Rightarrow> [] | Inr x \<Rightarrow> x), fr_deadline = 0\<rparr>"

text \<open>The goroutines a handler starts.\<close>

datatype copier = CopyPty grant_id uint64 nat | CopyWatch grant_id uint64 nat

type_synonym 'h handled = "(srv_conn \<times> 'h) \<times> bytes res \<times> copier list"

definition done_with :: "srv_conn \<Rightarrow> 'h \<times> unit res \<Rightarrow> 'h handled" where
  "done_with sc r = ((sc, fst r), (case snd r of Inl e \<Rightarrow> Inl e | Inr _ \<Rightarrow> Inr []), [])"

definition refuse :: "srv_conn \<Rightarrow> 'h \<Rightarrow> go_error \<Rightarrow> 'h handled" where
  "refuse sc h e = ((sc, h), Inl e, [])"

subsection \<open>Handlers\<close>

definition srv_ready :: "'h host_ops \<Rightarrow> json \<Rightarrow> go_error option \<Rightarrow> srv_conn \<Rightarrow> 'h \<Rightarrow> 'h handled" where
  "srv_ready ops js ctx sc h =
     (case ho_ready ops ctx h of
        Inl e \<Rightarrow> refuse sc h e
      | Inr rep \<Rightarrow> ((sc, h), encode_extra (Some (js_report js rep)), []))"

definition srv_ensure :: "'h host_ops \<Rightarrow> json \<Rightarrow> go_error option \<Rightarrow> frame \<Rightarrow> srv_conn \<Rightarrow> 'h \<Rightarrow> 'h handled" where
  "srv_ensure ops js ctx f sc h =
     (case decode_extra (js_ensure js) zero_spec (fr_extra f) of
        Inl _ \<Rightarrow> refuse sc h (Sent ErrInvalid)
      | Inr sp \<Rightarrow>
          if spec_id sp \<noteq> fr_grant f then refuse sc h (Sent ErrInvalid)
          else (case ho_ensure ops ctx sp h of
                  (h', Inl e) \<Rightarrow> refuse sc h' e
                | (h', Inr r) \<Rightarrow>
                    if sc_closed sc then refuse sc h' (Sent ErrConnection)
                    else ((sc\<lparr>sc_envs := (sc_envs sc)(spec_id sp \<mapsto> r)\<rparr>, h'), Inr [], [])))"

definition srv_env :: "srv_conn \<Rightarrow> grant_id \<Rightarrow> nat res" where
  "srv_env sc g = (case sc_envs sc g of None \<Rightarrow> Inl (Sent ErrRevoked) | Some r \<Rightarrow> Inr r)"

definition forget_grant :: "grant_id \<Rightarrow> srv_conn \<Rightarrow> srv_conn" where
  "forget_grant g sc = sc\<lparr>sc_terms := (sc_terms sc)(g := None),
     sc_term_streams := (sc_term_streams sc)(g := None), sc_obs := (sc_obs sc)(g := None),
     sc_obs_streams := (sc_obs_streams sc)(g := None), sc_envs := (sc_envs sc)(g := None)\<rparr>"

definition close_term :: "'h host_ops \<Rightarrow> nat option \<Rightarrow> 'h \<Rightarrow> 'h" where
  "close_term ops t h = (case t of None \<Rightarrow> h | Some t \<Rightarrow> fst (ho_term_close ops t h))"

definition close_obs :: "'h host_ops \<Rightarrow> nat option \<Rightarrow> 'h \<Rightarrow> 'h" where
  "close_obs ops b h = (case b of None \<Rightarrow> h | Some b \<Rightarrow> fst (ho_obs_close ops b h))"

definition srv_revoke :: "'h host_ops \<Rightarrow> go_error option \<Rightarrow> frame \<Rightarrow> srv_conn \<Rightarrow> 'h \<Rightarrow> 'h handled" where
  "srv_revoke ops ctx f sc h =
     (let g = fr_grant f;
          h1 = close_obs ops (sc_obs sc g) (close_term ops (sc_terms sc g) h)
      in done_with (forget_grant g sc) (ho_revoke ops ctx g h1))"

definition srv_attach :: "'h host_ops \<Rightarrow> json \<Rightarrow> go_error option \<Rightarrow> frame \<Rightarrow> srv_conn \<Rightarrow> 'h \<Rightarrow> 'h handled" where
  "srv_attach ops js ctx f sc h =
     (case decode_extra (js_window js) zero_window_args (fr_extra f) of
        Inl _ \<Rightarrow> refuse sc h (Sent ErrInvalid)
      | Inr args \<Rightarrow>
          if wa_stream args = 0 then refuse sc h (Sent ErrInvalid)
          else (case srv_env sc (fr_grant f) of
                  Inl e \<Rightarrow> refuse sc h e
                | Inr r \<Rightarrow>
                    (case ho_attach ops ctx r (wa_window args) h of
                       (h', Inl e) \<Rightarrow> refuse sc h' e
                     | (h', Inr t) \<Rightarrow>
                         if sc_closed sc then refuse sc (close_term ops (Some t) h') (Sent ErrConnection)
                         else ((sc\<lparr>sc_terms := (sc_terms sc)(fr_grant f \<mapsto> t),
                                  sc_term_streams := (sc_term_streams sc)(fr_grant f \<mapsto> wa_stream args)\<rparr>, h'),
                               Inr [], [CopyPty (fr_grant f) (wa_stream args) t]))))"

definition srv_write_pty :: "'h host_ops \<Rightarrow> frame \<Rightarrow> srv_conn \<Rightarrow> 'h \<Rightarrow> 'h" where
  "srv_write_pty ops f sc h =
     (case sc_terms sc (fr_grant f) of
        None \<Rightarrow> h
      | Some t \<Rightarrow>
          if stream_at (sc_term_streams sc) (fr_grant f) = fr_stream f
          then fst (ho_term_write ops (fr_extra f) t h) else h)"

definition srv_detach :: "'h host_ops \<Rightarrow> json \<Rightarrow> frame \<Rightarrow> srv_conn \<Rightarrow> 'h \<Rightarrow> 'h handled" where
  "srv_detach ops js f sc h =
     (case decode_extra (js_stream js) 0 (fr_extra f) of
        Inl _ \<Rightarrow> refuse sc h (Sent ErrInvalid)
      | Inr stream \<Rightarrow>
          if stream = 0 then refuse sc h (Sent ErrInvalid)
          else if stream_at (sc_term_streams sc) (fr_grant f) = stream
          then (let sc' = sc\<lparr>sc_terms := (sc_terms sc)(fr_grant f := None),
                             sc_term_streams := (sc_term_streams sc)(fr_grant f := None)\<rparr>
                in case sc_terms sc (fr_grant f) of
                     None \<Rightarrow> ((sc', h), Inr [], [])
                   | Some t \<Rightarrow> done_with sc' (ho_term_close ops t h))
          else ((sc, h), Inr [], []))"

definition srv_resize :: "'h host_ops \<Rightarrow> json \<Rightarrow> go_error option \<Rightarrow> frame \<Rightarrow> srv_conn \<Rightarrow> 'h \<Rightarrow> 'h handled" where
  "srv_resize ops js ctx f sc h =
     (case decode_extra (js_window js) zero_window_args (fr_extra f) of
        Inl _ \<Rightarrow> refuse sc h (Sent ErrInvalid)
      | Inr args \<Rightarrow>
          if wa_stream args = 0 then refuse sc h (Sent ErrInvalid)
          else (case sc_terms sc (fr_grant f) of
                  None \<Rightarrow> refuse sc h (Sent ErrClosed)
                | Some t \<Rightarrow>
                    if stream_at (sc_term_streams sc) (fr_grant f) \<noteq> wa_stream args
                    then refuse sc h (Sent ErrClosed)
                    else done_with sc (ho_term_resize ops ctx (wa_window args) t h)))"

text \<open>\<open>freeze\<close>, \<open>thaw\<close>, \<open>replace\<close> and \<open>apply\<close>: look the environment up, and call.\<close>

definition on_env :: "srv_conn \<Rightarrow> frame \<Rightarrow> 'h \<Rightarrow> (nat \<Rightarrow> 'h \<times> unit res) \<Rightarrow> 'h handled" where
  "on_env sc f h call =
     (case srv_env sc (fr_grant f) of Inl e \<Rightarrow> refuse sc h e | Inr r \<Rightarrow> done_with sc (call r))"

definition srv_freeze :: "'h host_ops \<Rightarrow> go_error option \<Rightarrow> frame \<Rightarrow> srv_conn \<Rightarrow> 'h \<Rightarrow> 'h handled" where
  "srv_freeze ops ctx f sc h = on_env sc f h (\<lambda>r. ho_freeze ops ctx r h)"

definition srv_thaw :: "'h host_ops \<Rightarrow> go_error option \<Rightarrow> frame \<Rightarrow> srv_conn \<Rightarrow> 'h \<Rightarrow> 'h handled" where
  "srv_thaw ops ctx f sc h = on_env sc f h (\<lambda>r. ho_thaw ops ctx r h)"

definition srv_replace :: "'h host_ops \<Rightarrow> json \<Rightarrow> go_error option \<Rightarrow> frame \<Rightarrow> srv_conn \<Rightarrow> 'h \<Rightarrow> 'h handled" where
  "srv_replace ops js ctx f sc h =
     (case decode_extra (js_replace js) [] (fr_extra f) of
        Inl _ \<Rightarrow> refuse sc h (Sent ErrInvalid)
      | Inr tree \<Rightarrow> on_env sc f h (\<lambda>r. ho_replace ops ctx r tree h))"

definition srv_apply :: "'h host_ops \<Rightarrow> json \<Rightarrow> go_error option \<Rightarrow> frame \<Rightarrow> srv_conn \<Rightarrow> 'h \<Rightarrow> 'h handled" where
  "srv_apply ops js ctx f sc h =
     (case decode_extra (js_apply js) [] (fr_extra f) of
        Inl _ \<Rightarrow> refuse sc h (Sent ErrInvalid)
      | Inr batch \<Rightarrow> on_env sc f h (\<lambda>r. ho_apply ops ctx r batch h))"

text \<open>
  The cursor is read after the copier has been started: \<open>srv_watch\<close> is the run in which the copier
  has not taken an event yet.
\<close>

definition srv_watch_reply :: "'h host_ops \<Rightarrow> json \<Rightarrow> nat \<Rightarrow> 'h \<Rightarrow> bytes res" where
  "srv_watch_reply ops js b h = encode_extra (Some (js_cursor js (ho_obs_cursor ops b h)))"

definition srv_watch :: "'h host_ops \<Rightarrow> json \<Rightarrow> go_error option \<Rightarrow> frame \<Rightarrow> srv_conn \<Rightarrow> 'h \<Rightarrow> 'h handled" where
  "srv_watch ops js ctx f sc h =
     (case decode_extra (js_watch js) \<lparr>wt_after = '''', wt_stream = 0\<rparr> (fr_extra f) of
        Inl _ \<Rightarrow> refuse sc h (Sent ErrInvalid)
      | Inr args \<Rightarrow>
          if wt_stream args = 0 then refuse sc h (Sent ErrInvalid)
          else (case srv_env sc (fr_grant f) of
                  Inl e \<Rightarrow> refuse sc h e
                | Inr r \<Rightarrow>
                    (case ho_watch ops ctx r (wt_after args) h of
                       (h', Inl e) \<Rightarrow> refuse sc h' e
                     | (h', Inr b) \<Rightarrow>
                         if sc_closed sc then refuse sc (close_obs ops (Some b) h') (Sent ErrConnection)
                         else ((sc\<lparr>sc_obs := (sc_obs sc)(fr_grant f \<mapsto> b),
                                  sc_obs_streams := (sc_obs_streams sc)(fr_grant f \<mapsto> wt_stream args)\<rparr>, h'),
                               srv_watch_reply ops js b h',
                               [CopyWatch (fr_grant f) (wt_stream args) b]))))"

definition srv_unwatch :: "'h host_ops \<Rightarrow> json \<Rightarrow> frame \<Rightarrow> srv_conn \<Rightarrow> 'h \<Rightarrow> 'h handled" where
  "srv_unwatch ops js f sc h =
     (case decode_extra (js_stream js) 0 (fr_extra f) of
        Inl _ \<Rightarrow> refuse sc h (Sent ErrInvalid)
      | Inr stream \<Rightarrow>
          if stream = 0 then refuse sc h (Sent ErrInvalid)
          else if stream_at (sc_obs_streams sc) (fr_grant f) = stream
          then (let sc' = sc\<lparr>sc_obs := (sc_obs sc)(fr_grant f := None),
                             sc_obs_streams := (sc_obs_streams sc)(fr_grant f := None)\<rparr>
                in case sc_obs sc (fr_grant f) of
                     None \<Rightarrow> ((sc', h), Inr [], [])
                   | Some b \<Rightarrow> done_with sc' (ho_obs_close ops b h))
          else ((sc, h), Inr [], []))"

definition srv_open :: "'h host_ops \<Rightarrow> json \<Rightarrow> go_error option \<Rightarrow> frame \<Rightarrow> srv_conn \<Rightarrow> 'h \<Rightarrow> 'h handled" where
  "srv_open ops js ctx f sc h =
     (case decode_extra (js_open js) '''' (fr_extra f) of
        Inl _ \<Rightarrow> refuse sc h (Sent ErrInvalid)
      | Inr path \<Rightarrow>
          (case srv_env sc (fr_grant f) of
             Inl e \<Rightarrow> refuse sc h e
           | Inr r \<Rightarrow>
               (case ho_open ops ctx r path h of
                  Inl e \<Rightarrow> refuse sc h e
                | Inr body \<Rightarrow>
                    let data = take (max_file_bytes + 1) body
                    in if length data > max_file_bytes then refuse sc h (Sent ErrTooLarge)
                       else ((sc, h), encode_extra (Some (js_body js data)), []))))"

definition srv_handle :: "'h host_ops \<Rightarrow> json \<Rightarrow> go_error option \<Rightarrow> frame \<Rightarrow> srv_conn \<Rightarrow> 'h \<Rightarrow> 'h handled" where
  "srv_handle ops js ctx f sc h =
     (let m = fr_method f in
      if m = ''auth'' then refuse sc h (Sent ErrInvalid)
      else if m = ''ready'' then srv_ready ops js ctx sc h
      else if m = ''ensure'' then srv_ensure ops js ctx f sc h
      else if m = ''revoke'' then srv_revoke ops ctx f sc h
      else if m = ''attach'' then srv_attach ops js ctx f sc h
      else if m = ''detach'' then srv_detach ops js f sc h
      else if m = ''resize'' then srv_resize ops js ctx f sc h
      else if m = ''freeze'' then srv_freeze ops ctx f sc h
      else if m = ''thaw'' then srv_thaw ops ctx f sc h
      else if m = ''replace'' then srv_replace ops js ctx f sc h
      else if m = ''apply'' then srv_apply ops js ctx f sc h
      else if m = ''watch'' then srv_watch ops js ctx f sc h
      else if m = ''unwatch'' then srv_unwatch ops js f sc h
      else if m = ''open'' then srv_open ops js ctx f sc h
      else refuse sc h (Sent ErrInvalid))"

subsection \<open>Copiers, teardown and the connection\<close>

text \<open>
  One turn of \<open>copyPty\<close>: the frames it sends, and whether it goes on. A read may return bytes
  and an error at once, as \<open>io.Reader\<close> allows; \<open>None\<close> is a read that blocks.
\<close>

definition pty_frame :: "grant_id \<Rightarrow> uint64 \<Rightarrow> bytes \<Rightarrow> go_error option \<Rightarrow> frame" where
  "pty_frame g stream bs err =
     \<lparr>fr_seq = 0, fr_kind = KindPty, fr_method = '''', fr_grant = g, fr_stream = stream,
      fr_status = status_of err, fr_extra = bs, fr_deadline = 0\<rparr>"

definition copy_pty :: "'h host_ops \<Rightarrow> grant_id \<Rightarrow> uint64 \<Rightarrow> nat \<Rightarrow> 'h \<Rightarrow> ('h \<times> frame list \<times> bool) option" where
  "copy_pty ops g stream t h =
     (case ho_term_read ops 32768 t h of
        None \<Rightarrow> None
      | Some (h', bs, err) \<Rightarrow>
          Some (h', (if bs \<noteq> [] then [pty_frame g stream bs None] else []) @
                    (if err \<noteq> None then [pty_frame g stream [] err] else []), err = None))"

definition copy_pty_end :: "grant_id \<Rightarrow> nat \<Rightarrow> srv_conn \<Rightarrow> srv_conn" where
  "copy_pty_end g t sc =
     (if sc_terms sc g = Some t
      then sc\<lparr>sc_terms := (sc_terms sc)(g := None), sc_term_streams := (sc_term_streams sc)(g := None)\<rparr>
      else sc)"

text \<open>One turn of \<open>copyWatch\<close>; an event that cannot be encoded ends it without a frame.\<close>

definition watch_frame :: "grant_id \<Rightarrow> uint64 \<Rightarrow> bytes \<Rightarrow> go_error option \<Rightarrow> frame" where
  "watch_frame g stream bs err =
     \<lparr>fr_seq = 0, fr_kind = KindWatch, fr_method = '''', fr_grant = g, fr_stream = stream,
      fr_status = status_of err, fr_extra = bs, fr_deadline = 0\<rparr>"

definition copy_watch ::
    "'h host_ops \<Rightarrow> json \<Rightarrow> go_error option \<Rightarrow> grant_id \<Rightarrow> uint64 \<Rightarrow> nat \<Rightarrow> 'h \<Rightarrow>
     ('h \<times> frame option \<times> bool) option" where
  "copy_watch ops js ctx g stream b h =
     (case ho_obs_next ops ctx b h of
        None \<Rightarrow> None
      | Some (h', r) \<Rightarrow>
          Some (case r of
            Inl e \<Rightarrow> (h', Some (watch_frame g stream [] (Some e)), False)
          | Inr ev \<Rightarrow>
              (case encode_extra (Some (js_event js ev)) of
                 Inl _ \<Rightarrow> (h', None, False)
               | Inr x \<Rightarrow> (h', Some (watch_frame g stream x None), True))))"

definition copy_watch_end :: "'h host_ops \<Rightarrow> grant_id \<Rightarrow> nat \<Rightarrow> srv_conn \<times> 'h \<Rightarrow> srv_conn \<times> 'h" where
  "copy_watch_end ops g b s =
     (let (sc, h) = s; h' = close_obs ops (Some b) h
      in (if sc_obs sc g = Some b
          then sc\<lparr>sc_obs := (sc_obs sc)(g := None), sc_obs_streams := (sc_obs_streams sc)(g := None)\<rparr>
          else sc, h'))"

text \<open>
  \<open>close\<close> ranges over two Go maps; \<open>ts\<close> and \<open>bs\<close> are the terminals and observations in the
  order the runtime visits them.
\<close>

definition srv_close :: "'h host_ops \<Rightarrow> nat list \<Rightarrow> nat list \<Rightarrow> srv_conn \<Rightarrow> 'h \<Rightarrow> srv_conn \<times> 'h" where
  "srv_close ops ts bs sc h =
     (if sc_closed sc then (sc, h)
      else (sc\<lparr>sc_closed := True, sc_terms := Map.empty, sc_term_streams := Map.empty,
               sc_obs := Map.empty, sc_obs_streams := Map.empty\<rparr>,
            foldl (\<lambda>h b. close_obs ops (Some b) h) (foldl (\<lambda>h t. close_term ops (Some t) h) h ts) bs))"

text \<open>The first frame of a connection: the reply to it, and whether the connection goes on.\<close>

definition srv_first :: "json \<Rightarrow> server_config \<Rightarrow> string \<Rightarrow> bool \<Rightarrow> frame res \<Rightarrow> frame option \<times> bool" where
  "srv_first js cfg release certificate_ok first =
     (case first of
        Inl _ \<Rightarrow> (None, False)
      | Inr f \<Rightarrow>
          if fr_kind f \<noteq> KindRequest \<or> fr_method f \<noteq> ''auth''
          then (Some (reply f (Inl (Sent ErrInvalid))), False)
          else (case srv_auth js cfg release certificate_ok f of
                  Some e \<Rightarrow> (Some (reply f (Inl e)), False)
                | None \<Rightarrow> (Some (reply f (Inr [])), True)))"

text \<open>What the goroutine of an admitted operation does with its frame.\<close>

definition srv_run :: "'h host_ops \<Rightarrow> json \<Rightarrow> go_error option \<Rightarrow> frame \<Rightarrow> srv_conn \<times> 'h \<Rightarrow>
    (srv_conn \<times> 'h) \<times> frame list \<times> copier list" where
  "srv_run ops js ctx f s =
     (let (sc, h) = s in
      if fr_kind f = KindPty then ((sc, srv_write_pty ops f sc h), [], [])
      else if fr_kind f = KindRequest then
        (case srv_handle ops js ctx f sc h of (s', r, cs) \<Rightarrow> (s', [reply f r], cs))
      else (s, [], []))"

text \<open>Operations executed one after another, in the order the dispatcher starts them.\<close>

fun srv_serve :: "'h host_ops \<Rightarrow> json \<Rightarrow> (frame \<times> go_error option) list \<Rightarrow> srv_conn \<times> 'h \<Rightarrow>
    (srv_conn \<times> 'h) \<times> frame list" where
  "srv_serve ops js [] s = (s, [])"
| "srv_serve ops js ((f, ctx) # fs) s =
     (let (s1, out, cs) = srv_run ops js ctx f s; (s2, outs) = srv_serve ops js fs s1 in (s2, out @ outs))"

definition serve_conn :: "'h host_ops \<Rightarrow> json \<Rightarrow> server_config \<Rightarrow> string \<Rightarrow> bool \<Rightarrow> frame res \<Rightarrow>
    (frame \<times> go_error option) list \<Rightarrow> 'h \<Rightarrow> 'h \<times> frame list" where
  "serve_conn ops js cfg release certificate_ok first fs h =
     (case srv_first js cfg release certificate_ok first of
        (out, False) \<Rightarrow> (h, case out of None \<Rightarrow> [] | Some f \<Rightarrow> [f])
      | (out, True) \<Rightarrow>
          (let ((sc, h'), outs) = srv_serve ops js fs (new_srv_conn, h)
           in (h', (case out of None \<Rightarrow> [] | Some f \<Rightarrow> [f]) @ outs)))"

subsection \<open>What the server needs of a host\<close>

text \<open>
  How a host is seen: its invariant, whose environment a reference is (\<open>None\<close> if it was never
  handed out), whose terminal and observation, everything there is to see of an environment,
  and the grants.
\<close>

record ('h, 's) host_view =
  hv_inv :: "'h \<Rightarrow> bool"
  hv_env_id :: "'h \<Rightarrow> nat \<Rightarrow> grant_id option"
  hv_term_env :: "'h \<Rightarrow> nat \<Rightarrow> nat option"
  hv_obs_env :: "'h \<Rightarrow> nat \<Rightarrow> nat option"
  hv_view :: "'h \<Rightarrow> nat \<Rightarrow> 's"
  hv_granted :: "'h \<Rightarrow> grant_id \<Rightarrow> nat option"

text \<open>A step of the host on behalf of grant \<open>g\<close>: references stay what they are, and environments
  of other ids do not change.\<close>

definition evolves :: "('h, 's) host_view \<Rightarrow> grant_id \<Rightarrow> 'h \<Rightarrow> 'h \<Rightarrow> bool" where
  "evolves hv g h h' \<longleftrightarrow>
     hv_inv hv h' \<and>
     (\<forall>r i. hv_env_id hv h r = Some i \<longrightarrow> hv_env_id hv h' r = Some i \<and> (i \<noteq> g \<longrightarrow> hv_view hv h' r = hv_view hv h r)) \<and>
     (\<forall>t r. hv_term_env hv h t = Some r \<longrightarrow> hv_term_env hv h' t = Some r) \<and>
     (\<forall>b r. hv_obs_env hv h b = Some r \<longrightarrow> hv_obs_env hv h' b = Some r) \<and>
     (\<forall>i. i \<noteq> g \<longrightarrow> hv_granted hv h' i = hv_granted hv h i)"

text \<open>A step that in addition leaves every grant alone.\<close>

definition serves :: "('h, 's) host_view \<Rightarrow> grant_id \<Rightarrow> 'h \<Rightarrow> 'h \<Rightarrow> bool" where
  "serves hv g h h' \<longleftrightarrow> evolves hv g h h' \<and> hv_granted hv h' = hv_granted hv h"

lemma evolves_refl: "hv_inv hv h \<Longrightarrow> evolves hv g h h"
  by (simp add: evolves_def)

lemma serves_refl: "hv_inv hv h \<Longrightarrow> serves hv g h h"
  by (simp add: serves_def evolves_refl)

lemma evolvesD:
  assumes "evolves hv g h h'"
  shows "hv_inv hv h'" "hv_env_id hv h r = Some i \<Longrightarrow> hv_env_id hv h' r = Some i"
    "hv_env_id hv h r = Some i \<Longrightarrow> i \<noteq> g \<Longrightarrow> hv_view hv h' r = hv_view hv h r"
    "hv_term_env hv h t = Some r \<Longrightarrow> hv_term_env hv h' t = Some r"
    "hv_obs_env hv h b = Some r \<Longrightarrow> hv_obs_env hv h' b = Some r"
    "i \<noteq> g \<Longrightarrow> hv_granted hv h' i = hv_granted hv h i"
  using assms by (simp_all add: evolves_def)

lemma evolves_trans: "evolves hv g h h' \<Longrightarrow> evolves hv g h' h'' \<Longrightarrow> evolves hv g h h''"
  by (simp add: evolves_def)

lemma serves_evolves: "serves hv g h h' \<Longrightarrow> evolves hv g h h'"
  by (simp add: serves_def)

locale served_host =
  fixes ops :: "'h host_ops" and hv :: "('h, 's) host_view"
  assumes ensure_law: "hv_inv hv h \<Longrightarrow> ho_ensure ops ctx sp h = (h', res) \<Longrightarrow>
      evolves hv (spec_id sp) h h' \<and> (case res of Inl e \<Rightarrow> True | Inr r \<Rightarrow> hv_env_id hv h' r = Some (spec_id sp))"
    and revoke_law: "hv_inv hv h \<Longrightarrow> evolves hv i h (fst (ho_revoke ops ctx i h))"
    and attach_law: "hv_inv hv h \<Longrightarrow> hv_env_id hv h r = Some i \<Longrightarrow> ho_attach ops ctx r win h = (h', res) \<Longrightarrow>
      serves hv i h h' \<and> (case res of Inl e \<Rightarrow> True | Inr t \<Rightarrow> hv_term_env hv h' t = Some r)"
    and freeze_law: "hv_inv hv h \<Longrightarrow> hv_env_id hv h r = Some i \<Longrightarrow> serves hv i h (fst (ho_freeze ops ctx r h))"
    and thaw_law: "hv_inv hv h \<Longrightarrow> hv_env_id hv h r = Some i \<Longrightarrow> serves hv i h (fst (ho_thaw ops ctx r h))"
    and replace_law: "hv_inv hv h \<Longrightarrow> hv_env_id hv h r = Some i \<Longrightarrow> serves hv i h (fst (ho_replace ops ctx r tree h))"
    and apply_law: "hv_inv hv h \<Longrightarrow> hv_env_id hv h r = Some i \<Longrightarrow> serves hv i h (fst (ho_apply ops ctx r batch h))"
    and watch_law: "hv_inv hv h \<Longrightarrow> hv_env_id hv h r = Some i \<Longrightarrow> ho_watch ops ctx r after h = (h', res) \<Longrightarrow>
      serves hv i h h' \<and> (case res of Inl e \<Rightarrow> True | Inr b \<Rightarrow> hv_obs_env hv h' b = Some r)"
    and term_write_law: "hv_inv hv h \<Longrightarrow> hv_term_env hv h t = Some r \<Longrightarrow> hv_env_id hv h r = Some i \<Longrightarrow>
      serves hv i h (fst (ho_term_write ops p t h))"
    and term_resize_law: "hv_inv hv h \<Longrightarrow> hv_term_env hv h t = Some r \<Longrightarrow> hv_env_id hv h r = Some i \<Longrightarrow>
      serves hv i h (fst (ho_term_resize ops ctx win t h))"
    and term_close_law: "hv_inv hv h \<Longrightarrow> hv_term_env hv h t = Some r \<Longrightarrow> hv_env_id hv h r = Some i \<Longrightarrow>
      serves hv i h (fst (ho_term_close ops t h))"
    and obs_close_law: "hv_inv hv h \<Longrightarrow> hv_obs_env hv h b = Some r \<Longrightarrow> hv_env_id hv h r = Some i \<Longrightarrow>
      serves hv i h (fst (ho_obs_close ops b h))"
begin

text \<open>The entries of a connection belong to the grants they are filed under.\<close>

definition conn_ok :: "srv_conn \<Rightarrow> 'h \<Rightarrow> bool" where
  "conn_ok sc h \<longleftrightarrow>
     hv_inv hv h \<and>
     (\<forall>g r. sc_envs sc g = Some r \<longrightarrow> hv_env_id hv h r = Some g) \<and>
     (\<forall>g t. sc_terms sc g = Some t \<longrightarrow> (\<exists>r. hv_term_env hv h t = Some r \<and> hv_env_id hv h r = Some g)) \<and>
     (\<forall>g b. sc_obs sc g = Some b \<longrightarrow> (\<exists>r. hv_obs_env hv h b = Some r \<and> hv_env_id hv h r = Some g))"

lemma conn_okD:
  assumes "conn_ok sc h"
  shows "hv_inv hv h" "sc_envs sc g = Some r \<Longrightarrow> hv_env_id hv h r = Some g"
    "sc_terms sc g = Some t \<Longrightarrow> \<exists>r. hv_term_env hv h t = Some r \<and> hv_env_id hv h r = Some g"
    "sc_obs sc g = Some b \<Longrightarrow> \<exists>r. hv_obs_env hv h b = Some r \<and> hv_env_id hv h r = Some g"
  using assms by (auto simp: conn_ok_def)

lemma conn_ok_evolves:
  assumes "conn_ok sc h" and "evolves hv g h h'"
  shows "conn_ok sc h'"
proof -
  note e = evolvesD [OF assms(2)]
  have "\<exists>r. hv_term_env hv h' t = Some r \<and> hv_env_id hv h' r = Some g'" if "sc_terms sc g' = Some t" for g' t
    using conn_okD(3) [OF assms(1) that] e(2,4) by blast
  moreover have "\<exists>r. hv_obs_env hv h' b = Some r \<and> hv_env_id hv h' r = Some g'" if "sc_obs sc g' = Some b" for g' b
    using conn_okD(4) [OF assms(1) that] e(2,5) by blast
  ultimately show ?thesis using conn_okD(2) [OF assms(1)] e(1,2) by (simp add: conn_ok_def)
qed

lemma close_term_serves:
  assumes "hv_inv hv h" and "\<And>t. x = Some t \<Longrightarrow> \<exists>r. hv_term_env hv h t = Some r \<and> hv_env_id hv h r = Some g"
  shows "serves hv g h (close_term ops x h)"
  using assms term_close_law by (cases x) (auto simp: close_term_def serves_refl)

lemma close_obs_serves:
  assumes "hv_inv hv h" and "\<And>b. x = Some b \<Longrightarrow> \<exists>r. hv_obs_env hv h b = Some r \<and> hv_env_id hv h r = Some g"
  shows "serves hv g h (close_obs ops x h)"
  using assms obs_close_law by (cases x) (auto simp: close_obs_def serves_refl)

end

subsection \<open>A handler stays within its grant\<close>

definition same_elsewhere :: "grant_id \<Rightarrow> srv_conn \<Rightarrow> srv_conn \<Rightarrow> bool" where
  "same_elsewhere g sc sc' \<longleftrightarrow>
     (\<forall>i. i \<noteq> g \<longrightarrow> sc_envs sc' i = sc_envs sc i \<and> sc_terms sc' i = sc_terms sc i \<and>
        sc_term_streams sc' i = sc_term_streams sc i \<and> sc_obs sc' i = sc_obs sc i \<and>
        sc_obs_streams sc' i = sc_obs_streams sc i)"

lemma same_elsewhere_refl [simp]: "same_elsewhere g sc sc"
  by (simp add: same_elsewhere_def)

context served_host
begin

definition handled_ok :: "grant_id \<Rightarrow> srv_conn \<Rightarrow> 'h \<Rightarrow> 'h handled \<Rightarrow> bool" where
  "handled_ok g sc h r \<longleftrightarrow>
     (case r of ((sc', h'), res, cs) \<Rightarrow> conn_ok sc' h' \<and> evolves hv g h h' \<and> same_elsewhere g sc sc')"

lemma refuse_ok: "conn_ok sc h \<Longrightarrow> evolves hv g h h' \<Longrightarrow> handled_ok g sc h (refuse sc h' e)"
  by (simp add: handled_ok_def refuse_def conn_ok_evolves)

lemma refuse_same: "conn_ok sc h \<Longrightarrow> handled_ok g sc h (refuse sc h e)"
  by (simp add: refuse_ok evolves_refl conn_okD)

lemma keep_ok: "conn_ok sc h \<Longrightarrow> handled_ok g sc h ((sc, h), res, cs)"
  by (simp add: handled_ok_def evolves_refl conn_okD)

lemma done_ok: "conn_ok sc h \<Longrightarrow> evolves hv g h (fst call) \<Longrightarrow> handled_ok g sc h (done_with sc call)"
  by (simp add: handled_ok_def done_with_def conn_ok_evolves)

lemma done_forget:
  assumes "conn_ok sc h" and "evolves hv g h (fst call)" and "same_elsewhere g sc sc'"
    and "\<And>h'. conn_ok sc h' \<Longrightarrow> conn_ok sc' h'"
  shows "handled_ok g sc h (done_with sc' call)"
  using assms by (simp add: handled_ok_def done_with_def conn_ok_evolves)

lemma forget_ok:
  assumes "conn_ok sc h"
  shows "conn_ok (sc\<lparr>sc_terms := (sc_terms sc)(g := None), sc_term_streams := ts\<rparr>) h"
    "conn_ok (sc\<lparr>sc_obs := (sc_obs sc)(g := None), sc_obs_streams := bs\<rparr>) h"
    "conn_ok (forget_grant g sc) h"
  using assms by (simp_all add: conn_ok_def forget_grant_def)

lemma srv_env_id: "conn_ok sc h \<Longrightarrow> srv_env sc g = Inr r \<Longrightarrow> hv_env_id hv h r = Some g"
  using conn_okD(2) by (simp add: srv_env_def split: option.splits)

lemma on_env_ok:
  assumes "conn_ok sc h" and "\<And>r. hv_env_id hv h r = Some (fr_grant f) \<Longrightarrow> serves hv (fr_grant f) h (fst (call r))"
  shows "handled_ok (fr_grant f) sc h (on_env sc f h call)"
proof (cases "srv_env sc (fr_grant f)")
  case (Inr r)
  show ?thesis using done_ok [OF assms(1) serves_evolves [OF assms(2) [OF srv_env_id [OF assms(1) Inr]]]] Inr
    by (simp add: on_env_def)
qed (use assms in \<open>simp add: on_env_def refuse_same\<close>)

lemma ensure_handled:
  assumes ok: "conn_ok sc h"
  shows "handled_ok (fr_grant f) sc h (srv_ensure ops js ctx f sc h)"
proof (cases "\<exists>sp. decode_extra (js_ensure js) zero_spec (fr_extra f) = Inr sp \<and> spec_id sp = fr_grant f")
  case False
  then show ?thesis using refuse_same [OF ok] by (auto simp: srv_ensure_def split: sum.split)
next
  case True
  then obtain sp where sp: "decode_extra (js_ensure js) zero_spec (fr_extra f) = Inr sp" "spec_id sp = fr_grant f" by blast
  obtain h' res where e: "ho_ensure ops ctx sp h = (h', res)" by (cases "ho_ensure ops ctx sp h")
  have law: "evolves hv (fr_grant f) h h'" "\<And>r. res = Inr r \<Longrightarrow> hv_env_id hv h' r = Some (fr_grant f)"
    using ensure_law [OF conn_okD(1) [OF ok] e] sp(2) by auto
  have "conn_ok (sc\<lparr>sc_envs := (sc_envs sc)(fr_grant f \<mapsto> r)\<rparr>) h'" if "res = Inr r" for r
    using conn_ok_evolves [OF ok law(1)] law(2) [OF that] by (simp add: conn_ok_def)
  then show ?thesis
    using refuse_ok [OF ok law(1)] law(1) sp e
    by (auto simp: srv_ensure_def handled_ok_def same_elsewhere_def split: sum.split)
qed

lemma revoke_handled:
  assumes ok: "conn_ok sc h"
  shows "handled_ok (fr_grant f) sc h (srv_revoke ops ctx f sc h)"
proof -
  let ?g = "fr_grant f"
  let ?h1 = "close_term ops (sc_terms sc ?g) h"
  have s1: "serves hv ?g h ?h1"
    by (rule close_term_serves [OF conn_okD(1) [OF ok]]) (rule conn_okD(3) [OF ok])
  have ok1: "conn_ok sc ?h1" by (rule conn_ok_evolves [OF ok serves_evolves [OF s1]])
  let ?h2 = "close_obs ops (sc_obs sc ?g) ?h1"
  have s2: "serves hv ?g ?h1 ?h2"
    by (rule close_obs_serves [OF conn_okD(1) [OF ok1]]) (rule conn_okD(4) [OF ok1])
  have ok2: "conn_ok sc ?h2" by (rule conn_ok_evolves [OF ok1 serves_evolves [OF s2]])
  have "evolves hv ?g ?h2 (fst (ho_revoke ops ctx ?g ?h2))" by (rule revoke_law [OF conn_okD(1) [OF ok2]])
  then have "evolves hv ?g h (fst (ho_revoke ops ctx ?g ?h2))"
    by (rule evolves_trans [OF evolves_trans [OF serves_evolves [OF s1] serves_evolves [OF s2]]])
  then show ?thesis
    unfolding srv_revoke_def Let_def
    by (rule done_forget [OF ok _ _ forget_ok(3)]) (simp_all add: same_elsewhere_def forget_grant_def)
qed

lemma attach_handled:
  assumes ok: "conn_ok sc h"
  shows "handled_ok (fr_grant f) sc h (srv_attach ops js ctx f sc h)"
proof (cases "\<exists>args r. decode_extra (js_window js) zero_window_args (fr_extra f) = Inr args \<and>
    wa_stream args \<noteq> 0 \<and> srv_env sc (fr_grant f) = Inr r")
  case False
  then show ?thesis using refuse_same [OF ok] by (auto simp: srv_attach_def split: sum.split)
next
  case True
  then obtain args r where a: "decode_extra (js_window js) zero_window_args (fr_extra f) = Inr args"
    "wa_stream args \<noteq> 0" "srv_env sc (fr_grant f) = Inr r" by blast
  have r: "hv_env_id hv h r = Some (fr_grant f)" by (rule srv_env_id [OF ok a(3)])
  obtain h' res where e: "ho_attach ops ctx r (wa_window args) h = (h', res)"
    by (cases "ho_attach ops ctx r (wa_window args) h")
  have ev: "evolves hv (fr_grant f) h h'" and t: "\<And>t. res = Inr t \<Longrightarrow> hv_term_env hv h' t = Some r"
    using attach_law [OF conn_okD(1) [OF ok] r e] by (auto simp: serves_def)
  have ok': "conn_ok sc h'" by (rule conn_ok_evolves [OF ok ev])
  have r': "hv_env_id hv h' r = Some (fr_grant f)" by (rule evolvesD(2) [OF ev r])
  have "evolves hv (fr_grant f) h (close_term ops (Some t) h')" if "res = Inr t" for t
    using evolves_trans [OF ev serves_evolves [OF close_term_serves [OF conn_okD(1) [OF ok']]]] t [OF that] r' by blast
  moreover have "conn_ok (sc\<lparr>sc_terms := (sc_terms sc)(fr_grant f \<mapsto> t), sc_term_streams := ts\<rparr>) h'" if "res = Inr t" for t ts
    using ok' t [OF that] r' by (simp add: conn_ok_def)
  ultimately show ?thesis
    using refuse_ok [OF ok] ev a e
    by (auto simp: srv_attach_def handled_ok_def same_elsewhere_def split: sum.split)
qed

lemma watch_handled:
  assumes ok: "conn_ok sc h"
  shows "handled_ok (fr_grant f) sc h (srv_watch ops js ctx f sc h)"
proof (cases "\<exists>args r. decode_extra (js_watch js) \<lparr>wt_after = '''', wt_stream = 0\<rparr> (fr_extra f) = Inr args \<and>
    wt_stream args \<noteq> 0 \<and> srv_env sc (fr_grant f) = Inr r")
  case False
  then show ?thesis using refuse_same [OF ok] by (auto simp: srv_watch_def split: sum.split)
next
  case True
  then obtain args r where a: "decode_extra (js_watch js) \<lparr>wt_after = '''', wt_stream = 0\<rparr> (fr_extra f) = Inr args"
    "wt_stream args \<noteq> 0" "srv_env sc (fr_grant f) = Inr r" by blast
  have r: "hv_env_id hv h r = Some (fr_grant f)" by (rule srv_env_id [OF ok a(3)])
  obtain h' res where e: "ho_watch ops ctx r (wt_after args) h = (h', res)"
    by (cases "ho_watch ops ctx r (wt_after args) h")
  have ev: "evolves hv (fr_grant f) h h'" and b: "\<And>b. res = Inr b \<Longrightarrow> hv_obs_env hv h' b = Some r"
    using watch_law [OF conn_okD(1) [OF ok] r e] by (auto simp: serves_def)
  have ok': "conn_ok sc h'" by (rule conn_ok_evolves [OF ok ev])
  have r': "hv_env_id hv h' r = Some (fr_grant f)" by (rule evolvesD(2) [OF ev r])
  have "evolves hv (fr_grant f) h (close_obs ops (Some b) h')" if "res = Inr b" for b
    using evolves_trans [OF ev serves_evolves [OF close_obs_serves [OF conn_okD(1) [OF ok']]]] b [OF that] r' by blast
  moreover have "conn_ok (sc\<lparr>sc_obs := (sc_obs sc)(fr_grant f \<mapsto> b), sc_obs_streams := bs\<rparr>) h'" if "res = Inr b" for b bs
    using ok' b [OF that] r' by (simp add: conn_ok_def)
  ultimately show ?thesis
    using refuse_ok [OF ok] ev a e
    by (auto simp: srv_watch_def handled_ok_def same_elsewhere_def split: sum.split)
qed

lemma detach_handled:
  assumes ok: "conn_ok sc h"
  shows "handled_ok (fr_grant f) sc h (srv_detach ops js f sc h)"
proof -
  let ?g = "fr_grant f"
  let ?sc = "sc\<lparr>sc_terms := (sc_terms sc)(?g := None), sc_term_streams := (sc_term_streams sc)(?g := None)\<rparr>"
  have same: "same_elsewhere ?g sc ?sc" by (simp add: same_elsewhere_def)
  have "handled_ok ?g sc h (done_with ?sc (ho_term_close ops t h))" if t: "sc_terms sc ?g = Some t" for t
  proof (rule done_forget [OF ok _ same])
    obtain r where "hv_term_env hv h t = Some r" "hv_env_id hv h r = Some ?g"
      using conn_okD(3) [OF ok t] by blast
    then show "evolves hv ?g h (fst (ho_term_close ops t h))"
      by (rule serves_evolves [OF term_close_law [OF conn_okD(1) [OF ok]]])
  qed (simp add: forget_ok)
  moreover have "handled_ok ?g sc h ((?sc, h), Inr [], [])"
    using forget_ok(1) [OF ok] same by (simp add: handled_ok_def evolves_refl conn_okD [OF ok])
  ultimately show ?thesis
    using refuse_same [OF ok] keep_ok [OF ok]
    by (simp add: srv_detach_def Let_def split: sum.split option.split)
qed

lemma unwatch_handled:
  assumes ok: "conn_ok sc h"
  shows "handled_ok (fr_grant f) sc h (srv_unwatch ops js f sc h)"
proof -
  let ?g = "fr_grant f"
  let ?sc = "sc\<lparr>sc_obs := (sc_obs sc)(?g := None), sc_obs_streams := (sc_obs_streams sc)(?g := None)\<rparr>"
  have same: "same_elsewhere ?g sc ?sc" by (simp add: same_elsewhere_def)
  have "handled_ok ?g sc h (done_with ?sc (ho_obs_close ops b h))" if b: "sc_obs sc ?g = Some b" for b
  proof (rule done_forget [OF ok _ same])
    obtain r where "hv_obs_env hv h b = Some r" "hv_env_id hv h r = Some ?g"
      using conn_okD(4) [OF ok b] by blast
    then show "evolves hv ?g h (fst (ho_obs_close ops b h))"
      by (rule serves_evolves [OF obs_close_law [OF conn_okD(1) [OF ok]]])
  qed (simp add: forget_ok)
  moreover have "handled_ok ?g sc h ((?sc, h), Inr [], [])"
    using forget_ok(2) [OF ok] same by (simp add: handled_ok_def evolves_refl conn_okD [OF ok])
  ultimately show ?thesis
    using refuse_same [OF ok] keep_ok [OF ok]
    by (simp add: srv_unwatch_def Let_def split: sum.split option.split)
qed

lemma term_of_conn:
  assumes "conn_ok sc h" and "sc_terms sc g = Some t"
  obtains r where "hv_term_env hv h t = Some r" "hv_env_id hv h r = Some g"
  using conn_okD(3) [OF assms] by blast

lemma resize_handled:
  assumes ok: "conn_ok sc h"
  shows "handled_ok (fr_grant f) sc h (srv_resize ops js ctx f sc h)"
proof -
  have "handled_ok (fr_grant f) sc h (done_with sc (ho_term_resize ops ctx win t h))"
    if t: "sc_terms sc (fr_grant f) = Some t" for t win
  proof -
    obtain r where "hv_term_env hv h t = Some r" "hv_env_id hv h r = Some (fr_grant f)"
      by (rule term_of_conn [OF ok t])
    then show ?thesis by (rule done_ok [OF ok serves_evolves [OF term_resize_law [OF conn_okD(1) [OF ok]]]])
  qed
  then show ?thesis
    using refuse_same [OF ok] by (simp add: srv_resize_def split: sum.split option.split)
qed

lemma open_handled: "conn_ok sc h \<Longrightarrow> handled_ok (fr_grant f) sc h (srv_open ops js ctx f sc h)"
  using refuse_same keep_ok by (simp add: srv_open_def Let_def split: sum.split)

lemma ready_handled: "conn_ok sc h \<Longrightarrow> handled_ok g sc h (srv_ready ops js ctx sc h)"
  using refuse_same keep_ok by (simp add: srv_ready_def split: sum.split)

lemma freeze_handled: "conn_ok sc h \<Longrightarrow> handled_ok (fr_grant f) sc h (srv_freeze ops ctx f sc h)"
  unfolding srv_freeze_def by (rule on_env_ok) (simp_all add: freeze_law conn_okD(1))

lemma thaw_handled: "conn_ok sc h \<Longrightarrow> handled_ok (fr_grant f) sc h (srv_thaw ops ctx f sc h)"
  unfolding srv_thaw_def by (rule on_env_ok) (simp_all add: thaw_law conn_okD(1))

lemma replace_handled:
  assumes ok: "conn_ok sc h"
  shows "handled_ok (fr_grant f) sc h (srv_replace ops js ctx f sc h)"
  using on_env_ok [OF ok replace_law [OF conn_okD(1) [OF ok]]] refuse_same [OF ok]
  by (simp add: srv_replace_def split: sum.split)

lemma apply_handled:
  assumes ok: "conn_ok sc h"
  shows "handled_ok (fr_grant f) sc h (srv_apply ops js ctx f sc h)"
  using on_env_ok [OF ok apply_law [OF conn_okD(1) [OF ok]]] refuse_same [OF ok]
  by (simp add: srv_apply_def split: sum.split)

lemma handle_ok:
  assumes ok: "conn_ok sc h"
  shows "handled_ok (fr_grant f) sc h (srv_handle ops js ctx f sc h)"
proof -
  note handlers = refuse_same [OF ok] ready_handled [OF ok] ensure_handled [OF ok] revoke_handled [OF ok]
    attach_handled [OF ok] detach_handled [OF ok] resize_handled [OF ok] freeze_handled [OF ok]
    thaw_handled [OF ok] replace_handled [OF ok] apply_handled [OF ok] watch_handled [OF ok]
    unwatch_handled [OF ok] open_handled [OF ok]
  have branch: "handled_ok g sc h x \<Longrightarrow> handled_ok g sc h y \<Longrightarrow> handled_ok g sc h (if b then x else y)"
    for b g x y by simp
  show ?thesis
    unfolding srv_handle_def Let_def by (intro branch handlers)
qed

lemma write_pty_serves:
  assumes ok: "conn_ok sc h"
  shows "serves hv (fr_grant f) h (srv_write_pty ops f sc h)"
proof (cases "sc_terms sc (fr_grant f)")
  case (Some t)
  obtain r where "hv_term_env hv h t = Some r" "hv_env_id hv h r = Some (fr_grant f)"
    by (rule term_of_conn [OF ok Some])
  from term_write_law [OF conn_okD(1) [OF ok] this] serves_refl [OF conn_okD(1) [OF ok]] Some
  show ?thesis by (simp add: srv_write_pty_def)
qed (simp add: srv_write_pty_def serves_refl conn_okD(1) [OF ok])

lemma run_ok:
  assumes ok: "conn_ok sc h" and run: "srv_run ops js ctx f (sc, h) = ((sc', h'), out, cs)"
  shows "conn_ok sc' h' \<and> evolves hv (fr_grant f) h h' \<and> same_elsewhere (fr_grant f) sc sc'"
proof -
  have w: "evolves hv (fr_grant f) h (srv_write_pty ops f sc h)" by (rule serves_evolves [OF write_pty_serves [OF ok]])
  have r: "evolves hv (fr_grant f) h h" by (rule evolves_refl [OF conn_okD(1) [OF ok]])
  show ?thesis
    using run handle_ok [OF ok, of f js ctx] conn_ok_evolves [OF ok w] w ok r
    by (auto simp: srv_run_def handled_ok_def split: if_splits prod.splits)
qed

lemma serve_ok:
  "conn_ok sc h \<Longrightarrow> srv_serve ops js fs (sc, h) = ((sc', h'), out) \<Longrightarrow> conn_ok sc' h'"
proof (induction fs arbitrary: sc h out)
  case (Cons fc fs)
  obtain f ctx where fc: "fc = (f, ctx)" by (cases fc)
  obtain sc1 h1 o1 cs where r: "srv_run ops js ctx f (sc, h) = ((sc1, h1), o1, cs)"
    by (metis prod.collapse)
  obtain o2 where s: "srv_serve ops js fs (sc1, h1) = ((sc', h'), o2)"
    using Cons.prems(2) fc r by (auto split: prod.splits)
  show ?case using Cons.IH [OF _ s] run_ok [OF Cons.prems(1) r] by blast
qed simp

lemma conn_ok_new: "hv_inv hv h \<Longrightarrow> conn_ok new_srv_conn h"
  by (simp add: conn_ok_def new_srv_conn_def)

text \<open>Teardown closes terminals and observations; no grant goes with them.\<close>

lemma close_terms_grants:
  "hv_inv hv h \<Longrightarrow> (\<And>t. t \<in> set ts \<Longrightarrow> \<exists>r g. hv_term_env hv h t = Some r \<and> hv_env_id hv h r = Some g) \<Longrightarrow>
   h' = foldl (\<lambda>h t. close_term ops (Some t) h) h ts \<Longrightarrow>
   hv_inv hv h' \<and> hv_granted hv h' = hv_granted hv h \<and>
   (\<forall>r i. hv_env_id hv h r = Some i \<longrightarrow> hv_env_id hv h' r = Some i) \<and>
   (\<forall>b r. hv_obs_env hv h b = Some r \<longrightarrow> hv_obs_env hv h' b = Some r)"
proof (induction ts arbitrary: h)
  case (Cons t ts)
  obtain r g where rg: "hv_term_env hv h t = Some r" "hv_env_id hv h r = Some g"
    using Cons.prems(2) [of t] by auto
  have s: "serves hv g h (close_term ops (Some t) h)"
    using term_close_law [OF Cons.prems(1) rg] by (simp add: close_term_def)
  note e = evolvesD [OF serves_evolves [OF s]]
  have ts: "\<exists>r g. hv_term_env hv (close_term ops (Some t) h) u = Some r \<and>
      hv_env_id hv (close_term ops (Some t) h) r = Some g" if u: "u \<in> set ts" for u
  proof -
    obtain r' g' where "hv_term_env hv h u = Some r'" "hv_env_id hv h r' = Some g'"
      using Cons.prems(2) [of u] u by auto
    then show ?thesis using e(2,4) by blast
  qed
  from Cons.IH [OF e(1) ts] Cons.prems(3) e(2,5) s show ?case by (simp add: serves_def)
qed simp

lemma close_obss_grants:
  "hv_inv hv h \<Longrightarrow> (\<And>b. b \<in> set bs \<Longrightarrow> \<exists>r g. hv_obs_env hv h b = Some r \<and> hv_env_id hv h r = Some g) \<Longrightarrow>
   hv_granted hv (foldl (\<lambda>h b. close_obs ops (Some b) h) h bs) = hv_granted hv h"
proof (induction bs arbitrary: h)
  case (Cons b bs)
  obtain r g where rg: "hv_obs_env hv h b = Some r" "hv_env_id hv h r = Some g"
    using Cons.prems(2) [of b] by auto
  have s: "serves hv g h (close_obs ops (Some b) h)"
    using obs_close_law [OF Cons.prems(1) rg] by (simp add: close_obs_def)
  note e = evolvesD [OF serves_evolves [OF s]]
  have bs: "\<exists>r g. hv_obs_env hv (close_obs ops (Some b) h) u = Some r \<and>
      hv_env_id hv (close_obs ops (Some b) h) r = Some g" if u: "u \<in> set bs" for u
  proof -
    obtain r' g' where "hv_obs_env hv h u = Some r'" "hv_env_id hv h r' = Some g'"
      using Cons.prems(2) [of u] u by auto
    then show ?thesis using e(2,5) by blast
  qed
  from Cons.IH [OF e(1) bs] s show ?case by (simp add: serves_def)
qed simp

lemma close_keeps_grants:
  assumes ok: "conn_ok sc h" and ts: "set ts \<subseteq> ran (sc_terms sc)" and bs: "set bs \<subseteq> ran (sc_obs sc)"
  shows "hv_granted hv (snd (srv_close ops ts bs sc h)) = hv_granted hv h"
proof -
  let ?h1 = "foldl (\<lambda>h t. close_term ops (Some t) h) h ts"
  have t: "\<exists>r g. hv_term_env hv h t = Some r \<and> hv_env_id hv h r = Some g" if "t \<in> set ts" for t
    using ts that conn_okD(3) [OF ok] by (force simp: ran_def)
  note c = close_terms_grants [OF conn_okD(1) [OF ok] t refl, of ts]
  have b: "\<exists>r g. hv_obs_env hv ?h1 b = Some r \<and> hv_env_id hv ?h1 r = Some g" if b: "b \<in> set bs" for b
  proof -
    obtain g where "sc_obs sc g = Some b" using bs b by (auto simp: ran_def)
    then obtain r where "hv_obs_env hv h b = Some r" "hv_env_id hv h r = Some g"
      using conn_okD(4) [OF ok] by blast
    then show ?thesis using c by blast
  qed
  have "hv_granted hv (foldl (\<lambda>h b. close_obs ops (Some b) h) ?h1 bs) = hv_granted hv ?h1"
    using c by (intro close_obss_grants b) auto
  then show ?thesis using c by (simp add: srv_close_def)
qed

end

end
