(* ===== verification/Remote_Client.thy ===== *)
theory Remote_Client
  imports Remote_Server
begin

text \<open>
  The caller's side of the remote hop (\<open>remote/client.go\<close>): pending calls, the read loop
  that routes responses, terminal bytes and events, and what the loss of the connection
  does to all of them. Every object a caller holds (a call in progress, a terminal, an
  observation) lives in a store and is named by its index. A method that blocks is split
  where it blocks: \<open>..._begin\<close> runs up to the frame it sends, \<open>..._end\<close> takes the outcome
  of the call. A step that panics is \<open>None\<close>.
\<close>

subsection \<open>State\<close>

text \<open>
  \<open>rc_box\<close> is the channel of capacity one a call waits on. A call is \<open>Ticketed\<close> before it is in
  \<open>pending\<close>, \<open>Sending\<close> while it is there or waits, \<open>Returned\<close> when \<open>call\<close> has returned.
\<close>

datatype call_status = Ticketed | Sending | Returned

record rcall =
  rc_seq :: uint64
  rc_method :: string
  rc_box :: "frame option"
  rc_status :: call_status

record rterm =
  rt_id :: grant_id
  rt_stream :: uint64
  rt_buf :: bytes
  rt_closed :: bool
  rt_dead :: "go_error option"

text \<open>
  \<open>ro_shut\<close>: the \<open>once\<close> of \<open>fail\<close> has run and \<open>events\<close> is closed. \<open>ro_closing\<close>: the caller's \<open>Close\<close>
  has begun.
\<close>

record robs =
  ro_id :: grant_id
  ro_stream :: uint64
  ro_queue :: "event list"
  ro_shut :: bool
  ro_errc :: "go_error option"
  ro_cursor :: cursor
  ro_failed :: "go_error option"
  ro_closing :: bool

text \<open>\<open>cl_unwatch\<close>: the grants and streams the goroutines of \<open>abort\<close> are to unwatch.\<close>

record client =
  cl_seq :: uint64
  cl_stream :: uint64
  cl_pending :: "uint64 \<rightharpoonup> nat"
  cl_terms :: "grant_id \<rightharpoonup> nat"
  cl_obs :: "grant_id \<rightharpoonup> nat"
  cl_closed :: bool
  cl_calls :: "rcall list"
  cl_rterms :: "rterm list"
  cl_robs :: "robs list"
  cl_unwatch :: "(grant_id \<times> uint64) list"

definition new_client :: client where
  "new_client = \<lparr>cl_seq = 0, cl_stream = 0, cl_pending = Map.empty, cl_terms = Map.empty, cl_obs = Map.empty,
     cl_closed = False, cl_calls = [], cl_rterms = [], cl_robs = [], cl_unwatch = []\<rparr>"

text \<open>What \<open>json.Marshal\<close> makes of a payload, and the decoders of the answers.\<close>

record client_json =
  cj_auth :: "auth_args \<Rightarrow> bytes res"
  cj_ensure :: "spec \<Rightarrow> bytes res"
  cj_window :: "window_args \<Rightarrow> bytes res"
  cj_stream :: "uint64 \<Rightarrow> bytes res"
  cj_watch :: "watch_args \<Rightarrow> bytes res"
  cj_replace :: "node list \<Rightarrow> bytes res"
  cj_apply :: "mutation list \<Rightarrow> bytes res"
  cj_open :: "string \<Rightarrow> bytes res"
  cj_report :: "report json_decoder"
  cj_cursor :: "cursor json_decoder"
  cj_body :: "bytes json_decoder"
  cj_event :: "event json_decoder"

definition set_call :: "nat \<Rightarrow> rcall \<Rightarrow> client \<Rightarrow> client" where
  "set_call i c cl = cl\<lparr>cl_calls := (cl_calls cl)[i := c]\<rparr>"

definition set_rterm :: "nat \<Rightarrow> rterm \<Rightarrow> client \<Rightarrow> client" where
  "set_rterm t x cl = cl\<lparr>cl_rterms := (cl_rterms cl)[t := x]\<rparr>"

definition set_robs :: "nat \<Rightarrow> robs \<Rightarrow> client \<Rightarrow> client" where
  "set_robs b x cl = cl\<lparr>cl_robs := (cl_robs cl)[b := x]\<rparr>"

subsection \<open>Terminals and observations\<close>

definition rterm_push :: "bytes \<Rightarrow> nat \<Rightarrow> client \<Rightarrow> client" where
  "rterm_push p t cl =
     (let x = cl_rterms cl ! t in
      if \<not> rt_closed x \<and> rt_dead x = None then set_rterm t (x\<lparr>rt_buf := rt_buf x @ p\<rparr>) cl else cl)"

definition rterm_hangup :: "go_error option \<Rightarrow> nat \<Rightarrow> client \<Rightarrow> client" where
  "rterm_hangup err t cl =
     (let x = cl_rterms cl ! t in
      if rt_dead x = None
      then set_rterm t (x\<lparr>rt_dead := Some (case err of None \<Rightarrow> Sent ErrClosed | Some e \<Rightarrow> e)\<rparr>) cl else cl)"

definition rterm_read :: "nat \<Rightarrow> nat \<Rightarrow> client \<Rightarrow> (client \<times> bytes res) option" where
  "rterm_read cap t cl =
     (let x = cl_rterms cl ! t in
      if rt_buf x = [] \<and> \<not> rt_closed x \<and> rt_dead x = None then None
      else Some
        (if rt_buf x \<noteq> [] then (set_rterm t (x\<lparr>rt_buf := drop cap (rt_buf x)\<rparr>) cl, Inr (take cap (rt_buf x)))
         else (case rt_dead x of
                 Some e \<Rightarrow> (cl, Inl (OpError ''read'' e))
               | None \<Rightarrow> (cl, Inl IoEOF))))"

text \<open>\<open>Write\<close>: the frame it sends, and what it makes of \<open>Send\<close>'s error.\<close>

definition rterm_write :: "bytes \<Rightarrow> nat \<Rightarrow> client \<Rightarrow> frame res" where
  "rterm_write p t cl =
     (let x = cl_rterms cl ! t in
      if rt_closed x \<or> rt_dead x \<noteq> None
      then Inl (OpError ''write'' (case rt_dead x of None \<Rightarrow> Sent ErrClosed | Some e \<Rightarrow> e))
      else Inr \<lparr>fr_seq = 0, fr_kind = KindPty, fr_method = '''', fr_grant = rt_id x, fr_stream = rt_stream x,
                fr_status = '''', fr_extra = p, fr_deadline = 0\<rparr>)"

definition rterm_written :: "bytes \<Rightarrow> go_error option \<Rightarrow> nat res" where
  "rterm_written p sent =
     (case sent of
        None \<Rightarrow> Inr (length p)
      | Some e \<Rightarrow>
          if err_is e ErrTooLarge then Inl (OpError ''write'' e) else Inl (OpError ''write'' (Sent ErrClosed)))"

definition watch_buffer_remote :: nat where "watch_buffer_remote = 64"

definition robs_fail :: "go_error \<Rightarrow> nat \<Rightarrow> client \<Rightarrow> client" where
  "robs_fail e b cl =
     (let x = cl_robs cl ! b in
      if ro_shut x then cl
      else set_robs b (x\<lparr>ro_failed := Some e, ro_errc := Some e, ro_shut := True\<rparr>) cl)"

definition finish_observation :: "grant_id \<Rightarrow> nat \<Rightarrow> go_error \<Rightarrow> client \<Rightarrow> client" where
  "finish_observation g b e cl =
     robs_fail e b (if cl_obs cl g = Some b then cl\<lparr>cl_obs := (cl_obs cl)(g := None)\<rparr> else cl)"

definition robs_abort :: "go_error \<Rightarrow> nat \<Rightarrow> client \<Rightarrow> client" where
  "robs_abort e b cl =
     (let x = cl_robs cl ! b; cl' = finish_observation (ro_id x) b e cl
      in cl'\<lparr>cl_unwatch := cl_unwatch cl' @ [(ro_id x, ro_stream x)]\<rparr>)"

text \<open>A send on a closed channel panics, in a \<open>select\<close> with a default too.\<close>

definition robs_push :: "event \<Rightarrow> nat \<Rightarrow> client \<Rightarrow> client option" where
  "robs_push ev b cl =
     (let x = cl_robs cl ! b in
      if ro_shut x then None
      else if length (ro_queue x) < watch_buffer_remote
      then Some (set_robs b (x\<lparr>ro_queue := ro_queue x @ [ev]\<rparr>) cl)
      else Some (robs_abort (Sent ErrLagged) b cl))"

definition set_initial_cursor :: "cursor \<Rightarrow> cursor \<Rightarrow> nat \<Rightarrow> client \<Rightarrow> client" where
  "set_initial_cursor c after b cl =
     (let x = cl_robs cl ! b in if ro_cursor x = after then set_robs b (x\<lparr>ro_cursor := c\<rparr>) cl else cl)"

text \<open>\<open>Next\<close>: the first check, then the select, where the context or the channel may win.\<close>

definition robs_receive :: "nat \<Rightarrow> client \<Rightarrow> (client \<times> event res) option" where
  "robs_receive b cl =
     (let x = cl_robs cl ! b in
      case ro_queue x of
        ev # rest \<Rightarrow>
          Some (case ro_failed x of
                  Some e \<Rightarrow> (set_robs b (x\<lparr>ro_queue := rest\<rparr>) cl, Inl (OpError ''watch'' e))
                | None \<Rightarrow> (set_robs b (x\<lparr>ro_queue := rest, ro_cursor := ev_cursor ev\<rparr>) cl, Inr ev))
      | [] \<Rightarrow>
          if ro_shut x
          then Some (case ro_errc x of
                       Some e \<Rightarrow> (set_robs b (x\<lparr>ro_errc := None\<rparr>) cl, Inl (OpError ''watch'' e))
                     | None \<Rightarrow> (cl, Inl (OpError ''watch'' (Sent ErrClosed))))
          else None)"

definition robs_next :: "go_error option \<Rightarrow> bool \<Rightarrow> nat \<Rightarrow> client \<Rightarrow> (client \<times> event res) option" where
  "robs_next ctx pick_ctx b cl =
     (case ro_failed (cl_robs cl ! b) of
        Some e \<Rightarrow> Some (cl, Inl (OpError ''watch'' e))
      | None \<Rightarrow>
          (case (ctx, robs_receive b cl) of
             (Some e, None) \<Rightarrow> Some (cl, Inl (OpError ''watch'' e))
           | (Some e, Some r) \<Rightarrow> if pick_ctx then Some (cl, Inl (OpError ''watch'' e)) else Some r
           | (None, r) \<Rightarrow> r))"

subsection \<open>Calls\<close>

text \<open>\<open>call\<close> up to its ticket: the context, then a fresh sequence number and channel.\<close>

definition call_ticket :: "string \<Rightarrow> client \<Rightarrow> client \<times> nat" where
  "call_ticket method cl =
     (let s = cl_seq cl + 1
      in (cl\<lparr>cl_seq := s, cl_calls := cl_calls cl @ [\<lparr>rc_seq = s, rc_method = method, rc_box = None, rc_status = Ticketed\<rparr>]\<rparr>,
          length (cl_calls cl)))"

definition returned :: "nat \<Rightarrow> client \<Rightarrow> client" where
  "returned i cl = set_call i ((cl_calls cl ! i)\<lparr>rc_status := Returned\<rparr>) cl"

definition call_register :: "grant_id \<Rightarrow> bytes \<Rightarrow> 64 word \<Rightarrow> nat \<Rightarrow> client \<Rightarrow> client \<times> frame res" where
  "call_register g extra deadline i cl =
     (let c = cl_calls cl ! i in
      if cl_closed cl then (returned i cl, Inl (OpError (rc_method c) (Sent ErrConnection)))
      else (set_call i (c\<lparr>rc_status := Sending\<rparr>) (cl\<lparr>cl_pending := (cl_pending cl)(rc_seq c \<mapsto> i)\<rparr>),
            Inr \<lparr>fr_seq = rc_seq c, fr_kind = KindRequest, fr_method = rc_method c, fr_grant = g, fr_stream = 0,
                 fr_status = '''', fr_extra = extra, fr_deadline = deadline\<rparr>))"

definition call_begin :: "go_error option \<Rightarrow> 64 word \<Rightarrow> string \<Rightarrow> grant_id \<Rightarrow> bytes \<Rightarrow> client \<Rightarrow>
    client \<times> (nat \<times> frame) res" where
  "call_begin ctx deadline method g extra cl =
     (case ctx of
        Some e \<Rightarrow> (cl, Inl (OpError method e))
      | None \<Rightarrow>
          (case call_ticket method cl of
             (cl1, i) \<Rightarrow>
               (case call_register g extra deadline i cl1 of
                  (cl2, Inl e) \<Rightarrow> (cl2, Inl e)
                | (cl2, Inr f) \<Rightarrow> (cl2, Inr (i, f)))))"

text \<open>The entry of a call that gives up is deleted by its number.\<close>

definition call_abandon :: "nat \<Rightarrow> client \<Rightarrow> client" where
  "call_abandon i cl = returned i (cl\<lparr>cl_pending := (cl_pending cl)(rc_seq (cl_calls cl ! i) := None)\<rparr>)"

definition call_sent :: "go_error option \<Rightarrow> nat \<Rightarrow> client \<Rightarrow> client \<times> unit res" where
  "call_sent sent i cl =
     (case sent of
        None \<Rightarrow> (cl, Inr ())
      | Some e \<Rightarrow>
          (call_abandon i cl,
           Inl (OpError (rc_method (cl_calls cl ! i))
                  (if err_is e ErrTooLarge \<or> err_is e ErrInvalid then e else Sent ErrConnection))))"

definition call_answer :: "string \<Rightarrow> frame \<Rightarrow> bytes res" where
  "call_answer method f =
     (if fr_status f \<noteq> ''''
      then (case annotate method (error_from_status (fr_status f)) of Some e \<Rightarrow> Inl e | None \<Rightarrow> Inr [])
      else Inr (fr_extra f))"

text \<open>The select at the end of \<open>call\<close>; \<open>pick_ctx\<close> decides when both are ready.\<close>

definition call_wait :: "go_error option \<Rightarrow> bool \<Rightarrow> nat \<Rightarrow> client \<Rightarrow> (client \<times> bytes res) option" where
  "call_wait ctx pick_ctx i cl =
     (let c = cl_calls cl ! i in
      case (ctx, rc_box c) of
        (None, None) \<Rightarrow> None
      | (Some e, None) \<Rightarrow> Some (call_abandon i cl, Inl (OpError (rc_method c) e))
      | (None, Some f) \<Rightarrow> Some (returned i (set_call i (c\<lparr>rc_box := None\<rparr>) cl), call_answer (rc_method c) f)
      | (Some e, Some f) \<Rightarrow>
          if pick_ctx then Some (call_abandon i cl, Inl (OpError (rc_method c) e))
          else Some (returned i (set_call i (c\<lparr>rc_box := None\<rparr>) cl), call_answer (rc_method c) f))"

subsection \<open>The read loop\<close>

text \<open>
  One frame of \<open>readLoop\<close>. A response goes to the channel of the call with its number;
  \<open>None\<close> for it is a send that would block, for an event a panic.
\<close>

definition answer_call :: "frame \<Rightarrow> nat \<Rightarrow> client \<Rightarrow> client option" where
  "answer_call f i cl =
     (let c = cl_calls cl ! i in
      case rc_box c of Some _ \<Rightarrow> None | None \<Rightarrow> Some (set_call i (c\<lparr>rc_box := Some f\<rparr>) cl))"

definition deliver_response :: "frame \<Rightarrow> client \<Rightarrow> client option" where
  "deliver_response f cl =
     (let cl' = cl\<lparr>cl_pending := (cl_pending cl)(fr_seq f := None)\<rparr>
      in case cl_pending cl (fr_seq f) of None \<Rightarrow> Some cl' | Some i \<Rightarrow> answer_call f i cl')"

definition deliver_pty :: "frame \<Rightarrow> client \<Rightarrow> client" where
  "deliver_pty f cl =
     (case cl_terms cl (fr_grant f) of
        None \<Rightarrow> cl
      | Some t \<Rightarrow>
          if rt_stream (cl_rterms cl ! t) \<noteq> fr_stream f then cl
          else if fr_status f \<noteq> '''' then rterm_hangup (error_from_status (fr_status f)) t cl
          else rterm_push (fr_extra f) t cl)"

definition zero_event :: event where
  "zero_event = \<lparr>ev_cursor = '''', ev_op = 0, ev_path = '''', ev_from = ''''\<rparr>"

definition deliver_watch :: "client_json \<Rightarrow> frame \<Rightarrow> client \<Rightarrow> client option" where
  "deliver_watch js f cl =
     (case cl_obs cl (fr_grant f) of
        None \<Rightarrow> Some cl
      | Some b \<Rightarrow>
          if ro_stream (cl_robs cl ! b) \<noteq> fr_stream f then Some cl
          else if fr_status f \<noteq> '''' then
            Some (finish_observation (fr_grant f) b (the (error_from_status (fr_status f))) cl)
          else (case decode_extra (cj_event js) zero_event (fr_extra f) of
                  Inl _ \<Rightarrow> Some (finish_observation (fr_grant f) b (Sent ErrUnavailable) cl)
                | Inr ev \<Rightarrow>
                    (case validate_event ev of
                       Some _ \<Rightarrow> Some (finish_observation (fr_grant f) b (Sent ErrUnavailable) cl)
                     | None \<Rightarrow> robs_push ev b cl)))"

definition client_recv :: "client_json \<Rightarrow> frame \<Rightarrow> client \<Rightarrow> client option" where
  "client_recv js f cl =
     (if fr_kind f = KindResponse then deliver_response f cl
      else if fr_kind f = KindPty then Some (deliver_pty f cl)
      else if fr_kind f = KindWatch then deliver_watch js f cl
      else Some cl)"

text \<open>
  \<open>failAll\<close> ranges over the three maps under the lock; each entry's object is changed on its own, so
  the order does not show.
\<close>

definition fail_call :: "client \<Rightarrow> nat \<Rightarrow> rcall \<Rightarrow> rcall" where
  "fail_call cl i c =
     (if cl_pending cl (rc_seq c) = Some i
      then c\<lparr>rc_box := Some \<lparr>fr_seq = rc_seq c, fr_kind = 0, fr_method = '''', fr_grant = '''', fr_stream = 0,
                           fr_status = ''connection'', fr_extra = [], fr_deadline = 0\<rparr>\<rparr>
      else c)"

definition fail_rterm :: "client \<Rightarrow> nat \<Rightarrow> rterm \<Rightarrow> rterm" where
  "fail_rterm cl t x =
     (if cl_terms cl (rt_id x) = Some t \<and> rt_dead x = None then x\<lparr>rt_dead := Some (Sent ErrClosed)\<rparr> else x)"

definition fail_robs :: "client \<Rightarrow> nat \<Rightarrow> robs \<Rightarrow> robs" where
  "fail_robs cl b x =
     (if cl_obs cl (ro_id x) = Some b \<and> \<not> ro_shut x
      then x\<lparr>ro_failed := Some (Sent ErrConnection), ro_errc := Some (Sent ErrConnection), ro_shut := True\<rparr> else x)"

definition fail_all :: "client \<Rightarrow> client" where
  "fail_all cl = cl\<lparr>cl_closed := True,
     cl_calls := map2 (fail_call cl) [0..<length (cl_calls cl)] (cl_calls cl), cl_pending := Map.empty,
     cl_rterms := map2 (fail_rterm cl) [0..<length (cl_rterms cl)] (cl_rterms cl), cl_terms := Map.empty,
     cl_robs := map2 (fail_robs cl) [0..<length (cl_robs cl)] (cl_robs cl), cl_obs := Map.empty\<rparr>"

definition client_close :: "client \<Rightarrow> client" where
  "client_close cl = cl\<lparr>cl_closed := True\<rparr>"

subsection \<open>The methods\<close>

text \<open>Most methods encode a payload and make one call; \<open>Error(method, err)\<close> names the same method.\<close>

definition rpc_begin :: "go_error option \<Rightarrow> 64 word \<Rightarrow> string \<Rightarrow> grant_id \<Rightarrow> bytes res \<Rightarrow> client \<Rightarrow>
    client \<times> (nat \<times> frame) res" where
  "rpc_begin ctx deadline method g payload cl =
     (case encode_extra (Some payload) of
        Inl e \<Rightarrow> (cl, Inl (OpError method e))
      | Inr extra \<Rightarrow> call_begin ctx deadline method g extra cl)"

definition done_unit :: "bytes res \<Rightarrow> unit res" where
  "done_unit r = (case r of Inl e \<Rightarrow> Inl e | Inr _ \<Rightarrow> Inr ())"

definition authenticate_begin :: "client_json \<Rightarrow> bytes \<Rightarrow> string \<Rightarrow> 64 word \<Rightarrow> client \<Rightarrow> client \<times> (nat \<times> frame) res" where
  "authenticate_begin js token release deadline cl =
     rpc_begin None deadline ''auth'' '''' (cj_auth js \<lparr>au_token = token, au_release = release\<rparr>) cl"

definition client_capabilities :: capabilities where
  "client_capabilities = \<lparr>cap_isolated = True, cap_freeze = True\<rparr>"

definition ready_begin :: "go_error option \<Rightarrow> 64 word \<Rightarrow> client \<Rightarrow> client \<times> (nat \<times> frame) res" where
  "ready_begin ctx deadline cl = call_begin ctx deadline ''ready'' '''' [] cl"

definition ready_end :: "client_json \<Rightarrow> report \<Rightarrow> bytes res \<Rightarrow> report res" where
  "ready_end js zero r =
     (case r of
        Inl e \<Rightarrow> Inl e
      | Inr extra \<Rightarrow>
          (case decode_extra (cj_report js) zero extra of
             Inl _ \<Rightarrow> Inl (OpError ''ready'' (Sent ErrUnavailable))
           | Inr rep \<Rightarrow> Inr rep))"

definition ensure_begin :: "client_json \<Rightarrow> go_error option \<Rightarrow> 64 word \<Rightarrow> spec \<Rightarrow> client \<Rightarrow> client \<times> (nat \<times> frame) res" where
  "ensure_begin js ctx deadline sp cl = rpc_begin ctx deadline ''ensure'' (spec_id sp) (cj_ensure js sp) cl"

text \<open>A \<open>remoteEnv\<close> is its client and its id.\<close>

definition ensure_end :: "spec \<Rightarrow> bytes res \<Rightarrow> grant_id res" where
  "ensure_end sp r = (case r of Inl e \<Rightarrow> Inl e | Inr _ \<Rightarrow> Inr (spec_id sp))"

definition revoke_begin :: "go_error option \<Rightarrow> 64 word \<Rightarrow> grant_id \<Rightarrow> client \<Rightarrow> client \<times> (nat \<times> frame) res" where
  "revoke_begin ctx deadline g cl = call_begin ctx deadline ''revoke'' g [] cl"

definition rterm_forget :: "grant_id \<Rightarrow> nat \<Rightarrow> client \<Rightarrow> client" where
  "rterm_forget g t cl = (if cl_terms cl g = Some t then cl\<lparr>cl_terms := (cl_terms cl)(g := None)\<rparr> else cl)"

definition robs_forget :: "grant_id \<Rightarrow> nat \<Rightarrow> client \<Rightarrow> client" where
  "robs_forget g b cl = (if cl_obs cl g = Some b then cl\<lparr>cl_obs := (cl_obs cl)(g := None)\<rparr> else cl)"

text \<open>The terminal is in the map before the call, so bytes that arrive with the answer find it.\<close>

definition attach_open :: "client_json \<Rightarrow> window \<Rightarrow> grant_id \<Rightarrow> client \<Rightarrow> client \<times> (nat \<times> bytes) res" where
  "attach_open js win g cl =
     (let s = cl_stream cl + 1; cl1 = cl\<lparr>cl_stream := s\<rparr>; t = length (cl_rterms cl)
      in case encode_extra (Some (cj_window js \<lparr>wa_window = win, wa_stream = s\<rparr>)) of
           Inl e \<Rightarrow> (cl1, Inl (OpError ''attach'' e))
         | Inr extra \<Rightarrow>
             if cl_terms cl g \<noteq> None then (cl1, Inl (OpError ''attach'' (Sent ErrBusy)))
             else (cl1\<lparr>cl_rterms := cl_rterms cl @
                         [\<lparr>rt_id = g, rt_stream = s, rt_buf = [], rt_closed = False, rt_dead = None\<rparr>],
                       cl_terms := (cl_terms cl)(g \<mapsto> t)\<rparr>, Inr (t, extra)))"

definition attach_end :: "grant_id \<Rightarrow> nat \<Rightarrow> bytes res \<Rightarrow> client \<Rightarrow> client \<times> nat res" where
  "attach_end g t r cl =
     (case r of
        Inl e \<Rightarrow> (rterm_hangup (Some e) t (rterm_forget g t cl), Inl e)
      | Inr _ \<Rightarrow> (cl, Inr t))"

definition attach_begin :: "client_json \<Rightarrow> go_error option \<Rightarrow> 64 word \<Rightarrow> window \<Rightarrow> grant_id \<Rightarrow> client \<Rightarrow>
    client \<times> (nat \<times> nat \<times> frame) res" where
  "attach_begin js ctx deadline win g cl =
     (case attach_open js win g cl of
        (cl1, Inl e) \<Rightarrow> (cl1, Inl e)
      | (cl1, Inr (t, extra)) \<Rightarrow>
          (case call_begin ctx deadline ''attach'' g extra cl1 of
             (cl2, Inl e) \<Rightarrow> (fst (attach_end g t (Inl e) cl2), Inl e)
           | (cl2, Inr (i, f)) \<Rightarrow> (cl2, Inr (t, i, f))))"

definition replace_begin :: "client_json \<Rightarrow> go_error option \<Rightarrow> 64 word \<Rightarrow> node list \<Rightarrow> grant_id \<Rightarrow> client \<Rightarrow>
    client \<times> (nat \<times> frame) res" where
  "replace_begin js ctx deadline tree g cl = rpc_begin ctx deadline ''replace'' g (cj_replace js tree) cl"

definition apply_begin :: "client_json \<Rightarrow> go_error option \<Rightarrow> 64 word \<Rightarrow> mutation list \<Rightarrow> grant_id \<Rightarrow> client \<Rightarrow>
    client \<times> (nat \<times> frame) res" where
  "apply_begin js ctx deadline batch g cl = rpc_begin ctx deadline ''apply'' g (cj_apply js batch) cl"

definition watch_open :: "client_json \<Rightarrow> cursor \<Rightarrow> grant_id \<Rightarrow> client \<Rightarrow> client \<times> (nat \<times> bytes) res" where
  "watch_open js after g cl =
     (let s = cl_stream cl + 1; cl1 = cl\<lparr>cl_stream := s\<rparr>; b = length (cl_robs cl)
      in case encode_extra (Some (cj_watch js \<lparr>wt_after = after, wt_stream = s\<rparr>)) of
           Inl e \<Rightarrow> (cl1, Inl (OpError ''watch'' e))
         | Inr extra \<Rightarrow>
             if cl_obs cl g \<noteq> None then (cl1, Inl (OpError ''watch'' (Sent ErrBusy)))
             else (cl1\<lparr>cl_robs := cl_robs cl @
                         [\<lparr>ro_id = g, ro_stream = s, ro_queue = [], ro_shut = False, ro_errc = None,
                           ro_cursor = after, ro_failed = None, ro_closing = False\<rparr>],
                       cl_obs := (cl_obs cl)(g \<mapsto> b)\<rparr>, Inr (b, extra)))"

text \<open>\<open>Close\<close> of an observation, its call apart: it fails first and leaves the map last.\<close>

definition robs_close :: "nat \<Rightarrow> client \<Rightarrow> client" where
  "robs_close b cl =
     (let cl' = robs_fail (Sent ErrClosed) b cl in set_robs b ((cl_robs cl' ! b)\<lparr>ro_closing := True\<rparr>) cl')"

definition robs_close_begin :: "client_json \<Rightarrow> 64 word \<Rightarrow> nat \<Rightarrow> client \<Rightarrow> client \<times> (nat \<times> frame) res" where
  "robs_close_begin js deadline b cl =
     (let x = cl_robs cl ! b
      in rpc_begin None deadline ''unwatch'' (ro_id x) (cj_stream js (ro_stream x)) (robs_close b cl))"

definition robs_close_end :: "nat \<Rightarrow> bytes res \<Rightarrow> client \<Rightarrow> client \<times> unit res" where
  "robs_close_end b r cl = (robs_forget (ro_id (cl_robs cl ! b)) b cl, done_unit r)"

definition watch_failed :: "grant_id \<Rightarrow> nat \<Rightarrow> go_error \<Rightarrow> client \<Rightarrow> client" where
  "watch_failed g b e cl = robs_fail e b (robs_forget g b cl)"

definition watch_begin :: "client_json \<Rightarrow> go_error option \<Rightarrow> 64 word \<Rightarrow> cursor \<Rightarrow> grant_id \<Rightarrow> client \<Rightarrow>
    client \<times> (nat \<times> nat \<times> frame) res" where
  "watch_begin js ctx deadline after g cl =
     (case watch_open js after g cl of
        (cl1, Inl e) \<Rightarrow> (cl1, Inl e)
      | (cl1, Inr (b, extra)) \<Rightarrow>
          (case call_begin ctx deadline ''watch'' g extra cl1 of
             (cl2, Inl e) \<Rightarrow> (watch_failed g b e cl2, Inl e)
           | (cl2, Inr (i, f)) \<Rightarrow> (cl2, Inr (b, i, f))))"

text \<open>
  The answer to a watch. A cursor that cannot be decoded closes the observation; the third component
  is the stream that \<open>Close\<close> is then to unwatch.
\<close>

definition watch_end :: "client_json \<Rightarrow> cursor \<Rightarrow> grant_id \<Rightarrow> nat \<Rightarrow> bytes res \<Rightarrow> client \<Rightarrow>
    client \<times> nat res \<times> uint64 option" where
  "watch_end js after g b r cl =
     (case r of
        Inl e \<Rightarrow> (watch_failed g b e cl, Inl e, None)
      | Inr out \<Rightarrow>
          (case decode_extra (cj_cursor js) '''' out of
             Inl _ \<Rightarrow> (robs_close b cl, Inl (OpError ''watch'' (Sent ErrUnavailable)), Some (ro_stream (cl_robs cl ! b)))
           | Inr c \<Rightarrow> (set_initial_cursor c after b cl, Inr b, None)))"

definition open_begin :: "client_json \<Rightarrow> go_error option \<Rightarrow> 64 word \<Rightarrow> string \<Rightarrow> grant_id \<Rightarrow> client \<Rightarrow>
    client \<times> (nat \<times> frame) res" where
  "open_begin js ctx deadline path g cl = rpc_begin ctx deadline ''open'' g (cj_open js path) cl"

definition open_end :: "client_json \<Rightarrow> bytes res \<Rightarrow> bytes res" where
  "open_end js r =
     (case r of
        Inl e \<Rightarrow> Inl e
      | Inr out \<Rightarrow>
          (case decode_extra (cj_body js) [] out of
             Inl _ \<Rightarrow> Inl (OpError ''open'' (Sent ErrUnavailable))
           | Inr body \<Rightarrow> Inr body))"

definition hangup_term :: "grant_id \<Rightarrow> go_error \<Rightarrow> client \<Rightarrow> client" where
  "hangup_term g e cl =
     (let cl' = cl\<lparr>cl_terms := (cl_terms cl)(g := None)\<rparr>
      in case cl_terms cl g of None \<Rightarrow> cl' | Some t \<Rightarrow> rterm_hangup (Some e) t cl')"

definition freeze_begin :: "go_error option \<Rightarrow> 64 word \<Rightarrow> grant_id \<Rightarrow> client \<Rightarrow> client \<times> (nat \<times> frame) res" where
  "freeze_begin ctx deadline g cl = call_begin ctx deadline ''freeze'' g [] cl"

definition freeze_end :: "grant_id \<Rightarrow> bytes res \<Rightarrow> client \<Rightarrow> client \<times> unit res" where
  "freeze_end g r cl = (hangup_term g (Sent ErrFrozen) cl, done_unit r)"

definition thaw_begin :: "go_error option \<Rightarrow> 64 word \<Rightarrow> grant_id \<Rightarrow> client \<Rightarrow> client \<times> (nat \<times> frame) res" where
  "thaw_begin ctx deadline g cl = call_begin ctx deadline ''thaw'' g [] cl"

definition env_revoke_end :: "grant_id \<Rightarrow> bytes res \<Rightarrow> client \<Rightarrow> client \<times> unit res" where
  "env_revoke_end g r cl = (hangup_term g (Sent ErrRevoked) cl, done_unit r)"

definition resize_begin :: "client_json \<Rightarrow> go_error option \<Rightarrow> 64 word \<Rightarrow> window \<Rightarrow> nat \<Rightarrow> client \<Rightarrow>
    client \<times> (nat \<times> frame) res" where
  "resize_begin js ctx deadline win t cl =
     (let x = cl_rterms cl ! t
      in rpc_begin ctx deadline ''resize'' (rt_id x) (cj_window js \<lparr>wa_window = win, wa_stream = rt_stream x\<rparr>) cl)"

definition rterm_close :: "nat \<Rightarrow> client \<Rightarrow> client" where
  "rterm_close t cl = set_rterm t ((cl_rterms cl ! t)\<lparr>rt_closed := True\<rparr>) cl"

definition rterm_close_begin :: "client_json \<Rightarrow> 64 word \<Rightarrow> nat \<Rightarrow> client \<Rightarrow> client \<times> (nat \<times> frame) res" where
  "rterm_close_begin js deadline t cl =
     (let x = cl_rterms cl ! t
      in rpc_begin None deadline ''detach'' (rt_id x) (cj_stream js (rt_stream x)) (rterm_close t cl))"

definition rterm_close_end :: "nat \<Rightarrow> bytes res \<Rightarrow> client \<Rightarrow> client \<times> unit res" where
  "rterm_close_end t r cl = (rterm_forget (rt_id (cl_rterms cl ! t)) t cl, done_unit r)"

text \<open>A goroutine that \<open>abort\<close> started; it gives up silently if it cannot encode.\<close>

definition unwatch_spawned :: "client_json \<Rightarrow> 64 word \<Rightarrow> client \<Rightarrow> client \<times> (nat \<times> frame) option" where
  "unwatch_spawned js deadline cl =
     (case cl_unwatch cl of
        [] \<Rightarrow> (cl, None)
      | (g, s) # rest \<Rightarrow>
          let cl1 = cl\<lparr>cl_unwatch := rest\<rparr>
          in (case rpc_begin None deadline ''unwatch'' g (cj_stream js s) cl1 of
                (cl2, Inl _) \<Rightarrow> (cl2, None)
              | (cl2, Inr x) \<Rightarrow> (cl2, Some x)))"

end
