(* ===== verification/Client_Inv.thy ===== *)
theory Client_Inv
  imports Remote_Client
begin

text \<open>
  Runs of the remote client: every locked section of \<open>remote/client.go\<close> is a step, in any order the
  goroutines take them, and an invariant ties the three maps to the calls, terminals and
  observations they name.
\<close>

subsection \<open>Steps\<close>

inductive cstep :: "client_json \<Rightarrow> client \<Rightarrow> client \<Rightarrow> bool" for js where
  ticket: "cstep js cl (fst (call_ticket m cl))"
| register: "i < length (cl_calls cl) \<Longrightarrow> rc_status (cl_calls cl ! i) = Ticketed \<Longrightarrow>
    cstep js cl (fst (call_register g x d i cl))"
| unsent: "i < length (cl_calls cl) \<Longrightarrow> rc_status (cl_calls cl ! i) = Sending \<Longrightarrow>
    cstep js cl (fst (call_sent e i cl))"
| wait: "i < length (cl_calls cl) \<Longrightarrow> rc_status (cl_calls cl ! i) = Sending \<Longrightarrow>
    call_wait ctx p i cl = Some (cl', r) \<Longrightarrow> cstep js cl cl'"
| recv: "client_recv js f cl = Some cl' \<Longrightarrow> cstep js cl cl'"
| lost: "cstep js cl (fail_all cl)"
| close: "cstep js cl (client_close cl)"
| attach: "cstep js cl (fst (attach_open js win g cl))"
| attach_failed: "t < length (cl_rterms cl) \<Longrightarrow>
    cstep js cl (fst (attach_end (rt_id (cl_rterms cl ! t)) t r cl))"
| hangup: "cstep js cl (hangup_term g e cl)"
| term_read: "t < length (cl_rterms cl) \<Longrightarrow> rterm_read n t cl = Some (cl', r) \<Longrightarrow> cstep js cl cl'"
| term_close: "t < length (cl_rterms cl) \<Longrightarrow> cstep js cl (rterm_close t cl)"
| term_closed: "t < length (cl_rterms cl) \<Longrightarrow> rt_closed (cl_rterms cl ! t) \<Longrightarrow>
    cstep js cl (fst (rterm_close_end t r cl))"
| watch: "cstep js cl (fst (watch_open js after g cl))"
| watch_answer: "b < length (cl_robs cl) \<Longrightarrow>
    cstep js cl (fst (watch_end js after (ro_id (cl_robs cl ! b)) b r cl))"
| obs_next: "b < length (cl_robs cl) \<Longrightarrow> robs_next ctx p b cl = Some (cl', r) \<Longrightarrow> cstep js cl cl'"
| obs_close: "b < length (cl_robs cl) \<Longrightarrow> cstep js cl (robs_close b cl)"
| obs_closed: "b < length (cl_robs cl) \<Longrightarrow> ro_closing (cl_robs cl ! b) \<Longrightarrow>
    cstep js cl (fst (robs_close_end b r cl))"
| spawned: "cl_unwatch cl = y # ys \<Longrightarrow> cstep js cl (cl\<lparr>cl_unwatch := ys\<rparr>)"

abbreviation client_run :: "client_json \<Rightarrow> client \<Rightarrow> client \<Rightarrow> bool" where
  "client_run js \<equiv> (cstep js)\<^sup>*\<^sup>*"

subsection \<open>The invariant\<close>

text \<open>The number of the call with index \<open>i\<close>: the counter starts at one.\<close>

definition call_number :: "nat \<Rightarrow> uint64" where
  "call_number i = word_of_nat (Suc i)"

definition call_ok :: "nat \<Rightarrow> (uint64 \<rightharpoonup> nat) \<Rightarrow> nat \<Rightarrow> rcall \<Rightarrow> bool" where
  "call_ok n pending i c \<longleftrightarrow>
     rc_seq c = call_number i \<and>
     (pending (call_number i) = Some i \<longrightarrow> rc_box c = None \<and> rc_status c = Sending) \<and>
     (\<forall>f. rc_box c = Some f \<longrightarrow> fr_seq f = call_number i \<and> rc_status c \<noteq> Ticketed) \<and>
     (n < 2 ^ 64 \<longrightarrow> rc_status c = Sending \<longrightarrow> pending (call_number i) = Some i \<or> rc_box c \<noteq> None)"

definition calls_ok :: "client \<Rightarrow> bool" where
  "calls_ok cl \<longleftrightarrow>
     cl_seq cl = word_of_nat (length (cl_calls cl)) \<and>
     (\<forall>i < length (cl_calls cl). call_ok (length (cl_calls cl)) (cl_pending cl) i (cl_calls cl ! i)) \<and>
     (\<forall>s i. cl_pending cl s = Some i \<longrightarrow> i < length (cl_calls cl) \<and> s = call_number i)"

definition live_rterm :: "rterm \<Rightarrow> bool" where
  "live_rterm x \<longleftrightarrow> \<not> rt_closed x \<and> rt_dead x = None"

definition rterm_ok :: "(grant_id \<rightharpoonup> nat) \<Rightarrow> nat \<Rightarrow> rterm \<Rightarrow> bool" where
  "rterm_ok terms t x \<longleftrightarrow> (live_rterm x \<longrightarrow> terms (rt_id x) = Some t)"

definition terms_ok :: "client \<Rightarrow> bool" where
  "terms_ok cl \<longleftrightarrow>
     (\<forall>t < length (cl_rterms cl). rterm_ok (cl_terms cl) t (cl_rterms cl ! t)) \<and>
     (\<forall>g t. cl_terms cl g = Some t \<longrightarrow> t < length (cl_rterms cl) \<and> rt_id (cl_rterms cl ! t) = g)"

definition rob_ok :: "(grant_id \<rightharpoonup> nat) \<Rightarrow> nat \<Rightarrow> robs \<Rightarrow> bool" where
  "rob_ok obs b x \<longleftrightarrow>
     (ro_shut x \<longleftrightarrow> ro_failed x \<noteq> None) \<and> (ro_closing x \<longrightarrow> ro_shut x) \<and>
     length (ro_queue x) \<le> watch_buffer_remote \<and>
     (\<not> ro_shut x \<longrightarrow> obs (ro_id x) = Some b) \<and> (obs (ro_id x) = Some b \<longrightarrow> ro_shut x \<longrightarrow> ro_closing x)"

definition robs_ok :: "client \<Rightarrow> bool" where
  "robs_ok cl \<longleftrightarrow>
     (\<forall>b < length (cl_robs cl). rob_ok (cl_obs cl) b (cl_robs cl ! b)) \<and>
     (\<forall>g b. cl_obs cl g = Some b \<longrightarrow> b < length (cl_robs cl) \<and> ro_id (cl_robs cl ! b) = g)"

definition client_ok :: "client \<Rightarrow> bool" where
  "client_ok cl \<longleftrightarrow> calls_ok cl \<and> terms_ok cl \<and> robs_ok cl"

text \<open>What a section does not touch keeps its part of the invariant.\<close>

lemma calls_ok_cong:
  "cl_seq cl' = cl_seq cl \<Longrightarrow> cl_calls cl' = cl_calls cl \<Longrightarrow> cl_pending cl' = cl_pending cl \<Longrightarrow>
   calls_ok cl' = calls_ok cl"
  by (simp add: calls_ok_def)

lemma terms_ok_cong:
  "cl_rterms cl' = cl_rterms cl \<Longrightarrow> cl_terms cl' = cl_terms cl \<Longrightarrow> terms_ok cl' = terms_ok cl"
  by (simp add: terms_ok_def)

lemma robs_ok_cong:
  "cl_robs cl' = cl_robs cl \<Longrightarrow> cl_obs cl' = cl_obs cl \<Longrightarrow> robs_ok cl' = robs_ok cl"
  by (simp add: robs_ok_def)

lemma set_call_simps [simp]:
  "cl_calls (set_call i c cl) = (cl_calls cl)[i := c]" "cl_pending (set_call i c cl) = cl_pending cl"
  "cl_seq (set_call i c cl) = cl_seq cl" "cl_terms (set_call i c cl) = cl_terms cl"
  "cl_rterms (set_call i c cl) = cl_rterms cl" "cl_obs (set_call i c cl) = cl_obs cl"
  "cl_robs (set_call i c cl) = cl_robs cl" "cl_closed (set_call i c cl) = cl_closed cl"
  by (simp_all add: set_call_def)

lemma set_rterm_simps [simp]:
  "cl_rterms (set_rterm t x cl) = (cl_rterms cl)[t := x]" "cl_terms (set_rterm t x cl) = cl_terms cl"
  "cl_calls (set_rterm t x cl) = cl_calls cl" "cl_pending (set_rterm t x cl) = cl_pending cl"
  "cl_seq (set_rterm t x cl) = cl_seq cl" "cl_obs (set_rterm t x cl) = cl_obs cl"
  "cl_robs (set_rterm t x cl) = cl_robs cl" "cl_closed (set_rterm t x cl) = cl_closed cl"
  by (simp_all add: set_rterm_def)

lemma set_robs_simps [simp]:
  "cl_robs (set_robs b x cl) = (cl_robs cl)[b := x]" "cl_obs (set_robs b x cl) = cl_obs cl"
  "cl_calls (set_robs b x cl) = cl_calls cl" "cl_pending (set_robs b x cl) = cl_pending cl"
  "cl_seq (set_robs b x cl) = cl_seq cl" "cl_terms (set_robs b x cl) = cl_terms cl"
  "cl_rterms (set_robs b x cl) = cl_rterms cl" "cl_closed (set_robs b x cl) = cl_closed cl"
  by (simp_all add: set_robs_def)

text \<open>What \<open>hangup\<close> and \<open>fail\<close> make of the object.\<close>

definition hung :: "go_error option \<Rightarrow> rterm \<Rightarrow> rterm" where
  "hung e x = (if rt_dead x = None then x\<lparr>rt_dead := Some (case e of None \<Rightarrow> Sent ErrClosed | Some e \<Rightarrow> e)\<rparr> else x)"

definition shut :: "go_error \<Rightarrow> robs \<Rightarrow> robs" where
  "shut e x = (if ro_shut x then x else x\<lparr>ro_failed := Some e, ro_errc := Some e, ro_shut := True\<rparr>)"

lemma hangup_eq: "rterm_hangup e t cl = set_rterm t (hung e (cl_rterms cl ! t)) cl"
  by (simp add: rterm_hangup_def hung_def Let_def set_rterm_def)

lemma robs_fail_eq: "robs_fail e b cl = set_robs b (shut e (cl_robs cl ! b)) cl"
  by (simp add: robs_fail_def shut_def Let_def set_robs_def)

lemma hung_simps [simp]: "rt_id (hung e x) = rt_id x" "\<not> live_rterm (hung e x)"
  by (simp_all add: hung_def live_rterm_def)

lemma shut_simps [simp]:
  "ro_id (shut e x) = ro_id x" "ro_shut (shut e x)" "ro_queue (shut e x) = ro_queue x"
  "ro_closing (shut e x) = ro_closing x"
  "(ro_shut x = (ro_failed x \<noteq> None)) \<Longrightarrow> ro_failed (shut e x) \<noteq> None"
  by (simp_all add: shut_def)

subsection \<open>Calls\<close>

lemma call_number_inj:
  assumes "n < 2 ^ 64" "i < n" "j < n" "call_number i = call_number j"
  shows "i = j"
proof -
  have "unat (word_of_nat (Suc k) :: uint64) = Suc k" if "k < n" for k
    using assms(1) that by (simp add: unsigned_of_nat take_bit_nat_eq_self del: of_nat_Suc)
  then show ?thesis using assms(2-4) unfolding call_number_def by (metis Suc_inject)
qed

lemma calls_okD:
  assumes "calls_ok cl"
  shows "i < length (cl_calls cl) \<Longrightarrow> call_ok (length (cl_calls cl)) (cl_pending cl) i (cl_calls cl ! i)"
    and "i < length (cl_calls cl) \<Longrightarrow> rc_seq (cl_calls cl ! i) = call_number i"
    and "cl_pending cl s = Some i \<Longrightarrow> i < length (cl_calls cl) \<and> s = call_number i \<and>
      rc_box (cl_calls cl ! i) = None \<and> rc_status (cl_calls cl ! i) = Sending"
proof -
  show c: "i < length (cl_calls cl) \<Longrightarrow> call_ok (length (cl_calls cl)) (cl_pending cl) i (cl_calls cl ! i)"
    for i using assms by (simp add: calls_ok_def)
  show "i < length (cl_calls cl) \<Longrightarrow> rc_seq (cl_calls cl ! i) = call_number i"
    using c [of i] by (simp add: call_ok_def)
  assume p: "cl_pending cl s = Some i"
  then have i: "i < length (cl_calls cl)" "s = call_number i" using assms by (simp_all add: calls_ok_def)
  with c [OF i(1)] p show "i < length (cl_calls cl) \<and> s = call_number i \<and>
      rc_box (cl_calls cl ! i) = None \<and> rc_status (cl_calls cl ! i) = Sending" by (simp add: call_ok_def)
qed

text \<open>
  Every section changes one call and at most the entry of its number: it is set to the call, deleted
  or kept.
\<close>

lemma update_call_ok:
  assumes ok: "calls_ok cl" and i: "i < length (cl_calls cl)"
    and cl': "cl_seq cl' = cl_seq cl" "cl_calls cl' = (cl_calls cl)[i := c]"
      "cl_pending cl' = (cl_pending cl)(call_number i := v)"
    and v: "v = None \<or> v = Some i \<or> v = cl_pending cl (call_number i)"
    and c: "call_ok (length (cl_calls cl)) (cl_pending cl') i c"
  shows "calls_ok cl'"
proof -
  have "call_ok (length (cl_calls cl)) (cl_pending cl') j (cl_calls cl ! j)"
    if j: "j < length (cl_calls cl)" "j \<noteq> i" for j
  proof (cases "call_number j = call_number i")
    case True
    then have "\<not> length (cl_calls cl) < 2 ^ 64" using call_number_inj [OF _ j(1) i] j(2) by blast
    moreover have "cl_pending cl' (call_number i) = Some j \<Longrightarrow> cl_pending cl (call_number j) = Some j"
      using v j(2) True by (auto simp: cl'(3))
    ultimately show ?thesis using calls_okD(1) [OF ok j(1)] True by (simp add: call_ok_def)
  next
    case False
    then have "cl_pending cl' (call_number j) = cl_pending cl (call_number j)" by (simp add: cl'(3))
    then show ?thesis using calls_okD(1) [OF ok j(1)] by (simp add: call_ok_def)
  qed
  moreover have "cl_pending cl' s = Some j \<Longrightarrow> j < length (cl_calls cl) \<and> s = call_number j" for s j
    using v i calls_okD(3) [OF ok] by (auto simp: cl'(3) split: if_splits)
  ultimately show ?thesis using ok c i
    by (simp add: calls_ok_def cl'(1,2) nth_list_update)
qed

lemma ticket_calls_ok:
  assumes "calls_ok cl"
  shows "calls_ok (fst (call_ticket m cl))"
proof -
  let ?n = "length (cl_calls cl)"
  have s: "cl_seq cl + 1 = call_number ?n" using assms by (simp add: calls_ok_def call_number_def)
  have p: "cl_pending cl t \<noteq> Some ?n" for t using calls_okD(3) [OF assms, of t ?n] by auto
  have "call_ok (Suc ?n) (cl_pending cl) i (cl_calls cl ! i)" if "i < ?n" for i
    using calls_okD(1) [OF assms that] by (simp add: call_ok_def)
  moreover have "call_ok (Suc ?n) (cl_pending cl) ?n \<lparr>rc_seq = call_number ?n, rc_method = m, rc_box = None, rc_status = Ticketed\<rparr>"
    using p by (simp add: call_ok_def)
  moreover have "cl_pending cl t = Some i \<Longrightarrow> i < Suc ?n \<and> t = call_number i" for t i
    using calls_okD(3) [OF assms, of t i] by simp
  ultimately show ?thesis using s
    by (auto simp: calls_ok_def call_ticket_def Let_def nth_append less_Suc_eq) (simp add: call_number_def)
qed

lemma register_calls_ok:
  assumes "calls_ok cl" "i < length (cl_calls cl)" "rc_status (cl_calls cl ! i) = Ticketed"
  shows "calls_ok (fst (call_register g x d i cl))"
proof -
  note c = calls_okD(1) [OF assms(1,2)]
  show ?thesis
  proof (cases "cl_closed cl")
    case True
    show ?thesis
      by (rule update_call_ok [OF assms(1,2), where v = "cl_pending cl (call_number i)"])
        (use True c assms in \<open>auto simp: call_register_def returned_def Let_def call_ok_def\<close>)
  next
    case False
    show ?thesis
      by (rule update_call_ok [OF assms(1,2), where v = "Some i"])
        (use False c assms in \<open>auto simp: call_register_def Let_def call_ok_def\<close>)
  qed
qed

lemma abandon_calls_ok:
  assumes "calls_ok cl" "i < length (cl_calls cl)"
    and "rc_status (cl_calls cl ! i) = Sending"
  shows "calls_ok (call_abandon i cl)"
  by (rule update_call_ok [OF assms(1,2), where v = None])
    (use calls_okD(1) [OF assms(1,2)] assms in \<open>auto simp: call_abandon_def returned_def call_ok_def\<close>)

lemma take_box_calls_ok:
  assumes "calls_ok cl" "i < length (cl_calls cl)" "rc_box (cl_calls cl ! i) \<noteq> None"
  shows "calls_ok (returned i (set_call i ((cl_calls cl ! i)\<lparr>rc_box := None\<rparr>) cl))"
  by (rule update_call_ok [OF assms(1,2), where v = "cl_pending cl (call_number i)"])
    (use calls_okD(1) [OF assms(1,2)] assms in \<open>auto simp: returned_def call_ok_def\<close>)

lemma sent_calls_ok:
  "calls_ok cl \<Longrightarrow> i < length (cl_calls cl) \<Longrightarrow> rc_status (cl_calls cl ! i) = Sending \<Longrightarrow>
   calls_ok (fst (call_sent e i cl))"
  by (auto simp: call_sent_def abandon_calls_ok split: option.split)

lemma wait_calls_ok:
  "calls_ok cl \<Longrightarrow> i < length (cl_calls cl) \<Longrightarrow> rc_status (cl_calls cl ! i) = Sending \<Longrightarrow>
   call_wait ctx p i cl = Some (cl', r) \<Longrightarrow> calls_ok cl'"
  by (auto simp: call_wait_def Let_def abandon_calls_ok take_box_calls_ok split: option.splits if_splits)

text \<open>The channel of a call in \<open>pending\<close> is empty, so the read loop never blocks on one.\<close>

lemma response_never_blocks:
  assumes "calls_ok cl"
  shows "\<exists>cl'. deliver_response f cl = Some cl' \<and> calls_ok cl'"
proof (cases "cl_pending cl (fr_seq f)")
  case None
  then have "(cl_pending cl)(fr_seq f := None) = cl_pending cl" by auto
  with None show ?thesis using assms by (simp add: deliver_response_def Let_def)
next
  case (Some i)
  note i = calls_okD(3) [OF assms Some]
  have "calls_ok (set_call i ((cl_calls cl ! i)\<lparr>rc_box := Some f\<rparr>) (cl\<lparr>cl_pending := (cl_pending cl)(fr_seq f := None)\<rparr>))"
    by (rule update_call_ok [OF assms, where v = None])
      (use i calls_okD(2) [OF assms] in \<open>auto simp: call_ok_def\<close>)
  with Some i show ?thesis by (simp add: deliver_response_def answer_call_def Let_def)
qed

lemma fail_calls_ok:
  assumes "calls_ok cl"
  shows "calls_ok (fail_all cl)"
proof -
  have "call_ok (length (cl_calls cl)) Map.empty i (fail_call cl i (cl_calls cl ! i))"
    if "i < length (cl_calls cl)" for i
    using calls_okD(1) [OF assms that] by (auto simp: call_ok_def fail_call_def)
  then show ?thesis using assms by (simp add: calls_ok_def fail_all_def)
qed

subsection \<open>Terminals\<close>

lemma terms_okD:
  assumes "terms_ok cl"
  shows "cl_terms cl g = Some t \<Longrightarrow> t < length (cl_rterms cl) \<and> rt_id (cl_rterms cl ! t) = g"
    and "t < length (cl_rterms cl) \<Longrightarrow> rterm_ok (cl_terms cl) t (cl_rterms cl ! t)"
  using assms by (simp_all add: terms_ok_def)

text \<open>A section changes one terminal, and may take it out of the map.\<close>

lemma update_terms_ok:
  assumes ok: "terms_ok cl" and t: "t < length (cl_rterms cl)" and cl': "cl_rterms cl' = (cl_rterms cl)[t := x]"
    and x: "rt_id x = rt_id (cl_rterms cl ! t)" "rterm_ok (cl_terms cl') t x"
    and m: "cl_terms cl' = cl_terms cl \<or>
      cl_terms cl (rt_id x) = Some t \<and> cl_terms cl' = (cl_terms cl)(rt_id x := None)"
  shows "terms_ok cl'"
proof -
  have "rterm_ok (cl_terms cl') u (cl_rterms cl ! u)" if "u < length (cl_rterms cl)" "u \<noteq> t" for u
    using terms_okD(2) [OF ok that(1)] that(2) m by (auto simp: rterm_ok_def)
  moreover have "cl_terms cl' g = Some u \<Longrightarrow> cl_terms cl g = Some u" for g u using m by (auto split: if_splits)
  then have "cl_terms cl' g = Some u \<Longrightarrow> u < length (cl_rterms cl) \<and> rt_id (cl_rterms cl' ! u) = g" for g u
    using terms_okD(1) [OF ok, of g u] x(1) t by (auto simp: cl' nth_list_update)
  ultimately show ?thesis using x(2) t by (auto simp: terms_ok_def cl' nth_list_update)
qed

lemma change_terms_ok:
  assumes "terms_ok cl" "t < length (cl_rterms cl)" "rt_id x = rt_id (cl_rterms cl ! t)"
    and "live_rterm x \<Longrightarrow> live_rterm (cl_rterms cl ! t)"
  shows "terms_ok (set_rterm t x cl)"
  by (rule update_terms_ok [OF assms(1,2), where x = x])
    (use assms terms_okD(2) [OF assms(1,2)] in \<open>auto simp: rterm_ok_def\<close>)

lemma push_terms_ok: "terms_ok cl \<Longrightarrow> t < length (cl_rterms cl) \<Longrightarrow> terms_ok (rterm_push p t cl)"
  by (auto simp: rterm_push_def Let_def live_rterm_def intro!: change_terms_ok)

lemma hangup_terms_ok: "terms_ok cl \<Longrightarrow> t < length (cl_rterms cl) \<Longrightarrow> terms_ok (rterm_hangup e t cl)"
  unfolding hangup_eq by (rule change_terms_ok) simp_all

lemma read_terms_ok:
  "terms_ok cl \<Longrightarrow> t < length (cl_rterms cl) \<Longrightarrow> rterm_read n t cl = Some (cl', r) \<Longrightarrow> terms_ok cl'"
  by (auto simp: rterm_read_def Let_def live_rterm_def split: if_splits option.splits intro!: change_terms_ok)

lemma close_terms_ok: "terms_ok cl \<Longrightarrow> t < length (cl_rterms cl) \<Longrightarrow> terms_ok (rterm_close t cl)"
  by (auto simp: rterm_close_def live_rterm_def intro!: change_terms_ok)

lemma hangup_term_terms_ok: "terms_ok cl \<Longrightarrow> terms_ok (hangup_term g e cl)"
proof (cases "cl_terms cl g")
  case None
  moreover from None have "(cl_terms cl)(g := None) = cl_terms cl" by auto
  ultimately show "terms_ok cl \<Longrightarrow> ?thesis" by (simp add: hangup_term_def Let_def)
next
  case (Some t)
  assume ok: "terms_ok cl"
  note t = terms_okD(1) [OF ok Some]
  show ?thesis
    by (rule update_terms_ok [OF ok t [THEN conjunct1], where x = "hung (Some e) (cl_rterms cl ! t)"])
      (use Some t in \<open>auto simp: hangup_term_def hangup_eq Let_def rterm_ok_def\<close>)
qed

lemma closed_terms_ok:
  assumes ok: "terms_ok cl" and t: "t < length (cl_rterms cl)" and "rt_closed (cl_rterms cl ! t)"
  shows "terms_ok (fst (rterm_close_end t r cl))"
  by (rule update_terms_ok [OF ok t, where x = "cl_rterms cl ! t"])
    (use assms(3) in \<open>auto simp: rterm_close_end_def rterm_forget_def rterm_ok_def live_rterm_def\<close>)

lemma attach_terms_ok:
  assumes "terms_ok cl"
  shows "terms_ok (fst (attach_open js win g cl))"
proof (cases "snd (attach_open js win g cl)")
  case (Inl e)
  then have "cl_rterms (fst (attach_open js win g cl)) = cl_rterms cl"
    "cl_terms (fst (attach_open js win g cl)) = cl_terms cl"
    by (auto simp: attach_open_def Let_def split: sum.splits if_splits)
  then show ?thesis using assms terms_ok_cong by blast
next
  case (Inr v)
  define x where "x = \<lparr>rt_id = g, rt_stream = cl_stream cl + 1, rt_buf = [], rt_closed = False, rt_dead = None\<rparr>"
  have n: "cl_terms cl g = None" and
    e: "cl_rterms (fst (attach_open js win g cl)) = cl_rterms cl @ [x]"
    "cl_terms (fst (attach_open js win g cl)) = (cl_terms cl)(g \<mapsto> length (cl_rterms cl))"
    using Inr by (auto simp: attach_open_def Let_def x_def split: sum.splits if_splits)
  have "rterm_ok ((cl_terms cl)(g \<mapsto> length (cl_rterms cl))) t (cl_rterms cl ! t)" if "t < length (cl_rterms cl)" for t
    using terms_okD(2) [OF assms that] n by (auto simp: rterm_ok_def)
  moreover have "cl_terms cl h = Some t \<Longrightarrow> t < length (cl_rterms cl) \<and> rt_id (cl_rterms cl ! t) = h" for h t
    using terms_okD(1) [OF assms] by blast
  moreover have "rterm_ok ((cl_terms cl)(g \<mapsto> length (cl_rterms cl))) (length (cl_rterms cl)) x"
    by (simp add: rterm_ok_def x_def)
  moreover have "rt_id x = g" by (simp add: x_def)
  ultimately show ?thesis unfolding terms_ok_def e
    by (auto simp: nth_append less_Suc_eq split: if_splits)
qed

lemma attach_end_terms_ok:
  assumes ok: "terms_ok cl" and t: "t < length (cl_rterms cl)"
  shows "terms_ok (fst (attach_end (rt_id (cl_rterms cl ! t)) t r cl))"
proof (cases r)
  case (Inl e)
  show ?thesis
    by (rule update_terms_ok [OF ok t, where x = "hung (Some e) (cl_rterms cl ! t)"])
      (use Inl in \<open>auto simp: attach_end_def rterm_forget_def hangup_eq rterm_ok_def\<close>)
qed (use ok in \<open>simp add: attach_end_def\<close>)

lemma fail_terms_ok:
  assumes "terms_ok cl"
  shows "terms_ok (fail_all cl)"
proof -
  have "\<not> live_rterm (fail_rterm cl t (cl_rterms cl ! t))" if "t < length (cl_rterms cl)" for t
    using terms_okD(2) [OF assms that] by (auto simp: fail_rterm_def live_rterm_def rterm_ok_def)
  then show ?thesis by (simp add: terms_ok_def fail_all_def rterm_ok_def)
qed

lemma deliver_pty_terms_ok: "terms_ok cl \<Longrightarrow> terms_ok (deliver_pty f cl)"
  using terms_okD(1) [of cl "fr_grant f"]
  by (auto simp: deliver_pty_def push_terms_ok hangup_terms_ok split: option.split)

subsection \<open>Observations\<close>

lemma robs_okD:
  assumes "robs_ok cl"
  shows "cl_obs cl g = Some b \<Longrightarrow> b < length (cl_robs cl) \<and> ro_id (cl_robs cl ! b) = g"
    and "b < length (cl_robs cl) \<Longrightarrow> rob_ok (cl_obs cl) b (cl_robs cl ! b)"
  using assms by (simp_all add: robs_ok_def)

text \<open>A section changes one observation, and may take it out of the map.\<close>

lemma update_robs_ok:
  assumes ok: "robs_ok cl" and b: "b < length (cl_robs cl)" and cl': "cl_robs cl' = (cl_robs cl)[b := x]"
    and x: "ro_id x = ro_id (cl_robs cl ! b)" "rob_ok (cl_obs cl') b x"
    and m: "cl_obs cl' = cl_obs cl \<or>
      cl_obs cl (ro_id x) = Some b \<and> cl_obs cl' = (cl_obs cl)(ro_id x := None)"
  shows "robs_ok cl'"
proof -
  have "rob_ok (cl_obs cl') c (cl_robs cl ! c)" if "c < length (cl_robs cl)" "c \<noteq> b" for c
    using robs_okD(2) [OF ok that(1)] that(2) m by (auto simp: rob_ok_def split: if_splits)
  moreover have "cl_obs cl' g = Some c \<Longrightarrow> cl_obs cl g = Some c" for g c using m by (auto split: if_splits)
  then have "cl_obs cl' g = Some c \<Longrightarrow> c < length (cl_robs cl) \<and> ro_id (cl_robs cl' ! c) = g" for g c
    using robs_okD(1) [OF ok, of g c] x(1) b by (auto simp: cl' nth_list_update)
  ultimately show ?thesis using x(2) b by (auto simp: robs_ok_def cl' nth_list_update)
qed

text \<open>An observation that fails leaves the map, unless its \<open>Close\<close> is still to do that.\<close>

lemma failed_robs_ok:
  assumes ok: "robs_ok cl" and b: "b < length (cl_robs cl)" and g: "g = ro_id (cl_robs cl ! b)"
    and cl': "cl_robs cl' = (cl_robs cl)[b := shut e (cl_robs cl ! b)]"
      "cl_obs cl' = (if cl_obs cl g = Some b then (cl_obs cl)(g := None) else cl_obs cl)"
  shows "robs_ok cl'"
  by (rule update_robs_ok [OF ok b cl'(1)])
    (use robs_okD(2) [OF ok b] g in \<open>auto simp: cl'(2) rob_ok_def\<close>)

lemma finish_robs_ok:
  "robs_ok cl \<Longrightarrow> b < length (cl_robs cl) \<Longrightarrow> g = ro_id (cl_robs cl ! b) \<Longrightarrow> robs_ok (finish_observation g b e cl)"
  by (rule failed_robs_ok [where cl = cl and b = b and g = g and e = e]) (auto simp: finish_observation_def robs_fail_eq)

lemma watch_failed_robs_ok:
  "robs_ok cl \<Longrightarrow> b < length (cl_robs cl) \<Longrightarrow> g = ro_id (cl_robs cl ! b) \<Longrightarrow> robs_ok (watch_failed g b e cl)"
  by (rule failed_robs_ok [where cl = cl and b = b and g = g and e = e]) (auto simp: watch_failed_def robs_forget_def robs_fail_eq)

lemma abort_robs_ok:
  assumes "robs_ok cl" "b < length (cl_robs cl)"
  shows "robs_ok (robs_abort e b cl)"
proof -
  have "robs_ok (robs_abort e b cl) = robs_ok (finish_observation (ro_id (cl_robs cl ! b)) b e cl)"
    by (rule robs_ok_cong) (simp_all add: robs_abort_def Let_def)
  then show ?thesis using finish_robs_ok [OF assms refl] by simp
qed

lemma robs_push_robs_ok:
  assumes ok: "robs_ok cl" and b: "b < length (cl_robs cl)" and p: "robs_push ev b cl = Some cl'"
  shows "robs_ok cl'"
proof (cases "length (ro_queue (cl_robs cl ! b)) < watch_buffer_remote")
  case True
  show ?thesis
    by (rule update_robs_ok [OF ok b, where x = "(cl_robs cl ! b)\<lparr>ro_queue := ro_queue (cl_robs cl ! b) @ [ev]\<rparr>"])
      (use True p robs_okD(2) [OF ok b] in \<open>auto simp: robs_push_def Let_def rob_ok_def split: if_splits\<close>)
next
  case False
  then show ?thesis using p abort_robs_ok [OF ok b] by (auto simp: robs_push_def Let_def split: if_splits)
qed

lemma deliver_watch_robs_ok:
  assumes "robs_ok cl" "deliver_watch js f cl = Some cl'"
  shows "robs_ok cl'"
proof (cases "cl_obs cl (fr_grant f)")
  case (Some b)
  note b = robs_okD(1) [OF assms(1) Some]
  show ?thesis using assms Some b
    by (auto simp: deliver_watch_def finish_robs_ok robs_push_robs_ok split: option.splits if_splits sum.splits)
qed (use assms in \<open>simp add: deliver_watch_def\<close>)

lemma close_robs_ok:
  assumes ok: "robs_ok cl" and b: "b < length (cl_robs cl)"
  shows "robs_ok (robs_close b cl)"
  by (rule update_robs_ok [OF ok b, where x = "(shut (Sent ErrClosed) (cl_robs cl ! b))\<lparr>ro_closing := True\<rparr>"])
    (use b robs_okD(2) [OF ok b] in \<open>auto simp: robs_close_def robs_fail_eq rob_ok_def Let_def\<close>)

lemma forget_robs_ok:
  assumes ok: "robs_ok cl" and b: "b < length (cl_robs cl)" and "ro_closing (cl_robs cl ! b)"
  shows "robs_ok (robs_forget (ro_id (cl_robs cl ! b)) b cl)"
  by (rule update_robs_ok [OF ok b, where x = "cl_robs cl ! b"])
    (use assms(3) robs_okD(2) [OF ok b] in \<open>auto simp: robs_forget_def rob_ok_def\<close>)

lemma cursor_robs_ok:
  assumes ok: "robs_ok cl" and b: "b < length (cl_robs cl)"
  shows "robs_ok (set_initial_cursor c after b cl)"
  by (rule update_robs_ok [OF ok b, where x = "if ro_cursor (cl_robs cl ! b) = after
        then (cl_robs cl ! b)\<lparr>ro_cursor := c\<rparr> else cl_robs cl ! b"])
    (use robs_okD(2) [OF ok b] in \<open>auto simp: set_initial_cursor_def Let_def rob_ok_def\<close>)

text \<open>\<open>Next\<close> takes at most one event out, moves the cursor and may empty \<open>errc\<close>.\<close>

lemma next_shape:
  assumes "robs_next ctx p b cl = Some (cl', r)"
  shows "cl' = cl \<or> (\<exists>ev q. ro_queue (cl_robs cl ! b) = ev # q \<and>
      cl' = set_robs b ((cl_robs cl ! b)\<lparr>ro_queue := q, ro_cursor := ev_cursor ev\<rparr>) cl) \<or>
    cl' = set_robs b ((cl_robs cl ! b)\<lparr>ro_errc := None\<rparr>) cl"
  using assms by (auto simp: robs_next_def robs_receive_def Let_def split: option.splits list.splits if_splits)

lemma next_robs_ok:
  assumes ok: "robs_ok cl" and b: "b < length (cl_robs cl)" and n: "robs_next ctx p b cl = Some (cl', r)"
  shows "robs_ok cl'"
proof -
  have "robs_ok (set_robs b x cl)"
    if "x = (cl_robs cl ! b)\<lparr>ro_queue := q, ro_cursor := c, ro_errc := e\<rparr>"
      "length q \<le> length (ro_queue (cl_robs cl ! b))" for x q c e
    by (rule update_robs_ok [OF ok b, where x = x]) (use robs_okD(2) [OF ok b] that in \<open>auto simp: rob_ok_def\<close>)
  note x = this [OF refl]
  show ?thesis
    using next_shape [OF n] ok
      x [where q = "ro_queue (cl_robs cl ! b)" and c = "ro_cursor (cl_robs cl ! b)" and e = None]
      x [where e = "ro_errc (cl_robs cl ! b)"]
    by (elim disjE exE conjE) simp_all
qed

lemma watch_robs_ok:
  assumes "robs_ok cl"
  shows "robs_ok (fst (watch_open js after g cl))"
proof (cases "snd (watch_open js after g cl)")
  case (Inl e)
  then have "cl_robs (fst (watch_open js after g cl)) = cl_robs cl"
    "cl_obs (fst (watch_open js after g cl)) = cl_obs cl"
    by (auto simp: watch_open_def Let_def split: sum.splits if_splits)
  then show ?thesis using assms robs_ok_cong by blast
next
  case (Inr v)
  define x where "x = \<lparr>ro_id = g, ro_stream = cl_stream cl + 1, ro_queue = [], ro_shut = False, ro_errc = None,
    ro_cursor = after, ro_failed = None, ro_closing = False\<rparr>"
  have n: "cl_obs cl g = None" and
    e: "cl_robs (fst (watch_open js after g cl)) = cl_robs cl @ [x]"
    "cl_obs (fst (watch_open js after g cl)) = (cl_obs cl)(g \<mapsto> length (cl_robs cl))"
    using Inr by (auto simp: watch_open_def Let_def x_def split: sum.splits if_splits)
  have "rob_ok ((cl_obs cl)(g \<mapsto> length (cl_robs cl))) b (cl_robs cl ! b)" if "b < length (cl_robs cl)" for b
    using robs_okD(2) [OF assms that] n that by (auto simp: rob_ok_def)
  moreover have "cl_obs cl h = Some b \<Longrightarrow> b < length (cl_robs cl) \<and> ro_id (cl_robs cl ! b) = h" for h b
    using robs_okD(1) [OF assms] by blast
  moreover have "rob_ok ((cl_obs cl)(g \<mapsto> length (cl_robs cl))) (length (cl_robs cl)) x"
    by (simp add: rob_ok_def x_def)
  moreover have "ro_id x = g" by (simp add: x_def)
  ultimately show ?thesis unfolding robs_ok_def e
    by (auto simp: nth_append less_Suc_eq split: if_splits)
qed

lemma watch_end_robs_ok:
  "robs_ok cl \<Longrightarrow> b < length (cl_robs cl) \<Longrightarrow>
   robs_ok (fst (watch_end js after (ro_id (cl_robs cl ! b)) b r cl))"
  by (auto simp: watch_end_def watch_failed_robs_ok close_robs_ok cursor_robs_ok split: sum.split)

lemma fail_robs_ok:
  assumes "robs_ok cl"
  shows "robs_ok (fail_all cl)"
proof -
  have "rob_ok Map.empty b (fail_robs cl b (cl_robs cl ! b))" if "b < length (cl_robs cl)" for b
    using robs_okD(2) [OF assms that] by (auto simp: fail_robs_def rob_ok_def)
  then show ?thesis by (simp add: robs_ok_def fail_all_def)
qed

subsection \<open>Every step\<close>

text \<open>Which group of objects a section works on: its calls, its terminals, its observations.\<close>

definition same_calls :: "client \<Rightarrow> client \<Rightarrow> bool" where
  "same_calls cl cl' \<longleftrightarrow> cl_seq cl' = cl_seq cl \<and> cl_calls cl' = cl_calls cl \<and> cl_pending cl' = cl_pending cl \<and>
     cl_closed cl' = cl_closed cl"

definition same_terms :: "client \<Rightarrow> client \<Rightarrow> bool" where
  "same_terms cl cl' \<longleftrightarrow> cl_rterms cl' = cl_rterms cl \<and> cl_terms cl' = cl_terms cl"

definition same_robs :: "client \<Rightarrow> client \<Rightarrow> bool" where
  "same_robs cl cl' \<longleftrightarrow> cl_robs cl' = cl_robs cl \<and> cl_obs cl' = cl_obs cl"

lemmas same_defs = same_calls_def same_terms_def same_robs_def

lemma same_okD:
  "same_calls cl cl' \<Longrightarrow> calls_ok cl \<Longrightarrow> calls_ok cl'"
  "same_terms cl cl' \<Longrightarrow> terms_ok cl \<Longrightarrow> terms_ok cl'"
  "same_robs cl cl' \<Longrightarrow> robs_ok cl \<Longrightarrow> robs_ok cl'"
  by (simp_all add: same_defs calls_ok_def terms_ok_def robs_ok_def)

lemma calls_only:
  assumes "same_terms cl cl'" "same_robs cl cl'" "calls_ok cl \<Longrightarrow> calls_ok cl'" "client_ok cl"
  shows "client_ok cl'"
  using assms same_okD by (auto simp: client_ok_def)

lemma terms_only:
  assumes "same_calls cl cl'" "same_robs cl cl'" "terms_ok cl \<Longrightarrow> terms_ok cl'" "client_ok cl"
  shows "client_ok cl'"
  using assms same_okD by (auto simp: client_ok_def)

lemma robs_only:
  assumes "same_calls cl cl'" "same_terms cl cl'" "robs_ok cl \<Longrightarrow> robs_ok cl'" "client_ok cl"
  shows "client_ok cl'"
  using assms same_okD by (auto simp: client_ok_def)

lemma call_sections_same:
  "same_terms cl (fst (call_ticket m cl)) \<and> same_robs cl (fst (call_ticket m cl))"
  "same_terms cl (fst (call_register g x d i cl)) \<and> same_robs cl (fst (call_register g x d i cl))"
  "same_terms cl (fst (call_sent e i cl)) \<and> same_robs cl (fst (call_sent e i cl))"
  "call_wait ctx p i cl = Some (cl', r) \<Longrightarrow> same_terms cl cl' \<and> same_robs cl cl'"
  "deliver_response f cl = Some cl' \<Longrightarrow> same_terms cl cl' \<and> same_robs cl cl'"
  by (auto simp: same_defs call_ticket_def call_register_def call_sent_def call_abandon_def returned_def
      call_wait_def deliver_response_def answer_call_def Let_def split: option.splits if_splits)

lemma term_sections_same:
  "same_calls cl (deliver_pty f cl) \<and> same_robs cl (deliver_pty f cl)"
  "same_calls cl (fst (attach_open js win g cl)) \<and> same_robs cl (fst (attach_open js win g cl))"
  "same_calls cl (fst (attach_end g t r cl)) \<and> same_robs cl (fst (attach_end g t r cl))"
  "same_calls cl (hangup_term g e cl) \<and> same_robs cl (hangup_term g e cl)"
  "same_calls cl (rterm_close t cl) \<and> same_robs cl (rterm_close t cl)"
  "same_calls cl (fst (rterm_close_end t r' cl)) \<and> same_robs cl (fst (rterm_close_end t r' cl))"
  subgoal by (simp add: same_defs deliver_pty_def rterm_push_def hangup_eq Let_def split: option.split)
  subgoal by (simp add: same_defs attach_open_def Let_def split: sum.split)
  subgoal by (simp add: same_defs attach_end_def rterm_forget_def hangup_eq split: sum.split)
  subgoal by (simp add: same_defs hangup_term_def hangup_eq Let_def split: option.split)
  subgoal by (simp add: same_defs rterm_close_def)
  subgoal by (simp add: same_defs rterm_close_end_def rterm_forget_def)
  done

lemma read_section_same:
  "rterm_read n t cl = Some (cl', r) \<Longrightarrow> same_calls cl cl' \<and> same_robs cl cl'"
  by (auto simp: same_defs rterm_read_def Let_def split: option.splits if_splits)

lemma obs_fail_sections_same:
  "same_calls cl (finish_observation g b e cl) \<and> same_terms cl (finish_observation g b e cl)"
  "same_calls cl (watch_failed g b e cl) \<and> same_terms cl (watch_failed g b e cl)"
  "same_calls cl (robs_abort e b cl) \<and> same_terms cl (robs_abort e b cl)"
  "same_calls cl (robs_close b cl) \<and> same_terms cl (robs_close b cl)"
  "same_calls cl (robs_forget g b cl) \<and> same_terms cl (robs_forget g b cl)"
  "same_calls cl (set_initial_cursor c after b cl) \<and> same_terms cl (set_initial_cursor c after b cl)"
  by (simp_all add: same_defs finish_observation_def watch_failed_def robs_abort_def robs_close_def robs_forget_def
      set_initial_cursor_def robs_fail_eq Let_def)

lemma obs_sections_same:
  "deliver_watch js f cl = Some cl' \<Longrightarrow> same_calls cl cl' \<and> same_terms cl cl'"
  "same_calls cl (fst (watch_open js after g cl)) \<and> same_terms cl (fst (watch_open js after g cl))"
  "same_calls cl (fst (watch_end js after g b r cl)) \<and> same_terms cl (fst (watch_end js after g b r cl))"
  "robs_next ctx p b cl = Some (cl', e) \<Longrightarrow> same_calls cl cl' \<and> same_terms cl cl'"
  subgoal
    by (auto simp: deliver_watch_def robs_push_def obs_fail_sections_same Let_def same_calls_def [of _ "set_robs _ _ _"]
        same_terms_def [of _ "set_robs _ _ _"] split: option.splits sum.splits if_splits)
      (simp_all add: same_defs)
  subgoal by (auto simp: same_defs watch_open_def Let_def split: sum.splits)
  subgoal by (auto simp: watch_end_def obs_fail_sections_same split: sum.split)
  subgoal using next_shape [of ctx p b cl cl' e] by (auto simp: same_defs)
  done

text \<open>A frame the read loop takes without panicking keeps everything in order.\<close>

lemma recv_ok:
  assumes "client_ok cl" "client_recv js f cl = Some cl'"
  shows "client_ok cl'"
proof -
  consider (r) "deliver_response f cl = Some cl'" | (p) "cl' = deliver_pty f cl" | (w) "deliver_watch js f cl = Some cl'"
    | (o) "cl' = cl" using assms(2) unfolding client_recv_def by (metis option.inject)
  then show ?thesis
  proof cases
    case r
    have c: "calls_ok cl" using assms(1) by (simp add: client_ok_def)
    show ?thesis
      by (rule calls_only [OF _ _ _ assms(1)])
        (use call_sections_same(5) [OF r] response_never_blocks [OF c, of f] r in auto)
  next
    case p
    show ?thesis unfolding p
      by (rule terms_only [OF _ _ _ assms(1)]) (simp_all add: term_sections_same deliver_pty_terms_ok)
  next
    case w
    show ?thesis
      by (rule robs_only [OF _ _ _ assms(1)]) (use obs_sections_same(1) [OF w] deliver_watch_robs_ok [OF _ w] in auto)
  qed (use assms in simp)
qed

lemma cstep_ok: "cstep js cl cl' \<Longrightarrow> client_ok cl \<Longrightarrow> client_ok cl'"
proof (induction rule: cstep.induct)
  case ticket
  show ?case by (rule calls_only [OF _ _ _ ticket]) (simp_all add: call_sections_same ticket_calls_ok)
next
  case (register i cl g x d)
  show ?case
    by (rule calls_only [OF _ _ _ register(3)]) (simp_all add: call_sections_same register_calls_ok register)
next
  case (unsent i cl e)
  show ?case by (rule calls_only [OF _ _ _ unsent(3)]) (simp_all add: call_sections_same sent_calls_ok unsent)
next
  case (wait i cl ctx p cl' r)
  show ?case
    by (rule calls_only [OF _ _ _ wait(4)])
      (use call_sections_same(4) [OF wait(3)] wait_calls_ok [OF _ wait(1-3)] in auto)
next
  case (recv f cl cl')
  then show ?case using recv_ok by blast
next
  case lost
  then show ?case by (simp add: client_ok_def fail_calls_ok fail_terms_ok fail_robs_ok)
next
  case close
  then show ?case by (simp add: client_ok_def client_close_def calls_ok_def terms_ok_def robs_ok_def)
next
  case attach
  show ?case by (rule terms_only [OF _ _ _ attach]) (simp_all add: term_sections_same attach_terms_ok)
next
  case (attach_failed t cl r)
  show ?case
    by (rule terms_only [OF _ _ _ attach_failed(2)])
      (simp_all add: term_sections_same attach_end_terms_ok attach_failed)
next
  case hangup
  show ?case by (rule terms_only [OF _ _ _ hangup]) (simp_all add: term_sections_same hangup_term_terms_ok)
next
  case (term_read t cl n cl' r)
  show ?case
    by (rule terms_only [OF _ _ _ term_read(3)])
      (use read_section_same [OF term_read(2)] read_terms_ok [OF _ term_read(1,2)] in auto)
next
  case (term_close t cl)
  show ?case
    by (rule terms_only [OF _ _ _ term_close(2)]) (simp_all add: term_sections_same close_terms_ok term_close)
next
  case (term_closed t cl r)
  show ?case
    by (rule terms_only [OF _ _ _ term_closed(3)]) (simp_all add: term_sections_same closed_terms_ok term_closed)
next
  case watch
  show ?case by (rule robs_only [OF _ _ _ watch]) (simp_all add: obs_sections_same watch_robs_ok)
next
  case (watch_answer b cl after r)
  show ?case
    by (rule robs_only [OF _ _ _ watch_answer(2)]) (simp_all add: obs_sections_same watch_end_robs_ok watch_answer)
next
  case (obs_next b cl ctx p cl' r)
  show ?case
    by (rule robs_only [OF _ _ _ obs_next(3)])
      (use obs_sections_same(4) [OF obs_next(2)] next_robs_ok [OF _ obs_next(1,2)] in auto)
next
  case (obs_close b cl)
  show ?case
    by (rule robs_only [OF _ _ _ obs_close(2)]) (simp_all add: obs_fail_sections_same close_robs_ok obs_close)
next
  case (obs_closed b cl r)
  show ?case
    by (rule robs_only [OF _ _ _ obs_closed(3)])
      (simp_all add: obs_fail_sections_same forget_robs_ok obs_closed robs_close_end_def)
next
  case spawned
  then show ?case by (simp add: client_ok_def calls_ok_def terms_ok_def robs_ok_def)
qed

text \<open>Once the read loop has failed all calls, the connection stays down.\<close>

definition down :: "client \<Rightarrow> bool" where
  "down cl \<longleftrightarrow> cl_closed cl \<and> cl_pending cl = Map.empty"

lemma same_down: "same_calls cl cl' \<Longrightarrow> down cl \<Longrightarrow> down cl'"
  by (simp add: same_calls_def down_def)

lemma recv_down:
  assumes "client_recv js f cl = Some cl'" "down cl"
  shows "down cl'"
proof -
  consider (r) "deliver_response f cl = Some cl'" | (p) "cl' = deliver_pty f cl" | (w) "deliver_watch js f cl = Some cl'"
    | (o) "cl' = cl" using assms(1) unfolding client_recv_def by (metis option.inject)
  then show ?thesis
  proof cases
    case r
    then show ?thesis using assms(2) by (auto simp: down_def deliver_response_def Let_def)
  next
    case p
    then show ?thesis using assms(2) same_down term_sections_same(1) by blast
  next
    case w
    then show ?thesis using assms(2) same_down obs_sections_same(1) by blast
  qed (use assms in simp)
qed

lemma call_sections_down:
  assumes "down cl"
  shows "down (fst (call_ticket m cl))" "down (fst (call_register g x d i cl))" "down (fst (call_sent e i cl))"
    "call_wait ctx p i cl = Some (cl', r) \<Longrightarrow> down cl'"
  using assms by (auto simp: down_def call_ticket_def call_register_def call_sent_def call_abandon_def returned_def
      call_wait_def set_call_def Let_def split: option.splits if_splits)

lemma cstep_down: "cstep js cl cl' \<Longrightarrow> down cl \<Longrightarrow> down cl'"
proof (induction rule: cstep.induct)
  case (recv f cl cl')
  then show ?case using recv_down by blast
next
  case (wait i cl ctx p cl' r)
  then show ?case using call_sections_down(4) by blast
next
  case (term_read t cl n cl' r)
  then show ?case using read_section_same same_down by blast
next
  case (obs_next b cl ctx p cl' r)
  then show ?case using obs_sections_same(4) same_down by blast
next
  case attach
  then show ?case using term_sections_same(2) same_down by blast
next
  case attach_failed
  then show ?case using term_sections_same(3) same_down by blast
next
  case hangup
  then show ?case using term_sections_same(4) same_down by blast
next
  case term_close
  then show ?case using term_sections_same(5) same_down by blast
next
  case term_closed
  then show ?case using term_sections_same(6) same_down by blast
next
  case watch
  then show ?case using obs_sections_same(2) same_down by blast
next
  case watch_answer
  then show ?case using obs_sections_same(3) same_down by blast
next
  case obs_close
  then show ?case using obs_fail_sections_same(4) same_down by blast
next
  case (obs_closed b cl r)
  then show ?case using same_down [OF obs_fail_sections_same(5) [THEN conjunct1]]
    by (simp add: robs_close_end_def)
qed (simp_all add: call_sections_down, simp_all add: down_def fail_all_def client_close_def)

interpretation client_down: steps_keep "cstep js" down for js
  by unfold_locales (rule cstep_down)

lemmas run_down = client_down.kept_along

lemma new_client_ok: "client_ok new_client"
  by (simp add: client_ok_def calls_ok_def terms_ok_def robs_ok_def new_client_def)

interpretation client_steps: steps_keep_from "cstep js" client_ok "\<lambda>cl. cl = new_client" for js
  by unfold_locales (auto intro: cstep_ok new_client_ok)

lemmas client_run_ok = client_steps.kept_along

lemma client_reachable_ok: "client_run js new_client cl \<Longrightarrow> client_ok cl"
  by (rule client_steps.kept_reached) (rule refl)

subsection \<open>The methods are runs\<close>

lemma call_begin_run: "client_run js cl (fst (call_begin ctx d m g x cl))"
proof (cases ctx)
  case None
  let ?cl = "fst (call_ticket m cl)" and ?i = "length (cl_calls cl)"
  have "cstep js ?cl (fst (call_register g x d ?i ?cl))"
    by (rule cstep.register) (simp_all add: call_ticket_def Let_def nth_append)
  moreover have "fst (call_begin ctx d m g x cl) = fst (call_register g x d ?i ?cl)"
    using None by (simp add: call_begin_def call_ticket_def Let_def split: prod.split sum.split)
  ultimately show ?thesis using cstep.ticket [of js cl m] by auto
qed (simp add: call_begin_def)

lemma rpc_begin_run: "client_run js cl (fst (rpc_begin ctx d m g payload cl))"
  using call_begin_run [of js cl] by (simp add: rpc_begin_def split: sum.split)

lemma call_begin_objects:
  "cl_rterms (fst (call_begin ctx d m g x cl)) = cl_rterms cl" "cl_robs (fst (call_begin ctx d m g x cl)) = cl_robs cl"
  by (simp_all add: call_begin_def call_ticket_def call_register_def returned_def Let_def split: option.split)

lemma attach_begin_run: "client_run js cl (fst (attach_begin js ctx d win g cl))"
proof -
  obtain cl1 r where o: "attach_open js win g cl = (cl1, r)" by (cases "attach_open js win g cl")
  have s: "cstep js cl cl1" using cstep.attach [of js cl win g] o by simp
  show ?thesis
  proof (cases r)
    case (Inl e)
    with o s show ?thesis by (simp add: attach_begin_def)
  next
    case (Inr v)
    obtain t extra where v: "v = (t, extra)" by (cases v)
    have t: "t < length (cl_rterms cl1)" "rt_id (cl_rterms cl1 ! t) = g"
      using o Inr v by (auto simp: attach_open_def Let_def split: sum.splits if_splits)
    obtain cl2 q where b: "call_begin ctx d ''attach'' g extra cl1 = (cl2, q)"
      by (cases "call_begin ctx d ''attach'' g extra cl1")
    have r2: "client_run js cl cl2" using s call_begin_run [of js cl1 ctx d "''attach''" g extra] b
      by (metis converse_rtranclp_into_rtranclp fst_conv)
    have t2: "t < length (cl_rterms cl2)" "rt_id (cl_rterms cl2 ! t) = g"
      using t call_begin_objects(1) [of ctx d "''attach''" g extra cl1] b by simp_all
    have "cstep js cl2 (fst (attach_end g t (Inl e) cl2))" for e
      using cstep.attach_failed [OF t2(1), of js "Inl e"] t2(2) by simp
    with r2 show ?thesis using o Inr v b by (cases q) (auto simp: attach_begin_def intro: rtranclp.rtrancl_into_rtrancl)
  qed
qed

end
