(* ===== verification/Remote_Memory.thy ===== *)
theory Remote_Memory
  imports Remote_Server Memory_Props
begin

text \<open>
  The remote server over the memory host: the wiring that \<open>daemon/run.go\<close> makes for local
  development. The memory host is a \<open>served_host\<close>, so what the server promises over any
  such host holds of it.
\<close>

text \<open>What \<open>newEpoch\<close> draws: a 16-byte array (\<open>None\<close> when \<open>rand.Read\<close> fails), clock and counter.\<close>

type_synonym entropy = "(nat \<Rightarrow> byte) option \<times> 64 word \<times> uint64"

definition draw_epoch :: "entropy \<Rightarrow> string" where
  "draw_epoch e = (case e of (raw, nanos, count) \<Rightarrow> new_epoch (map_option (\<lambda>f. map f [0..<16]) raw) nanos count)"

lemma draw_epoch_ok: "epoch_ok (draw_epoch e)"
  by (cases e) (auto simp: draw_epoch_def intro!: new_epoch_ok split: option.splits)

text \<open>The pair a Go \<open>Read\<close> returns: the memory terminal never returns bytes with an error.\<close>

definition term_read_io :: "nat \<Rightarrow> nat \<Rightarrow> mem_state \<Rightarrow> (mem_state \<times> bytes \<times> go_error option) option" where
  "term_read_io cap t m =
     map_option (\<lambda>(m', r). (m', case r of Inl e \<Rightarrow> ([], Some e) | Inr bs \<Rightarrow> (bs, None))) (term_read cap t m)"

definition memory_ops :: "string \<Rightarrow> (mem_state \<Rightarrow> entropy) \<Rightarrow> bool \<Rightarrow> mem_state host_ops" where
  "memory_ops release draw pick =
     \<lparr>ho_ready = host_ready release,
      ho_ensure = (\<lambda>ctx sp m. host_ensure ctx sp (draw_epoch (draw m)) m),
      ho_revoke = host_revoke, ho_attach = env_attach, ho_freeze = env_freeze, ho_thaw = env_thaw,
      ho_replace = (\<lambda>ctx r tree m. env_replace_tree ctx r tree (draw_epoch (draw m)) m),
      ho_apply = env_apply, ho_watch = env_watch, ho_open = env_open,
      ho_term_read = term_read_io, ho_term_write = term_write, ho_term_resize = term_resize,
      ho_term_close = term_close, ho_obs_cursor = (\<lambda>b m. ob_cursor (ms_obs m ! b)),
      ho_obs_next = (\<lambda>ctx b m. obs_next ctx pick b m), ho_obs_close = obs_close\<rparr>"

definition mem_hv :: "(mem_state, environment \<times> terminal list \<times> observation list) host_view" where
  "mem_hv =
     \<lparr>hv_inv = mem_inv,
      hv_env_id = (\<lambda>m r. if r < length (ms_envs m) then Some (en_id (ms_envs m ! r)) else None),
      hv_term_env = (\<lambda>m t. if t < length (ms_terms m) then Some (te_env (ms_terms m ! t)) else None),
      hv_obs_env = (\<lambda>m b. if b < length (ms_obs m) then Some (ob_env (ms_obs m ! b)) else None),
      hv_view = (\<lambda>m r. (ms_envs m ! r, filter (\<lambda>x. te_env x = r) (ms_terms m), filter (\<lambda>x. ob_env x = r) (ms_obs m))),
      hv_granted = (\<lambda>m. map_of (ms_grants m))\<rparr>"

text \<open>A change of a store that concerns environment \<open>r\<close> only: nothing, one object of \<open>r\<close>
  replaced, or one added.\<close>

definition own_change :: "('x \<Rightarrow> nat) \<Rightarrow> nat \<Rightarrow> 'x list \<Rightarrow> 'x list \<Rightarrow> bool" where
  "own_change own r xs ys \<longleftrightarrow>
     length xs \<le> length ys \<and> (\<forall>i < length xs. own (ys ! i) = own (xs ! i)) \<and>
     (\<forall>s. s \<noteq> r \<longrightarrow> filter (\<lambda>x. own x = s) ys = filter (\<lambda>x. own x = s) xs)"

lemma filter_update_out: "\<not> P y \<Longrightarrow> \<not> P (xs ! i) \<Longrightarrow> filter P (xs[i := y]) = filter P xs"
proof (induction xs arbitrary: i)
  case (Cons x xs)
  then show ?case by (cases i) auto
qed simp

lemma own_change_simps [simp]:
  "own_change own r xs xs"
  "own y = r \<Longrightarrow> own_change own r xs (xs @ [y])"
  by (auto simp: own_change_def nth_append)

lemma own_change_update:
  "own (xs ! i) = r \<Longrightarrow> own y = r \<Longrightarrow> own_change own r xs (xs[i := y])"
  by (cases "i < length xs") (auto simp: own_change_def nth_list_update filter_update_out list_update_beyond)

definition mem_local :: "nat \<Rightarrow> mem_state \<Rightarrow> mem_state \<Rightarrow> bool" where
  "mem_local r m m' \<longleftrightarrow>
     mem_inv m' \<and> length (ms_envs m') = length (ms_envs m) \<and>
     (\<forall>s < length (ms_envs m). en_id (ms_envs m' ! s) = en_id (ms_envs m ! s) \<and>
        (s \<noteq> r \<longrightarrow> ms_envs m' ! s = ms_envs m ! s)) \<and>
     own_change te_env r (ms_terms m) (ms_terms m') \<and> own_change ob_env r (ms_obs m) (ms_obs m') \<and>
     ms_grants m' = ms_grants m"

lemma mem_local_refl: "mem_inv m \<Longrightarrow> mem_local r m m"
  by (simp add: mem_local_def)

lemma mem_localI:
  assumes "mem_inv m'" and "ms_envs m' = (ms_envs m)[r := e]" and "en_id e = en_id (ms_envs m ! r)"
    and "own_change te_env r (ms_terms m) (ms_terms m')" and "own_change ob_env r (ms_obs m) (ms_obs m')"
    and "ms_grants m' = ms_grants m"
  shows "mem_local r m m'"
proof -
  have "en_id (ms_envs m' ! s) = en_id (ms_envs m ! s) \<and> (s \<noteq> r \<longrightarrow> ms_envs m' ! s = ms_envs m ! s)"
    if "s < length (ms_envs m)" for s
    using that assms(2,3) by (cases "s = r") auto
  then show ?thesis using assms by (simp add: mem_local_def)
qed

lemma mem_hv_simps [simp]:
  "hv_inv mem_hv = mem_inv"
  "hv_env_id mem_hv m r = Some i \<longleftrightarrow> r < length (ms_envs m) \<and> en_id (ms_envs m ! r) = i"
  "hv_term_env mem_hv m t = Some r \<longleftrightarrow> t < length (ms_terms m) \<and> te_env (ms_terms m ! t) = r"
  "hv_obs_env mem_hv m b = Some r \<longleftrightarrow> b < length (ms_obs m) \<and> ob_env (ms_obs m ! b) = r"
  "hv_granted mem_hv m = map_of (ms_grants m)"
  by (simp_all add: mem_hv_def)

lemma mem_local_evolves:
  assumes "mem_local r m m'" and "r < length (ms_envs m)" and "en_id (ms_envs m ! r) = i"
  shows "serves mem_hv i m m'"
proof -
  have "hv_view mem_hv m' s = hv_view mem_hv m s" if "s < length (ms_envs m)" "s \<noteq> r" for s
    using assms(1) that by (simp add: mem_local_def mem_hv_def own_change_def)
  then have "hv_view mem_hv m' s = hv_view mem_hv m s" if "s < length (ms_envs m)" "en_id (ms_envs m ! s) \<noteq> i" for s
    using that assms(3) by blast
  then show ?thesis
    using assms(1) by (auto simp: serves_def evolves_def mem_local_def own_change_def split: if_splits)
qed

subsection \<open>Each method is local\<close>

lemma stop_own_change:
  assumes inv: "mem_inv m" and r: "r < length (ms_envs m)"
  shows "own_change te_env r (ms_terms m) (case en_term (ms_envs m ! r) of None \<Rightarrow> ms_terms m
      | Some t \<Rightarrow> (ms_terms m)[t := (ms_terms m ! t)\<lparr>te_dead := e\<rparr>])"
    "own_change ob_env r (ms_obs m) (case en_obs (ms_envs m ! r) of None \<Rightarrow> ms_obs m
      | Some b \<Rightarrow> (ms_obs m)[b := obs_fail e' (ms_obs m ! b)])"
  using cur_term [OF inv r] cur_obs [OF inv r] by (auto intro!: own_change_update split: option.split)

lemma attach_local:
  assumes inv: "mem_inv m" and r: "r < length (ms_envs m)" and a: "env_attach ctx r win m = (m', res)"
  shows "mem_local r m m' \<and> (case res of Inl e \<Rightarrow> True | Inr t \<Rightarrow> t < length (ms_terms m') \<and> te_env (ms_terms m' ! t) = r)"
proof -
  have inv': "mem_inv m'" using attach_inv [OF inv r, of ctx win] a by simp
  consider "m' = m" "\<exists>e. res = Inl e"
    | "m' = set_env r ((ms_envs m ! r)\<lparr>en_term := Some (length (ms_terms m))\<rparr>)
        (m\<lparr>ms_terms := ms_terms m @ [new_terminal r win]\<rparr>)" "res = Inr (length (ms_terms m))"
    using a by (auto simp: env_attach_def fail_op_def Let_def split: option.splits if_splits)
  then show ?thesis
  proof cases
    case 1
    then show ?thesis using mem_local_refl [OF inv] by auto
  next
    case 2
    have "mem_local r m m'"
      by (rule mem_localI [OF inv', where e = "(ms_envs m ! r)\<lparr>en_term := Some (length (ms_terms m))\<rparr>"])
        (simp_all add: 2 new_terminal_def)
    then show ?thesis by (simp add: 2 new_terminal_def)
  qed
qed

lemma watch_local:
  assumes inv: "mem_inv m" and r: "r < length (ms_envs m)" and a: "env_watch ctx r after m = (m', res)"
  shows "mem_local r m m' \<and> (case res of Inl e \<Rightarrow> True | Inr b \<Rightarrow> b < length (ms_obs m') \<and> ob_env (ms_obs m' ! b) = r)"
proof -
  have inv': "mem_inv m'" using watch_inv [OF inv r, of ctx after] a by simp
  show ?thesis
  proof (cases "\<exists>e. res = Inl e")
    case True
    then have "m' = m" using a by (auto simp: env_watch_def Let_def split: option.splits if_splits sum.splits prod.splits)
    with True show ?thesis using mem_local_refl [OF inv] by auto
  next
    case False
    then obtain c q where "ctx = None" "guard ''watch'' (ms_envs m ! r) = None" "en_obs (ms_envs m ! r) = None"
      "since_log (en_log (ms_envs m ! r)) after = Inr (c, q)"
      using a by (auto simp: env_watch_def fail_op_def Let_def split: option.splits if_splits sum.splits)
    then have w: "m' = set_env r ((ms_envs m ! r)\<lparr>en_obs := Some (length (ms_obs m))\<rparr>)
        (m\<lparr>ms_obs := ms_obs m @ [\<lparr>ob_env = r, ob_cursor = c, ob_queue = q,
          ob_cap = max watch_buffer (length q), ob_closed = False, ob_err = None\<rparr>]\<rparr>)"
      "res = Inr (length (ms_obs m))"
      using a by (simp_all add: env_watch_def Let_def)
    have "mem_local r m m'"
      by (rule mem_localI [OF inv', where e = "(ms_envs m ! r)\<lparr>en_obs := Some (length (ms_obs m))\<rparr>"])
        (simp_all add: w)
    then show ?thesis by (simp add: w)
  qed
qed

lemma freeze_local:
  assumes inv: "mem_inv m" and r: "r < length (ms_envs m)"
  shows "mem_local r m (fst (env_freeze ctx r m))"
proof (cases "ctx = None \<and> \<not> en_revoked (ms_envs m ! r)")
  case True
  then have f: "fst (env_freeze ctx r m) = fail_watch (Sent ErrFrozen) r
      (drop_term (Sent ErrFrozen) r (set_env r ((ms_envs m ! r)\<lparr>en_frozen := True\<rparr>) m))"
    by (simp add: env_freeze_def Let_def)
  show ?thesis
    by (rule mem_localI [OF freeze_inv [OF inv r],
          where e = "(ms_envs m ! r)\<lparr>en_frozen := True, en_term := None, en_obs := None\<rparr>"])
      (use r stop_own_change [OF inv r] in \<open>simp_all add: f cong: option.case_cong\<close>)
qed (use mem_local_refl [OF inv] in \<open>auto simp: env_freeze_def Let_def split: option.splits\<close>)

lemma do_revoke_local:
  assumes inv: "mem_inv m" and r: "r < length (ms_envs m)" and out: "r \<notin> snd ` set (ms_grants m)"
  shows "mem_local r m (env_do_revoke r m)"
  by (rule mem_localI [OF do_revoke_inv [OF inv r out],
        where e = "(ms_envs m ! r)\<lparr>en_revoked := True, en_frozen := False, en_term := None, en_obs := None\<rparr>"])
    (use r stop_own_change [OF inv r] in \<open>simp_all add: env_do_revoke_def cong: option.case_cong\<close>)

lemma set_env_local:
  "mem_inv (set_env r e m) \<Longrightarrow> en_id e = en_id (ms_envs m ! r) \<Longrightarrow> mem_local r m (set_env r e m)"
  by (rule mem_localI [where e = e]) simp_all

lemma thaw_local:
  assumes inv: "mem_inv m" and r: "r < length (ms_envs m)"
  shows "mem_local r m (fst (env_thaw ctx r m))"
  using thaw_inv [OF inv r, of ctx] mem_local_refl [OF inv] set_env_local [of r _ m]
  by (auto simp: env_thaw_def Let_def split: option.splits if_splits)

lemma apply_local:
  assumes inv: "mem_inv m" and r: "r < length (ms_envs m)"
  shows "mem_local r m (fst (env_apply ctx r batch m))"
  using apply_inv [OF inv r, of ctx batch] mem_local_refl [OF inv] set_env_local [of r _ m]
  by (auto simp: env_apply_def Let_def split: option.splits sum.splits)

lemma replace_local:
  assumes inv: "mem_inv m" and r: "r < length (ms_envs m)" and ep: "epoch_ok ep"
  shows "mem_local r m (fst (env_replace_tree ctx r snap ep m))"
proof (cases "fst (env_replace_tree ctx r snap ep m) = m")
  case False
  then obtain nxt where f: "fst (env_replace_tree ctx r snap ep m) =
      (let m1 = fail_watch (Sent ErrLagged) r (set_env r ((ms_envs m ! r)\<lparr>en_files := nxt\<rparr>) m)
       in set_env r ((ms_envs m1 ! r)\<lparr>en_log := reset_log ep (en_log (ms_envs m1 ! r))\<rparr>) m1)"
    by (auto simp: env_replace_tree_def Let_def split: option.splits sum.splits)
  show ?thesis
    by (rule mem_localI [OF replace_inv [OF inv r ep],
          where e = "(ms_envs m ! r)\<lparr>en_files := nxt, en_obs := None,
            en_log := reset_log ep (en_log (ms_envs m ! r))\<rparr>"])
      (use r stop_own_change [OF inv r] in \<open>simp_all add: f Let_def cong: option.case_cong\<close>)
qed (use mem_local_refl [OF inv] in simp)

lemma term_local:
  assumes inv: "mem_inv m" and t: "t < length (ms_terms m)" and r: "te_env (ms_terms m ! t) = r"
  shows "mem_local r m (fst (term_write p t m))" "mem_local r m (fst (term_resize ctx win t m))"
    "mem_local r m (fst (term_close t m))"
proof -
  have own: "own_change te_env r (ms_terms m) ((ms_terms m)[t := x])" if "te_env x = r" for x
    using own_change_update [of te_env "ms_terms m" t r x] r that by simp
  have ch: "mem_local r m (set_term t x m)"
    if "te_env x = te_env (ms_terms m ! t)" "finished (ms_terms m ! t) \<Longrightarrow> finished x" for x
    using term_change_inv [OF inv t that] own that(1) r by (simp add: mem_local_def)
  note l0 = mem_local_refl [OF inv, of r]
  show "mem_local r m (fst (term_write p t m))"
    using l0 ch by (auto simp: term_write_def Let_def finished_def split: option.split)
  show "mem_local r m (fst (term_resize ctx win t m))"
    using l0 ch by (auto simp: term_resize_def Let_def finished_def split: option.split)
  show "mem_local r m (fst (term_close t m))"
    using l0 ch by (auto simp: term_close_def Let_def finished_def)
qed

lemma obs_close_local:
  assumes inv: "mem_inv m" and b: "b < length (ms_obs m)" and r: "ob_env (ms_obs m ! b) = r"
  shows "mem_local r m (fst (obs_close b m))"
proof (cases "en_obs (ms_envs m ! r) = Some b")
  case True
  then have f: "fst (obs_close b m) = fail_watch (Sent ErrClosed) r m" using r by (simp add: obs_close_def)
  have "r < length (ms_envs m)" using own_obs_env [OF inv b] r by simp
  from stop_own_change(2) [OF inv this] show ?thesis
    by (intro mem_localI [OF obs_close_inv [OF inv b], where e = "(ms_envs m ! r)\<lparr>en_obs := None\<rparr>"])
      (simp_all add: f)
qed (use mem_local_refl [OF inv] r in \<open>simp add: obs_close_def\<close>)

lemma revoke_evolves:
  assumes inv: "mem_inv m"
  shows "evolves mem_hv i m (fst (host_revoke ctx i m))"
proof (cases "ctx = None \<and> map_of (ms_grants m) i \<noteq> None")
  case True
  then obtain r where r: "map_of (ms_grants m) i = Some r" by blast
  let ?m1 = "fst (revoke_delete i m)"
  have inv1: "mem_inv ?m1" by (rule delete_inv [OF inv])
  have id: "r < length (ms_envs m)" "en_id (ms_envs m ! r) = i"
    using inv map_of_SomeD [OF r] by (auto simp: mem_inv_def grant_ok_def)
  have same: "ms_envs ?m1 = ms_envs m" "ms_terms ?m1 = ms_terms m" "ms_obs ?m1 = ms_obs m"
    by (simp_all add: revoke_delete_def)
  have out: "r \<notin> snd ` set (ms_grants ?m1)"
    using inv id(2) by (auto simp: revoke_delete_def mem_inv_def grant_ok_def)
  have "evolves mem_hv i m ?m1"
    using inv1 same by (auto simp: evolves_def mem_hv_def revoke_delete_def map_of_filter_key)
  moreover have "serves mem_hv i ?m1 (env_do_revoke r ?m1)"
    using do_revoke_local [OF inv1 _ out] id same by (intro mem_local_evolves) simp_all
  moreover have "fst (host_revoke ctx i m) = env_do_revoke r ?m1"
    using True r by (simp add: host_revoke_def revoke_delete_def)
  ultimately show ?thesis using evolves_trans serves_evolves by metis
next
  case False
  have "fst (host_revoke ctx i m) = m"
  proof (cases ctx)
    case None
    then have none: "map_of (ms_grants m) i = None" using False by simp
    then have "filter (\<lambda>g. fst g \<noteq> i) (ms_grants m) = ms_grants m"
      by (auto simp: filter_id_conv map_of_eq_None_iff)
    then show ?thesis using None none by (simp add: host_revoke_def revoke_delete_def)
  qed (simp add: host_revoke_def)
  then show ?thesis using evolves_refl [of mem_hv m i] inv by simp
qed

lemma ensure_evolves:
  assumes inv: "mem_inv m" and ep: "epoch_ok ep" and e: "host_ensure ctx sp ep m = (m', res)"
  shows "evolves mem_hv (spec_id sp) m m' \<and>
    (case res of Inl e \<Rightarrow> True | Inr r \<Rightarrow> hv_env_id mem_hv m' r = Some (spec_id sp))"
proof -
  have inv': "mem_inv m'" using ensure_inv [OF inv ep, of ctx sp] e by simp
  have id: "r < length (ms_envs m) \<and> en_id (ms_envs m ! r) = spec_id sp" if "map_of (ms_grants m) (spec_id sp) = Some r" for r
    using inv map_of_SomeD [OF that] by (auto simp: mem_inv_def grant_ok_def)
  consider "m' = m" "\<And>r. res = Inr r \<Longrightarrow> map_of (ms_grants m) (spec_id sp) = Some r"
    | "m' = m\<lparr>ms_envs := ms_envs m @ [new_environment sp ep],
         ms_grants := (spec_id sp, length (ms_envs m)) # ms_grants m\<rparr>" "res = Inr (length (ms_envs m))"
    using e by (auto simp: host_ensure_def fail_op_def Let_def split: option.splits if_splits)
  then show ?thesis
  proof cases
    case 1
    then show ?thesis using evolves_refl [of mem_hv m] inv id by (auto split: sum.split)
  next
    case 2
    have no: "te_env x < length (ms_envs m)" if "x \<in> set (ms_terms m)" for x
      using own_term_env [OF inv] that by (metis in_set_conv_nth)
    show ?thesis
      using inv' by (auto simp: 2 evolves_def new_environment_def nth_append mem_hv_def)
  qed
qed

interpretation memory: served_host "memory_ops release draw pick" mem_hv for release draw pick
proof unfold_locales
  fix ctx sp h h' res
  assume "hv_inv mem_hv h" and "ho_ensure (memory_ops release draw pick) ctx sp h = (h', res)"
  then show "evolves mem_hv (spec_id sp) h h' \<and>
      (case res of Inl e \<Rightarrow> True | Inr r \<Rightarrow> hv_env_id mem_hv h' r = Some (spec_id sp))"
    using ensure_evolves [OF _ draw_epoch_ok] by (simp add: memory_ops_def)
next
  fix ctx r win h h' res i
  assume "hv_inv mem_hv h" and "hv_env_id mem_hv h r = Some i"
    and "ho_attach (memory_ops release draw pick) ctx r win h = (h', res)"
  then show "serves mem_hv i h h' \<and> (case res of Inl e \<Rightarrow> True | Inr t \<Rightarrow> hv_term_env mem_hv h' t = Some r)"
    using attach_local [of h r ctx win h' res] mem_local_evolves [of r h h' i]
    by (auto simp: memory_ops_def split: sum.splits)
next
  fix ctx r after h h' res i
  assume "hv_inv mem_hv h" and "hv_env_id mem_hv h r = Some i"
    and "ho_watch (memory_ops release draw pick) ctx r after h = (h', res)"
  then show "serves mem_hv i h h' \<and> (case res of Inl e \<Rightarrow> True | Inr b \<Rightarrow> hv_obs_env mem_hv h' b = Some r)"
    using watch_local [of h r ctx after h' res] mem_local_evolves [of r h h' i]
    by (auto simp: memory_ops_def split: sum.splits)
qed (auto simp: memory_ops_def revoke_evolves freeze_local thaw_local replace_local apply_local draw_epoch_ok
    term_local obs_close_local own_term_env own_obs_env intro!: mem_local_evolves)

subsection \<open>Authentication, replies, streams\<close>

definition authenticates :: "json \<Rightarrow> server_config \<Rightarrow> string \<Rightarrow> bool \<Rightarrow> frame res \<Rightarrow> bool" where
  "authenticates js cfg release certificate_ok first =
     (case first of
        Inl _ \<Rightarrow> False
      | Inr f \<Rightarrow>
          fr_kind f = KindRequest \<and> fr_method f = ''auth'' \<and>
          (case decode_extra (js_auth js) \<lparr>au_token = [], au_release = ''''\<rparr> (fr_extra f) of
             Inl _ \<Rightarrow> False
           | Inr args \<Rightarrow>
               (cfg_token cfg \<noteq> [] \<and> au_token args = cfg_token cfg \<or> certificate_ok) \<and> au_release args = release))"

text \<open>
  C13. Nothing happens before authentication: a connection goes on exactly when its first frame is
  an \<open>auth\<close> request with the configured token (an empty configured token matches nothing)
  or a verified client certificate, and with the server's release; otherwise, whatever
  else it sends, the host is not called at all and at most one frame is sent back.
\<close>

theorem remote_auth_gate:
  "snd (srv_first js cfg release certificate_ok first) = authenticates js cfg release certificate_ok first \<and>
   (authenticates js cfg release certificate_ok first \<or>
    fst (serve_conn ops js cfg release certificate_ok first fs h) = h \<and>
    length (snd (serve_conn ops js cfg release certificate_ok first fs h)) \<le> 1)"
proof -
  have "snd (srv_first js cfg release certificate_ok first) = authenticates js cfg release certificate_ok first"
    by (auto simp: srv_first_def authenticates_def srv_auth_def Let_def split: sum.split option.split)
  then show ?thesis
    by (cases "srv_first js cfg release certificate_ok first")
      (auto simp: serve_conn_def split: option.split)
qed

definition request_id :: "frame \<Rightarrow> uint64 \<times> string \<times> string" where
  "request_id f = (fr_seq f, fr_method f, fr_grant f)"

lemma srv_run_out:
  "srv_run ops js ctx f s = (s', out, cs) \<Longrightarrow>
   map request_id out = (if fr_kind f = KindRequest then [request_id f] else []) \<and>
   list_all (\<lambda>x. fr_kind x = KindResponse) out"
  by (cases s) (auto simp: srv_run_def request_id_def reply_def split: if_splits prod.splits)

text \<open>
  Every request is answered exactly once: the response frames of a run of operations are, in
  order, one for each request and none for terminal input, each carrying its request's
  sequence number, method and grant.
\<close>

lemma remote_one_reply:
  "case srv_serve ops js fs s of
     (s', out) \<Rightarrow>
       map request_id out = map (request_id \<circ> fst) (filter (\<lambda>fc. fr_kind (fst fc) = KindRequest) fs) \<and>
       list_all (\<lambda>x. fr_kind x = KindResponse) out"
proof (induction fs arbitrary: s)
  case (Cons fc fs)
  obtain f ctx where fc: "fc = (f, ctx)" by (cases fc)
  obtain s1 o1 cs where r: "srv_run ops js ctx f s = (s1, o1, cs)" by (cases "srv_run ops js ctx f s") auto
  obtain s2 o2 where s: "srv_serve ops js fs s1 = (s2, o2)" by (cases "srv_serve ops js fs s1")
  show ?case using Cons [of s1] srv_run_out [OF r] by (simp add: fc r s)
qed simp

text \<open>
  A stale stream reaches nothing: terminal input, a resize or a detach that names another
  stream than the one attached to the grant leaves the host as it is; the resize says
  \<open>ErrClosed\<close>.
\<close>

lemma remote_stale_stream:
  assumes "stream_at (sc_term_streams sc) (fr_grant f) \<noteq> s" and "s \<noteq> 0"
    and "decode_extra (js_window js) zero_window_args (fr_extra g) = Inr \<lparr>wa_window = win, wa_stream = s\<rparr>"
    and "decode_extra (js_stream js) 0 (fr_extra d) = Inr s"
    and "fr_stream f = s" and "fr_grant g = fr_grant f" and "fr_grant d = fr_grant f"
  shows "srv_write_pty ops f sc h = h \<and> srv_resize ops js ctx g sc h = refuse sc h (Sent ErrClosed) \<and>
    srv_detach ops js d sc h = ((sc, h), Inr [], [])"
  using assms by (auto simp: srv_write_pty_def srv_resize_def srv_detach_def split: option.split)

text \<open>A decoder that knows one payload of each kind, for the instance below.\<close>

definition sample_json :: json where
  "sample_json =
     \<lparr>js_auth = (\<lambda>_. Inr (\<lparr>au_token = [1], au_release = ''r''\<rparr>, False)),
      js_ensure = (\<lambda>_. Inr (sample_spec, False)),
      js_window = (\<lambda>_. Inr (\<lparr>wa_window = Window 0 0, wa_stream = 2\<rparr>, False)),
      js_stream = (\<lambda>_. Inr (2, False)), js_watch = (\<lambda>_. Inr (\<lparr>wt_after = '''', wt_stream = 1\<rparr>, False)),
      js_replace = (\<lambda>_. Inr ([], False)), js_apply = (\<lambda>_. Inr ([], False)), js_open = (\<lambda>_. Inr (''a'', False)),
      js_report = (\<lambda>_. Inr []), js_cursor = (\<lambda>_. Inr []), js_body = Inr, js_event = (\<lambda>_. Inr [])\<rparr>"

definition sample_request :: "string \<Rightarrow> grant_id \<Rightarrow> uint64 \<Rightarrow> frame" where
  "sample_request method g stream =
     \<lparr>fr_seq = 7, fr_kind = KindRequest, fr_method = method, fr_grant = g, fr_stream = stream, fr_status = '''',
      fr_extra = [123], fr_deadline = 0\<rparr>"

lemma remote_stale_stream_witness:
  "srv_write_pty (memory_ops ''r'' (\<lambda>m. (None, 1, 1)) False) (sample_request ''x'' ''a'' 2)
     (new_srv_conn\<lparr>sc_terms := [''a'' \<mapsto> 0], sc_term_streams := [''a'' \<mapsto> 1]\<rparr>) sample_granted = sample_granted"
  by (rule remote_stale_stream [where js = sample_json and s = 2 and win = "Window 0 0" and
        g = "sample_request ''resize'' ''a'' 0" and d = "sample_request ''detach'' ''a'' 0", THEN conjunct1])
    (simp_all add: stream_at_def new_srv_conn_def sample_request_def decode_extra_def sample_json_def
      max_frame_bytes_def)

subsection \<open>Grants are served apart\<close>

lemma serve_reachable:
  assumes "mem_run (host_new images slots unusable) m0"
    and "srv_serve (memory_ops release draw pick) js fs (new_srv_conn, m0) = ((sc, m), out)"
  shows "memory.conn_ok sc m"
  using memory.serve_ok [OF memory.conn_ok_new assms(2)] reachable_inv [OF assms(1)] by simp



text \<open>
  Losing a connection revokes nothing: when a connection is torn down after any sequence of
  operations, in whatever order its terminals and observations are closed, every grant of
  the host is still there, so a caller can reconnect to it.
\<close>

lemma remote_disconnect_keeps_grants:
  assumes "mem_run (host_new images slots unusable) m0"
    and "srv_serve (memory_ops release draw pick) js fs (new_srv_conn, m0) = ((sc, m), out)"
    and "set ts \<subseteq> ran (sc_terms sc)" and "set bs \<subseteq> ran (sc_obs sc)"
  shows "map_of (ms_grants (snd (srv_close (memory_ops release draw pick) ts bs sc m))) = map_of (ms_grants m)"
  using memory.close_keeps_grants [OF serve_reachable [OF assms(1,2)] assms(3,4)] by simp

lemma remote_disconnect_keeps_grants_witness:
  "map_of (ms_grants (snd (srv_close (memory_ops ''r'' (\<lambda>m. (None, 1, 1)) False) [] [] new_srv_conn sample_granted))) = [''a'' \<mapsto> 0]"
proof -
  have "srv_serve (memory_ops ''r'' (\<lambda>m. (None, 1, 1)) False) sample_json [] (new_srv_conn, sample_granted) =
      ((new_srv_conn, sample_granted), [])" by simp
  from remote_disconnect_keeps_grants [OF sample_run this, of "[]" "[]"] show ?thesis
    by (simp add: sample_granted_def)
qed

end
