(* ===== verification/Client_Props.thy ===== *)
theory Client_Props
  imports Client_Inv Remote_Memory
begin

text \<open>
  What a caller can rely on over the remote hop: answers reach the call that asked, a lost
  connection leaves nobody waiting, one terminal and one observation per grant, events and
  terminal bytes arrive unchanged and in order.
\<close>

subsection \<open>Calls and their answers\<close>

text \<open>
  C24. Answers go to the call that asked. In any run of the client the read loop never blocks on a
  response, a call is only ever handed a frame with its own sequence number, no two calls share a
  number (fewer than \<open>2 ^ 64\<close> of them), and a call that has sent its request either is in
  \<open>pending\<close> or has its answer.
\<close>

theorem client_answers_own_call:
  assumes "client_run js new_client cl"
  shows "(\<exists>cl'. deliver_response f cl = Some cl') \<and>
    (\<forall>i < length (cl_calls cl). \<forall>x. rc_box (cl_calls cl ! i) = Some x \<longrightarrow> fr_seq x = rc_seq (cl_calls cl ! i)) \<and>
    (length (cl_calls cl) < 2 ^ 64 \<longrightarrow>
       distinct (map rc_seq (cl_calls cl)) \<and>
       (\<forall>i < length (cl_calls cl). rc_status (cl_calls cl ! i) = Sending \<longrightarrow>
          cl_pending cl (rc_seq (cl_calls cl ! i)) = Some i \<or> rc_box (cl_calls cl ! i) \<noteq> None))"
proof -
  have ok: "calls_ok cl" using client_reachable_ok [OF assms] by (simp add: client_ok_def)
  have c: "call_ok (length (cl_calls cl)) (cl_pending cl) i (cl_calls cl ! i) \<and> rc_seq (cl_calls cl ! i) = call_number i"
    if "i < length (cl_calls cl)" for i using calls_okD(1,2) [OF ok that] by simp
  have "distinct (map rc_seq (cl_calls cl))" if "length (cl_calls cl) < 2 ^ 64"
    using c call_number_inj [OF that] by (auto simp: distinct_conv_nth)
  with c response_never_blocks [OF ok, of f] show ?thesis by (auto simp: call_ok_def)
qed

lemma client_answers_own_call_witness:
  "\<exists>cl'. deliver_response (sample_request ''ready'' '''' 0) (fst (call_ticket ''ready'' new_client)) = Some cl'"
proof -
  have "client_run sample_cj new_client (fst (call_ticket ''ready'' new_client))" for sample_cj
    using cstep.ticket by blast
  from client_answers_own_call [OF this] show ?thesis by blast
qed

text \<open>
  C12. Nobody waits on a lost connection. From any run of the client, once \<open>failAll\<close> has run, and
  however the run goes on, every call that has sent its request can return; a new one is
  refused with \<open>ErrConnection\<close> before it sends anything; and every terminal of the connection
  is dead or closed and every observation failed at that moment.
\<close>

theorem client_loss_strands_nobody:
  assumes "client_run js new_client cl" and "client_run js (fail_all cl) cl2"
    and "length (cl_calls cl2) < 2 ^ 64"
  shows "(\<forall>i < length (cl_calls cl2). rc_status (cl_calls cl2 ! i) = Sending \<longrightarrow> call_wait None p i cl2 \<noteq> None) \<and>
    snd (call_begin None d m g x cl2) = Inl (OpError m (Sent ErrConnection)) \<and>
    (\<forall>t < length (cl_rterms cl). \<not> live_rterm (cl_rterms (fail_all cl) ! t)) \<and>
    (\<forall>b < length (cl_robs cl). ro_failed (cl_robs (fail_all cl) ! b) \<noteq> None)"
proof -
  have ok: "client_ok (fail_all cl)"
    using client_reachable_ok [OF assms(1)] cstep_ok [OF cstep.lost] by blast
  have dn: "down cl2" by (rule run_down [OF assms(2)]) (simp add: down_def fail_all_def)
  have c: "calls_ok cl2" using client_run_ok [OF assms(2) ok] by (simp add: client_ok_def)
  have "call_wait None p i cl2 \<noteq> None"
    if "i < length (cl_calls cl2)" "rc_status (cl_calls cl2 ! i) = Sending" for i
    using calls_okD(1) [OF c that(1)] that(2) assms(3) dn
    by (auto simp: call_ok_def down_def call_wait_def Let_def)
  moreover have "snd (call_begin None d m g x cl2) = Inl (OpError m (Sent ErrConnection))"
    using dn by (simp add: call_begin_def call_ticket_def call_register_def down_def Let_def nth_append)
  moreover have "\<not> live_rterm (cl_rterms (fail_all cl) ! t)" if "t < length (cl_rterms cl)" for t
  proof -
    have "rterm_ok (cl_terms (fail_all cl)) t (cl_rterms (fail_all cl) ! t)"
      using ok that by (simp add: client_ok_def terms_ok_def fail_all_def)
    then show ?thesis by (simp add: rterm_ok_def fail_all_def)
  qed
  moreover have "ro_failed (cl_robs (fail_all cl) ! b) \<noteq> None" if "b < length (cl_robs cl)" for b
  proof -
    have "rob_ok (cl_obs (fail_all cl)) b (cl_robs (fail_all cl) ! b)"
      using ok that by (simp add: client_ok_def robs_ok_def fail_all_def)
    moreover have "rob_ok Map.empty b x \<Longrightarrow> ro_failed x \<noteq> None" for x by (auto simp: rob_ok_def)
    ultimately show ?thesis by (simp add: fail_all_def)
  qed
  ultimately show ?thesis by blast
qed

definition sample_cj :: client_json where
  "sample_cj =
     \<lparr>cj_auth = (\<lambda>_. Inr []), cj_ensure = (\<lambda>_. Inr []), cj_window = (\<lambda>_. Inr []), cj_stream = (\<lambda>_. Inr []),
      cj_watch = (\<lambda>_. Inr []), cj_replace = (\<lambda>_. Inr []), cj_apply = (\<lambda>_. Inr []), cj_open = (\<lambda>_. Inr []),
      cj_report = (\<lambda>_. Inl (Sent ErrInvalid)), cj_cursor = (\<lambda>_. Inr (''e:0'', False)),
      cj_body = (\<lambda>b. Inr (b, False)),
      cj_event = (\<lambda>_. Inr (\<lparr>ev_cursor = ''e:1'', ev_op = 4, ev_path = ''a'', ev_from = ''''\<rparr>, False))\<rparr>"

text \<open>A client with one call on the wire, one terminal and one observation of grant \<open>a\<close>.\<close>

definition sample_client :: client where
  "sample_client =
     fst (watch_open sample_cj '''' ''a''
       (fst (attach_open sample_cj (Window 0 0) ''a''
         (fst (call_register '''' [] 0 0 (fst (call_ticket ''ready'' new_client)))))))"

lemma sample_client_run: "client_run sample_cj new_client sample_client"
proof -
  have "cstep sample_cj (fst (call_ticket ''ready'' new_client))
      (fst (call_register '''' [] 0 0 (fst (call_ticket ''ready'' new_client))))"
    by (rule cstep.register) (simp_all add: call_ticket_def new_client_def Let_def)
  then show ?thesis unfolding sample_client_def
    by (meson cstep.ticket cstep.attach cstep.watch rtranclp.rtrancl_into_rtrancl rtranclp.rtrancl_refl)
qed

lemmas sample_client_defs = sample_client_def watch_open_def attach_open_def call_register_def call_ticket_def
  new_client_def sample_cj_def encode_extra_def set_call_def Let_def

lemma client_loss_strands_nobody_witness:
  "call_wait None True 0 (fail_all sample_client) \<noteq> None \<and>
   snd (call_begin None 0 ''thaw'' ''a'' [] (fail_all sample_client)) = Inl (OpError ''thaw'' (Sent ErrConnection))"
proof -
  have l: "length (cl_calls (fail_all sample_client)) = 1"
    by (simp add: fail_all_def sample_client_defs)
  have "rc_status (cl_calls (fail_all sample_client) ! 0) = Sending"
    by (simp add: fail_all_def fail_call_def sample_client_defs)
  with l client_loss_strands_nobody [OF sample_client_run rtranclp.rtrancl_refl] show ?thesis by simp
qed

subsection \<open>One terminal, one observation\<close>

text \<open>
  At the caller too a grant has one terminal and one observation: in any run of the client two
  live terminals of a grant are the same, two unfailed observations of a grant are the
  same, and while there is one, another \<open>Attach\<close> or \<open>Watch\<close> is refused with \<open>ErrBusy\<close> and sends
  nothing.
\<close>

lemma client_single_terminal:
  assumes "client_run js new_client cl"
  shows "(\<forall>t < length (cl_rterms cl). \<forall>u < length (cl_rterms cl).
      live_rterm (cl_rterms cl ! t) \<and> live_rterm (cl_rterms cl ! u) \<and> rt_id (cl_rterms cl ! t) = rt_id (cl_rterms cl ! u)
      \<longrightarrow> t = u) \<and>
    (\<forall>b < length (cl_robs cl). \<forall>c < length (cl_robs cl).
      ro_failed (cl_robs cl ! b) = None \<and> ro_failed (cl_robs cl ! c) = None \<and>
      ro_id (cl_robs cl ! b) = ro_id (cl_robs cl ! c) \<longrightarrow> b = c) \<and>
    (\<forall>t < length (cl_rterms cl). live_rterm (cl_rterms cl ! t) \<and> rt_id (cl_rterms cl ! t) = g \<longrightarrow>
      (\<exists>e. snd (attach_open js win g cl) = Inl e) \<and> cl_rterms (fst (attach_open js win g cl)) = cl_rterms cl)"
proof -
  have ok: "terms_ok cl" "robs_ok cl" using client_reachable_ok [OF assms] by (simp_all add: client_ok_def)
  have t: "cl_terms cl (rt_id (cl_rterms cl ! t)) = Some t" if "t < length (cl_rterms cl)" "live_rterm (cl_rterms cl ! t)" for t
    using terms_okD(2) [OF ok(1) that(1)] that(2) by (simp add: rterm_ok_def)
  have b: "cl_obs cl (ro_id (cl_robs cl ! b)) = Some b" if "b < length (cl_robs cl)" "ro_failed (cl_robs cl ! b) = None" for b
    using robs_okD(2) [OF ok(2) that(1)] that(2) by (simp add: rob_ok_def)
  show ?thesis
  proof (intro conjI allI impI; elim conjE)
    fix t u
    assume "t < length (cl_rterms cl)" "u < length (cl_rterms cl)" "live_rterm (cl_rterms cl ! t)"
      "live_rterm (cl_rterms cl ! u)" "rt_id (cl_rterms cl ! t) = rt_id (cl_rterms cl ! u)"
    then show "t = u" by (metis t option.inject)
  next
    fix c e
    assume "c < length (cl_robs cl)" "e < length (cl_robs cl)" "ro_failed (cl_robs cl ! c) = None"
      "ro_failed (cl_robs cl ! e) = None" "ro_id (cl_robs cl ! c) = ro_id (cl_robs cl ! e)"
    then show "c = e" by (metis b option.inject)
  next
    fix t
    assume "t < length (cl_rterms cl)" "live_rterm (cl_rterms cl ! t)" "rt_id (cl_rterms cl ! t) = g"
    then have "cl_terms cl g = Some t" by (metis t)
    then show "\<exists>e. snd (attach_open js win g cl) = Inl e" "cl_rterms (fst (attach_open js win g cl)) = cl_rterms cl"
      by (auto simp: attach_open_def Let_def split: sum.split)
  qed
qed

lemma client_single_terminal_witness:
  "\<exists>e. snd (attach_open sample_cj (Window 80 24) ''a'' sample_client) = Inl e"
  using client_single_terminal [OF sample_client_run, of "''a''" "Window 80 24"]
  by (simp add: sample_client_defs live_rterm_def)

subsection \<open>The read loop and closing observations\<close>


text \<open>
  And there it does: \<open>Close\<close> shuts the channel first and takes the observation out of the map only
  when the \<open>unwatch\<close> call has returned; an event on its way meets the closed channel.
\<close>

definition sample_event_frame :: frame where
  "sample_event_frame = \<lparr>fr_seq = 0, fr_kind = KindWatch, fr_method = '''', fr_grant = ''a'', fr_stream = 2,
     fr_status = '''', fr_extra = [123], fr_deadline = 0\<rparr>"

lemma sample_event_valid:
  "validate_event \<lparr>ev_cursor = ''e:1'', ev_op = 4, ev_path = ''a'', ev_from = ''''\<rparr> = None"
  by code_simp

lemma client_close_race:
  "client_run sample_cj new_client (robs_close 0 sample_client) \<and>
   client_recv sample_cj sample_event_frame (robs_close 0 sample_client) = None"
proof
  have "cstep sample_cj sample_client (robs_close 0 sample_client)"
    by (rule cstep.obs_close) (simp add: sample_client_defs)
  with sample_client_run show "client_run sample_cj new_client (robs_close 0 sample_client)" by simp
  show "client_recv sample_cj sample_event_frame (robs_close 0 sample_client) = None"
    by (simp add: client_recv_def sample_event_frame_def deliver_watch_def robs_close_def robs_fail_eq shut_def
        robs_push_def sample_client_defs set_robs_def decode_extra_def max_frame_bytes_def
        sample_event_valid)
qed


subsection \<open>A call over the hop\<close>

text \<open>
  C26. A remote call is the local call. In any run of the client, a call whose request the server
  runs and answers, and whose answer is the next thing the client reads, returns exactly
  what the handler returned: its payload, or its error annotated with the method and
  with every sentinel kept.
\<close>

theorem remote_rpc_roundtrip:
  assumes "client_run js new_client cl" and "call_begin None d m g x cl = (cl1, Inr (i, f))"
    and "srv_handle ops sjs ctx f sc h = (s', r, cs)"
  shows "\<exists>y cl2 cl3. srv_run ops sjs ctx f (sc, h) = (s', [y], cs) \<and> client_recv js y cl1 = Some cl2 \<and>
    call_wait None p i cl2 =
      Some (cl3, case r of Inl e \<Rightarrow> Inl (OpError m (wire_error e)) | Inr v \<Rightarrow> Inr v)"
proof -
  let ?c = "\<lparr>rc_seq = cl_seq cl + 1, rc_method = m, rc_box = None, rc_status = Sending\<rparr>"
  have f: "fr_kind f = KindRequest" "fr_seq f = cl_seq cl + 1" "fr_method f = m" and i: "i = length (cl_calls cl)"
    and c: "cl_calls cl1 = cl_calls cl @ [?c]" "cl_pending cl1 (cl_seq cl + 1) = Some i"
    using assms(2) by (auto simp: call_begin_def call_ticket_def call_register_def Let_def nth_append split: if_splits)
  have s: "srv_run ops sjs ctx f (sc, h) = (s', [reply f r], cs)" using f assms(3) by (simp add: srv_run_def)
  have n: "cl_calls cl1 ! i = ?c" "i < length (cl_calls cl1)" using c i by (simp_all add: nth_append)
  have "client_recv js (reply f r) cl1 = Some (set_call i (?c\<lparr>rc_box := Some (reply f r)\<rparr>)
      (cl1\<lparr>cl_pending := (cl_pending cl1)(cl_seq cl + 1 := None)\<rparr>))" (is "_ = Some ?cl2")
    using f c n by (simp add: client_recv_def deliver_response_def answer_call_def reply_def Let_def)
  moreover have "call_wait None p i ?cl2 = Some (returned i (set_call i (?c\<lparr>rc_box := None\<rparr>) ?cl2), call_answer m (reply f r))"
    using n by (simp add: call_wait_def Let_def)
  moreover have "call_answer m (reply f r) = (case r of Inl e \<Rightarrow> Inl (OpError m (wire_error e)) | Inr v \<Rightarrow> Inr v)"
    by (cases r) (simp_all add: call_answer_def reply_def annotate_def error_from_status_of_Some)
  ultimately show ?thesis using s by auto
qed

lemma remote_rpc_roundtrip_witness:
  "\<exists>y cl2 cl3. srv_run (memory_ops ''r'' (\<lambda>m. (None, 1, 1)) False) sample_json None
      (sample_request ''freeze'' ''b'' 0 \<lparr>fr_seq := 1, fr_extra := []\<rparr>) (new_srv_conn, sample_granted) =
        ((new_srv_conn, sample_granted), [y], []) \<and>
     call_wait None True 0 cl2 = Some (cl3, Inl (OpError ''freeze'' (Sent ErrRevoked)))"
proof -
  let ?ops = "memory_ops ''r'' (\<lambda>m. (None, 1, 1)) False"
  let ?f = "sample_request ''freeze'' ''b'' 0 \<lparr>fr_seq := 1, fr_extra := []\<rparr>"
  have b: "call_begin None 0 ''freeze'' ''b'' [] new_client =
      (fst (call_begin None 0 ''freeze'' ''b'' [] new_client), Inr (0, ?f))"
    by (simp add: call_begin_def call_ticket_def call_register_def new_client_def sample_request_def Let_def)
  have "srv_handle ?ops sample_json None ?f new_srv_conn sample_granted =
      ((new_srv_conn, sample_granted), Inl (Sent ErrRevoked), [])"
    by (simp add: srv_handle_def sample_request_def srv_freeze_def on_env_def srv_env_def new_srv_conn_def refuse_def Let_def)
  from remote_rpc_roundtrip [OF rtranclp.rtrancl_refl b this, where p = True and js = sample_cj] show ?thesis
    by (simp del: split_paired_Ex) blast
qed

subsection \<open>Terminal bytes over the hop\<close>

text \<open>
  Terminal output crosses the hop unchanged. What one turn of the server's copier reads from a
  terminal, bytes and error together, arrives at a live terminal of that grant and stream as
  the same bytes after those already there, and the error as the reason of its end.
\<close>

lemma remote_pty_forward:
  assumes "client_run js new_client cl" and "copy_pty ops g s t h = Some (h', fs, go)"
    and "cl_terms cl g = Some u" and "rt_stream (cl_rterms cl ! u) = s" and "live_rterm (cl_rterms cl ! u)"
  shows "\<exists>bs err cl'. ho_term_read ops 32768 t h = Some (h', bs, err) \<and> (go \<longleftrightarrow> err = None) \<and>
    cl' = foldl (\<lambda>c f. the (client_recv js f c)) cl fs \<and>
    rt_buf (cl_rterms cl' ! u) = rt_buf (cl_rterms cl ! u) @ bs \<and>
    rt_dead (cl_rterms cl' ! u) = map_option wire_error err"
proof -
  have u: "u < length (cl_rterms cl)"
    using terms_okD(1) [OF _ assms(3)] client_reachable_ok [OF assms(1)] by (simp add: client_ok_def)
  obtain bs err where r: "ho_term_read ops 32768 t h = Some (h', bs, err)"
    and fs: "fs = (if bs \<noteq> [] then [pty_frame g s bs None] else []) @ (if err \<noteq> None then [pty_frame g s [] err] else [])"
      "go = (err = None)"
    using assms(2) by (auto simp: copy_pty_def split: option.splits)
  let ?x = "cl_rterms cl ! u"
  have push: "client_recv js (pty_frame g s bs None) cl = Some (set_rterm u (?x\<lparr>rt_buf := rt_buf ?x @ bs\<rparr>) cl)"
    using assms(3-5) by (simp add: client_recv_def pty_frame_def deliver_pty_def rterm_push_def live_rterm_def Let_def)
  have hang: "client_recv js (pty_frame g s [] (Some e)) c = Some (set_rterm u ((cl_rterms c ! u)\<lparr>rt_dead := Some (wire_error e)\<rparr>) c)"
    if "cl_terms c g = Some u" "rt_stream (cl_rterms c ! u) = s" "rt_dead (cl_rterms c ! u) = None" for c e
    using that by (simp add: client_recv_def pty_frame_def deliver_pty_def hangup_eq hung_def error_from_status_of_Some)
  have "let cl' = foldl (\<lambda>c f. the (client_recv js f c)) cl fs
    in rt_buf (cl_rterms cl' ! u) = rt_buf ?x @ bs \<and> rt_dead (cl_rterms cl' ! u) = map_option wire_error err"
    using push hang u assms(3-5) by (cases err) (auto simp: fs live_rterm_def)
  with r fs(2) show ?thesis by (auto simp: Let_def)
qed

lemma remote_pty_forward_witness:
  "\<exists>bs err cl'. rt_buf (cl_rterms cl' ! 0) = rt_buf (cl_rterms sample_client ! 0) @ bs \<and>
     bs = [104, 105] \<and> err = (None :: go_error option) \<and> cl' = foldl (\<lambda>c f. the (client_recv sample_cj f c)) sample_client [pty_frame ''a'' 1 [104, 105] None]"
proof -
  let ?ops = "memory_ops ''r'' (\<lambda>m. (None, 1, 1)) False \<lparr>ho_term_read := (\<lambda>n t m. Some (m, [104, 105], None))\<rparr>"
  have "copy_pty ?ops ''a'' 1 0 sample_granted = Some (sample_granted, [pty_frame ''a'' 1 [104, 105] None], True)"
    by (simp add: copy_pty_def)
  from remote_pty_forward [OF sample_client_run this] show ?thesis
    by (auto simp: sample_client_defs live_rterm_def)
qed

subsection \<open>Events over the hop\<close>

fun recv_all :: "client_json \<Rightarrow> frame list \<Rightarrow> client \<Rightarrow> client option" where
  "recv_all js [] cl = Some cl"
| "recv_all js (f # fs) cl = (case client_recv js f cl of None \<Rightarrow> None | Some cl' \<Rightarrow> recv_all js fs cl')"

text \<open>\<open>Next\<close> called \<open>n\<close> times with a context that stays open.\<close>

fun next_all :: "nat \<Rightarrow> nat \<Rightarrow> client \<Rightarrow> (client \<times> event list) option" where
  "next_all 0 b cl = Some (cl, [])"
| "next_all (Suc n) b cl =
     (case robs_next None False b cl of
        Some (cl', Inr ev) \<Rightarrow> map_option (\<lambda>(c, evs). (c, ev # evs)) (next_all n b cl')
      | _ \<Rightarrow> None)"

definition open_obs :: "client \<Rightarrow> grant_id \<Rightarrow> uint64 \<Rightarrow> nat \<Rightarrow> bool" where
  "open_obs cl g s b \<longleftrightarrow>
     cl_obs cl g = Some b \<and> b < length (cl_robs cl) \<and> ro_stream (cl_robs cl ! b) = s \<and> ro_id (cl_robs cl ! b) = g \<and>
     \<not> ro_shut (cl_robs cl ! b) \<and> ro_failed (cl_robs cl ! b) = None"

text \<open>An event whose frame decodes to it and that \<open>ValidateEvent\<close> accepts.\<close>

definition carries :: "client_json \<Rightarrow> bytes \<Rightarrow> event \<Rightarrow> bool" where
  "carries js x ev \<longleftrightarrow> decode_extra (cj_event js) zero_event x = Inr ev \<and> validate_event ev = None"

lemma recv_event:
  "open_obs cl g s b \<Longrightarrow> carries js x ev \<Longrightarrow> client_recv js (watch_frame g s x None) cl = robs_push ev b cl"
  by (simp add: open_obs_def carries_def client_recv_def watch_frame_def deliver_watch_def)

lemma recv_all_events:
  "list_all2 (carries js) xs evs \<Longrightarrow> open_obs cl g s b \<Longrightarrow>
   length (ro_queue (cl_robs cl ! b)) + length evs \<le> watch_buffer_remote \<Longrightarrow>
   recv_all js (map (\<lambda>x. watch_frame g s x None) xs) cl =
     Some (set_robs b ((cl_robs cl ! b)\<lparr>ro_queue := ro_queue (cl_robs cl ! b) @ evs\<rparr>) cl)"
proof (induction arbitrary: cl rule: list_all2_induct)
  case Nil
  then show ?case by (simp add: set_robs_def)
next
  case (Cons x xs ev evs)
  let ?cl = "set_robs b ((cl_robs cl ! b)\<lparr>ro_queue := ro_queue (cl_robs cl ! b) @ [ev]\<rparr>) cl"
  have "client_recv js (watch_frame g s x None) cl = Some ?cl"
    using Cons(4,5) recv_event [OF Cons(4,1)] by (simp add: robs_push_def open_obs_def Let_def)
  moreover have "open_obs ?cl g s b" using Cons(4) by (simp add: open_obs_def)
  moreover have "length (ro_queue (cl_robs ?cl ! b)) + length evs \<le> watch_buffer_remote"
    using Cons(4,5) by (simp add: open_obs_def)
  ultimately show ?case using Cons(3) [of ?cl] Cons(4) by (simp add: open_obs_def set_robs_def)
qed

lemma next_all_queue:
  "b < length (cl_robs cl) \<Longrightarrow> ro_failed (cl_robs cl ! b) = None \<Longrightarrow> ro_queue (cl_robs cl ! b) = evs @ rest \<Longrightarrow>
   \<exists>cl'. next_all (length evs) b cl = Some (cl', evs) \<and>
     ro_cursor (cl_robs cl' ! b) = (if evs = [] then ro_cursor (cl_robs cl ! b) else ev_cursor (last evs))"
proof (induction evs arbitrary: cl)
  case (Cons ev evs)
  let ?cl = "set_robs b ((cl_robs cl ! b)\<lparr>ro_queue := evs @ rest, ro_cursor := ev_cursor ev\<rparr>) cl"
  have n: "robs_next None False b cl = Some (?cl, Inr ev)"
    using Cons.prems by (simp add: robs_next_def robs_receive_def Let_def)
  from Cons.IH [of ?cl] Cons.prems obtain cl' where
    "next_all (length evs) b ?cl = Some (cl', evs)"
    "ro_cursor (cl_robs cl' ! b) = (if evs = [] then ev_cursor ev else ev_cursor (last evs))" by auto
  then show ?case using n by auto
qed simp

text \<open>
  Events cross the hop in order and none is lost while the buffer of 64 has room: after the
  frames of the server's copier have been read, \<open>Next\<close> yields first what was queued and then
  these events, and the cursor ends at the last one delivered.
\<close>

lemma remote_events_in_order:
  assumes "open_obs cl g s b" and "list_all2 (carries js) xs evs"
    and "length (ro_queue (cl_robs cl ! b)) + length evs \<le> watch_buffer_remote" and "evs \<noteq> []"
  shows "\<exists>cl1 cl2. recv_all js (map (\<lambda>x. watch_frame g s x None) xs) cl = Some cl1 \<and>
    next_all (length (ro_queue (cl_robs cl ! b)) + length evs) b cl1 = Some (cl2, ro_queue (cl_robs cl ! b) @ evs) \<and>
    ro_cursor (cl_robs cl2 ! b) = ev_cursor (last evs)"
proof -
  let ?q = "ro_queue (cl_robs cl ! b)"
  let ?cl1 = "set_robs b ((cl_robs cl ! b)\<lparr>ro_queue := ?q @ evs\<rparr>) cl"
  have "recv_all js (map (\<lambda>x. watch_frame g s x None) xs) cl = Some ?cl1"
    by (rule recv_all_events [OF assms(2,1,3)])
  moreover have "\<exists>cl2. next_all (length (?q @ evs)) b ?cl1 = Some (cl2, ?q @ evs) \<and>
      ro_cursor (cl_robs cl2 ! b) = ev_cursor (last (?q @ evs))"
    using next_all_queue [of b ?cl1 "?q @ evs" "[]"] assms(1,4) by (auto simp: open_obs_def)
  ultimately show ?thesis using assms(4) by auto
qed

lemma remote_events_in_order_witness:
  "\<exists>cl1 cl2. recv_all sample_cj [watch_frame ''a'' 2 [1] None] sample_client = Some cl1 \<and>
     next_all 1 0 cl1 = Some (cl2, [\<lparr>ev_cursor = ''e:1'', ev_op = 4, ev_path = ''a'', ev_from = ''''\<rparr>]) \<and>
     ro_cursor (cl_robs cl2 ! 0) = ''e:1''"
proof -
  have o: "open_obs sample_client ''a'' 2 0" by (simp add: open_obs_def sample_client_defs)
  have q: "ro_queue (cl_robs sample_client ! 0) = []" by (simp add: sample_client_defs)
  have c: "list_all2 (carries sample_cj) [[1]] [\<lparr>ev_cursor = ''e:1'', ev_op = 4, ev_path = ''a'', ev_from = ''''\<rparr>]"
    by (simp add: carries_def sample_cj_def decode_extra_def max_frame_bytes_def sample_event_valid)
  show ?thesis using remote_events_in_order [OF o c] q by (simp add: watch_buffer_remote_def)
qed

text \<open>
  C27. An event that finds the buffer full loses the observation, not its place: it leaves the map, every
  later \<open>Next\<close> says \<open>ErrLagged\<close>, the server is told to unwatch the stream, and the cursor stays at the last
  event delivered, so that the caller can watch again from there.
\<close>

theorem client_overflow_lags:
  assumes "open_obs cl g s b" and "carries js x ev" and "length (ro_queue (cl_robs cl ! b)) = watch_buffer_remote"
  shows "\<exists>cl'. client_recv js (watch_frame g s x None) cl = Some cl' \<and> cl_obs cl' g = None \<and>
    robs_next ctx p b cl' = Some (cl', Inl (OpError ''watch'' (Sent ErrLagged))) \<and>
    cl_unwatch cl' = cl_unwatch cl @ [(g, s)] \<and> ro_cursor (cl_robs cl' ! b) = ro_cursor (cl_robs cl ! b)"
proof -
  have "client_recv js (watch_frame g s x None) cl = Some (robs_abort (Sent ErrLagged) b cl)"
    using assms recv_event [OF assms(1,2)] by (simp add: robs_push_def open_obs_def Let_def)
  then show ?thesis using assms(1)
    by (simp add: robs_abort_def finish_observation_def robs_fail_eq shut_def open_obs_def robs_next_def Let_def set_robs_def)
qed

lemma client_overflow_lags_witness:
  "\<exists>cl'. client_recv sample_cj (watch_frame ''a'' 2 [1] None)
      (set_robs 0 ((cl_robs sample_client ! 0)\<lparr>ro_queue := replicate 64 zero_event\<rparr>) sample_client) = Some cl' \<and>
     cl_obs cl' ''a'' = None"
proof -
  let ?cl = "set_robs 0 ((cl_robs sample_client ! 0)\<lparr>ro_queue := replicate 64 zero_event\<rparr>) sample_client"
  have o: "open_obs ?cl ''a'' 2 0" by (simp add: open_obs_def sample_client_defs)
  have c: "carries sample_cj [1] \<lparr>ev_cursor = ''e:1'', ev_op = 4, ev_path = ''a'', ev_from = ''''\<rparr>"
    by (simp add: carries_def sample_cj_def decode_extra_def max_frame_bytes_def sample_event_valid)
  have q: "length (ro_queue (cl_robs ?cl ! 0)) = watch_buffer_remote"
    by (simp add: sample_client_defs watch_buffer_remote_def)
  show ?thesis using client_overflow_lags [OF o c q, of None False] by blast
qed

subsection \<open>The cursor of a fresh watch\<close>

text \<open>
  The server reads the cursor of an observation after it has started the copier. If the copier takes
  the first event before that, the answer carries the cursor of an event the caller has not
  been given yet.
\<close>

lemma watch_cursor_race:
  assumes "b < length (ms_obs m)" and "ob_queue (ms_obs m ! b) = ev # rest" and "ob_err (ms_obs m ! b) = None"
    and "js_event js ev = Inr x" and "length x \<le> max_frame_bytes - fixed_frame_bytes"
  shows "\<exists>m'. copy_watch (memory_ops r d p) js None g s b m = Some (m', Some (watch_frame g s x None), True) \<and>
    srv_watch_reply (memory_ops r d p) js b m' = encode_extra (Some (js_cursor js (ev_cursor ev)))"
  using assms by (simp add: copy_watch_def srv_watch_reply_def memory_ops_def obs_next_def next_check_def next_select_def
      next_receive_def set_obs_def encode_extra_def Let_def)

end
