(* ===== verification/Isolated_Network.thy ===== *)
theory Isolated_Network
  imports Watch_Log
begin

unbundle bit_operations_syntax

text \<open>
  The network of an isolated grant (\<open>isolated/network.go\<close>, \<open>isolated/network_linux.go\<close>): reading the
  operator's destinations, and the tap device, filter chain and address translation rules one
  grant gets. The commands \<open>ip\<close> and \<open>iptables\<close> act on a state of devices and rules; any of them
  may fail, and between any two of them other commands may run. The parts of \<open>net\<close> the code
  calls (\<open>ParseCIDR\<close>, \<open>ParseIP\<close>, \<open>To4\<close>, \<open>Contains\<close>) are written out.
\<close>

subsection \<open>Destinations\<close>

text \<open>\<open>net.IPNet\<close> of an IPv4 network: its masked address and the number of mask bits.\<close>

record ipnet =
  ip_addr :: uint32
  ip_bits :: nat

datatype ip_addr_text = V4 uint32 | V6 "nat list"

definition octet_ok :: "string \<Rightarrow> bool" where
  "octet_ok p \<longleftrightarrow> p \<noteq> [] \<and> list_all is_digit p \<and> (length p > 1 \<longrightarrow> hd p \<noteq> CHR ''0'') \<and> digits_value p \<le> 255"

definition parse_v4 :: "string \<Rightarrow> nat list option" where
  "parse_v4 s =
     (let ps = split_on CHR ''.'' s
      in if length ps = 4 \<and> list_all octet_ok ps then Some (map digits_value ps) else None)"

definition word_of_octets :: "nat list \<Rightarrow> uint32" where
  "word_of_octets os = foldl (\<lambda>w b. w * 256 + word_of_nat b) 0 os"

definition hex_nibble :: "char \<Rightarrow> nat option" where
  "hex_nibble c =
     (if ord_of CHR ''0'' \<le> ord_of c \<and> ord_of c \<le> ord_of CHR ''9'' then Some (ord_of c - ord_of CHR ''0'')
      else if ord_of CHR ''a'' \<le> ord_of c \<and> ord_of c \<le> ord_of CHR ''f'' then Some (ord_of c - ord_of CHR ''a'' + 10)
      else if ord_of CHR ''A'' \<le> ord_of c \<and> ord_of c \<le> ord_of CHR ''F'' then Some (ord_of c - ord_of CHR ''A'' + 10)
      else None)"

definition is_hex :: "char \<Rightarrow> bool" where
  "is_hex c \<longleftrightarrow> hex_nibble c \<noteq> None"

definition hex_value :: "char \<Rightarrow> nat" where
  "hex_value c = (case hex_nibble c of None \<Rightarrow> 0 | Some n \<Rightarrow> n)"

text \<open>
  The loop of \<open>netip\<close>'s IPv6 parser over the groups that are left: the octets so far, where the
  ellipsis was, and the rest of the text.
\<close>

fun v6_loop :: "nat \<Rightarrow> string \<Rightarrow> nat list \<Rightarrow> nat option \<Rightarrow> (nat list \<times> nat option \<times> string) option" where
  "v6_loop 0 s octets ell = Some (octets, ell, s)"
| "v6_loop (Suc n) s octets ell =
     (let group = takeWhile is_hex s; rest = dropWhile is_hex s;
          acc = foldl (\<lambda>a c. 16 * a + hex_value c) 0 group in
      if group = [] \<or> length group > 4 then None
      else if rest \<noteq> [] \<and> hd rest = CHR ''.'' then
        (if ell = None \<and> length octets \<noteq> 12 then None
         else if length octets + 4 > 16 then None
         else (case parse_v4 s of None \<Rightarrow> None | Some os \<Rightarrow> Some (octets @ os, ell, [])))
      else
        (let octets = octets @ [acc div 256, acc mod 256] in
         if rest = [] then Some (octets, ell, [])
         else if hd rest \<noteq> CHR '':'' \<or> length rest = 1 then None
         else
           (let rest = tl rest in
            if hd rest = CHR '':'' then
              (if ell \<noteq> None then None
               else if tl rest = [] then Some (octets, Some (length octets), [])
               else v6_loop n (tl rest) octets (Some (length octets)))
            else v6_loop n rest octets ell)))"

definition parse_v6 :: "string \<Rightarrow> nat list option" where
  "parse_v6 s =
     (let lead = take 2 s = ''::''; s' = (if lead then drop 2 s else s) in
      if lead \<and> s' = [] then Some (replicate 16 0)
      else (case v6_loop 8 s' [] (if lead then Some 0 else None) of
              None \<Rightarrow> None
            | Some (octets, ell, rest) \<Rightarrow>
                if rest \<noteq> [] then None
                else if length octets < 16 then
                  (case ell of
                     None \<Rightarrow> None
                   | Some k \<Rightarrow> Some (take k octets @ replicate (16 - length octets) 0 @ drop k octets))
                else if ell \<noteq> None then None else Some octets))"

text \<open>\<open>netip.ParseAddr\<close>; an address with a zone is refused by both callers.\<close>

definition parse_addr :: "string \<Rightarrow> ip_addr_text option" where
  "parse_addr s =
     (case dropWhile (\<lambda>c. c \<noteq> CHR ''.'' \<and> c \<noteq> CHR '':'' \<and> c \<noteq> CHR ''%'') s of
        [] \<Rightarrow> None
      | c # _ \<Rightarrow>
          if c = CHR ''.'' then map_option (\<lambda>os. V4 (word_of_octets os)) (parse_v4 s)
          else if c = CHR '':'' \<and> CHR ''%'' \<notin> set s then map_option V6 (parse_v6 s)
          else None)"

text \<open>\<open>To4\<close> of a 16-byte address: the last four octets of an IPv4-mapped one.\<close>

definition to4 :: "nat list \<Rightarrow> uint32 option" where
  "to4 os = (if take 12 os = replicate 10 0 @ [255, 255] then Some (word_of_octets (drop 12 os)) else None)"

definition mask_addr :: "nat \<Rightarrow> uint32 \<Rightarrow> uint32" where
  "mask_addr bits w = push_bit (32 - bits) (drop_bit (32 - bits) w)"

text \<open>\<open>net.ParseCIDR\<close>: \<open>Some None\<close> is a network that is not an IPv4 one.\<close>

definition parse_cidr :: "string \<Rightarrow> ipnet option option" where
  "parse_cidr s =
     (if CHR ''/'' \<notin> set s then None
      else
        (let addr = takeWhile (\<lambda>c. c \<noteq> CHR ''/'') s; bits = tl (dropWhile (\<lambda>c. c \<noteq> CHR ''/'') s) in
         if bits = [] \<or> \<not> list_all is_digit bits then None
         else (case parse_addr addr of
                 None \<Rightarrow> None
               | Some (V4 w) \<Rightarrow>
                   if digits_value bits > 32 then None
                   else Some (Some \<lparr>ip_addr = mask_addr (digits_value bits) w, ip_bits = digits_value bits\<rparr>)
               | Some (V6 os) \<Rightarrow>
                   if digits_value bits > 128 then None
                   else if digits_value bits < 96 then Some None
                   else (case to4 os of
                           None \<Rightarrow> Some None
                         | Some w \<Rightarrow>
                             Some (Some \<lparr>ip_addr = mask_addr (digits_value bits - 96) w, ip_bits = digits_value bits - 96\<rparr>)))))"

definition parse_dest :: "string \<Rightarrow> ipnet res" where
  "parse_dest raw =
     (if raw = '''' then Inl (Sent ErrInvalid)
      else (case parse_cidr raw of
              Some None \<Rightarrow> Inl (Sent ErrInvalid)
            | Some (Some n) \<Rightarrow> Inr n
            | None \<Rightarrow>
                (case parse_addr raw of
                   None \<Rightarrow> Inl (Sent ErrInvalid)
                 | Some (V4 w) \<Rightarrow> Inr \<lparr>ip_addr = w, ip_bits = 32\<rparr>
                 | Some (V6 os) \<Rightarrow>
                     (case to4 os of
                        None \<Rightarrow> Inl (Sent ErrInvalid)
                      | Some w \<Rightarrow> Inr \<lparr>ip_addr = w, ip_bits = 32\<rparr>))))"

fun parse_allow :: "string list \<Rightarrow> ipnet list res" where
  "parse_allow [] = Inr []"
| "parse_allow (raw # rest) =
     (case parse_dest raw of
        Inl e \<Rightarrow> Inl e
      | Inr n \<Rightarrow> (case parse_allow rest of Inl e \<Rightarrow> Inl e | Inr ns \<Rightarrow> Inr (n # ns)))"

definition net_contains :: "ipnet \<Rightarrow> uint32 \<Rightarrow> bool" where
  "net_contains n w \<longleftrightarrow> mask_addr (ip_bits n) w = mask_addr (ip_bits n) (ip_addr n)"

fun contains_ip :: "ipnet list \<Rightarrow> uint32 \<Rightarrow> bool" where
  "contains_ip [] w = False"
| "contains_ip (n # ns) w = (if net_contains n w then True else contains_ip ns w)"

lemma contains_ip_ex: "contains_ip ns w \<longleftrightarrow> (\<exists>n \<in> set ns. net_contains n w)"
  by (induction ns) auto

subsection \<open>The plan of an attachment\<close>

record net_attach =
  at_dev :: string
  at_mac :: string
  at_guest_ip :: string
  at_host_ip :: string
  at_prefix :: nat
  at_allow :: "ipnet list"

text \<open>\<open>guestCID\<close>: \<open>digest\<close> is the first four bytes of the id's SHA-256.\<close>

definition guest_cid :: "uint32 \<Rightarrow> uint32" where
  "guest_cid digest = (if digest < 3 then digest + 3 else digest)"

definition plan_octet :: "uint32 \<Rightarrow> nat" where
  "plan_octet cid = unat (word_of_nat (unat (cid mod 200 + 20)) :: byte)"

definition plan_dev :: "uint32 \<Rightarrow> string" where
  "plan_dev cid = CHR ''e'' # hex_encode (put_uint 4 cid)"

definition plan_attach :: "uint32 \<Rightarrow> ipnet list \<Rightarrow> net_attach" where
  "plan_attach digest allow =
     (let cid = guest_cid digest; octet = plan_octet cid
      in \<lparr>at_dev = plan_dev cid,
          at_mac = ''06:00:ac:10:'' @ hex_encode [word_of_nat octet] @ '':02'',
          at_guest_ip = ''169.254.'' @ format_uint octet @ ''.2'',
          at_host_ip = ''169.254.'' @ format_uint octet @ ''.1'',
          at_prefix = 30, at_allow = allow\<rparr>)"

definition filter_chain :: "string \<Rightarrow> string" where
  "filter_chain dev = take 28 (CHR ''E'' # (if take 1 dev = ''e'' then drop 1 dev else dev))"

definition guest_net :: "net_attach \<Rightarrow> string" where
  "guest_net att = at_host_ip att @ ''/'' @ format_uint (at_prefix att)"

lemma plan_octet_range: "20 \<le> plan_octet cid \<and> plan_octet cid < 220"
proof -
  have lt: "unat (cid mod 200) < 200" by (simp add: unat_mod)
  have "unat (cid mod 200 + 20) = unat (cid mod 200) + 20"
    using lt by (simp add: unat_word_ariths)
  then have "plan_octet cid = unat (cid mod 200) + 20"
    unfolding plan_octet_def using lt by (simp only: unat_of_nat) simp
  with lt show ?thesis by simp
qed

lemma guest_cid_min: "3 \<le> guest_cid digest"
  by (cases "digest < 3") (auto simp: guest_cid_def word_less_nat_alt word_le_nat_alt unat_word_ariths)

subsection \<open>Devices and rules\<close>

datatype target = Accept | Drop | Masquerade | Jump string

record rule =
  ru_in :: "string option"
  ru_out :: "string option"
  ru_src :: "string option"
  ru_dst :: "ipnet option"
  ru_tracked :: bool
  ru_target :: target

definition any_rule :: "target \<Rightarrow> rule" where
  "any_rule t = \<lparr>ru_in = None, ru_out = None, ru_src = None, ru_dst = None, ru_tracked = False, ru_target = t\<rparr>"

text \<open>The rules of one grant; \<open>ru_tracked\<close> is \<open>-m conntrack --ctstate ESTABLISHED,RELATED\<close>.\<close>

definition dest_rule :: "ipnet \<Rightarrow> rule" where
  "dest_rule n = (any_rule Accept)\<lparr>ru_dst := Some n\<rparr>"

definition in_rule :: "string \<Rightarrow> string \<Rightarrow> rule" where
  "in_rule iface chain = (any_rule (Jump chain))\<lparr>ru_in := Some iface\<rparr>"

definition out_rule :: "string \<Rightarrow> rule" where
  "out_rule iface = (any_rule Accept)\<lparr>ru_out := Some iface, ru_tracked := True\<rparr>"

definition nat_rule :: "string \<Rightarrow> ipnet \<Rightarrow> rule" where
  "nat_rule net n = (any_rule Masquerade)\<lparr>ru_src := Some net, ru_dst := Some n\<rparr>"

text \<open>The command lines the code runs; \<open>Insert\<close> is at position 1.\<close>

datatype net_cmd =
    TapAdd string
  | LinkDelete string
  | AddrAdd string string
  | LinkUp string
  | NewChain string
  | AppendRule string rule
  | InsertRule string rule
  | DeleteRule string rule
  | FlushChain string
  | DeleteChain string
  | NatAppend rule
  | NatDelete rule

record net_state =
  nt_devs :: "string list"
  nt_addrs :: "(string \<times> string) list"
  nt_up :: "string list"
  nt_chains :: "string \<rightharpoonup> rule list"
  nt_nat :: "rule list"
  nt_clock :: nat

text \<open>What the kernel refuses.\<close>

definition jump_ok :: "(string \<rightharpoonup> rule list) \<Rightarrow> rule \<Rightarrow> bool" where
  "jump_ok tbl r = (case ru_target r of Jump c \<Rightarrow> tbl c \<noteq> None | _ \<Rightarrow> True)"

definition referenced :: "(string \<rightharpoonup> rule list) \<Rightarrow> string \<Rightarrow> bool" where
  "referenced tbl c \<longleftrightarrow> (\<exists>k rs. tbl k = Some rs \<and> (\<exists>r \<in> set rs. ru_target r = Jump c))"

fun refused :: "net_cmd \<Rightarrow> net_state \<Rightarrow> bool" where
  "refused (TapAdd d) st = (d \<in> set (nt_devs st))"
| "refused (LinkDelete d) st = (d \<notin> set (nt_devs st))"
| "refused (AddrAdd a d) st = (d \<notin> set (nt_devs st) \<or> (a, d) \<in> set (nt_addrs st))"
| "refused (LinkUp d) st = (d \<notin> set (nt_devs st))"
| "refused (NewChain c) st = (nt_chains st c \<noteq> None)"
| "refused (AppendRule c r) st = (nt_chains st c = None \<or> \<not> jump_ok (nt_chains st) r)"
| "refused (InsertRule c r) st = (nt_chains st c = None \<or> \<not> jump_ok (nt_chains st) r)"
| "refused (DeleteRule c r) st = (case nt_chains st c of None \<Rightarrow> True | Some rs \<Rightarrow> r \<notin> set rs)"
| "refused (FlushChain c) st = (nt_chains st c = None)"
| "refused (DeleteChain c) st = (nt_chains st c \<noteq> Some [] \<or> referenced (nt_chains st) c)"
| "refused (NatAppend r) st = False"
| "refused (NatDelete r) st = (r \<notin> set (nt_nat st))"

definition upd_chain :: "string \<Rightarrow> (rule list \<Rightarrow> rule list) \<Rightarrow> net_state \<Rightarrow> net_state" where
  "upd_chain c f st = st\<lparr>nt_chains := (nt_chains st)(c := map_option f (nt_chains st c))\<rparr>"

fun effect :: "net_cmd \<Rightarrow> net_state \<Rightarrow> net_state" where
  "effect (TapAdd d) st = st\<lparr>nt_devs := d # nt_devs st\<rparr>"
| "effect (LinkDelete d) st = st\<lparr>nt_devs := filter (\<lambda>x. x \<noteq> d) (nt_devs st),
     nt_addrs := filter (\<lambda>p. snd p \<noteq> d) (nt_addrs st), nt_up := filter (\<lambda>x. x \<noteq> d) (nt_up st)\<rparr>"
| "effect (AddrAdd a d) st = st\<lparr>nt_addrs := (a, d) # nt_addrs st\<rparr>"
| "effect (LinkUp d) st = st\<lparr>nt_up := d # filter (\<lambda>x. x \<noteq> d) (nt_up st)\<rparr>"
| "effect (NewChain c) st = st\<lparr>nt_chains := (nt_chains st)(c \<mapsto> [])\<rparr>"
| "effect (AppendRule c r) st = upd_chain c (\<lambda>rs. rs @ [r]) st"
| "effect (InsertRule c r) st = upd_chain c (\<lambda>rs. r # rs) st"
| "effect (DeleteRule c r) st = upd_chain c (remove1 r) st"
| "effect (FlushChain c) st = upd_chain c (\<lambda>_. []) st"
| "effect (DeleteChain c) st = st\<lparr>nt_chains := (nt_chains st)(c := None)\<rparr>"
| "effect (NatAppend r) st = st\<lparr>nt_nat := nt_nat st @ [r]\<rparr>"
| "effect (NatDelete r) st = st\<lparr>nt_nat := remove1 r (nt_nat st)\<rparr>"

definition perform :: "net_cmd \<Rightarrow> net_state \<Rightarrow> net_state" where
  "perform c st = (if refused c st then st else effect c st)"

text \<open>
  What else happens, by the number of commands run so far: the commands other callers run just
  before, whether this one breaks though the kernel would take it, and what it says when it fails.
\<close>

record surroundings =
  su_others :: "nat \<Rightarrow> net_cmd list"
  su_broken :: "nat \<Rightarrow> bool"
  su_says :: "nat \<Rightarrow> string"

definition run_cmd :: "surroundings \<Rightarrow> net_cmd \<Rightarrow> net_state \<Rightarrow> net_state \<times> go_error option" where
  "run_cmd su c st =
     (let k = nt_clock st; st1 = fold perform (su_others su k) (st\<lparr>nt_clock := Suc k\<rparr>) in
      if su_broken su k \<or> refused c st1 then (st1, Some (Foreign (su_says su k))) else (effect c st1, None))"

text \<open>Commands one after another, up to the first that fails; or all of them, whatever they answer.\<close>

fun run_all :: "surroundings \<Rightarrow> net_cmd list \<Rightarrow> net_state \<Rightarrow> net_state \<times> go_error option" where
  "run_all su [] st = (st, None)"
| "run_all su (c # cs) st =
     (case run_cmd su c st of (st1, Some e) \<Rightarrow> (st1, Some e) | (st1, None) \<Rightarrow> run_all su cs st1)"

fun run_each :: "surroundings \<Rightarrow> net_cmd list \<Rightarrow> net_state \<Rightarrow> net_state" where
  "run_each su [] st = st"
| "run_each su (c # cs) st = run_each su cs (fst (run_cmd su c st))"

subsection \<open>Setting up and taking down\<close>

definition remove_filter_cmds :: "string \<Rightarrow> string \<Rightarrow> net_cmd list" where
  "remove_filter_cmds iface chain =
     [DeleteRule ''FORWARD'' (in_rule iface chain), DeleteRule ''FORWARD'' (out_rule iface),
      DeleteRule ''INPUT'' (in_rule iface chain), FlushChain chain, DeleteChain chain]"

definition remove_filter :: "surroundings \<Rightarrow> string \<Rightarrow> string \<Rightarrow> net_state \<Rightarrow> net_state" where
  "remove_filter su iface chain st = run_each su (remove_filter_cmds iface chain) st"

definition filter_cmds :: "string \<Rightarrow> string \<Rightarrow> ipnet list \<Rightarrow> net_cmd list" where
  "filter_cmds iface chain allow =
     map (\<lambda>n. AppendRule chain (dest_rule n)) allow @
     [AppendRule chain (any_rule Drop), InsertRule ''FORWARD'' (in_rule iface chain),
      InsertRule ''FORWARD'' (out_rule iface), InsertRule ''INPUT'' (in_rule iface chain)]"

definition install_filter :: "surroundings \<Rightarrow> string \<Rightarrow> string \<Rightarrow> ipnet list \<Rightarrow> net_state \<Rightarrow> net_state \<times> go_error option" where
  "install_filter su iface chain allow st =
     (case run_cmd su (NewChain chain) st of
        (st1, Some e) \<Rightarrow> (st1, Some e)
      | (st1, None) \<Rightarrow>
          (case run_all su (filter_cmds iface chain allow) st1 of
             (st2, Some e) \<Rightarrow> (remove_filter su iface chain st2, Some e)
           | (st2, None) \<Rightarrow> (st2, None)))"

definition remove_nat :: "surroundings \<Rightarrow> string \<Rightarrow> ipnet list \<Rightarrow> net_state \<Rightarrow> net_state" where
  "remove_nat su net allow st = run_each su (map (\<lambda>n. NatDelete (nat_rule net n)) allow) st"

definition install_nat :: "surroundings \<Rightarrow> string \<Rightarrow> ipnet list \<Rightarrow> net_state \<Rightarrow> net_state \<times> go_error option" where
  "install_nat su net allow st =
     (case run_all su (map (\<lambda>n. NatAppend (nat_rule net n)) allow) st of
        (st1, Some e) \<Rightarrow> (remove_nat su net allow st1, Some e)
      | (st1, None) \<Rightarrow> (st1, None))"

text \<open>
  The cleanup functions are run in the reverse order of their registration. Switching IPv6 off and
  forwarding on are writes to \<open>/proc\<close> whose result the code ignores; they are not in the state.
\<close>

definition delete_link :: "surroundings \<Rightarrow> net_attach \<Rightarrow> net_state \<Rightarrow> net_state" where
  "delete_link su att st = fst (run_cmd su (LinkDelete (at_dev att)) st)"

definition close_attach :: "surroundings \<Rightarrow> net_attach \<Rightarrow> net_state \<Rightarrow> net_state" where
  "close_attach su att st =
     delete_link su att
       (remove_filter su (at_dev att) (filter_chain (at_dev att)) (remove_nat su (guest_net att) (at_allow att) st))"

definition setup_allowlist :: "surroundings \<Rightarrow> uint32 \<Rightarrow> string list \<Rightarrow> net_state \<Rightarrow> net_state \<times> net_attach res" where
  "setup_allowlist su digest dests st =
     (case parse_allow dests of
        Inl e \<Rightarrow> (st, Inl e)
      | Inr allow \<Rightarrow>
          if allow = [] then (st, Inl (Sent ErrNetwork))
          else
            (let att = plan_attach digest allow; dev = at_dev att; chain = filter_chain dev in
             case run_cmd su (TapAdd dev) st of
               (st1, Some e) \<Rightarrow> (st1, Inl e)
             | (st1, None) \<Rightarrow>
                 (case run_all su [AddrAdd (guest_net att) dev, LinkUp dev] st1 of
                    (st2, Some e) \<Rightarrow> (delete_link su att st2, Inl e)
                  | (st2, None) \<Rightarrow>
                      (case install_filter su dev chain allow st2 of
                         (st3, Some e) \<Rightarrow> (delete_link su att st3, Inl e)
                       | (st3, None) \<Rightarrow>
                           (case install_nat su (guest_net att) allow st3 of
                              (st4, Some e) \<Rightarrow> (delete_link su att (remove_filter su dev chain st4), Inl e)
                            | (st4, None) \<Rightarrow> (st4, Inr att))))))"

subsection \<open>What the rules do with a packet\<close>

record packet =
  pk_in :: string
  pk_out :: string
  pk_dst :: uint32
  pk_tracked :: bool

definition matches :: "rule \<Rightarrow> packet \<Rightarrow> bool" where
  "matches r p \<longleftrightarrow>
     (case ru_in r of None \<Rightarrow> True | Some d \<Rightarrow> pk_in p = d) \<and>
     (case ru_out r of None \<Rightarrow> True | Some d \<Rightarrow> pk_out p = d) \<and>
     (case ru_dst r of None \<Rightarrow> True | Some n \<Rightarrow> net_contains n (pk_dst p)) \<and>
     (ru_tracked r \<longrightarrow> pk_tracked p)"

text \<open>
  The walk through a chain of the filter table, the first number bounding how deep chains nest;
  \<open>None\<close> when no rule decides, and the calling chain goes on.
\<close>

fun walk :: "nat \<Rightarrow> (string \<rightharpoonup> rule list) \<Rightarrow> packet \<Rightarrow> rule list \<Rightarrow> target option" where
  "walk n tbl p [] = None"
| "walk n tbl p (r # rs) =
     (if \<not> matches r p then walk n tbl p rs
      else (case ru_target r of
              Accept \<Rightarrow> Some Accept
            | Drop \<Rightarrow> Some Drop
            | Masquerade \<Rightarrow> walk n tbl p rs
            | Jump c \<Rightarrow>
                (case n of
                   0 \<Rightarrow> None
                 | Suc m \<Rightarrow>
                     (case walk m tbl p (case tbl c of None \<Rightarrow> [] | Some body \<Rightarrow> body) of
                        Some v \<Rightarrow> Some v
                      | None \<Rightarrow> walk n tbl p rs))))"

end
