(* ===== verification/Network_Props.thy ===== *)
theory Network_Props
  imports Isolated_Network
begin

text \<open>
  What the network of an isolated grant guarantees: a machine that gets a device at all is
  confined to the operator's destinations, whatever other grants' commands run before, between and
  after its own and whichever commands fail; and a set-up that fails takes back what it did.
\<close>

subsection \<open>Commands of other grants\<close>

text \<open>The commands the code issues for the attachment with device \<open>d\<close>.\<close>

fun issued_for :: "string \<Rightarrow> net_cmd \<Rightarrow> bool" where
  "issued_for d (TapAdd x) = (x = d)"
| "issued_for d (LinkDelete x) = (x = d)"
| "issued_for d (AddrAdd a x) = (x = d)"
| "issued_for d (LinkUp x) = (x = d)"
| "issued_for d (NewChain c) = (c = filter_chain d)"
| "issued_for d (AppendRule c r) = (c = filter_chain d)"
| "issued_for d (InsertRule c r) = (c \<in> {''FORWARD'', ''INPUT''} \<and> r \<in> {in_rule d (filter_chain d), out_rule d})"
| "issued_for d (DeleteRule c r) = (c \<in> {''FORWARD'', ''INPUT''} \<and> r \<in> {in_rule d (filter_chain d), out_rule d})"
| "issued_for d (FlushChain c) = (c = filter_chain d)"
| "issued_for d (DeleteChain c) = (c = filter_chain d)"
| "issued_for d (NatAppend r) = True"
| "issued_for d (NatDelete r) = True"

lemma issued_filter: "c \<in> set (filter_cmds d (filter_chain d) allow) \<Longrightarrow> issued_for d c"
  by (auto simp: filter_cmds_def)

lemma issued_remove: "c \<in> set (remove_filter_cmds d (filter_chain d)) \<Longrightarrow> issued_for d c"
  by (auto simp: remove_filter_cmds_def)

text \<open>A command of the grant of some other device the code plans.\<close>

definition foreign_cmd :: "string \<Rightarrow> net_cmd \<Rightarrow> bool" where
  "foreign_cmd d c \<longleftrightarrow> (\<exists>cid. plan_dev cid \<noteq> d \<and> issued_for (plan_dev cid) c)"

lemma length_hex_encode [simp]: "length (hex_encode bs) = 2 * length bs"
  by (induction bs) (auto simp: hex_encode_def)

lemma filter_chain_plan: "filter_chain (plan_dev cid) = CHR ''E'' # hex_encode (put_uint 4 cid)"
  by (simp add: filter_chain_def plan_dev_def)

lemma filter_chain_inj: "filter_chain (plan_dev a) = filter_chain (plan_dev b) \<longleftrightarrow> plan_dev a = plan_dev b"
  by (simp only: filter_chain_plan) (simp add: plan_dev_def)

lemma filter_chain_builtin [simp]:
  "filter_chain (plan_dev a) \<noteq> ''FORWARD''" "filter_chain (plan_dev a) \<noteq> ''INPUT''"
  "''FORWARD'' \<noteq> filter_chain (plan_dev a)" "''INPUT'' \<noteq> filter_chain (plan_dev a)"
  by (simp_all add: filter_chain_plan)

lemma nt_chains_upd: "nt_chains (upd_chain c f st) k = (if k = c then map_option f (nt_chains st c) else nt_chains st k)"
  by (simp add: upd_chain_def)

text \<open>They leave the grant's own chain as it is.\<close>

lemma foreign_chain:
  assumes "foreign_cmd (plan_dev a) c"
  shows "nt_chains (perform c st) (filter_chain (plan_dev a)) = nt_chains st (filter_chain (plan_dev a))"
proof -
  obtain b where b: "plan_dev b \<noteq> plan_dev a" "issued_for (plan_dev b) c"
    using assms by (auto simp: foreign_cmd_def)
  then have ne: "filter_chain (plan_dev a) \<noteq> filter_chain (plan_dev b)" using filter_chain_inj by metis
  show ?thesis using b(2) ne by (cases c) (auto simp: perform_def nt_chains_upd)
qed

subsection \<open>The hook into a built-in chain\<close>

text \<open>A rule that does not look at new packets from the device.\<close>

definition quiet :: "string \<Rightarrow> rule \<Rightarrow> bool" where
  "quiet d r \<longleftrightarrow> ru_tracked r \<or> (\<exists>x. ru_in r = Some x \<and> x \<noteq> d)"

definition hooked :: "string \<Rightarrow> (string \<rightharpoonup> rule list) \<Rightarrow> string \<Rightarrow> bool" where
  "hooked d tbl k \<longleftrightarrow> (\<exists>pre post. tbl k = Some (pre @ in_rule d (filter_chain d) # post) \<and> (\<forall>r \<in> set pre. quiet d r))"

lemma hooked_insert: "hooked d tbl k \<Longrightarrow> tbl' k = map_option (\<lambda>rs. r # rs) (tbl k) \<Longrightarrow> quiet d r \<Longrightarrow> hooked d tbl' k"
  unfolding hooked_def
proof (elim exE conjE)
  fix pre post
  assume "tbl' k = map_option (\<lambda>rs. r # rs) (tbl k)" "quiet d r"
    "tbl k = Some (pre @ in_rule d (filter_chain d) # post)" "\<forall>r\<in>set pre. quiet d r"
  then have "tbl' k = Some ((r # pre) @ in_rule d (filter_chain d) # post) \<and> (\<forall>r \<in> set (r # pre). quiet d r)" by simp
  then show "\<exists>pre post. tbl' k = Some (pre @ in_rule d (filter_chain d) # post) \<and> (\<forall>r \<in> set pre. quiet d r)" by blast
qed

lemma hooked_delete: "hooked d tbl k \<Longrightarrow> tbl' k = map_option (remove1 r) (tbl k) \<Longrightarrow> r \<noteq> in_rule d (filter_chain d) \<Longrightarrow> hooked d tbl' k"
  unfolding hooked_def
proof (elim exE conjE)
  fix pre post
  assume a: "tbl' k = map_option (remove1 r) (tbl k)" "r \<noteq> in_rule d (filter_chain d)"
    "tbl k = Some (pre @ in_rule d (filter_chain d) # post)" "\<forall>r\<in>set pre. quiet d r"
  show "\<exists>pre post. tbl' k = Some (pre @ in_rule d (filter_chain d) # post) \<and> (\<forall>r \<in> set pre. quiet d r)"
  proof (cases "r \<in> set pre")
    case True
    then have "tbl' k = Some (remove1 r pre @ in_rule d (filter_chain d) # post)" using a by (simp add: remove1_append)
    moreover have "\<forall>x\<in>set (remove1 r pre). quiet d x" using a(4) by (meson notin_set_remove1)
    ultimately show ?thesis by blast
  next
    case False
    then have "tbl' k = Some (pre @ in_rule d (filter_chain d) # remove1 r post)" using a by (simp add: remove1_append)
    then show ?thesis using a(4) by blast
  qed
qed

lemma rule_facts:
  "x \<noteq> d \<Longrightarrow> quiet d (in_rule x c)" "quiet d (out_rule x)" "x \<noteq> d \<Longrightarrow> in_rule x c \<noteq> in_rule d c'"
  "out_rule x \<noteq> in_rule d c'" "in_rule d c' \<noteq> out_rule x"
  by (auto simp: quiet_def in_rule_def out_rule_def any_rule_def)

lemma foreign_hook:
  assumes "foreign_cmd (plan_dev a) c" "k \<in> {''FORWARD'', ''INPUT''}" "hooked (plan_dev a) (nt_chains st) k"
  shows "hooked (plan_dev a) (nt_chains (perform c st)) k"
proof -
  obtain b where b: "plan_dev b \<noteq> plan_dev a" "issued_for (plan_dev b) c"
    using assms(1) by (auto simp: foreign_cmd_def)
  have k: "k \<noteq> filter_chain (plan_dev b)" using assms(2) by auto
  have same: "hooked (plan_dev a) tbl k" if "tbl k = nt_chains st k" for tbl
    using assms(3) that by (simp add: hooked_def)
  show ?thesis
  proof (cases "refused c st")
    case True
    then show ?thesis using assms(3) by (simp add: perform_def)
  next
    case False
    then have p: "perform c st = effect c st" by (simp add: perform_def)
    show ?thesis
    proof (cases c)
      case (InsertRule k' r)
      then have "quiet (plan_dev a) r" using b rule_facts by auto
      then show ?thesis using InsertRule p same hooked_insert[OF assms(3)] by (cases "k = k'") (auto simp: nt_chains_upd)
    next
      case (DeleteRule k' r)
      then have "r \<noteq> in_rule (plan_dev a) (filter_chain (plan_dev a))" using b rule_facts by auto
      then show ?thesis using DeleteRule p same hooked_delete[OF assms(3)] by (cases "k = k'") (auto simp: nt_chains_upd)
    qed (use p b k same in \<open>auto simp: nt_chains_upd\<close>)
  qed
qed

text \<open>What the commands of other grants keep, one after another.\<close>

lemma foreign_fold_chain:
  "\<forall>c \<in> set cs. foreign_cmd (plan_dev a) c \<Longrightarrow>
   nt_chains (fold perform cs st) (filter_chain (plan_dev a)) = nt_chains st (filter_chain (plan_dev a))"
  by (induction cs arbitrary: st) (auto simp: foreign_chain)

lemma foreign_fold_hook:
  "\<forall>c \<in> set cs. foreign_cmd (plan_dev a) c \<Longrightarrow> k \<in> {''FORWARD'', ''INPUT''} \<Longrightarrow> hooked (plan_dev a) (nt_chains st) k \<Longrightarrow>
   hooked (plan_dev a) (nt_chains (fold perform cs st)) k"
  by (induction cs arbitrary: st) (auto simp: foreign_hook)

subsection \<open>A successful set-up\<close>

lemma run_cmd_ok:
  assumes "run_cmd su c st = (st', None)"
  obtains st1 where "st1 = fold perform (su_others su (nt_clock st)) (st\<lparr>nt_clock := Suc (nt_clock st)\<rparr>)"
    "\<not> refused c st1" "st' = effect c st1"
  using assms by (auto simp: run_cmd_def Let_def split: if_splits)

lemma run_all_append:
  "run_all su (cs @ ds) st = (case run_all su cs st of (st1, Some e) \<Rightarrow> (st1, Some e) | (st1, None) \<Rightarrow> run_all su ds st1)"
  by (induction cs arbitrary: st) (auto split: prod.splits option.splits)

text \<open>All others are other grants.\<close>

definition others_foreign :: "string \<Rightarrow> surroundings \<Rightarrow> bool" where
  "others_foreign d su \<longleftrightarrow> (\<forall>k. \<forall>c \<in> set (su_others su k). foreign_cmd d c)"

lemma run_cmd_chain:
  assumes "others_foreign (plan_dev a) su" "run_cmd su c st = (st', None)" "C = filter_chain (plan_dev a)"
  obtains st1 where "nt_chains st1 C = nt_chains st C" "\<not> refused c st1" "st' = effect c st1"
    "\<forall>k \<in> {''FORWARD'', ''INPUT''}. hooked (plan_dev a) (nt_chains st) k \<longrightarrow> hooked (plan_dev a) (nt_chains st1) k"
proof -
  obtain st1 where st1: "st1 = fold perform (su_others su (nt_clock st)) (st\<lparr>nt_clock := Suc (nt_clock st)\<rparr>)"
    "\<not> refused c st1" "st' = effect c st1"
    using run_cmd_ok[OF assms(2)] .
  have f: "\<forall>c \<in> set (su_others su (nt_clock st)). foreign_cmd (plan_dev a) c"
    using assms(1) by (simp add: others_foreign_def)
  show ?thesis
  proof (rule that[of st1])
    show "nt_chains st1 C = nt_chains st C" using foreign_fold_chain[OF f] st1(1) assms(3) by simp
    show "\<forall>k \<in> {''FORWARD'', ''INPUT''}. hooked (plan_dev a) (nt_chains st) k \<longrightarrow> hooked (plan_dev a) (nt_chains st1) k"
      using foreign_fold_hook[OF f, of _ "st\<lparr>nt_clock := Suc (nt_clock st)\<rparr>"] st1(1) by simp
  qed (use st1 in auto)
qed

lemma run_appends:
  assumes "others_foreign (plan_dev a) su" "C = filter_chain (plan_dev a)"
  shows "run_all su (map (AppendRule C) rs) st = (st', None) \<Longrightarrow> nt_chains st C = Some body \<Longrightarrow>
    nt_chains st' C = Some (body @ rs)"
proof (induction rs arbitrary: st body)
  case (Cons r rs)
  then obtain st1 where r: "run_cmd su (AppendRule C r) st = (st1, None)" "run_all su (map (AppendRule C) rs) st1 = (st', None)"
    by (auto split: prod.splits option.splits)
  obtain st0 where "nt_chains st0 C = nt_chains st C" "st1 = effect (AppendRule C r) st0"
    using run_cmd_chain[OF assms(1) r(1) assms(2)] by metis
  then have "nt_chains st1 C = Some (body @ [r])" using Cons.prems(2) by (simp add: nt_chains_upd)
  then show ?case using Cons.IH[OF r(2)] by simp
qed simp

lemma run_insert:
  assumes "others_foreign (plan_dev a) su" "run_cmd su (InsertRule k r) st = (st', None)" "k \<in> {''FORWARD'', ''INPUT''}"
    and "C = filter_chain (plan_dev a)"
  shows "nt_chains st' C = nt_chains st C"
    and "r = in_rule (plan_dev a) C \<Longrightarrow> hooked (plan_dev a) (nt_chains st') k"
    and "j \<in> {''FORWARD'', ''INPUT''} \<Longrightarrow> j \<noteq> k \<or> quiet (plan_dev a) r \<Longrightarrow> hooked (plan_dev a) (nt_chains st) j \<Longrightarrow>
         hooked (plan_dev a) (nt_chains st') j"
proof -
  obtain st1 where st1: "nt_chains st1 C = nt_chains st C" "\<not> refused (InsertRule k r) st1" "st' = effect (InsertRule k r) st1"
    "\<forall>k \<in> {''FORWARD'', ''INPUT''}. hooked (plan_dev a) (nt_chains st) k \<longrightarrow> hooked (plan_dev a) (nt_chains st1) k"
    using run_cmd_chain[OF assms(1,2,4)] .
  have k: "k \<noteq> C" using assms(3,4) by auto
  then show "nt_chains st' C = nt_chains st C" using st1 by (simp add: nt_chains_upd)
  show "hooked (plan_dev a) (nt_chains st') k" if "r = in_rule (plan_dev a) C"
  proof -
    obtain rs where "nt_chains st1 k = Some rs" using st1(2) by auto
    then have "nt_chains st' k = Some ([] @ in_rule (plan_dev a) (filter_chain (plan_dev a)) # rs)"
      using st1(3) that assms(4) by (simp add: nt_chains_upd)
    then show ?thesis unfolding hooked_def by fastforce
  qed
  show "hooked (plan_dev a) (nt_chains st') j"
    if j: "j \<in> {''FORWARD'', ''INPUT''}" "j \<noteq> k \<or> quiet (plan_dev a) r" "hooked (plan_dev a) (nt_chains st) j"
  proof (cases "j = k")
    case True
    then show ?thesis using hooked_insert[OF st1(4)[rule_format, OF j(1,3)]] st1(3) j(2) by (simp add: nt_chains_upd)
  next
    case False
    then have "nt_chains st' j = nt_chains st1 j" using st1(3) by (simp add: nt_chains_upd)
    then show ?thesis using st1(4)[rule_format, OF j(1,3)] by (simp add: hooked_def)
  qed
qed

text \<open>The grant's chain lists the destinations and drops the rest, and both built-in chains send new packets there.\<close>

definition shielded :: "string \<Rightarrow> ipnet list \<Rightarrow> net_state \<Rightarrow> bool" where
  "shielded d allow st \<longleftrightarrow>
     nt_chains st (filter_chain d) = Some (map dest_rule allow @ [any_rule Drop]) \<and>
     hooked d (nt_chains st) ''FORWARD'' \<and> hooked d (nt_chains st) ''INPUT''"

lemma install_filter_shields:
  assumes "others_foreign (plan_dev a) su"
    and "install_filter su (plan_dev a) (filter_chain (plan_dev a)) allow st = (st', None)"
  shows "shielded (plan_dev a) allow st'"
proof -
  define d where "d = plan_dev a"
  define C where "C = filter_chain d"
  have C: "C = filter_chain (plan_dev a)" by (simp add: C_def d_def)
  define body where "body = map dest_rule allow @ [any_rule Drop]"
  have cmds: "filter_cmds d C allow = map (AppendRule C) body @
      [InsertRule ''FORWARD'' (in_rule d C), InsertRule ''FORWARD'' (out_rule d), InsertRule ''INPUT'' (in_rule d C)]"
    by (simp add: filter_cmds_def body_def)
  obtain s1 s2 s3 s4 where r: "run_cmd su (NewChain C) st = (s1, None)" "run_all su (map (AppendRule C) body) s1 = (s2, None)"
    "run_cmd su (InsertRule ''FORWARD'' (in_rule d C)) s2 = (s3, None)"
    "run_cmd su (InsertRule ''FORWARD'' (out_rule d)) s3 = (s4, None)"
    "run_cmd su (InsertRule ''INPUT'' (in_rule d C)) s4 = (st', None)"
    using assms(2) unfolding install_filter_def d_def[symmetric] C_def[symmetric] cmds run_all_append
    by (auto split: prod.splits option.splits)
  obtain s0 where "s1 = effect (NewChain C) s0" using run_cmd_ok[OF r(1)] by metis
  then have "nt_chains s1 C = Some []" by simp
  then have c2: "nt_chains s2 C = Some body" using run_appends[OF assms(1) C r(2)] by simp
  note i1 = run_insert[OF assms(1) r(3) _ C] and i2 = run_insert[OF assms(1) r(4) _ C]
    and i3 = run_insert[OF assms(1) r(5) _ C]
  have h: "nt_chains st' C = Some body" using i1(1) i2(1) i3(1) c2 by simp
  have "hooked d (nt_chains s3) ''FORWARD''" using i1(2) d_def by simp
  then have "hooked d (nt_chains s4) ''FORWARD''" using i2(3)[of "''FORWARD''"] rule_facts(2) d_def by simp
  then have "hooked d (nt_chains st') ''FORWARD''" using i3(3)[of "''FORWARD''"] d_def by simp
  moreover have "hooked d (nt_chains st') ''INPUT''" using i3(2) d_def by simp
  ultimately show ?thesis using h by (simp add: shielded_def d_def C_def body_def)
qed

lemma foreign_fold_shielded:
  "\<forall>c \<in> set cs. foreign_cmd (plan_dev a) c \<Longrightarrow> shielded (plan_dev a) allow st \<Longrightarrow> shielded (plan_dev a) allow (fold perform cs st)"
  by (simp add: shielded_def foreign_fold_chain foreign_fold_hook)

lemma shielded_chains: "nt_chains st' = nt_chains st \<Longrightarrow> shielded d allow st' = shielded d allow st"
  by (simp add: shielded_def)

lemma run_nat_shields:
  assumes "others_foreign (plan_dev a) su"
  shows "run_all su (map NatAppend rs) st = (st', None) \<Longrightarrow> shielded (plan_dev a) allow st \<Longrightarrow> shielded (plan_dev a) allow st'"
proof (induction rs arbitrary: st)
  case (Cons r rs)
  then obtain st1 where r: "run_cmd su (NatAppend r) st = (st1, None)" "run_all su (map NatAppend rs) st1 = (st', None)"
    by (auto split: prod.splits option.splits)
  obtain st0 where st0: "st0 = fold perform (su_others su (nt_clock st)) (st\<lparr>nt_clock := Suc (nt_clock st)\<rparr>)"
    "st1 = effect (NatAppend r) st0" using run_cmd_ok[OF r(1)] by metis
  have "shielded (plan_dev a) allow st0"
    unfolding st0(1) using assms Cons.prems(2)
    by (intro foreign_fold_shielded) (auto simp: others_foreign_def shielded_def)
  then show ?case using Cons.IH[OF r(2)] st0(2) by (simp add: shielded_def)
qed simp

lemma setup_shields:
  assumes "others_foreign (plan_dev (guest_cid digest)) su" "setup_allowlist su digest dests st = (st', Inr att)"
  shows "shielded (at_dev att) (at_allow att) st'" "at_dev att = plan_dev (guest_cid digest)"
    "parse_allow dests = Inr (at_allow att)" "at_allow att \<noteq> []"
proof -
  obtain allow where al: "parse_allow dests = Inr allow" "allow \<noteq> []" "att = plan_attach digest allow"
    and steps: "\<exists>s2 s3. install_filter su (at_dev att) (filter_chain (at_dev att)) allow s2 = (s3, None) \<and>
                install_nat su (guest_net att) allow s3 = (st', None)"
    using assms(2) by (auto simp: setup_allowlist_def Let_def split: sum.splits if_splits prod.splits option.splits)
  have dev: "at_dev att = plan_dev (guest_cid digest)" "at_allow att = allow"
    using al(3) by (simp_all add: plan_attach_def Let_def)
  show "at_dev att = plan_dev (guest_cid digest)" "parse_allow dests = Inr (at_allow att)" "at_allow att \<noteq> []"
    using dev al by simp_all
  obtain s2 s3 where s: "install_filter su (at_dev att) (filter_chain (at_dev att)) allow s2 = (s3, None)"
    "install_nat su (guest_net att) allow s3 = (st', None)" using steps by blast
  have "shielded (at_dev att) allow s3" using install_filter_shields[OF assms(1)] s(1) dev(1) by simp
  moreover have "run_all su (map NatAppend (map (nat_rule (guest_net att)) allow)) s3 = (st', None)"
    using s(2) by (auto simp: install_nat_def comp_def split: prod.splits option.splits)
  ultimately show "shielded (at_dev att) (at_allow att) st'"
    using run_nat_shields[OF assms(1), of "map (nat_rule (guest_net att)) allow"] dev by simp
qed

subsection \<open>Where a packet goes\<close>

lemma walk_skip: "\<forall>r \<in> set pre. \<not> matches r p \<Longrightarrow> walk n tbl p (pre @ rs) = walk n tbl p rs"
  by (induction pre) auto

lemma in_rule_target [simp]: "ru_target (in_rule d c) = Jump c"
  by (simp add: in_rule_def any_rule_def)

lemma walk_dests:
  "walk n tbl p (map dest_rule allow @ [any_rule Drop]) = Some (if contains_ip allow (pk_dst p) then Accept else Drop)"
  by (induction allow) (auto simp: dest_rule_def any_rule_def matches_def)

lemma quiet_no_match: "quiet (pk_in p) r \<Longrightarrow> \<not> pk_tracked p \<Longrightarrow> \<not> matches r p"
  by (auto simp: quiet_def matches_def)

lemma hooked_walk:
  assumes "hooked d tbl k" "tbl (filter_chain d) = Some (map dest_rule allow @ [any_rule Drop])"
    and "pk_in p = d" "\<not> pk_tracked p"
  shows "walk (Suc n) tbl p (the (tbl k)) = Some (if contains_ip allow (pk_dst p) then Accept else Drop)"
proof -
  obtain pre post where k: "tbl k = Some (pre @ in_rule d (filter_chain d) # post)" "\<forall>r \<in> set pre. quiet d r"
    using assms(1) by (auto simp: hooked_def)
  have "\<forall>r \<in> set pre. \<not> matches r p" using k(2) quiet_no_match assms(3,4) by metis
  moreover have "matches (in_rule d (filter_chain d)) p" using assms(3) by (simp add: matches_def in_rule_def any_rule_def)
  ultimately show ?thesis
    using k(1) assms(2) by (simp add: walk_skip walk_dests)
qed


definition quiet_host :: net_state where
  "quiet_host = \<lparr>nt_devs = [], nt_addrs = [], nt_up = [],
     nt_chains = [''FORWARD'' \<mapsto> [], ''INPUT'' \<mapsto> []], nt_nat = [], nt_clock = 0\<rparr>"

definition no_surroundings :: surroundings where
  "no_surroundings = \<lparr>su_others = (\<lambda>_. []), su_broken = (\<lambda>_. False), su_says = (\<lambda>_. '''')\<rparr>"

definition sample_dest :: ipnet where
  "sample_dest = \<lparr>ip_addr = 0x0A000000, ip_bits = 8\<rparr>"

lemma sample_parse_dest: "parse_dest ''10.0.0.9/8'' = Inr sample_dest"
  by code_simp

lemma sample_setup: "\<exists>st'. setup_allowlist no_surroundings 7 [''10.0.0.9/8''] quiet_host = (st', Inr (plan_attach 7 [sample_dest]))"
proof -
  have "at_dev (plan_attach 7 [sample_dest]) = ''e00000007''"
    "filter_chain ''e00000007'' = ''E00000007''"
    by code_simp+
  then show ?thesis
    by (simp add: setup_allowlist_def sample_parse_dest Let_def quiet_host_def no_surroundings_def run_cmd_def
        install_filter_def filter_cmds_def install_nat_def upd_chain_def jump_ok_def dest_rule_def any_rule_def
        in_rule_def out_rule_def)
qed


subsection \<open>Taking back what was done\<close>

text \<open>Nobody else runs commands, and at most one of ours breaks; from now on none does.\<close>

definition alone :: "surroundings \<Rightarrow> bool" where
  "alone su \<longleftrightarrow> (\<forall>k. su_others su k = []) \<and> (\<forall>i j. su_broken su i \<longrightarrow> su_broken su j \<longrightarrow> i = j)"

definition spent :: "surroundings \<Rightarrow> net_state \<Rightarrow> bool" where
  "spent su st \<longleftrightarrow> (\<forall>k \<ge> nt_clock st. \<not> su_broken su k)"

text \<open>The same devices and rules, whatever the number of commands run.\<close>

definition same_net :: "net_state \<Rightarrow> net_state \<Rightarrow> bool" where
  "same_net st s \<longleftrightarrow> st\<lparr>nt_clock := nt_clock s\<rparr> = s"

lemma refused_clock [simp]: "refused c (st\<lparr>nt_clock := k\<rparr>) = refused c st"
  by (cases c) auto

lemma effect_clock: "effect c (st\<lparr>nt_clock := k\<rparr>) = (effect c st)\<lparr>nt_clock := k\<rparr>"
  by (cases c) (auto simp: upd_chain_def)

lemma perform_clock: "perform c (st\<lparr>nt_clock := k\<rparr>) = (perform c st)\<lparr>nt_clock := k\<rparr>"
  by (simp add: perform_def effect_clock)

lemma clock_effect [simp]: "nt_clock (effect c st) = nt_clock st"
  by (cases c) (auto simp: upd_chain_def)

lemma clock_perform [simp]: "nt_clock (perform c st) = nt_clock st"
  by (simp add: perform_def)

lemma same_net_refl [simp]: "same_net st st"
  by (simp add: same_net_def)

lemma same_net_perform: "same_net st s \<Longrightarrow> same_net (perform c st) (perform c s)"
  unfolding same_net_def by (metis clock_perform perform_clock)

lemma same_net_effect: "same_net st s \<Longrightarrow> same_net (effect c st) (effect c s)"
  unfolding same_net_def by (metis clock_effect effect_clock)

lemma same_net_refused: "same_net st s \<Longrightarrow> refused c st = refused c s"
  unfolding same_net_def by (metis refused_clock)

lemma same_net_trans: "same_net a b \<Longrightarrow> same_net b c \<Longrightarrow> same_net a c"
  unfolding same_net_def by (metis net_state.surjective net_state.update_convs(6))

lemma same_net_clock [simp]: "same_net (st\<lparr>nt_clock := k\<rparr>) s = same_net st s"
  by (simp add: same_net_def)

lemma run_cmd_alone:
  "alone su \<Longrightarrow> run_cmd su c st =
     (if su_broken su (nt_clock st) \<or> refused c st then (st\<lparr>nt_clock := Suc (nt_clock st)\<rparr>, Some (Foreign (su_says su (nt_clock st))))
      else ((perform c st)\<lparr>nt_clock := Suc (nt_clock st)\<rparr>, None))"
  by (simp add: run_cmd_def alone_def Let_def effect_clock perform_def)

lemma run_cmd_same_ok: "alone su \<Longrightarrow> run_cmd su c st = (st', None) \<Longrightarrow> same_net st s \<Longrightarrow> same_net st' (perform c s)"
  by (auto simp: run_cmd_alone same_net_perform split: if_splits)

lemma run_cmd_same_fail:
  "alone su \<Longrightarrow> run_cmd su c st = (st', Some e) \<Longrightarrow> same_net st s \<Longrightarrow> \<not> refused c s \<Longrightarrow> same_net st' s \<and> spent su st'"
  using Suc_n_not_le_n by (auto simp: run_cmd_alone same_net_refused spent_def alone_def split: if_splits)

lemma run_all_same_ok:
  "alone su \<Longrightarrow> run_all su cs st = (st', None) \<Longrightarrow> same_net st s \<Longrightarrow> same_net st' (fold perform cs s)"
  by (induction cs arbitrary: st s) (auto dest: run_cmd_same_ok split: prod.splits option.splits)

lemma run_all_same_fail:
  "alone su \<Longrightarrow> run_all su cs st = (st', Some e) \<Longrightarrow> same_net st s \<Longrightarrow>
   (\<forall>pre c post. cs = pre @ c # post \<longrightarrow> \<not> refused c (fold perform pre s)) \<Longrightarrow>
   \<exists>pre c post. cs = pre @ c # post \<and> same_net st' (fold perform pre s) \<and> spent su st'"
proof (induction cs arbitrary: st s)
  case (Cons c cs)
  have nr: "\<not> refused c s" using Cons.prems(4)[rule_format, of "[]" c cs] by simp
  obtain st1 o1 where r: "run_cmd su c st = (st1, o1)" by fastforce
  show ?case
  proof (cases o1)
    case (Some e1)
    then have "st' = st1" using r Cons.prems(2) by simp
    then have "same_net st' s \<and> spent su st'" using run_cmd_same_fail[OF Cons.prems(1) _ Cons.prems(3) nr] r Some by simp
    then have "c # cs = [] @ c # cs \<and> same_net st' (fold perform [] s) \<and> spent su st'" by simp
    then show ?thesis by blast
  next
    case None
    have rest: "run_all su cs st1 = (st', Some e)" using r None Cons.prems(2) by simp
    have ok: "\<forall>pre c' post. cs = pre @ c' # post \<longrightarrow> \<not> refused c' (fold perform pre (perform c s))"
    proof (intro allI impI)
      fix pre c' post assume "cs = pre @ c' # post"
      then show "\<not> refused c' (fold perform pre (perform c s))"
        using Cons.prems(4)[rule_format, of "c # pre" c' post] by simp
    qed
    obtain pre c' post where "cs = pre @ c' # post" "same_net st' (fold perform pre (perform c s))" "spent su st'"
      using Cons.IH[OF Cons.prems(1) rest run_cmd_same_ok[OF Cons.prems(1) _ Cons.prems(3)] ok] r None by blast
    then have "c # cs = (c # pre) @ c' # post \<and> same_net st' (fold perform (c # pre) s) \<and> spent su st'" by simp
    then show ?thesis by blast
  qed
qed simp

lemma run_each_same:
  "alone su \<Longrightarrow> spent su st \<Longrightarrow> same_net st s \<Longrightarrow>
   same_net (run_each su cs st) (fold perform cs s) \<and> spent su (run_each su cs st)"
proof (induction cs arbitrary: st s)
  case (Cons c cs)
  have "spent su (fst (run_cmd su c st))"
    using Cons.prems(1,2) by (auto simp: run_cmd_alone spent_def)
  moreover have "same_net (fst (run_cmd su c st)) (perform c s)"
    using Cons.prems by (auto simp: run_cmd_alone spent_def perform_def same_net_refused same_net_effect)
  ultimately show ?case using Cons.IH[OF Cons.prems(1)] by simp
qed simp

text \<open>Commands that delete do so or find nothing to delete.\<close>

lemma perform_delete: "perform (DeleteRule k r) st = upd_chain k (remove1 r) st"
  by (auto simp: perform_def upd_chain_def remove1_idem fun_upd_idem split: option.splits)

lemma perform_flush: "perform (FlushChain k) st = upd_chain k (\<lambda>_. []) st"
  by (auto simp: perform_def upd_chain_def fun_upd_idem)

lemma perform_nat_delete: "perform (NatDelete r) st = st\<lparr>nt_nat := remove1 r (nt_nat st)\<rparr>"
  by (auto simp: perform_def remove1_idem)

text \<open>The host has the two built-in chains and nothing of this device.\<close>

definition fresh_net :: "net_attach \<Rightarrow> net_state \<Rightarrow> bool" where
  "fresh_net att st \<longleftrightarrow>
     (let d = at_dev att; C = filter_chain d in
      d \<notin> set (nt_devs st) \<and> (\<forall>p \<in> set (nt_addrs st). snd p \<noteq> d) \<and> d \<notin> set (nt_up st) \<and>
      nt_chains st C = None \<and> nt_chains st ''FORWARD'' \<noteq> None \<and> nt_chains st ''INPUT'' \<noteq> None \<and>
      \<not> referenced (nt_chains st) C \<and>
      (\<forall>k rs. nt_chains st k = Some rs \<longrightarrow> out_rule d \<notin> set rs) \<and>
      (\<forall>r \<in> set (nt_nat st). ru_src r \<noteq> Some (guest_net att)))"

text \<open>The table while the filter is being installed.\<close>

definition partial :: "string \<Rightarrow> (string \<rightharpoonup> rule list) \<Rightarrow> (string \<rightharpoonup> rule list) \<Rightarrow> bool" where
  "partial d tbl0 tbl \<longleftrightarrow>
     (let C = filter_chain d in
      \<exists>body f i. tbl = tbl0(C \<mapsto> body, ''FORWARD'' := map_option (\<lambda>rs. f @ rs) (tbl0 ''FORWARD''),
                             ''INPUT'' := map_option (\<lambda>rs. i @ rs) (tbl0 ''INPUT'')) \<and>
        f \<in> {[], [in_rule d C], [out_rule d, in_rule d C]} \<and> i \<in> {[], [in_rule d C]} \<and>
        (\<forall>r \<in> set body. \<forall>c. ru_target r \<noteq> Jump c))"

definition set_chains :: "(string \<rightharpoonup> rule list) \<Rightarrow> net_state \<Rightarrow> net_state" where
  "set_chains tbl st = st\<lparr>nt_chains := tbl\<rparr>"

lemma set_chains_simps [simp]:
  "nt_chains (set_chains t st) = t" "set_chains t (set_chains u st) = set_chains t st"
  "set_chains (nt_chains st) st = st"
  "nt_devs (set_chains t st) = nt_devs st" "nt_addrs (set_chains t st) = nt_addrs st" "nt_up (set_chains t st) = nt_up st"
  "nt_nat (set_chains t st) = nt_nat st"
  by (simp_all add: set_chains_def)

lemma upd_chain_set: "upd_chain k f st = set_chains ((nt_chains st)(k := map_option f (nt_chains st k))) st"
  by (simp add: upd_chain_def set_chains_def)

lemma perform_append:
  "nt_chains st k = Some rs \<Longrightarrow> (\<forall>c. ru_target r \<noteq> Jump c) \<Longrightarrow>
   \<not> refused (AppendRule k r) st \<and> perform (AppendRule k r) st = upd_chain k (\<lambda>rs. rs @ [r]) st"
  by (auto simp: perform_def jump_ok_def split: target.splits)

lemma perform_appends:
  "nt_chains st C = Some body \<Longrightarrow> (\<forall>r \<in> set rs. \<forall>c. ru_target r \<noteq> Jump c) \<Longrightarrow>
   fold perform (map (AppendRule C) rs) st = set_chains ((nt_chains st)(C \<mapsto> body @ rs)) st"
proof (induction rs arbitrary: st body)
  case Nil
  then show ?case by (simp add: fun_upd_idem)
next
  case (Cons r rs)
  have "perform (AppendRule C r) st = set_chains ((nt_chains st)(C \<mapsto> body @ [r])) st"
    using perform_append[OF Cons.prems(1), of r] Cons.prems by (simp add: upd_chain_set)
  then show ?case using Cons.IH[of "set_chains ((nt_chains st)(C \<mapsto> body @ [r])) st" "body @ [r]"] Cons.prems(2) by (simp cong: if_cong)
qed

lemma fresh_rules:
  assumes "fresh_net att st" "d = at_dev att" "C = filter_chain d" "nt_chains st k = Some rs"
  shows "in_rule d C \<notin> set rs" "out_rule d \<notin> set rs" "\<forall>r \<in> set rs. ru_target r \<noteq> Jump C"
proof -
  show t: "\<forall>r \<in> set rs. ru_target r \<noteq> Jump C" using assms by (auto simp: fresh_net_def Let_def referenced_def)
  show "in_rule d C \<notin> set rs" using t in_rule_target by metis
  show "out_rule d \<notin> set rs" using assms by (auto simp: fresh_net_def Let_def)
qed

text \<open>Removing the filter restores the table, wherever the installation stopped.\<close>

lemma remove_restores:
  assumes fresh: "fresh_net att st0" and d: "d = at_dev att" "d = plan_dev a" and C: "C = filter_chain d"
    and part: "partial d (nt_chains st0) (nt_chains st)"
  shows "fold perform (remove_filter_cmds d C) st = set_chains (nt_chains st0) st"
proof -
  obtain body f i where tbl: "nt_chains st = (nt_chains st0)(C \<mapsto> body,
        ''FORWARD'' := map_option (\<lambda>rs. f @ rs) (nt_chains st0 ''FORWARD''), ''INPUT'' := map_option (\<lambda>rs. i @ rs) (nt_chains st0 ''INPUT''))"
    and f: "f \<in> {[], [in_rule d C], [out_rule d, in_rule d C]}" and i: "i \<in> {[], [in_rule d C]}"
    using part C by (auto simp: partial_def Let_def)
  obtain F I where FI: "nt_chains st0 ''FORWARD'' = Some F" "nt_chains st0 ''INPUT'' = Some I" "nt_chains st0 C = None"
    using fresh d C by (auto simp: fresh_net_def Let_def)
  have ne: "C \<noteq> ''FORWARD''" "C \<noteq> ''INPUT''" using C d(2) by auto
  note F = fresh_rules[OF fresh d(1) C FI(1)] and I = fresh_rules[OF fresh d(1) C FI(2)]
  have f': "remove1 (out_rule d) (remove1 (in_rule d C) (f @ F)) = F"
    using f F rule_facts(4,5) by (auto simp: remove1_idem remove1_append)
  have i': "remove1 (in_rule d C) (i @ I) = I" using i I by (auto simp: remove1_idem)
  define tbl1 where "tbl1 = (nt_chains st0)(C \<mapsto> [])"
  have "fold perform [DeleteRule ''FORWARD'' (in_rule d C), DeleteRule ''FORWARD'' (out_rule d),
      DeleteRule ''INPUT'' (in_rule d C), FlushChain C] st = set_chains tbl1 st"
  proof -
    have "(nt_chains st)(''FORWARD'' \<mapsto> F, ''INPUT'' \<mapsto> I, C \<mapsto> []) = tbl1"
      using tbl FI ne unfolding tbl1_def by (auto simp: fun_eq_iff)
    then show ?thesis
      using tbl FI ne f' i' by (simp add: perform_delete perform_flush upd_chain_set fun_upd_twist)
  qed
  moreover have "\<not> referenced tbl1 C"
    using fresh d C unfolding tbl1_def fresh_net_def Let_def referenced_def by auto
  then have "perform (DeleteChain C) (set_chains tbl1 st) = set_chains (nt_chains st0) st"
    using FI(3) by (auto simp: perform_def tbl1_def set_chains_def fun_upd_idem)
  ultimately show ?thesis by (simp add: remove_filter_cmds_def)
qed

text \<open>Wherever the installation of the filter stops, the table is a partial one.\<close>

lemma partial_not_refused:
  assumes "partial d tbl0 (nt_chains s)" "tbl0 ''FORWARD'' \<noteq> None" "tbl0 ''INPUT'' \<noteq> None"
    and "d = plan_dev a" "c \<in> set (filter_cmds d (filter_chain d) allow)"
  shows "\<not> refused c s"
  using assms by (auto simp: partial_def Let_def filter_cmds_def jump_ok_def dest_rule_def any_rule_def in_rule_def out_rule_def)

lemma perform_insert:
  "nt_chains st k = Some rs \<Longrightarrow> jump_ok (nt_chains st) r \<Longrightarrow>
   perform (InsertRule k r) st = set_chains ((nt_chains st)(k \<mapsto> r # rs)) st"
  by (simp add: perform_def upd_chain_set)

lemma filter_prefix:
  assumes C: "C = filter_chain d" "d = plan_dev a"
    and tbl0: "tbl0 ''FORWARD'' = Some F" "tbl0 ''INPUT'' = Some I" and s: "nt_chains s = tbl0(C \<mapsto> [])"
  shows "\<exists>t. fold perform (take n (filter_cmds d C allow)) s = set_chains t s \<and> partial d tbl0 t"
proof -
  define body where "body = map dest_rule allow @ [any_rule Drop]"
  define ins where "ins = [InsertRule ''FORWARD'' (in_rule d C), InsertRule ''FORWARD'' (out_rule d), InsertRule ''INPUT'' (in_rule d C)]"
  define m where "m = n - length body"
  have nj: "\<forall>r \<in> set body. \<forall>c. ru_target r \<noteq> Jump c" by (auto simp: body_def dest_rule_def any_rule_def)
  have ne: "C \<noteq> ''FORWARD''" "C \<noteq> ''INPUT''" using C by auto
  have "filter_cmds d C allow = map (AppendRule C) body @ ins" by (simp add: filter_cmds_def body_def ins_def)
  then have fold: "fold perform (take n (filter_cmds d C allow)) s =
      fold perform (take m ins) (set_chains (tbl0(C \<mapsto> take n body)) s)"
    using s nj perform_appends[of s C "[]" "take n body"] by (simp add: m_def take_map in_set_takeD[THEN nj[rule_format]])
  define t0 where "t0 = tbl0(C \<mapsto> take n body)"
  have t0: "t0 ''FORWARD'' = Some F" "t0 ''INPUT'' = Some I" "t0 C \<noteq> None" using tbl0 ne by (auto simp: t0_def)
  have j: "jump_ok u (in_rule d C) = (u C \<noteq> None)" "jump_ok u (out_rule d)" for u
    by (simp_all add: jump_ok_def out_rule_def any_rule_def)
  have body': "\<forall>r \<in> set (take n body). \<forall>c. ru_target r \<noteq> Jump c" using nj in_set_takeD by metis
  have parts: "partial d tbl0 (t0(''FORWARD'' := Some (f @ F), ''INPUT'' := Some (i @ I)))"
    if "f \<in> {[], [in_rule d C], [out_rule d, in_rule d C]}" "i \<in> {[], [in_rule d C]}" for f i
    unfolding partial_def Let_def C(1)[symmetric]
    by (rule exI[of _ "take n body"], rule exI[of _ f], rule exI[of _ i])
      (use that tbl0 body' in \<open>auto simp: t0_def\<close>)
  consider "m = 0" | "m = 1" | "m = 2" | "m \<ge> 3" by linarith
  then show ?thesis
  proof cases
    case 1
    then show ?thesis using fold parts[of "[]" "[]"] t0 by (auto simp: t0_def[symmetric] fun_upd_idem)
  next
    case 2
    then have "fold perform (take n (filter_cmds d C allow)) s = set_chains (t0(''FORWARD'' \<mapsto> [in_rule d C] @ F)) s"
      using fold t0 by (simp add: ins_def t0_def[symmetric] perform_insert j)
    then show ?thesis using parts[of "[in_rule d C]" "[]"] t0 by (auto simp: fun_upd_idem)
  next
    case 3
    then have "fold perform (take n (filter_cmds d C allow)) s = set_chains (t0(''FORWARD'' \<mapsto> [out_rule d, in_rule d C] @ F)) s"
      using fold t0 by (simp add: ins_def t0_def[symmetric] perform_insert j numeral_2_eq_2)
    then show ?thesis using parts[of "[out_rule d, in_rule d C]" "[]"] t0 by (auto simp: fun_upd_idem)
  next
    case 4
    then have "fold perform (take n (filter_cmds d C allow)) s =
        set_chains (t0(''FORWARD'' \<mapsto> [out_rule d, in_rule d C] @ F, ''INPUT'' \<mapsto> [in_rule d C] @ I)) s"
      using fold t0 ne by (simp add: ins_def t0_def[symmetric] perform_insert j)
    then show ?thesis using parts[of "[out_rule d, in_rule d C]" "[in_rule d C]"] by auto
  qed
qed

text \<open>The translation rules: some were appended, all are deleted.\<close>

lemma nat_appends: "fold perform (map NatAppend rs) s = s\<lparr>nt_nat := nt_nat s @ rs\<rparr>"
  by (induction rs arbitrary: s) (auto simp: perform_def)

lemma fold_remove1_prefix: "\<forall>r \<in> set rs. r \<notin> set N \<Longrightarrow> fold remove1 rs (N @ take n rs) = N"
proof (induction rs arbitrary: n)
  case (Cons r rs)
  then show ?case using Cons.IH[of 0] by (cases n) (auto simp: remove1_append remove1_idem)
qed simp

lemma nat_deletes: "fold perform (map NatDelete rs) s = s\<lparr>nt_nat := fold remove1 rs (nt_nat s)\<rparr>"
  by (induction rs arbitrary: s) (auto simp: perform_nat_delete)

lemma delete_link_same: "alone su \<Longrightarrow> spent su st \<Longrightarrow> same_net st s \<Longrightarrow> same_net (delete_link su att st) (perform (LinkDelete (at_dev att)) s)"
  using run_each_same[of su st s "[LinkDelete (at_dev att)]"] by (simp add: delete_link_def)

text \<open>Deleting the device undoes what was done with it.\<close>

lemma fresh_filters:
  "fresh_net att st \<Longrightarrow> d = at_dev att \<Longrightarrow>
   filter (\<lambda>x. x \<noteq> d) (nt_devs st) = nt_devs st \<and> filter (\<lambda>p. snd p \<noteq> d) (nt_addrs st) = nt_addrs st \<and>
   filter (\<lambda>x. x \<noteq> d) (nt_up st) = nt_up st"
  by (auto simp: fresh_net_def Let_def filter_id_conv)

lemma unlink:
  assumes "fresh_net att st" "d = at_dev att" "nt_devs s = d # nt_devs st"
    and "nt_addrs s = nt_addrs st \<or> nt_addrs s = (g, d) # nt_addrs st" "nt_up s = nt_up st \<or> nt_up s = d # nt_up st"
    and "nt_chains s = nt_chains st" "nt_nat s = nt_nat st"
  shows "same_net (perform (LinkDelete d) s) st"
proof -
  note f = fresh_filters[OF assms(1,2)]
  have "perform (LinkDelete d) s =
      s\<lparr>nt_devs := nt_devs st, nt_addrs := nt_addrs st, nt_up := nt_up st\<rparr>"
    using f assms(3-5) by (auto simp: perform_def)
  then show ?thesis using assms(6,7) by (simp add: same_net_def)
qed

text \<open>The states a set-up passes through, up to the number of commands run.\<close>

definition linked :: "net_attach \<Rightarrow> net_state \<Rightarrow> net_state" where
  "linked att st = st\<lparr>nt_devs := at_dev att # nt_devs st, nt_addrs := (guest_net att, at_dev att) # nt_addrs st,
     nt_up := at_dev att # nt_up st\<rparr>"

lemma linked_simps [simp]:
  "nt_chains (linked att st) = nt_chains st" "nt_nat (linked att st) = nt_nat st"
  by (simp_all add: linked_def)

lemma linked_steps:
  assumes "fresh_net att st"
  shows "fold perform [TapAdd (at_dev att), AddrAdd (guest_net att) (at_dev att), LinkUp (at_dev att)] st = linked att st"
    and "pre @ c # post = [AddrAdd (guest_net att) (at_dev att), LinkUp (at_dev att)] \<Longrightarrow>
      \<not> refused c (fold perform pre (perform (TapAdd (at_dev att)) st)) \<and>
      same_net (perform (LinkDelete (at_dev att)) (fold perform pre (perform (TapAdd (at_dev att)) st))) st"
proof -
  have f: "at_dev att \<notin> set (nt_devs st)" "(guest_net att, at_dev att) \<notin> set (nt_addrs st)" "at_dev att \<notin> set (nt_up st)"
    using assms by (auto simp: fresh_net_def Let_def)
  then show "fold perform [TapAdd (at_dev att), AddrAdd (guest_net att) (at_dev att), LinkUp (at_dev att)] st = linked att st"
    using fresh_filters[OF assms refl] by (simp add: perform_def linked_def)
  assume "pre @ c # post = [AddrAdd (guest_net att) (at_dev att), LinkUp (at_dev att)]"
  then have "pre = [] \<and> c = AddrAdd (guest_net att) (at_dev att) \<or> pre = [AddrAdd (guest_net att) (at_dev att)] \<and> c = LinkUp (at_dev att)"
    by (auto simp: append_eq_Cons_conv)
  then show "\<not> refused c (fold perform pre (perform (TapAdd (at_dev att)) st)) \<and>
      same_net (perform (LinkDelete (at_dev att)) (fold perform pre (perform (TapAdd (at_dev att)) st))) st"
    using f fresh_filters[OF assms refl] by (auto simp: perform_def)
qed

lemma unlink_linked:
  "fresh_net att st \<Longrightarrow> same_net (perform (LinkDelete (at_dev att)) (linked att st)) st"
  by (rule unlink) (auto simp: linked_def)

lemma remove_filter_same:
  assumes "alone su" "spent su st" "fresh_net att st0" "at_dev att = plan_dev a" "same_net st (set_chains t (linked att st0))"
    and "partial (at_dev att) (nt_chains st0) t"
  shows "same_net (remove_filter su (at_dev att) (filter_chain (at_dev att)) st) (linked att st0) \<and>
    spent su (remove_filter su (at_dev att) (filter_chain (at_dev att)) st)"
proof -
  have "fold perform (remove_filter_cmds (at_dev att) (filter_chain (at_dev att))) (set_chains t (linked att st0)) = linked att st0"
    using remove_restores[OF assms(3) refl assms(4) refl, of "set_chains t (linked att st0)"] assms(6)
      set_chains_simps(3)[of "linked att st0"] by simp
  then show ?thesis
    using run_each_same[OF assms(1,2,5), of "remove_filter_cmds (at_dev att) (filter_chain (at_dev att))"]
    by (simp add: remove_filter_def)
qed

lemma install_filter_outcome:
  assumes "alone su" "fresh_net att st0" "at_dev att = plan_dev a" "same_net st (linked att st0)"
    and "install_filter su (at_dev att) (filter_chain (at_dev att)) allow st = (st', out)"
  shows "case out of
      Some e \<Rightarrow> same_net st' (linked att st0) \<and> spent su st'
    | None \<Rightarrow> (\<exists>t. same_net st' (set_chains t (linked att st0)) \<and> partial (at_dev att) (nt_chains st0) t)"
proof -
  define d C where "d = at_dev att" and "C = filter_chain (at_dev att)"
  obtain F I where FI: "nt_chains st0 ''FORWARD'' = Some F" "nt_chains st0 ''INPUT'' = Some I" "nt_chains st0 C = None"
    using assms(2) by (auto simp: fresh_net_def Let_def C_def)
  obtain s1 o1 where r1: "run_cmd su (NewChain C) st = (s1, o1)" by fastforce
  have nr: "\<not> refused (NewChain C) (linked att st0)" using FI by simp
  show ?thesis
  proof (cases o1)
    case (Some e)
    then show ?thesis
      using run_cmd_same_fail[OF assms(1) _ assms(4) nr] r1 assms(5) by (auto simp: install_filter_def C_def d_def)
  next
    case None
    define L1 where "L1 = set_chains ((nt_chains st0)(C \<mapsto> [])) (linked att st0)"
    have "perform (NewChain C) (linked att st0) = L1" using nr by (simp add: perform_def L1_def set_chains_def)
    then have s1: "same_net s1 L1" using run_cmd_same_ok[OF assms(1) _ assms(4)] r1 None by metis
    have pre: "\<exists>t. fold perform (take n (filter_cmds d C allow)) L1 = set_chains t (linked att st0) \<and> partial d (nt_chains st0) t" for n
      using filter_prefix[of C d a "nt_chains st0" F I L1 n allow] FI assms(3) unfolding L1_def d_def C_def by auto
    obtain s2 o2 where r2: "run_all su (filter_cmds d C allow) s1 = (s2, o2)" by fastforce
    show ?thesis
    proof (cases o2)
      case None
      then have "same_net s2 (fold perform (filter_cmds d C allow) L1)" using run_all_same_ok[OF assms(1) _ s1] r2 by metis
      then show ?thesis using pre[of "length (filter_cmds d C allow)"] r1 r2 \<open>o1 = None\<close> None assms(5)
        by (auto simp: install_filter_def d_def C_def)
    next
      case (Some e)
      have "\<forall>p c q. filter_cmds d C allow = p @ c # q \<longrightarrow> \<not> refused c (fold perform p L1)"
      proof (intro allI impI)
        fix p c q assume e: "filter_cmds d C allow = p @ c # q"
        then obtain t where "fold perform p L1 = set_chains t (linked att st0)" "partial d (nt_chains st0) t"
          using pre[of "length p"] by auto
        then show "\<not> refused c (fold perform p L1)"
          using partial_not_refused[of d "nt_chains st0" "fold perform p L1" a c allow] FI assms(3) e
          by (simp add: d_def C_def)
      qed
      then obtain p c q where p: "filter_cmds d C allow = p @ c # q" "same_net s2 (fold perform p L1)" "spent su s2"
        using run_all_same_fail[OF assms(1) _ s1] r2 Some by metis
      then obtain t where "same_net s2 (set_chains t (linked att st0))" "partial d (nt_chains st0) t"
        using pre[of "length p"] by auto
      then show ?thesis
        using remove_filter_same[OF assms(1) p(3) assms(2,3)] r1 r2 \<open>o1 = None\<close> Some assms(5)
        by (auto simp: install_filter_def d_def C_def)
    qed
  qed
qed

text \<open>The translation rules and everything below them.\<close>

lemma remove_nat_same:
  assumes "alone su" "spent su st" "fresh_net att st0" "nt_nat s = nt_nat st0 @ take n (map (nat_rule (guest_net att)) allow)"
    and "same_net st s"
  shows "same_net (remove_nat su (guest_net att) allow st) (s\<lparr>nt_nat := nt_nat st0\<rparr>) \<and>
    spent su (remove_nat su (guest_net att) allow st)"
proof -
  have "\<forall>r \<in> set (map (nat_rule (guest_net att)) allow). r \<notin> set (nt_nat st0)"
    using assms(3) by (auto simp: fresh_net_def Let_def nat_rule_def)
  then have "fold perform (map NatDelete (map (nat_rule (guest_net att)) allow)) s = s\<lparr>nt_nat := nt_nat st0\<rparr>"
    unfolding nat_deletes assms(4) by (subst fold_remove1_prefix) auto
  then show ?thesis
    using run_each_same[OF assms(1,2,5), of "map (\<lambda>n. NatDelete (nat_rule (guest_net att) n)) allow"]
    by (simp add: remove_nat_def comp_def)
qed

lemma nat_same_linked:
  "(set_chains t (linked att st0))\<lparr>nt_nat := nt_nat st0\<rparr> = set_chains t (linked att st0)"
  by (simp add: set_chains_def linked_def)

lemma install_nat_outcome:
  assumes "alone su" "fresh_net att st0" "same_net st (set_chains t (linked att st0))"
    and "install_nat su (guest_net att) allow st = (st', out)"
  shows "case out of
      Some e \<Rightarrow> same_net st' (set_chains t (linked att st0)) \<and> spent su st'
    | None \<Rightarrow> same_net st' ((set_chains t (linked att st0))\<lparr>nt_nat := nt_nat st0 @ map (nat_rule (guest_net att)) allow\<rparr>)"
proof -
  define s where "s = set_chains t (linked att st0)"
  define rs where "rs = map (nat_rule (guest_net att)) allow"
  have s: "nt_nat s = nt_nat st0" by (simp add: s_def)
  have cmds: "map (\<lambda>n. NatAppend (nat_rule (guest_net att) n)) allow = map NatAppend rs" by (simp add: rs_def comp_def)
  obtain s1 o1 where r1: "run_all su (map NatAppend rs) st = (s1, o1)" by fastforce
  have st: "same_net st s" using assms(3) by (simp add: s_def)
  show ?thesis
  proof (cases o1)
    case None
    then have "same_net s1 (s\<lparr>nt_nat := nt_nat s @ rs\<rparr>)"
      using run_all_same_ok[OF assms(1) _ st] r1 nat_appends by metis
    then show ?thesis using r1 None assms(4) s by (auto simp: install_nat_def cmds s_def rs_def)
  next
    case (Some e)
    have "\<forall>p c q. map NatAppend rs = p @ c # q \<longrightarrow> \<not> refused c (fold perform p s)"
    proof (intro allI impI)
      fix p c q assume "map NatAppend rs = p @ c # q"
      then have "c \<in> set (map NatAppend rs)" by simp
      then show "\<not> refused c (fold perform p s)" by auto
    qed
    then obtain p c q where p: "map NatAppend rs = p @ c # q" "same_net s1 (fold perform p s)" "spent su s1"
      using run_all_same_fail[OF assms(1) _ st] r1 Some by metis
    have "p = map NatAppend (take (length p) rs)" using p(1) by (metis append_eq_conv_conj take_map)
    then have "fold perform p s = s\<lparr>nt_nat := nt_nat st0 @ take (length p) rs\<rparr>" using nat_appends s by metis
    then have "same_net (remove_nat su (guest_net att) allow s1) s \<and> spent su (remove_nat su (guest_net att) allow s1)"
      using remove_nat_same[OF assms(1) p(3) assms(2), of "s\<lparr>nt_nat := nt_nat st0 @ take (length p) rs\<rparr>" "length p" allow] p(2)
        nat_same_linked[where t = t and att = att]
      by (simp add: rs_def s_def)
    then show ?thesis using r1 Some assms(4) by (auto simp: install_nat_def cmds s_def)
  qed
qed

text \<open>A set-up takes back what it did, and so does closing what was set up.\<close>

lemma setup_restores:
  assumes "alone su" "fresh_net (plan_attach digest []) st"
    and "setup_allowlist su digest dests st = (st', out)"
  shows "case out of
      Inl e \<Rightarrow> st'\<lparr>nt_clock := nt_clock st\<rparr> = st
    | Inr att \<Rightarrow> (\<forall>su'. alone su' \<and> spent su' st' \<longrightarrow> (close_attach su' att st')\<lparr>nt_clock := nt_clock st\<rparr> = st)"
proof (cases "\<exists>allow. parse_allow dests = Inr allow \<and> allow \<noteq> []")
  case False
  then show ?thesis using assms(3) by (auto simp: setup_allowlist_def split: sum.splits if_splits)
next
  case True
  then obtain allow where al: "parse_allow dests = Inr allow" "allow \<noteq> []" by blast
  define att where "att = plan_attach digest allow"
  define d C where "d = at_dev att" and "C = filter_chain d"
  have dev: "at_dev att = plan_dev (guest_cid digest)" "at_allow att = allow"
    by (simp_all add: att_def plan_attach_def Let_def)
  have fresh: "fresh_net att st"
    using assms(2) by (simp add: fresh_net_def att_def plan_attach_def Let_def guest_net_def)
  note alone = assms(1)
  have nr1: "\<not> refused (TapAdd d) st" using fresh by (auto simp: fresh_net_def Let_def d_def)
  obtain s1 o1 where r1: "run_cmd su (TapAdd d) st = (s1, o1)" by fastforce
  note unfold_setup = setup_allowlist_def al att_def[symmetric] d_def[symmetric] C_def[symmetric] Let_def
  show ?thesis
  proof (cases o1)
    case (Some e)
    then have "same_net s1 st" using run_cmd_same_fail[OF alone _ same_net_refl nr1] r1 by metis
    then show ?thesis using assms(3) r1 Some al by (auto simp: unfold_setup same_net_def)
  next
    case None
    note o1 = None
    have s1: "same_net s1 (perform (TapAdd d) st)" using run_cmd_same_ok[OF alone _ same_net_refl] r1 None by metis
    obtain s2 o2 where r2: "run_all su [AddrAdd (guest_net att) d, LinkUp d] s1 = (s2, o2)" by fastforce
    show ?thesis
    proof (cases o2)
      case (Some e)
      have "\<forall>p c q. [AddrAdd (guest_net att) d, LinkUp d] = p @ c # q \<longrightarrow> \<not> refused c (fold perform p (perform (TapAdd d) st))"
        using linked_steps(2)[OF fresh] by (metis d_def)
      then obtain p c q where p: "[AddrAdd (guest_net att) d, LinkUp d] = p @ c # q"
        "same_net s2 (fold perform p (perform (TapAdd d) st))" "spent su s2"
        using run_all_same_fail[OF alone _ s1] r2 Some by metis
      then have "same_net (delete_link su att s2) (perform (LinkDelete d) (fold perform p (perform (TapAdd d) st)))"
        using delete_link_same[OF alone p(3) p(2)] by (simp add: d_def)
      moreover have "same_net (perform (LinkDelete d) (fold perform p (perform (TapAdd d) st))) st"
        using linked_steps(2)[OF fresh] p(1) by (metis d_def)
      ultimately have "same_net (delete_link su att s2) st" by (rule same_net_trans)
      then show ?thesis using assms(3) r1 r2 o1 Some by (auto simp: unfold_setup same_net_def)
    next
      case None
      note o2 = None
      have s2: "same_net s2 (linked att st)"
        using run_all_same_ok[OF alone r2[unfolded None] s1] linked_steps(1)[OF fresh] by (simp add: d_def)
      obtain s3 o3 where r3: "install_filter su d C allow s2 = (s3, o3)" by fastforce
      note f = install_filter_outcome[OF alone fresh dev(1) s2 r3[unfolded C_def d_def]]
      have undo: "same_net (delete_link su'' att s) st"
        if "alone su''" "spent su'' s" "same_net s (linked att st)" for su'' s
        using delete_link_same[OF that] unlink_linked[OF fresh] by (rule same_net_trans)
      show ?thesis
      proof (cases o3)
        case (Some e)
        then have "same_net (delete_link su att s3) st" using f undo[OF alone] by simp
        then show ?thesis using assms(3) r1 r2 r3 o1 o2 Some by (auto simp: unfold_setup same_net_def)
      next
        case None
        note o3 = None
        then obtain t where t: "same_net s3 (set_chains t (linked att st))" "partial (at_dev att) (nt_chains st) t"
          using f by auto
        obtain s4 o4 where r4: "install_nat su (guest_net att) allow s3 = (s4, o4)" by fastforce
        note n = install_nat_outcome[OF alone fresh t(1) r4]
        show ?thesis
        proof (cases o4)
          case (Some e)
          then have "same_net (remove_filter su d C s4) (linked att st) \<and> spent su (remove_filter su d C s4)"
            using n remove_filter_same[OF alone _ fresh dev(1) _ t(2)] by (simp add: d_def C_def)
          then have "same_net (delete_link su att (remove_filter su d C s4)) st" using undo[OF alone] by simp
          then show ?thesis using assms(3) r1 r2 r3 r4 o1 o2 o3 Some by (auto simp: unfold_setup same_net_def)
        next
          case None
          have st': "st' = s4" "out = Inr att" using assms(3) r1 r2 r3 r4 o1 o2 o3 None by (auto simp: unfold_setup)
          have s4: "same_net s4 ((set_chains t (linked att st))\<lparr>nt_nat := nt_nat st @ map (nat_rule (guest_net att)) allow\<rparr>)"
            using n None by simp
          have "same_net (close_attach su' att s4) st" if su': "alone su'" "spent su' s4" for su'
          proof -
            have "same_net (remove_nat su' (guest_net att) allow s4) (set_chains t (linked att st)) \<and>
                spent su' (remove_nat su' (guest_net att) allow s4)"
              using remove_nat_same[OF su' fresh _ s4, of "length allow" allow] nat_same_linked[where t = t and att = att] by simp
            then have "same_net (remove_filter su' d C (remove_nat su' (guest_net att) allow s4)) (linked att st) \<and>
                spent su' (remove_filter su' d C (remove_nat su' (guest_net att) allow s4))"
              using remove_filter_same[OF su'(1) _ fresh dev(1) _ t(2)] by (simp add: d_def C_def)
            then show ?thesis using undo[OF su'(1)] by (simp add: close_attach_def dev(2) d_def C_def)
          qed
          then show ?thesis using st' by (simp add: same_net_def)
        qed
      qed
    qed
  qed
qed


definition broken_once :: surroundings where
  "broken_once = \<lparr>su_others = (\<lambda>_. []), su_broken = (\<lambda>k. k = 9), su_says = (\<lambda>_. ''iptables: no chain'')\<rparr>"


text \<open>
  Two of the addresses coincide far sooner than the devices do: the octet is the identifier modulo
  200. Two grants that share it share their network, and the rules of the one are the rules of
  the other.
\<close>

lemma plans_collide:
  "at_dev (plan_attach 7 allow) \<noteq> at_dev (plan_attach 207 allow) \<and>
   at_guest_ip (plan_attach 7 allow) = at_guest_ip (plan_attach 207 allow) \<and>
   guest_net (plan_attach 7 allow) = guest_net (plan_attach 207 allow)"
proof -
  have "plan_octet (guest_cid 7) = plan_octet (guest_cid 207)" "plan_dev (guest_cid 7) \<noteq> plan_dev (guest_cid 207)"
    by code_simp+
  then show ?thesis by (simp add: plan_attach_def Let_def guest_net_def)
qed

text \<open>A set-up that fails on its first translation rule deletes the equal rule of the other grant.\<close>

lemma failed_nat_deletes_equal_rule:
  assumes "nt_nat st = [nat_rule net n]" "su = no_surroundings\<lparr>su_broken := (\<lambda>k. k = nt_clock st)\<rparr>"
  shows "nt_nat (fst (install_nat su net [n] st)) = []"
  using assms by (simp add: install_nat_def remove_nat_def run_cmd_def no_surroundings_def Let_def)

end
