(* ===== verification/Isolated_Host.thy ===== *)
theory Isolated_Host
  imports Contract Paths Isolated_Network "HOL-Library.List_Lexorder" "HOL-Library.Char_ord"
begin

text \<open>
  The isolated host (\<open>isolated/isolated.go\<close>, \<open>env.go\<close>, \<open>catalog.go\<close>): a microVM per grant.
  \<open>Ensure\<close> launches outside the lock, so a call in flight is an object others wait on; each locked
  section is one function. What the operating system decides (a directory that cannot be made, a
  machine that does not start, a guest that does not answer, the bytes of a boot file) is an
  argument. Environments, calls and machines live in stores; the machine of an environment has
  its index.
\<close>

subsection \<open>The image catalog\<close>

record iso_image =
  im_id :: image_name
  im_kernel :: string
  im_rootfs :: string
  im_hash :: string

text \<open>\<open>hex.DecodeString\<close>: pairs of digits, either case.\<close>

fun hex_decode :: "string \<Rightarrow> bytes option" where
  "hex_decode [] = Some []"
| "hex_decode [c] = None"
| "hex_decode (c # d # s) =
     (case (hex_nibble c, hex_nibble d, hex_decode s) of
        (Some x, Some y, Some bs) \<Rightarrow> Some (word_of_nat (16 * x + y) # bs)
      | _ \<Rightarrow> None)"

definition valid_digest :: "string \<Rightarrow> bool" where
  "valid_digest hash = (case hex_decode hash of None \<Rightarrow> False | Some raw \<Rightarrow> length raw = 32)"

text \<open>\<open>digest\<close> is what \<open>Digest(Kernel, Rootfs)\<close> returns.\<close>

definition matches_catalog :: "string res \<Rightarrow> iso_image \<Rightarrow> bool" where
  "matches_catalog digest img =
     (if \<not> valid_digest (im_hash img) \<or> im_kernel img = '''' \<or> im_rootfs img = '''' then False
      else (case digest of
              Inl _ \<Rightarrow> False
            | Inr got_hex \<Rightarrow>
                (case (hex_decode got_hex, hex_decode (im_hash img)) of
                   (Some got, Some want) \<Rightarrow> length got = 32 \<and> want = got
                 | _ \<Rightarrow> False)))"

text \<open>The fingerprint of a file, \<open>None\<close> if it is missing or not regular (then Go's zero value is kept).\<close>

record file_stamp =
  fs_size :: int
  fs_mtime :: int
  fs_mode :: nat

definition zero_stamp :: file_stamp where
  "zero_stamp = \<lparr>fs_size = 0, fs_mtime = 0, fs_mode = 0\<rparr>"

definition stamp_value :: "file_stamp option \<Rightarrow> file_stamp" where
  "stamp_value s = (case s of None \<Rightarrow> zero_stamp | Some v \<Rightarrow> v)"

record image_record =
  ir_image :: iso_image
  ir_kernel :: file_stamp
  ir_rootfs :: file_stamp
  ir_checked :: bool
  ir_valid :: bool

definition ir_verified :: "file_stamp option \<Rightarrow> file_stamp option \<Rightarrow> string res \<Rightarrow> image_record \<Rightarrow> image_record \<times> bool" where
  "ir_verified kstat rstat digest r =
     (if ir_checked r \<and> kstat \<noteq> None \<and> rstat \<noteq> None \<and>
         stamp_value kstat = ir_kernel r \<and> stamp_value rstat = ir_rootfs r
      then (r, ir_valid r)
      else (let v = kstat \<noteq> None \<and> rstat \<noteq> None \<and> matches_catalog digest (ir_image r)
            in (r\<lparr>ir_kernel := stamp_value kstat, ir_rootfs := stamp_value rstat, ir_checked := True, ir_valid := v\<rparr>, v)))"

definition new_image_record :: "file_stamp option \<Rightarrow> file_stamp option \<Rightarrow> string res \<Rightarrow> iso_image \<Rightarrow> image_record" where
  "new_image_record kstat rstat digest img =
     fst (ir_verified kstat rstat digest
       \<lparr>ir_image = img, ir_kernel = zero_stamp, ir_rootfs = zero_stamp, ir_checked = False, ir_valid = False\<rparr>)"

text \<open>\<open>New\<close>'s loop over the configured images.\<close>

fun add_images :: "iso_image list \<Rightarrow> (image_name \<rightharpoonup> iso_image) \<Rightarrow> (image_name \<rightharpoonup> iso_image) res" where
  "add_images [] images = Inr images"
| "add_images (img # imgs) images =
     (if im_id img = '''' \<or> im_kernel img = '''' \<or> im_rootfs img = '''' \<or> \<not> valid_digest (im_hash img)
      then Inl (OpError ''isolated'' (Sent ErrInvalid))
      else if images (im_id img) \<noteq> None then Inl (OpError ''isolated'' (Sent ErrInvalid))
      else add_images imgs (images(im_id img \<mapsto> img)))"

subsection \<open>State\<close>

record vm =
  vm_running :: bool
  vm_paused :: bool
  vm_attached :: bool

record iso_env =
  ie_id :: grant_id
  ie_image :: iso_image
  ie_network :: network
  ie_inst :: "nat option"
  ie_client :: bool
  ie_tree_dir :: string
  ie_frozen :: bool
  ie_revoked :: bool

text \<open>
  \<open>ec_phase\<close> is where the launching \<open>Ensure\<close> stands: it holds the reservation, has a machine, or has
  completed the call.
\<close>

datatype launch_phase = Reserved | Launched nat | Completed

record ensure_call =
  ec_spec :: spec
  ec_done :: bool
  ec_cancelled :: bool
  ec_env :: "nat option"
  ec_err :: "go_error option"
  ec_phase :: launch_phase

text \<open>
  \<open>ih_taken\<close>: the environments that calls of \<open>Revoke\<close> have taken out of \<open>grants\<close> and are about to
  revoke. \<open>ih_trees\<close>: the tree directories that exist.
\<close>

record iso_host =
  ih_slots :: int
  ih_images :: "image_name \<rightharpoonup> iso_image"
  ih_allow :: "string list"
  ih_work_dir :: string
  ih_grants :: "(grant_id \<times> nat) list"
  ih_pending :: "(grant_id \<times> nat) list"
  ih_calls :: "ensure_call list"
  ih_envs :: "iso_env list"
  ih_vms :: "vm list"
  ih_taken :: "nat list"
  ih_trees :: "string list"

record iso_config =
  ic_images :: "iso_image list"
  ic_slots :: int
  ic_work_dir :: string
  ic_device :: string
  ic_runtime :: string
  ic_supervisor :: string
  ic_cpu_millis :: int
  ic_memory_bytes :: int
  ic_allow :: "string list"

text \<open>\<open>prepared\<close> is the error of \<open>prepareWorkDir\<close>.\<close>

definition iso_new :: "iso_config \<Rightarrow> go_error option \<Rightarrow> iso_host res" where
  "iso_new cfg prepared =
     (if ic_work_dir cfg = '''' then Inl (OpError ''isolated'' (Sent ErrInvalid))
      else if isl (parse_allow (ic_allow cfg)) then Inl (OpError ''isolated'' (Sent ErrInvalid))
      else (case add_images (ic_images cfg) Map.empty of
              Inl e \<Rightarrow> Inl e
            | Inr images \<Rightarrow>
                (case prepared of
                   Some e \<Rightarrow> Inl (OpError ''isolated'' e)
                 | None \<Rightarrow>
                     Inr \<lparr>ih_slots = (if ic_slots cfg \<le> 0 then 1 else ic_slots cfg), ih_images = images,
                          ih_allow = ic_allow cfg, ih_work_dir = ic_work_dir cfg, ih_grants = [], ih_pending = [],
                          ih_calls = [], ih_envs = [], ih_vms = [], ih_taken = [], ih_trees = []\<rparr>)))"

definition iso_capabilities :: capabilities where
  "iso_capabilities = \<lparr>cap_isolated = True, cap_freeze = True\<rparr>"

text \<open>\<open>verified\<close>: the ids \<open>verifiedIDs\<close> finds good, in the order of the map.\<close>

definition iso_ready :: "string \<Rightarrow> go_error option \<Rightarrow> go_error option \<Rightarrow> image_name list \<Rightarrow> iso_host \<Rightarrow> report res" where
  "iso_ready release ctx probe verified h =
     (case ctx of
        Some e \<Rightarrow> Inl (OpError ''ready'' e)
      | None \<Rightarrow>
          (let free = ih_slots h - int (length (ih_grants h)) - int (length (ih_pending h))
           in Inr \<lparr>rep_usable = (probe = None), rep_images = sort verified,
                   rep_networks = NetworkNone # (if ih_allow h \<noteq> [] then [NetworkAllowlist] else []),
                   rep_slots = (if free < 0 then 0 else free), rep_release = release\<rparr>))"

definition set_ecall :: "nat \<Rightarrow> ensure_call \<Rightarrow> iso_host \<Rightarrow> iso_host" where
  "set_ecall c x h = h\<lparr>ih_calls := (ih_calls h)[c := x]\<rparr>"

definition set_ienv :: "nat \<Rightarrow> iso_env \<Rightarrow> iso_host \<Rightarrow> iso_host" where
  "set_ienv r x h = h\<lparr>ih_envs := (ih_envs h)[r := x]\<rparr>"

definition set_vm :: "nat \<Rightarrow> vm \<Rightarrow> iso_host \<Rightarrow> iso_host" where
  "set_vm v x h = h\<lparr>ih_vms := (ih_vms h)[v := x]\<rparr>"

subsection \<open>Directories\<close>

text \<open>\<open>filepath.Join\<close> of several elements.\<close>

definition fp_joins :: "string list \<Rightarrow> string" where
  "fp_joins es =
     (case dropWhile (\<lambda>e. e = '''') es of [] \<Rightarrow> '''' | xs \<Rightarrow> fp_clean (join_with CHR ''/'' xs))"

definition grant_dir :: "string \<Rightarrow> grant_id \<Rightarrow> string" where
  "grant_dir work_dir i = fp_joins [work_dir, ''grants'', i]"

definition tree_dir :: "string \<Rightarrow> grant_id \<Rightarrow> string" where
  "tree_dir work_dir i = fp_joins [work_dir, ''grants'', i, ''workspace'']"

text \<open>\<open>filepath.Dir\<close> of a path: what stands before the last slash, cleaned.\<close>

definition fp_dir :: "string \<Rightarrow> string" where
  "fp_dir p = fp_clean (rev (dropWhile (\<lambda>c. c \<noteq> CHR ''/'') (rev p)))"

text \<open>\<open>os.RemoveAll\<close> on a cleaned path: it and everything below it.\<close>

definition below :: "string \<Rightarrow> string \<Rightarrow> bool" where
  "below dir p \<longleftrightarrow> p = dir \<or> take (length dir + 1) p = dir @ ''/''"

definition remove_all :: "string \<Rightarrow> iso_host \<Rightarrow> iso_host" where
  "remove_all dir h = h\<lparr>ih_trees := filter (\<lambda>p. \<not> below dir p) (ih_trees h)\<rparr>"

subsection \<open>Ensure\<close>

text \<open>What a section of \<open>Ensure\<close> decides: an answer, to wait on a call, to verify the image, or to launch.\<close>

datatype ensure_step = Answer "nat res" | WaitOn nat | Verify | LaunchCall nat

definition occupied :: "spec \<Rightarrow> iso_host \<Rightarrow> ensure_step option" where
  "occupied sp h =
     (case map_of (ih_grants h) (spec_id sp) of
        Some r \<Rightarrow>
          let e = ih_envs h ! r
          in Some (Answer (if im_id (ie_image e) \<noteq> spec_image sp \<or> ie_network e \<noteq> spec_network sp
                           then Inl (OpError ''ensure'' (Sent ErrConflict)) else Inr r))
      | None \<Rightarrow>
          (case map_of (ih_pending h) (spec_id sp) of
             Some c \<Rightarrow>
               let s = ec_spec (ih_calls h ! c)
               in Some (if spec_image s \<noteq> spec_image sp \<or> spec_network s \<noteq> spec_network sp
                        then Answer (Inl (OpError ''ensure'' (Sent ErrConflict))) else WaitOn c)
           | None \<Rightarrow> None))"

definition ensure_first :: "go_error option \<Rightarrow> go_error option \<Rightarrow> spec \<Rightarrow> iso_host \<Rightarrow> ensure_step" where
  "ensure_first ctx probe sp h =
     (case ctx of
        Some e \<Rightarrow> Answer (Inl (OpError ''ensure'' e))
      | None \<Rightarrow>
     (case validate_spec sp of
        Some e \<Rightarrow> Answer (Inl (OpError ''ensure'' e))
      | None \<Rightarrow>
          if probe \<noteq> None then Answer (Inl (OpError ''ensure'' (Sent ErrUnavailable)))
          else (case occupied sp h of
                  Some s \<Rightarrow> s
                | None \<Rightarrow>
                    if ih_images h (spec_image sp) = None then Answer (Inl (OpError ''ensure'' (Sent ErrUnknownImage)))
                    else Verify)))"

text \<open>The image record's answer, without the lock.\<close>

definition ensure_verified :: "bool \<Rightarrow> ensure_step" where
  "ensure_verified verified =
     (if verified then Verify else Answer (Inl (OpError ''ensure'' (Sent ErrUnknownImage))))"

definition new_call :: "spec \<Rightarrow> ensure_call" where
  "new_call sp = \<lparr>ec_spec = sp, ec_done = False, ec_cancelled = False, ec_env = None, ec_err = None, ec_phase = Reserved\<rparr>"

text \<open>
  The second section: occupancy again, the network offered, capacity, the reservation and the tree
  directory (\<open>mkdir\<close> is the error of \<open>MkdirAll\<close>, which takes the reservation back).
\<close>

definition ensure_reserve :: "spec \<Rightarrow> go_error option \<Rightarrow> iso_host \<Rightarrow> iso_host \<times> ensure_step" where
  "ensure_reserve sp mkdir h =
     (case occupied sp h of
        Some s \<Rightarrow> (h, s)
      | None \<Rightarrow>
          if spec_network sp = NetworkAllowlist \<and> ih_allow h = [] then (h, Answer (Inl (OpError ''ensure'' (Sent ErrNetwork))))
          else if int (length (ih_grants h)) + int (length (ih_pending h)) \<ge> ih_slots h
          then (h, Answer (Inl (OpError ''ensure'' (Sent ErrCapacity))))
          else (case mkdir of
                  Some e \<Rightarrow> (h, Answer (Inl (OpError ''ensure'' e)))
                | None \<Rightarrow>
                    (let c = length (ih_calls h)
                     in (h\<lparr>ih_calls := ih_calls h @ [new_call sp], ih_pending := (spec_id sp, c) # ih_pending h,
                           ih_trees := tree_dir (ih_work_dir h) (spec_id sp) # ih_trees h\<rparr>, LaunchCall c))))"

text \<open>\<open>launch.Start\<close> returned a machine: the environment object around it.\<close>

definition launched :: "nat \<Rightarrow> iso_image \<Rightarrow> bool \<Rightarrow> iso_host \<Rightarrow> iso_host" where
  "launched c img attached h =
     (let r = length (ih_envs h); sp = ec_spec (ih_calls h ! c)
      in set_ecall c ((ih_calls h ! c)\<lparr>ec_phase := Launched r\<rparr>)
           (h\<lparr>ih_vms := ih_vms h @ [\<lparr>vm_running = True, vm_paused = False, vm_attached = attached\<rparr>],
              ih_envs := ih_envs h @
                [\<lparr>ie_id = spec_id sp, ie_image = img, ie_network = spec_network sp, ie_inst = Some (length (ih_vms h)),
                  ie_client = False, ie_tree_dir = tree_dir (ih_work_dir h) (spec_id sp),
                  ie_frozen = False, ie_revoked = False\<rparr>]\<rparr>))"

definition complete_ensure :: "nat \<Rightarrow> nat option \<Rightarrow> go_error option \<Rightarrow> iso_host \<Rightarrow> iso_host" where
  "complete_ensure c env err h =
     (let x = ih_calls h ! c; i = spec_id (ec_spec x)
      in set_ecall c (x\<lparr>ec_env := env, ec_err := err, ec_cancelled := True, ec_done := True, ec_phase := Completed\<rparr>)
           (h\<lparr>ih_pending := filter (\<lambda>p. fst p \<noteq> i) (ih_pending h),
              ih_grants := (if err = None then (i, the env) # ih_grants h else ih_grants h)\<rparr>))"

text \<open>\<open>waitEnsure\<close>; \<open>None\<close> while it blocks.\<close>

definition wait_ensure :: "go_error option \<Rightarrow> bool \<Rightarrow> nat \<Rightarrow> iso_host \<Rightarrow> nat res option" where
  "wait_ensure ctx pick_ctx c h =
     (let x = ih_calls h ! c;
          outcome = (case ec_err x of Some e \<Rightarrow> Inl e | None \<Rightarrow> Inr (the (ec_env x)))
      in case ctx of
           None \<Rightarrow> if ec_done x then Some outcome else None
         | Some e \<Rightarrow>
             if ec_done x \<and> \<not> pick_ctx then Some outcome else Some (Inl (OpError ''ensure'' e)))"

subsection \<open>Environments\<close>

definition vm_stop :: "nat \<Rightarrow> iso_host \<Rightarrow> iso_host" where
  "vm_stop v h = set_vm v ((ih_vms h ! v)\<lparr>vm_running := False, vm_attached := False\<rparr>) h"

definition env_do_stop :: "nat option \<Rightarrow> iso_host \<Rightarrow> iso_host" where
  "env_do_stop inst h = (case inst of None \<Rightarrow> h | Some v \<Rightarrow> vm_stop v h)"

text \<open>\<open>environment.revoke\<close>: the agent is hung up and the machine stopped.\<close>

definition ienv_revoke :: "nat \<Rightarrow> iso_host \<Rightarrow> iso_host" where
  "ienv_revoke r h =
     (let e = ih_envs h ! r
      in env_do_stop (ie_inst e)
           (set_ienv r (e\<lparr>ie_revoked := True, ie_frozen := False, ie_client := False, ie_inst := None\<rparr>) h))"

text \<open>\<open>dial\<close>: \<open>connect\<close> is what \<open>inst.Connect\<close> returned.\<close>

definition ienv_dial :: "go_error option \<Rightarrow> go_error option \<Rightarrow> nat \<Rightarrow> iso_host \<Rightarrow> iso_host \<times> unit res" where
  "ienv_dial ctx connect r h =
     (let e = ih_envs h ! r in
      case ctx of
        Some er \<Rightarrow> (h, Inl er)
      | None \<Rightarrow>
          if ie_inst e = None then (h, Inl (Sent ErrRevoked))
          else (case connect of
                  Some er \<Rightarrow> (h, Inl er)
                | None \<Rightarrow>
                    if ie_revoked e then (h, Inl (Sent ErrRevoked))
                    else (set_ienv r (e\<lparr>ie_client := True\<rparr>) h, Inr ())))"

definition ienv_guard :: "string \<Rightarrow> iso_env \<Rightarrow> go_error option" where
  "ienv_guard op e =
     (if ie_revoked e then Some (OpError op (Sent ErrRevoked))
      else if ie_frozen e then Some (OpError op (Sent ErrFrozen))
      else None)"

text \<open>\<open>live\<close>: may the operation go to the agent of the guest?\<close>

definition ienv_live :: "string \<Rightarrow> nat \<Rightarrow> iso_host \<Rightarrow> unit res" where
  "ienv_live op r h =
     (let e = ih_envs h ! r in
      case ienv_guard op e of
        Some er \<Rightarrow> Inl er
      | None \<Rightarrow> if ie_client e then Inr () else Inl (OpError op (Sent ErrUnavailable)))"

text \<open>
  \<open>Attach\<close>, \<open>ReplaceTree\<close>, \<open>Apply\<close>, \<open>Watch\<close> and \<open>Open\<close> are the context check, \<open>live\<close> and the agent's
  method of that name, whose result is \<open>answer\<close>.
\<close>

definition ienv_forward :: "string \<Rightarrow> go_error option \<Rightarrow> 'a res \<Rightarrow> nat \<Rightarrow> iso_host \<Rightarrow> 'a res" where
  "ienv_forward op ctx answer r h =
     (case ctx of
        Some e \<Rightarrow> Inl (OpError op e)
      | None \<Rightarrow> (case ienv_live op r h of Inl e \<Rightarrow> Inl e | Inr _ \<Rightarrow> answer))"

definition vm_set_paused :: "bool \<Rightarrow> nat option \<Rightarrow> iso_host \<Rightarrow> iso_host" where
  "vm_set_paused p inst h = (case inst of None \<Rightarrow> h | Some v \<Rightarrow> set_vm v ((ih_vms h ! v)\<lparr>vm_paused := p\<rparr>) h)"

definition ienv_freeze :: "go_error option \<Rightarrow> nat \<Rightarrow> iso_host \<Rightarrow> iso_host \<times> unit res" where
  "ienv_freeze ctx r h =
     (case ctx of
        Some e \<Rightarrow> (h, Inl (OpError ''freeze'' e))
      | None \<Rightarrow>
          (let e = ih_envs h ! r in
           if ie_revoked e then (h, Inl (OpError ''freeze'' (Sent ErrRevoked)))
           else (vm_set_paused True (ie_inst e) (set_ienv r (e\<lparr>ie_frozen := True\<rparr>) h), Inr ())))"

definition ienv_thaw :: "go_error option \<Rightarrow> unit res \<Rightarrow> nat \<Rightarrow> iso_host \<Rightarrow> iso_host \<times> unit res" where
  "ienv_thaw ctx answer r h =
     (case ctx of
        Some e \<Rightarrow> (h, Inl (OpError ''thaw'' e))
      | None \<Rightarrow>
          (let e = ih_envs h ! r in
           if ie_revoked e then (h, Inl (OpError ''thaw'' (Sent ErrRevoked)))
           else (vm_set_paused False (ie_inst e) (set_ienv r (e\<lparr>ie_frozen := False\<rparr>) h),
                 if ie_client e then answer else Inr ())))"

subsection \<open>Revoke\<close>

text \<open>
  One turn of the loop: a call in flight is cancelled and waited for; otherwise the grant is taken out
  of the table, and what is taken is still to be revoked.
\<close>

datatype revoke_step = AwaitCall nat | NoGrant | Took nat

definition revoke_turn :: "grant_id \<Rightarrow> iso_host \<Rightarrow> iso_host \<times> revoke_step" where
  "revoke_turn i h =
     (case map_of (ih_pending h) i of
        Some c \<Rightarrow> (set_ecall c ((ih_calls h ! c)\<lparr>ec_cancelled := True\<rparr>) h, AwaitCall c)
      | None \<Rightarrow>
          (case map_of (ih_grants h) i of
             None \<Rightarrow> (h, NoGrant)
           | Some r \<Rightarrow>
               (h\<lparr>ih_grants := filter (\<lambda>g. fst g \<noteq> i) (ih_grants h), ih_taken := r # ih_taken h\<rparr>, Took r)))"

definition revoke_taken :: "nat \<Rightarrow> iso_host \<Rightarrow> iso_host" where
  "revoke_taken r h = (ienv_revoke r h)\<lparr>ih_taken := remove1 r (ih_taken h)\<rparr>"

text \<open>\<open>removed\<close> is the error of \<open>RemoveAll\<close>.\<close>

definition revoke_finish :: "grant_id \<Rightarrow> go_error option \<Rightarrow> iso_host \<Rightarrow> iso_host \<times> unit res" where
  "revoke_finish i removed h =
     (case removed of
        None \<Rightarrow> (remove_all (grant_dir (ih_work_dir h) i) h, Inr ())
      | Some e \<Rightarrow> (h, Inl (OpError ''revoke'' e)))"

text \<open>The whole call, when nothing comes between its sections; \<open>None\<close> while it waits for a launch.\<close>

definition iso_revoke :: "go_error option \<Rightarrow> go_error option \<Rightarrow> grant_id \<Rightarrow> iso_host \<Rightarrow> (iso_host \<times> unit res) option" where
  "iso_revoke ctx removed i h =
     (case ctx of
        Some e \<Rightarrow> Some (h, Inl (OpError ''revoke'' e))
      | None \<Rightarrow>
          (case revoke_turn i h of
             (h1, AwaitCall c) \<Rightarrow> None
           | (h1, NoGrant) \<Rightarrow> Some (h1, Inr ())
           | (h1, Took r) \<Rightarrow> Some (revoke_finish i removed (revoke_taken r h1))))"

definition iso_grant :: "grant_id \<Rightarrow> iso_host \<Rightarrow> nat res" where
  "iso_grant i h =
     (case map_of (ih_grants h) i of None \<Rightarrow> Inl (OpError ''guest'' (Sent ErrRevoked)) | Some r \<Rightarrow> Inr r)"

text \<open>After a failed launch the directory above the tree is removed, outside the lock.\<close>

definition ensure_cleanup :: "nat \<Rightarrow> iso_host \<Rightarrow> iso_host" where
  "ensure_cleanup c h =
     (if ec_err (ih_calls h ! c) \<noteq> None
      then remove_all (fp_dir (tree_dir (ih_work_dir h) (spec_id (ec_spec (ih_calls h ! c))))) h else h)"

end
