(* ===== verification/Agent_Disk.thy ===== *)
theory Agent_Disk
  imports Tree_Ops
begin

text \<open>
  The agent's projected tree on the guest's disk (\<open>agent/tree.go\<close>). A disk is a finite list of
  paths, each a directory or a file; a path is the list of its elements from the root. Every
  system call may break, and what a broken write leaves in its file is an argument; the code's
  own order of calls, undo functions and discarded errors is kept. Symbolic links are not modelled.
\<close>

subsection \<open>Files and system calls\<close>

type_synonym fpath = "string list"

datatype entry = Dir | File bytes

type_synonym files = "(fpath \<times> entry) list"

definition at :: "files \<Rightarrow> fpath \<Rightarrow> entry option" where
  "at fs p = map_of fs p"

definition is_below :: "fpath \<Rightarrow> fpath \<Rightarrow> bool" where
  "is_below p q \<longleftrightarrow> take (length p) q = p"

definition has_dir :: "files \<Rightarrow> fpath \<Rightarrow> bool" where
  "has_dir fs p \<longleftrightarrow> p = [] \<or> at fs p = Some Dir"

definition put_entry :: "fpath \<Rightarrow> entry \<Rightarrow> files \<Rightarrow> files" where
  "put_entry p e fs = (p, e) # filter (\<lambda>x. fst x \<noteq> p) fs"

definition drop_below :: "fpath \<Rightarrow> files \<Rightarrow> files" where
  "drop_below p fs = filter (\<lambda>x. \<not> is_below p (fst x)) fs"

definition is_empty_dir :: "files \<Rightarrow> fpath \<Rightarrow> bool" where
  "is_empty_dir fs p \<longleftrightarrow> at fs p = Some Dir \<and> list_all (\<lambda>x. \<not> (is_below p (fst x) \<and> fst x \<noteq> p)) fs"

text \<open>\<open>mkdir\<close>, \<open>open\<close> for writing, \<open>remove\<close>, \<open>os.RemoveAll\<close> and \<open>rename\<close>; \<open>None\<close> is an error.\<close>

definition k_mkdir :: "fpath \<Rightarrow> files \<Rightarrow> files option" where
  "k_mkdir p fs = (if p = [] \<or> at fs p \<noteq> None \<or> \<not> has_dir fs (butlast p) then None else Some (put_entry p Dir fs))"

definition k_write :: "fpath \<Rightarrow> bytes \<Rightarrow> files \<Rightarrow> files option" where
  "k_write p data fs =
     (if p = [] \<or> at fs p = Some Dir \<or> \<not> has_dir fs (butlast p) then None else Some (put_entry p (File data) fs))"

definition k_remove :: "fpath \<Rightarrow> files \<Rightarrow> files option" where
  "k_remove p fs =
     (case at fs p of
        None \<Rightarrow> None
      | Some (File _) \<Rightarrow> Some (filter (\<lambda>x. fst x \<noteq> p) fs)
      | Some Dir \<Rightarrow> if is_empty_dir fs p then Some (filter (\<lambda>x. fst x \<noteq> p) fs) else None)"

definition k_remove_all :: "fpath \<Rightarrow> files \<Rightarrow> files option" where
  "k_remove_all p fs = Some (drop_below p fs)"

definition move_below :: "fpath \<Rightarrow> fpath \<Rightarrow> files \<Rightarrow> files" where
  "move_below a b fs = map (\<lambda>x. if is_below a (fst x) then (b @ drop (length a) (fst x), snd x) else x) fs"

definition k_rename :: "fpath \<Rightarrow> fpath \<Rightarrow> files \<Rightarrow> files option" where
  "k_rename a b fs =
     (if a = [] \<or> b = [] \<or> at fs a = None \<or> \<not> has_dir fs (butlast b) then None
      else if a = b then Some fs
      else if is_below a b \<or> is_below b a then None
      else (case (at fs a, at fs b) of
              (_, None) \<Rightarrow> Some (move_below a b fs)
            | (Some Dir, Some Dir) \<Rightarrow>
                if is_empty_dir fs b then Some (move_below a b (drop_below b fs)) else None
            | (Some (File _), Some (File _)) \<Rightarrow> Some (move_below a b (drop_below b fs))
            | _ \<Rightarrow> None))"

text \<open>\<open>Lstat\<close>: an error other than \<open>IsNotExist\<close> when something above the path is a file.\<close>

definition k_lstat :: "fpath \<Rightarrow> files \<Rightarrow> files option" where
  "k_lstat p fs =
     (if list_ex (\<lambda>k. at fs (take k p) \<noteq> None \<and> at fs (take k p) \<noteq> Some Dir) [1..<length p] then None else Some fs)"

text \<open>
  \<open>io_breaks k\<close>: call number \<open>k\<close> fails though it could succeed, when it is made going forward, and
  \<open>io_undo_breaks k\<close> when it is made by an undo function. \<open>io_left k\<close> is what a broken write
  leaves, \<open>io_suffix k\<close> the random name \<open>MkdirTemp\<close> tries last, \<open>io_says k\<close> the text of an error.
\<close>

record io =
  io_breaks :: "nat \<Rightarrow> bool"
  io_undo_breaks :: "nat \<Rightarrow> bool"
  io_left :: "nat \<Rightarrow> bytes option"
  io_suffix :: "nat \<Rightarrow> string"
  io_says :: "nat \<Rightarrow> string"

record disk =
  ds_files :: files
  ds_calls :: nat

definition syscall :: "io \<Rightarrow> (files \<Rightarrow> files option) \<Rightarrow> disk \<Rightarrow> disk \<times> go_error option" where
  "syscall io f d =
     (let k = ds_calls d; d1 = d\<lparr>ds_calls := Suc k\<rparr> in
      case (if io_breaks io k then None else f (ds_files d)) of
        None \<Rightarrow> (d1, Some (Foreign (io_says io k)))
      | Some fs \<Rightarrow> (d1\<lparr>ds_files := fs\<rparr>, None))"

definition sys_write :: "io \<Rightarrow> fpath \<Rightarrow> bytes \<Rightarrow> disk \<Rightarrow> disk \<times> go_error option" where
  "sys_write io p data d =
     (let k = ds_calls d; d1 = d\<lparr>ds_calls := Suc k\<rparr> in
      if io_breaks io k then
        (case io_left io k of
           None \<Rightarrow> (d1, Some (Foreign (io_says io k)))
         | Some part \<Rightarrow>
             (case k_write p part (ds_files d) of
                None \<Rightarrow> (d1, Some (Foreign (io_says io k)))
              | Some fs \<Rightarrow> (d1\<lparr>ds_files := fs\<rparr>, Some (Foreign (io_says io k)))))
      else syscall io (k_write p data) d)"

text \<open>\<open>os.MkdirAll\<close>: the missing ones among the path and its parents, from the top.\<close>

fun mkdir_each :: "io \<Rightarrow> fpath list \<Rightarrow> disk \<Rightarrow> disk \<times> go_error option" where
  "mkdir_each io [] d = (d, None)"
| "mkdir_each io (p # ps) d =
     (if has_dir (ds_files d) p then mkdir_each io ps d
      else (case syscall io (k_mkdir p) d of (d1, Some e) \<Rightarrow> (d1, Some e) | (d1, None) \<Rightarrow> mkdir_each io ps d1))"

definition mkdir_all :: "io \<Rightarrow> fpath \<Rightarrow> disk \<Rightarrow> disk \<times> go_error option" where
  "mkdir_all io p d = mkdir_each io (map (\<lambda>k. take k p) [1..<Suc (length p)]) d"

definition mkdir_temp :: "io \<Rightarrow> fpath \<Rightarrow> string \<Rightarrow> disk \<Rightarrow> disk \<times> fpath res" where
  "mkdir_temp io dir prefix d =
     (let p = dir @ [prefix @ io_suffix io (ds_calls d)] in
      case syscall io (k_mkdir p) d of (d1, Some e) \<Rightarrow> (d1, Inl e) | (d1, None) \<Rightarrow> (d1, Inr p))"

subsection \<open>Undo functions\<close>

datatype undo = UndoRemove fpath | UndoRestore fpath fpath | UndoRename fpath fpath

definition undo_io :: "io \<Rightarrow> io" where
  "undo_io io = io\<lparr>io_breaks := io_undo_breaks io\<rparr>"

fun run_undo :: "io \<Rightarrow> undo \<Rightarrow> disk \<Rightarrow> disk" where
  "run_undo io (UndoRemove p) d = fst (syscall (undo_io io) (k_remove_all p) d)"
| "run_undo io (UndoRestore tmp p) d = fst (syscall (undo_io io) (k_rename tmp p) (fst (syscall (undo_io io) (k_remove_all p) d)))"
| "run_undo io (UndoRename a b) d = fst (syscall (undo_io io) (k_rename a b) d)"

text \<open>\<open>stash\<close>: the undo function and, when there was something, where it went.\<close>

definition stash :: "io \<Rightarrow> fpath \<Rightarrow> disk \<Rightarrow> disk \<times> (undo \<times> fpath option) res" where
  "stash io p d =
     (case syscall io (k_lstat p) d of
        (d1, Some e) \<Rightarrow> (d1, Inl e)
      | (d1, None) \<Rightarrow>
          if at (ds_files d1) p = None then (d1, Inr (UndoRemove p, None))
          else (case mkdir_temp io (butlast p) (CHR ''.'' # last p @ ''-'') d1 of
                  (d2, Inl e) \<Rightarrow> (d2, Inl e)
                | (d2, Inr tmp) \<Rightarrow>
                    (case syscall io (k_remove tmp) d2 of
                       (d3, Some e) \<Rightarrow> (d3, Inl e)
                     | (d3, None) \<Rightarrow>
                         (case syscall io (k_rename p tmp) d3 of
                            (d4, Some e) \<Rightarrow> (d4, Inl e)
                          | (d4, None) \<Rightarrow> (d4, Inr (UndoRestore tmp p, Some tmp))))))"

text \<open>The path on the disk of a path of the tree.\<close>

definition disk_path :: "string \<Rightarrow> string \<Rightarrow> fpath res" where
  "disk_path home p = (case resolve_path home p of Inl e \<Rightarrow> Inl e | Inr full \<Rightarrow> Inr (clean_elems full))"

definition body_of :: "mutation \<Rightarrow> bytes" where
  "body_of mut = (case mu_data mut of None \<Rightarrow> [] | Some b \<Rightarrow> b)"

definition apply_disk :: "io \<Rightarrow> string \<Rightarrow> mutation \<Rightarrow> disk \<Rightarrow> disk \<times> (undo \<times> fpath option) res" where
  "apply_disk io home mut d =
     (case disk_path home (mu_path mut) of
        Inl e \<Rightarrow> (d, Inl e)
      | Inr full \<Rightarrow>
          if mu_op mut = OpCreate \<or> mu_op mut = OpReplace then
            (case stash io full d of
               (d1, Inl e) \<Rightarrow> (d1, Inl e)
             | (d1, Inr (undo, side)) \<Rightarrow>
                 if mu_kind mut = KindDirectory then
                   (case mkdir_all io full d1 of
                      (d2, Some e) \<Rightarrow> (run_undo io undo d2, Inl e)
                    | (d2, None) \<Rightarrow> (d2, Inr (undo, side)))
                 else
                   (case mkdir_all io (butlast full) d1 of
                      (d2, Some e) \<Rightarrow> (run_undo io undo d2, Inl e)
                    | (d2, None) \<Rightarrow>
                        (case sys_write io full (body_of mut) d2 of
                           (d3, Some e) \<Rightarrow> (run_undo io undo d3, Inl e)
                         | (d3, None) \<Rightarrow> (d3, Inr (undo, side)))))
          else if mu_op mut = OpDelete then
            (case stash io full d of
               (d1, Inl e) \<Rightarrow> (d1, Inl e)
             | (d1, Inr (undo, side)) \<Rightarrow>
                 (case syscall io (k_remove full) d1 of
                    (d2, None) \<Rightarrow> (d2, Inr (undo, side))
                  | (d2, Some e) \<Rightarrow>
                      if at (ds_files d1) full = None \<and> \<not> io_breaks io (ds_calls d1) then (d2, Inr (undo, side))
                      else (run_undo io undo d2, Inl e)))
          else if mu_op mut = OpMove then
            (case disk_path home (mu_from mut) of
               Inl e \<Rightarrow> (d, Inl e)
             | Inr from_path \<Rightarrow>
                 (case mkdir_all io (butlast full) d of
                    (d1, Some e) \<Rightarrow> (d1, Inl e)
                  | (d1, None) \<Rightarrow>
                      (case syscall io (k_rename from_path full) d1 of
                         (d2, Some e) \<Rightarrow> (d2, Inl e)
                       | (d2, None) \<Rightarrow> (d2, Inr (UndoRename full from_path, None)))))
          else (d, Inl (Sent ErrInvalid)))"

text \<open>\<open>applyHome\<close>: the undo functions are kept newest first.\<close>

fun apply_loop_disk :: "io \<Rightarrow> string \<Rightarrow> mutation list \<Rightarrow> undo list \<Rightarrow> fpath list \<Rightarrow> disk \<Rightarrow> disk \<times> fpath list res" where
  "apply_loop_disk io home [] undos side d = (d, Inr side)"
| "apply_loop_disk io home (mut # muts) undos side d =
     (case apply_disk io home mut d of
        (d1, Inl e) \<Rightarrow> (fold (run_undo io) undos d1, Inl e)
      | (d1, Inr (undo, stashed)) \<Rightarrow>
          apply_loop_disk io home muts (undo # undos) (side @ (case stashed of None \<Rightarrow> [] | Some p \<Rightarrow> [p])) d1)"

definition apply_home :: "io \<Rightarrow> string \<Rightarrow> mutation list \<Rightarrow> disk \<Rightarrow> disk \<times> unit res" where
  "apply_home io home batch d =
     (case apply_loop_disk io home batch [] [] d of
        (d1, Inl e) \<Rightarrow> (d1, Inl e)
      | (d1, Inr side) \<Rightarrow> (fold (\<lambda>p d. fst (syscall io (k_remove_all p) d)) side d1, Inr ()))"

subsection \<open>Rewriting the tree\<close>

text \<open>\<open>order\<close> is the order in which the iteration over the snapshot finds its paths.\<close>

fun write_nodes :: "io \<Rightarrow> string \<Rightarrow> (string \<times> tree_node) list \<Rightarrow> disk \<Rightarrow> disk \<times> go_error option" where
  "write_nodes io home [] d = (d, None)"
| "write_nodes io home ((path, ent) # rest) d =
     (case disk_path home path of
        Inl e \<Rightarrow> (d, Some e)
      | Inr full \<Rightarrow>
          if tn_kind ent = KindDirectory then
            (case mkdir_all io full d of (d1, Some e) \<Rightarrow> (d1, Some e) | (d1, None) \<Rightarrow> write_nodes io home rest d1)
          else
            (case mkdir_all io (butlast full) d of
               (d1, Some e) \<Rightarrow> (d1, Some e)
             | (d1, None) \<Rightarrow>
                 (case sys_write io full (tn_data ent) d1 of
                    (d2, Some e) \<Rightarrow> (d2, Some e)
                  | (d2, None) \<Rightarrow> write_nodes io home rest d2)))"

text \<open>\<open>os.ReadDir\<close>: the names in a directory.\<close>

definition children :: "files \<Rightarrow> fpath \<Rightarrow> string list" where
  "children fs p = remdups (map (\<lambda>x. last (fst x)) (filter (\<lambda>x. fst x \<noteq> [] \<and> butlast (fst x) = p) fs))"

fun remove_each :: "io \<Rightarrow> fpath list \<Rightarrow> disk \<Rightarrow> disk \<times> go_error option" where
  "remove_each io [] d = (d, None)"
| "remove_each io (p # ps) d =
     (case syscall io (k_remove_all p) d of (d1, Some e) \<Rightarrow> (d1, Some e) | (d1, None) \<Rightarrow> remove_each io ps d1)"

definition clear_children :: "io \<Rightarrow> fpath \<Rightarrow> disk \<Rightarrow> disk \<times> go_error option" where
  "clear_children io home d =
     (case mkdir_all io home d of
        (d1, Some e) \<Rightarrow> (d1, Some e)
      | (d1, None) \<Rightarrow>
          (case syscall io Some d1 of
             (d2, Some e) \<Rightarrow> (d2, Some e)
           | (d2, None) \<Rightarrow> remove_each io (map (\<lambda>n. home @ [n]) (children (ds_files d2) home)) d2))"

fun rename_each :: "io \<Rightarrow> fpath \<Rightarrow> fpath \<Rightarrow> string list \<Rightarrow> disk \<Rightarrow> disk \<times> go_error option" where
  "rename_each io staging home [] d = (d, None)"
| "rename_each io staging home (n # ns) d =
     (case syscall io (k_rename (staging @ [n]) (home @ [n])) d of
        (d1, Some e) \<Rightarrow> (d1, Some e)
      | (d1, None) \<Rightarrow> rename_each io staging home ns d1)"

text \<open>The body of \<open>rewriteHome\<close> once the staging directory is there; it is removed in every case.\<close>

definition rewrite_staged :: "io \<Rightarrow> string \<Rightarrow> fpath \<Rightarrow> (string \<times> tree_node) list \<Rightarrow> disk \<Rightarrow> disk \<times> go_error option" where
  "rewrite_staged io home staging order d =
     (case write_nodes io (CHR ''/'' # join_with CHR ''/'' staging) order d of
        (d1, Some e) \<Rightarrow> (d1, Some e)
      | (d1, None) \<Rightarrow>
          (case clear_children io (clean_elems home) d1 of
             (d2, Some e) \<Rightarrow> (d2, Some e)
           | (d2, None) \<Rightarrow>
               (case syscall io Some d2 of
                  (d3, Some e) \<Rightarrow> (d3, Some e)
                | (d3, None) \<Rightarrow> rename_each io staging (clean_elems home) (children (ds_files d3) staging) d3)))"

definition rewrite_home :: "io \<Rightarrow> string \<Rightarrow> (string \<times> tree_node) list \<Rightarrow> disk \<Rightarrow> disk \<times> go_error option" where
  "rewrite_home io home order d =
     (let h = clean_elems home in
      case mkdir_all io h d of
        (d1, Some e) \<Rightarrow> (d1, Some e)
      | (d1, None) \<Rightarrow>
          (case mkdir_temp io (butlast h) (CHR ''.'' # last h @ ''-next-'') d1 of
             (d2, Inl e) \<Rightarrow> (d2, Some e)
           | (d2, Inr staging) \<Rightarrow>
               (case rewrite_staged io home staging order d2 of
                  (d3, out) \<Rightarrow> (fst (syscall io (k_remove_all staging) d3), out))))"

end
