(* ===== verification/Isolated_Process.thy ===== *)
theory Isolated_Process
  imports Isolated_Host Agent_Disk
begin

text \<open>
  What the isolated host does outside its tables: it looks for the platform (\<open>isolated/probe.go\<close>),
  starts, signals and stops the supervised machine and dials the guest (\<open>isolated/process.go\<close>),
  prepares its work directory (\<open>isolated/workdir_posix.go\<close>) and edits a grant's tree for the guest
  (\<open>isolated/tree.go\<close>). Processes, sockets and the disk are arguments or explicit state; the disk and
  its failing calls are those of theory Agent_Disk.
\<close>

subsection \<open>The platform\<close>

text \<open>\<open>pf_opens\<close>: the device opens for reading and writing; \<open>pf_stat\<close>, \<open>pf_look\<close>: \<open>os.Stat\<close> and \<open>exec.LookPath\<close>.\<close>

record platform =
  pf_linux :: bool
  pf_opens :: "string \<Rightarrow> bool"
  pf_stat :: "string \<Rightarrow> go_error option"
  pf_look :: "string \<Rightarrow> string res"

definition default_device :: string where "default_device = ''/dev/kvm''"
definition default_runtime :: string where "default_runtime = ''firecracker''"
definition default_supervisor :: string where "default_supervisor = ''jailer''"

definition look_binary :: "platform \<Rightarrow> string \<Rightarrow> string \<Rightarrow> string res" where
  "look_binary pf configured fallback =
     (let name = (if configured = '''' then fallback else configured) in
      if rooted name \<or> fp_dir name \<noteq> ''.'' then
        (case pf_stat pf name of Some e \<Rightarrow> Inl e | None \<Rightarrow> Inr name)
      else pf_look pf name)"

definition probe_platform :: "platform \<Rightarrow> iso_config \<Rightarrow> go_error option" where
  "probe_platform pf cfg =
     (let device = (if ic_device cfg = '''' then default_device else ic_device cfg) in
      if \<not> pf_linux pf then Some (Sent ErrUnavailable)
      else if \<not> pf_opens pf device then Some (Sent ErrUnavailable)
      else if isl (look_binary pf (ic_runtime cfg) default_runtime) then Some (Sent ErrUnavailable)
      else if isl (look_binary pf (ic_supervisor cfg) default_supervisor) then Some (Sent ErrUnavailable)
      else None)"

subsection \<open>The machine's document\<close>

record start_request =
  sr_id :: grant_id
  sr_kernel :: string
  sr_rootfs :: string
  sr_tree_dir :: string
  sr_attach :: "net_attach option"
  sr_memory :: int
  sr_cpu :: int

text \<open>The fields of the JSON object; \<open>md_nic\<close> is the MAC address and the device of \<open>eth0\<close>.\<close>

record machine_doc =
  md_kernel :: string
  md_boot_args :: string
  md_rootfs :: string
  md_vcpus :: int
  md_mem_mib :: int
  md_cid :: uint32
  md_uds :: string
  md_nic :: "(string \<times> string) option"

definition boot_args :: "net_attach option \<Rightarrow> string" where
  "boot_args att =
     (let args = ''console=ttyS0 reboot=k panic=1 pci=off home=/workspace init=/usr/local/libexec/execenv-guest'' in
      case att of
        None \<Rightarrow> args
      | Some a \<Rightarrow> args @ '' ip='' @ at_guest_ip a @ ''::'' @ at_host_ip a @ '':255.255.255.252::eth0:off'')"

text \<open>Go divides towards zero; both kinds of division take a negative size to one that is not positive.\<close>

definition machine_document :: "uint32 \<Rightarrow> start_request \<Rightarrow> machine_doc" where
  "machine_document digest req =
     (let mem = sr_memory req div (1024 * 1024); vcpus = sr_cpu req div 1000 in
      \<lparr>md_kernel = sr_kernel req, md_boot_args = boot_args (sr_attach req), md_rootfs = sr_rootfs req,
       md_vcpus = (if vcpus \<le> 0 then 1 else vcpus), md_mem_mib = (if mem \<le> 0 then 128 else mem),
       md_cid = guest_cid digest, md_uds = fp_join (fp_dir (sr_tree_dir req)) ''guest.sock'',
       md_nic = map_option (\<lambda>a. (at_mac a, at_dev a)) (sr_attach req)\<rparr>)"

text \<open>\<open>writeMachineConfig\<close>: the document goes into a file beside the tree; \<open>write_err\<close> is the error of writing it.\<close>

definition write_machine_config :: "uint32 \<Rightarrow> go_error option \<Rightarrow> start_request \<Rightarrow> (string \<times> machine_doc) res" where
  "write_machine_config digest write_err req =
     (case write_err of
        Some e \<Rightarrow> Inl e
      | None \<Rightarrow> Inr (fp_join (fp_dir (sr_tree_dir req)) ''machine.json'', machine_document digest req))"

subsection \<open>The process\<close>

text \<open>A machine's process: its command line, its directory, what \<open>machine.json\<close> holds, and the cleanup that is still to run.\<close>

record machine =
  mc_cmd :: "string list"
  mc_dir :: string
  mc_doc :: machine_doc
  mc_running :: bool
  mc_paused :: bool
  mc_cleanup :: "net_attach option"

definition supervisor_args :: "string \<Rightarrow> string \<Rightarrow> string \<Rightarrow> string \<Rightarrow> grant_id \<Rightarrow> string \<Rightarrow> string \<Rightarrow> string list" where
  "supervisor_args supervisor runtime uid gid i base vm =
     [supervisor, ''--id'', i, ''--exec-file'', runtime, ''--uid'', uid, ''--gid'', gid,
      ''--chroot-base-dir'', base, ''--'', ''--config-file'', vm]"

text \<open>\<open>Start\<close>; the errors of \<open>MkdirAll\<close>, of writing the document and of starting the command are arguments.\<close>

definition process_start :: "platform \<Rightarrow> iso_config \<Rightarrow> string \<Rightarrow> string \<Rightarrow> uint32 \<Rightarrow> go_error option \<Rightarrow>
    go_error option \<Rightarrow> go_error option \<Rightarrow> go_error option \<Rightarrow> start_request \<Rightarrow> machine res" where
  "process_start pf cfg uid gid digest ctx mkdir_err write_err start_err req =
     (case ctx of Some e \<Rightarrow> Inl e | None \<Rightarrow>
      if \<not> pf_linux pf then Inl (Sent ErrUnavailable)
      else (case look_binary pf (ic_runtime cfg) default_runtime of Inl _ \<Rightarrow> Inl (Sent ErrUnavailable) | Inr runtime \<Rightarrow>
      (case look_binary pf (ic_supervisor cfg) default_supervisor of Inl _ \<Rightarrow> Inl (Sent ErrUnavailable) | Inr supervisor \<Rightarrow>
      if sr_kernel req = '''' \<or> sr_rootfs req = '''' then Inl (Sent ErrInvalid)
      else if pf_stat pf (sr_kernel req) \<noteq> None then Inl (Sent ErrUnknownImage)
      else if pf_stat pf (sr_rootfs req) \<noteq> None then Inl (Sent ErrUnknownImage)
      else (case mkdir_err of Some e \<Rightarrow> Inl e | None \<Rightarrow>
      (case write_machine_config digest write_err req of Inl e \<Rightarrow> Inl e | Inr (vm, doc) \<Rightarrow>
      (let dir = fp_dir (sr_tree_dir req);
           base = (if ic_work_dir cfg = '''' then fp_dir dir else ic_work_dir cfg) in
       if start_err \<noteq> None then Inl (Sent ErrUnavailable)
       else Inr \<lparr>mc_cmd = supervisor_args supervisor runtime uid gid (sr_id req) base vm, mc_dir = dir, mc_doc = doc,
                 mc_running = True, mc_paused = False, mc_cleanup = sr_attach req\<rparr>))))))"

text \<open>\<open>Pause\<close> and \<open>Resume\<close> send a signal, which may fail; \<open>Stop\<close> kills, waits and closes the network once.\<close>

definition process_signal :: "go_error option \<Rightarrow> bool \<Rightarrow> machine \<Rightarrow> machine \<times> go_error option" where
  "process_signal err pause m = (case err of Some e \<Rightarrow> (m, Some e) | None \<Rightarrow> (m\<lparr>mc_paused := pause\<rparr>, None))"

definition process_stop :: "surroundings \<Rightarrow> machine \<Rightarrow> net_state \<Rightarrow> machine \<times> net_state" where
  "process_stop su m st =
     (m\<lparr>mc_running := False, mc_cleanup := None\<rparr>,
      case mc_cleanup m of None \<Rightarrow> st | Some att \<Rightarrow> close_attach su att st)"

subsection \<open>Dialling the guest\<close>

definition link_port :: nat where "link_port = 5000"

definition link_hello :: string where
  "link_hello = ''CONNECT '' @ format_uint link_port @ [CHR 0x0A]"

text \<open>
  One attempt: the errors of connecting and of writing \<open>link_hello\<close>, then what \<open>io.ReadFull\<close> of three
  bytes meets: an error, the bytes that come, or nothing at all (\<open>None\<close>: the peer keeps the connection
  and says nothing; no deadline is set on it). \<open>dl_time\<close>: the milliseconds it takes when it returns.
\<close>

record dial =
  dl_connect :: "go_error option"
  dl_write :: "go_error option"
  dl_answer :: "bytes res option"
  dl_time :: nat

definition dial_guest :: "dial \<Rightarrow> unit res option" where
  "dial_guest d =
     (case dl_connect d of Some e \<Rightarrow> Some (Inl e) | None \<Rightarrow>
     (case dl_write d of Some e \<Rightarrow> Some (Inl e) | None \<Rightarrow>
     (case dl_answer d of
        None \<Rightarrow> None
      | Some (Inl e) \<Rightarrow> Some (Inl (Sent ErrUnavailable))
      | Some (Inr bs) \<Rightarrow>
          if take 3 bs = bytes_of_string (''OK'' @ [CHR 0x0A]) then Some (Inr ()) else Some (Inl (Sent ErrUnavailable)))))"

text \<open>
  \<open>Connect\<close> from attempt \<open>n\<close> at time \<open>t\<close>, in a context that ends at \<open>ends\<close>: after an attempt that failed, the end
  of the context or 50 milliseconds, whichever comes first; \<open>pick\<close> chooses when both do. The result is
  the number of attempts, the time and the answer; \<open>None\<close> when it never returns.
\<close>

partial_function (option) connect_from :: "(nat \<Rightarrow> dial) \<Rightarrow> (nat \<Rightarrow> bool) \<Rightarrow> nat option \<Rightarrow> nat \<Rightarrow> nat \<Rightarrow> (nat \<times> nat \<times> unit res) option" where
  "connect_from ds pick ends n t =
     (case dial_guest (ds n) of
        None \<Rightarrow> None
      | Some (Inr _) \<Rightarrow> Some (Suc n, t + dl_time (ds n), Inr ())
      | Some (Inl _) \<Rightarrow>
          (case ends of
             None \<Rightarrow> connect_from ds pick ends (Suc n) (t + dl_time (ds n) + 50)
           | Some T \<Rightarrow>
               if T < t + dl_time (ds n) + 50 \<or> T = t + dl_time (ds n) + 50 \<and> pick n
               then Some (Suc n, max T (t + dl_time (ds n)), Inl (Sent ErrUnavailable))
               else connect_from ds pick ends (Suc n) (t + dl_time (ds n) + 50)))"

definition guest_socket :: "machine \<Rightarrow> string" where
  "guest_socket m = fp_join (mc_dir m) ''guest.sock''"

subsection \<open>The work directory\<close>

text \<open>\<open>os.OpenFile\<close> with \<open>O_CREATE\<close>: a file that is there stays as it is.\<close>

definition k_create :: "fpath \<Rightarrow> files \<Rightarrow> files option" where
  "k_create p fs =
     (case at fs p of None \<Rightarrow> k_write p [] fs | Some (File b) \<Rightarrow> Some fs | Some Dir \<Rightarrow> None)"

text \<open>\<open>prepareWorkDir\<close>; \<open>held\<close>: another process has the lock.\<close>

definition prepare_work_dir :: "io \<Rightarrow> bool \<Rightarrow> string \<Rightarrow> Agent_Disk.disk \<Rightarrow> Agent_Disk.disk \<times> unit res" where
  "prepare_work_dir io held work_dir d =
     (let w = clean_elems work_dir; grants = w @ [''grants''] in
      case mkdir_all io w d of (d1, Some e) \<Rightarrow> (d1, Inl e) | (d1, None) \<Rightarrow>
     (case syscall io (k_create (w @ [''.lock''])) d1 of (d2, Some e) \<Rightarrow> (d2, Inl e) | (d2, None) \<Rightarrow>
     (case syscall io (\<lambda>fs. if held then None else Some fs) d2 of (d3, Some e) \<Rightarrow> (d3, Inl e) | (d3, None) \<Rightarrow>
     (case syscall io (k_remove_all grants) d3 of (d4, Some e) \<Rightarrow> (d4, Inl e) | (d4, None) \<Rightarrow>
     (case mkdir_all io grants d4 of (d5, Some e) \<Rightarrow> (d5, Inl e) | (d5, None) \<Rightarrow> (d5, Inr ()))))))"

subsection \<open>The guest's edits\<close>

text \<open>\<open>writeGuest\<close>, \<open>removeGuest\<close> and \<open>moveGuest\<close> of an environment, under its lock.\<close>

definition guest_error :: "go_error \<Rightarrow> 'a res" where
  "guest_error e = Inl (OpError ''guest'' e)"

definition ienv_write_guest :: "io \<Rightarrow> iso_env \<Rightarrow> string \<Rightarrow> bytes \<Rightarrow> Agent_Disk.disk \<Rightarrow> Agent_Disk.disk \<times> unit res" where
  "ienv_write_guest io e path data d =
     (case ienv_guard ''guest'' e of Some er \<Rightarrow> (d, Inl er) | None \<Rightarrow>
     (case disk_path (ie_tree_dir e) path of Inl er \<Rightarrow> (d, guest_error er) | Inr full \<Rightarrow>
     (case mkdir_all io (butlast full) d of (d1, Some er) \<Rightarrow> (d1, guest_error er) | (d1, None) \<Rightarrow>
     (case sys_write io full data d1 of (d2, Some er) \<Rightarrow> (d2, guest_error er) | (d2, None) \<Rightarrow> (d2, Inr ())))))"

definition ienv_remove_guest :: "io \<Rightarrow> iso_env \<Rightarrow> string \<Rightarrow> Agent_Disk.disk \<Rightarrow> Agent_Disk.disk \<times> unit res" where
  "ienv_remove_guest io e path d =
     (case ienv_guard ''guest'' e of Some er \<Rightarrow> (d, Inl er) | None \<Rightarrow>
     (case disk_path (ie_tree_dir e) path of Inl er \<Rightarrow> (d, guest_error er) | Inr full \<Rightarrow>
     (case syscall io (k_lstat full) d of (d1, Some er) \<Rightarrow> (d1, guest_error (Sent ErrNotFound)) | (d1, None) \<Rightarrow>
      if at (ds_files d1) full = None then (d1, guest_error (Sent ErrNotFound))
      else (case syscall io (k_remove_all full) d1 of (d2, Some er) \<Rightarrow> (d2, guest_error er) | (d2, None) \<Rightarrow> (d2, Inr ())))))"

definition ienv_move_guest :: "io \<Rightarrow> iso_env \<Rightarrow> string \<Rightarrow> string \<Rightarrow> Agent_Disk.disk \<Rightarrow> Agent_Disk.disk \<times> unit res" where
  "ienv_move_guest io e from_path to_path d =
     (case ienv_guard ''guest'' e of Some er \<Rightarrow> (d, Inl er) | None \<Rightarrow>
     (case disk_path (ie_tree_dir e) from_path of Inl er \<Rightarrow> (d, guest_error er) | Inr src \<Rightarrow>
     (case disk_path (ie_tree_dir e) to_path of Inl er \<Rightarrow> (d, guest_error er) | Inr dst \<Rightarrow>
     (case syscall io (k_lstat src) d of (d1, Some er) \<Rightarrow> (d1, guest_error (Sent ErrNotFound)) | (d1, None) \<Rightarrow>
      if at (ds_files d1) src = None then (d1, guest_error (Sent ErrNotFound))
      else (case syscall io (k_lstat dst) d1 of (d2, there) \<Rightarrow>
        if there = None \<and> at (ds_files d2) dst \<noteq> None then (d2, guest_error (Sent ErrConflict))
        else (case mkdir_all io (butlast dst) d2 of (d3, Some er) \<Rightarrow> (d3, guest_error er) | (d3, None) \<Rightarrow>
             (case syscall io (k_rename src dst) d3 of (d4, Some er) \<Rightarrow> (d4, guest_error er) | (d4, None) \<Rightarrow> (d4, Inr ()))))))))"

text \<open>\<open>Host.WriteGuest\<close>, \<open>RemoveGuest\<close> and \<open>MoveGuest\<close>.\<close>

definition iso_write_guest :: "io \<Rightarrow> go_error option \<Rightarrow> grant_id \<Rightarrow> string \<Rightarrow> bytes \<Rightarrow> iso_host \<Rightarrow> Agent_Disk.disk \<Rightarrow> Agent_Disk.disk \<times> unit res" where
  "iso_write_guest io ctx i path data h d =
     (case ctx of Some e \<Rightarrow> (d, guest_error e) | None \<Rightarrow>
     (case validate_path path of Some e \<Rightarrow> (d, guest_error e) | None \<Rightarrow>
      if length data > max_file_bytes then (d, guest_error (Sent ErrTooLarge))
      else (case iso_grant i h of Inl e \<Rightarrow> (d, Inl e) | Inr r \<Rightarrow> ienv_write_guest io (ih_envs h ! r) path data d)))"

definition iso_remove_guest :: "io \<Rightarrow> go_error option \<Rightarrow> grant_id \<Rightarrow> string \<Rightarrow> iso_host \<Rightarrow> Agent_Disk.disk \<Rightarrow> Agent_Disk.disk \<times> unit res" where
  "iso_remove_guest io ctx i path h d =
     (case ctx of Some e \<Rightarrow> (d, guest_error e) | None \<Rightarrow>
     (case validate_path path of Some e \<Rightarrow> (d, guest_error e) | None \<Rightarrow>
     (case iso_grant i h of Inl e \<Rightarrow> (d, Inl e) | Inr r \<Rightarrow> ienv_remove_guest io (ih_envs h ! r) path d)))"

definition iso_move_guest :: "io \<Rightarrow> go_error option \<Rightarrow> grant_id \<Rightarrow> string \<Rightarrow> string \<Rightarrow> iso_host \<Rightarrow> Agent_Disk.disk \<Rightarrow> Agent_Disk.disk \<times> unit res" where
  "iso_move_guest io ctx i from_path to_path h d =
     (case ctx of Some e \<Rightarrow> (d, guest_error e) | None \<Rightarrow>
     (case validate_path from_path of Some e \<Rightarrow> (d, guest_error e) | None \<Rightarrow>
     (case validate_path to_path of Some e \<Rightarrow> (d, guest_error e) | None \<Rightarrow>
     (case iso_grant i h of Inl e \<Rightarrow> (d, Inl e) | Inr r \<Rightarrow> ienv_move_guest io (ih_envs h ! r) from_path to_path d))))"

end
