(* ===== verification/Agent_Disk_Props.thy ===== *)
theory Agent_Disk_Props
  imports Agent_Disk
begin

text \<open>
  What the agent promises of the disk: a batch that fails is taken back, a rewritten tree is the
  snapshot and nothing else, and a failed write leaves the tree alone. Also the runs in which an
  accepted batch destroys what it does not name.
\<close>

subsection \<open>Looking up after an operation\<close>

lemma at_Nil [simp]: "at [] p = None"
  by (simp add: at_def)

lemma at_Cons [simp]: "at ((q, e) # fs) p = (if p = q then Some e else at fs p)"
  by (simp add: at_def)

lemma at_filter: "(\<forall>e. P (p, e)) \<or> (\<forall>e. \<not> P (p, e)) \<Longrightarrow> at (filter P fs) p = (if \<forall>e. P (p, e) then at fs p else None)"
  by (induction fs) (auto simp: at_def)

lemma at_put [simp]: "at (put_entry p e fs) q = (if q = p then Some e else at fs q)"
  by (auto simp: put_entry_def at_filter)

lemma at_drop [simp]: "at (drop_below p fs) q = (if is_below p q then None else at fs q)"
  by (auto simp: drop_below_def at_filter)

lemma at_remove [simp]: "at (filter (\<lambda>x. fst x \<noteq> p) fs) q = (if q = p then None else at fs q)"
  by (auto simp: at_filter)

lemma is_below_refl [simp]: "is_below p p"
  by (simp add: is_below_def)

lemma is_below_append [simp]: "is_below p (p @ q)"
  by (simp add: is_below_def)

lemma is_below_app [simp]: "is_below (d @ a) (d @ b) = is_below a b"
  by (simp add: is_below_def)

lemma is_below_Nil [simp]: "is_below [] q"
  by (simp add: is_below_def)

lemma is_below_antisym: "is_below a b \<Longrightarrow> is_below b a \<Longrightarrow> a = b"
  by (metis is_below_def nle_le take_all)

lemma is_below_ex: "is_below p q \<longleftrightarrow> (\<exists>r. q = p @ r)"
  by (auto simp: is_below_def) (metis append_take_drop_id)

lemma at_move:
  assumes "\<not> is_below a b" "\<not> is_below b a" "\<And>q. is_below b q \<Longrightarrow> at fs q = None"
  shows "at (move_below a b fs) q =
    (if is_below b q then at fs (a @ drop (length b) q) else if is_below a q then None else at fs q)"
proof -
  have disj: "\<not> (is_below a x \<and> is_below b x)" for x
    using assms(1,2) by (auto simp: is_below_ex) (metis append_eq_append_conv2)
  have "\<forall>x \<in> set fs. \<not> is_below b (fst x)"
    using assms(3) by (metis at_def map_of_eq_None_iff image_eqI)
  then show ?thesis
    unfolding move_below_def
  proof (induction fs)
    case (Cons x fs)
    obtain p e where x: "x = (p, e)" by fastforce
    have nb: "\<not> is_below b p" using Cons.prems x by simp
    show ?case
    proof (cases "is_below a p")
      case True
      then obtain r where r: "p = a @ r" by (auto simp: is_below_ex)
      show ?thesis using Cons r x nb disj
        by (auto simp: is_below_ex)
    next
      case False
      then show ?thesis using Cons x nb disj by (auto simp: is_below_ex)
    qed
  qed simp
qed

subsection \<open>Well-formed disks\<close>

definition wf_files :: "files \<Rightarrow> bool" where
  "wf_files fs \<longleftrightarrow> (\<forall>p e. at fs p = Some e \<longrightarrow> p \<noteq> [] \<and> has_dir fs (butlast p))"

lemma wf_above: "wf_files fs \<Longrightarrow> at fs (p @ r) \<noteq> None \<Longrightarrow> r \<noteq> [] \<Longrightarrow> has_dir fs p"
proof (induction r rule: rev_induct)
  case (snoc x r)
  then have "has_dir fs (p @ r)" by (auto simp: wf_files_def butlast_append)
  then show ?case using snoc by (cases "r = []") (auto simp: has_dir_def)
qed simp

lemma wf_nothing_below: "wf_files fs \<Longrightarrow> at fs p = None \<Longrightarrow> p \<noteq> [] \<Longrightarrow> is_below p q \<Longrightarrow> at fs q = None"
  using wf_above[of fs p] by (auto simp: is_below_ex has_dir_def) (metis append_Nil2 not_None_eq option.distinct(1))

lemma wf_put: "wf_files fs \<Longrightarrow> p \<noteq> [] \<Longrightarrow> has_dir fs (butlast p) \<Longrightarrow> at fs p = None \<or> e = Dir \<or> at fs p \<noteq> Some Dir \<Longrightarrow>
    wf_files (put_entry p e fs)"
  by (auto simp: wf_files_def has_dir_def)

lemma wf_k_mkdir: "wf_files fs \<Longrightarrow> k_mkdir p fs = Some fs' \<Longrightarrow> wf_files fs'"
  using wf_put[of fs p Dir] by (auto simp: k_mkdir_def split: if_splits)

lemma wf_k_write: "wf_files fs \<Longrightarrow> k_write p b fs = Some fs' \<Longrightarrow> wf_files fs'"
  using wf_put[of fs p "File b"] by (auto simp: k_write_def split: if_splits)

lemma butlast_below: "is_below p (butlast q) \<Longrightarrow> is_below p q"
  by (cases q rule: rev_cases) (auto simp: is_below_ex)

lemma not_below_butlast: "b \<noteq> [] \<Longrightarrow> \<not> is_below b (butlast b)"
  by (cases b rule: rev_cases) (auto simp: is_below_def)

lemma wf_drop: "wf_files fs \<Longrightarrow> p \<noteq> [] \<Longrightarrow> wf_files (drop_below p fs)"
  using butlast_below by (auto simp: wf_files_def has_dir_def)

lemma sibling:
  assumes "p \<noteq> []" "tmp = butlast p @ [n]" "tmp \<noteq> p"
  shows "\<not> is_below p tmp" "\<not> is_below tmp p" "\<not> is_below p (butlast p)" "\<not> is_below tmp (butlast p)" "butlast tmp = butlast p"
proof -
  obtain q m where p: "p = q @ [m]" using assms(1) by (metis append_butlast_last_id)
  then show "\<not> is_below p tmp" "\<not> is_below tmp p" "\<not> is_below p (butlast p)" "\<not> is_below tmp (butlast p)" "butlast tmp = butlast p"
    using assms(2,3) by (auto simp: is_below_def)
qed

lemma wf_rename:
  assumes "wf_files fs" "k_rename a b fs = Some fs'"
  shows "wf_files fs'"
proof (cases "a = b")
  case True
  then show ?thesis using assms by (auto simp: k_rename_def split: if_splits)
next
  case False
  define fs0 where "fs0 = (if at fs b = None then fs else drop_below b fs)"
  have c: "a \<noteq> []" "b \<noteq> []" "at fs a \<noteq> None" "has_dir fs (butlast b)" "\<not> is_below a b" "\<not> is_below b a"
    and fs': "fs' = move_below a b fs0"
    using assms(2) False by (auto simp: k_rename_def fs0_def split: if_splits option.splits entry.splits)
  have none: "is_below b q \<Longrightarrow> at fs0 q = None" for q
    using wf_nothing_below[OF assms(1) _ c(2)] by (auto simp: fs0_def)
  have keep: "\<not> is_below b q \<Longrightarrow> at fs0 q = at fs q" for q by (simp add: fs0_def)
  have look: "at fs' q = (if is_below b q then at fs0 (a @ drop (length b) q) else if is_below a q then None else at fs0 q)" for q
    unfolding fs' by (rule at_move[OF c(5,6) none])
  have wf0: "wf_files fs0" using assms(1) wf_drop c(2) by (simp add: fs0_def)
  have up: "has_dir fs0 (butlast q) \<Longrightarrow> \<not> is_below b q \<Longrightarrow> \<not> is_below a q \<Longrightarrow> has_dir fs' (butlast q)" for q
    using look butlast_below by (auto simp: has_dir_def)
  have nb: "\<not> is_below b (butlast b)" "\<not> is_below a (butlast b)"
    using not_below_butlast[OF c(2)] c(5) butlast_below by blast+
  show ?thesis
    unfolding wf_files_def
  proof (intro allI impI conjI)
    fix q e assume q: "at fs' q = Some e"
    show "q \<noteq> []" using q look c(1,2) wf0 by (auto simp: wf_files_def is_below_def split: if_splits)
    show "has_dir fs' (butlast q)"
    proof (cases "is_below b q")
      case False
      then show ?thesis using q look up wf0 by (auto simp: wf_files_def split: if_splits)
    next
      case True
      then obtain r where r: "q = b @ r" by (auto simp: is_below_ex)
      then have ar: "at fs0 (a @ r) = Some e" using q look by simp
      show ?thesis
      proof (cases r rule: rev_cases)
        case Nil
        have "at fs' (butlast b) = at fs (butlast b)" using look nb keep by simp
        then show ?thesis using c(4) r Nil by (simp add: has_dir_def)
      next
        case (snoc r' x)
        then have "has_dir fs0 (a @ r')" using ar wf0 by (auto simp: wf_files_def butlast_append)
        then have "at fs0 (a @ r') = Some Dir" using c(1) by (simp add: has_dir_def)
        then show ?thesis using r snoc look[of "b @ r'"] by (simp add: has_dir_def butlast_append)
      qed
    qed
  qed
qed

text \<open>Renaming to a free name.\<close>

lemma rename_free:
  assumes "wf_files fs" "a \<noteq> []" "b \<noteq> []" "at fs a \<noteq> None" "at fs b = None" "has_dir fs (butlast b)"
    and "\<not> is_below a b" "\<not> is_below b a"
  obtains fs' where "k_rename a b fs = Some fs'" "\<And>q. at fs' q =
    (if is_below b q then at fs (a @ drop (length b) q) else if is_below a q then None else at fs q)"
proof
  have "a \<noteq> b" using assms(7) by auto
  then show "k_rename a b fs = Some (move_below a b fs)"
    using assms by (auto simp: k_rename_def split: option.splits entry.splits)
  show "at (move_below a b fs) q =
    (if is_below b q then at fs (a @ drop (length b) q) else if is_below a q then None else at fs q)" for q
    using wf_nothing_below[OF assms(1,5,3)] by (intro at_move[OF assms(7,8)]) auto
qed

subsection \<open>The same files, perhaps more directories\<close>

definition covers :: "files \<Rightarrow> files \<Rightarrow> bool" where
  "covers s s' \<longleftrightarrow> (\<forall>q. at s' q = at s q \<or> at s q = None \<and> at s' q = Some Dir)"

lemma covers_refl [simp]: "covers s s"
  by (simp add: covers_def)

lemma covers_trans: "covers a b \<Longrightarrow> covers b c \<Longrightarrow> covers a c"
  unfolding covers_def by (metis not_None_eq)

text \<open>Changes at one path and above it only.\<close>

definition covers_but :: "fpath \<Rightarrow> files \<Rightarrow> files \<Rightarrow> bool" where
  "covers_but p s s' \<longleftrightarrow> (\<forall>q. \<not> is_below p q \<longrightarrow> at s' q = at s q \<or> at s q = None \<and> at s' q = Some Dir)"

lemma covers_but_refl [simp]: "covers_but p s s"
  by (simp add: covers_but_def)

lemma covers_but_trans: "covers_but p a b \<Longrightarrow> covers_but p b c \<Longrightarrow> covers_but p a c"
  unfolding covers_but_def by (metis not_None_eq)

lemma covers_covers_but: "covers a b \<Longrightarrow> covers_but p a b"
  by (simp add: covers_def covers_but_def)

lemma undo_remove_covers:
  assumes "wf_files s" "p \<noteq> []" "at s p = None" "covers_but p s s1" "covers s1 s2"
  shows "covers s (drop_below p s2)"
  unfolding covers_def
proof
  fix q
  show "at (drop_below p s2) q = at s q \<or> at s q = None \<and> at (drop_below p s2) q = Some Dir"
    using assms(4,5) wf_nothing_below[OF assms(1,3,2)] unfolding covers_def covers_but_def
    by (cases "is_below p q") (simp, metis at_drop not_None_eq)
qed

text \<open>What \<open>stash\<close> did when there was something: it is all under the temporary name now.\<close>

definition stashed :: "fpath \<Rightarrow> fpath \<Rightarrow> files \<Rightarrow> files \<Rightarrow> bool" where
  "stashed p tmp s s1 \<longleftrightarrow>
     (\<forall>q. at s1 q = (if is_below tmp q then at s (p @ drop (length tmp) q) else if is_below p q then None else at s q))"

lemma undo_restore_covers:
  assumes wf: "wf_files s2" and p: "p \<noteq> []" "tmp = butlast p @ [n]" "tmp \<noteq> p"
    and s: "wf_files s" "at s p \<noteq> None" "at s tmp = None" "stashed p tmp s s1"
    and later: "covers_but p s1 s1'" "covers s1' s2"
  obtains s3 where "k_rename tmp p (drop_below p s2) = Some s3" "covers s s3" "wf_files s3"
proof -
  note sib = sibling[OF p]
  have tmp_ne: "tmp \<noteq> []" using p(2) by simp
  have apart: "is_below tmp q \<Longrightarrow> \<not> is_below p q" for q
    using sib(1,2) by (auto simp: is_below_ex) (metis append_eq_append_conv2)
  have mv: "at s2 q = at s1 q \<or> at s1 q = None \<and> at s2 q = Some Dir" if "\<not> is_below p q" for q
    using later that unfolding covers_def covers_but_def by (metis not_None_eq)
  have wf0: "wf_files (drop_below p s2)" using wf_drop wf p(1) by simp
  have t: "at s1 tmp = at s p" using s(4) by (simp add: stashed_def)
  have "at (drop_below p s2) tmp \<noteq> None" using mv[of tmp] t s(2) sib(1) by auto
  moreover have "at (drop_below p s2) p = None" by simp
  moreover have "has_dir (drop_below p s2) (butlast p)"
  proof -
    have "has_dir s (butlast p)" using s(1,2) by (auto simp: wf_files_def)
    then show ?thesis using sib(3,4) mv[of "butlast p"] s(4) by (auto simp: has_dir_def stashed_def)
  qed
  ultimately obtain s3 where s3: "k_rename tmp p (drop_below p s2) = Some s3" "\<And>q. at s3 q =
      (if is_below p q then at (drop_below p s2) (tmp @ drop (length p) q) else if is_below tmp q then None
       else at (drop_below p s2) q)"
    using rename_free[OF wf0 tmp_ne p(1) _ _ _ sib(2,1)] by blast
  have "covers s s3"
    unfolding covers_def
  proof
    fix q
    show "at s3 q = at s q \<or> at s q = None \<and> at s3 q = Some Dir"
    proof (cases "is_below p q")
      case True
      then obtain r where r: "q = p @ r" by (auto simp: is_below_ex)
      have "at s3 q = at s2 (tmp @ r)" using s3(2) r True apart[of "tmp @ r"] by simp
      moreover have "at s1 (tmp @ r) = at s q" using s(4) r by (simp add: stashed_def)
      ultimately show ?thesis using mv[of "tmp @ r"] apart[of "tmp @ r"] by simp
    next
      case False
      show ?thesis
      proof (cases "is_below tmp q")
        case True
        then show ?thesis using s3(2) False wf_nothing_below[OF s(1,3) tmp_ne] by simp
      next
        case nt: False
        then have "at s3 q = at s2 q" "at s1 q = at s q" using s3(2) s(4) False by (simp_all add: stashed_def)
        then show ?thesis using mv[OF False] by simp
      qed
    qed
  qed
  then show ?thesis using that s3(1) wf_rename[OF wf0 s3(1)] by blast
qed

subsection \<open>What one call changes\<close>

lemma syscall_cases:
  "syscall io f d = (d1, out) \<Longrightarrow>
   (out \<noteq> None \<and> ds_files d1 = ds_files d) \<or> (out = None \<and> f (ds_files d) = Some (ds_files d1))"
  by (auto simp: syscall_def Let_def split: option.splits if_splits)

lemma covers_mkdir: "k_mkdir p fs = Some fs' \<Longrightarrow> covers fs fs'"
  by (auto simp: k_mkdir_def covers_def split: if_splits)

lemma mkdir_each_covers:
  "mkdir_each io ps d = (d1, out) \<Longrightarrow> wf_files (ds_files d) \<Longrightarrow> wf_files (ds_files d1) \<and> covers (ds_files d) (ds_files d1)"
proof (induction ps arbitrary: d)
  case (Cons p ps)
  show ?case
  proof (cases "has_dir (ds_files d) p")
    case True
    then show ?thesis using Cons by simp
  next
    case False
    obtain d2 o2 where r: "syscall io (k_mkdir p) d = (d2, o2)" by fastforce
    have "wf_files (ds_files d2) \<and> covers (ds_files d) (ds_files d2)"
      using syscall_cases[OF r] wf_k_mkdir covers_mkdir Cons.prems(2) by auto
    moreover have "o2 = None \<Longrightarrow> mkdir_each io ps d2 = (d1, out)" "o2 \<noteq> None \<Longrightarrow> d1 = d2"
      using Cons.prems(1) False r by auto
    ultimately show ?thesis using Cons.IH covers_trans by (cases "o2 = None") blast+
  qed
qed simp

lemma mkdir_all_covers:
  "mkdir_all io p d = (d1, out) \<Longrightarrow> wf_files (ds_files d) \<Longrightarrow> wf_files (ds_files d1) \<and> covers (ds_files d) (ds_files d1)"
  unfolding mkdir_all_def by (rule mkdir_each_covers)

lemma k_write_but: "k_write p b fs = Some fs' \<Longrightarrow> covers_but p fs fs'"
  by (auto simp: k_write_def covers_but_def split: if_splits)

lemma sys_write_but:
  assumes "sys_write io p b d = (d1, out)" "wf_files (ds_files d)"
  shows "wf_files (ds_files d1) \<and> covers_but p (ds_files d) (ds_files d1)"
proof (cases "io_breaks io (ds_calls d)")
  case True
  then show ?thesis
    using assms wf_k_write k_write_but by (auto simp: sys_write_def Let_def split: option.splits)
next
  case False
  then have "syscall io (k_write p b) d = (d1, out)" using assms(1) by (simp add: sys_write_def Let_def)
  then show ?thesis using syscall_cases wf_k_write k_write_but assms(2) by (metis covers_but_refl)
qed

lemma k_remove_but: "k_remove p fs = Some fs' \<Longrightarrow> covers_but p fs fs'"
  by (auto simp: k_remove_def covers_but_def split: option.splits entry.splits if_splits)

lemma wf_k_remove:
  assumes "wf_files fs" "k_remove p fs = Some fs'"
  shows "wf_files fs'"
proof -
  have fs': "fs' = filter (\<lambda>x. fst x \<noteq> p) fs" and
    leaf: "(\<exists>b. at fs p = Some (File b)) \<or> is_empty_dir fs p"
    using assms(2) by (auto simp: k_remove_def split: option.splits entry.splits if_splits)
  have "at fs q = None" if "butlast q = p" "q \<noteq> []" "q \<noteq> p" for q
  proof (rule ccontr)
    assume a: "at fs q \<noteq> None"
    then have "has_dir fs p" using assms(1) that(1) by (auto simp: wf_files_def)
    moreover have "p \<noteq> []" using leaf assms(1) by (auto simp: wf_files_def is_empty_dir_def)
    ultimately have "is_empty_dir fs p" using leaf by (auto simp: has_dir_def)
    moreover have "is_below p q" using that by (metis append_butlast_last_id is_below_append)
    moreover obtain e where "(q, e) \<in> set fs" using a unfolding at_def by (meson map_of_SomeD not_None_eq)
    ultimately show False using that(3) unfolding is_empty_dir_def list_all_iff by force
  qed
  then show ?thesis
    using assms(1) fs' unfolding wf_files_def has_dir_def by auto
qed

lemma stash_outcome:
  assumes "stash io p d = (d1, out)" "wf_files (ds_files d)" "p \<noteq> []"
  shows "wf_files (ds_files d1) \<and>
    (case out of
       Inl e \<Rightarrow> covers (ds_files d) (ds_files d1)
     | Inr (u, side) \<Rightarrow>
         (u = UndoRemove p \<and> side = None \<and> ds_files d1 = ds_files d \<and> at (ds_files d) p = None) \<or>
         (\<exists>tmp n. u = UndoRestore tmp p \<and> side = Some tmp \<and> tmp = butlast p @ [n] \<and> tmp \<noteq> p \<and>
            at (ds_files d) p \<noteq> None \<and> at (ds_files d) tmp = None \<and> stashed p tmp (ds_files d) (ds_files d1)))"
proof -
  define fs where "fs = ds_files d"
  obtain e0 o0 where r0: "syscall io (k_lstat p) d = (e0, o0)" by fastforce
  have same: "ds_files e0 = fs" using syscall_cases[OF r0] by (auto simp: fs_def k_lstat_def split: if_splits)
  show ?thesis
  proof (cases "o0 \<noteq> None \<or> at fs p = None")
    case True
    then show ?thesis
      using assms(1,2) r0 same by (auto simp: stash_def fs_def split: option.splits)
  next
    case False
    define tmp where "tmp = butlast p @ [(CHR ''.'' # last p @ ''-'') @ io_suffix io (ds_calls e0)]"
    obtain e1 o1 where r1: "syscall io (k_mkdir tmp) e0 = (e1, o1)" by fastforce
    have mk: "mkdir_temp io (butlast p) (CHR ''.'' # last p @ ''-'') e0 = (e1, case o1 of Some e \<Rightarrow> Inl e | None \<Rightarrow> Inr tmp)"
      using r1 by (auto simp: mkdir_temp_def Let_def tmp_def split: option.splits)
    show ?thesis
    proof (cases o1)
      case (Some e)
      then show ?thesis using syscall_cases[OF r1] assms(1,2) r0 same mk False by (auto simp: stash_def fs_def)
    next
      case None
      have m: "k_mkdir tmp fs = Some (ds_files e1)" using syscall_cases[OF r1] None same by simp
      then have free: "at fs tmp = None" and fe1: "ds_files e1 = put_entry tmp Dir fs"
        by (auto simp: k_mkdir_def split: if_splits)
      then have "tmp \<noteq> p" using False by auto
      note sib = sibling[OF assms(3) tmp_def this]
      have wf1: "wf_files (ds_files e1)" using wf_k_mkdir[OF _ m] assms(2) by (simp add: fs_def)
      have cov1: "covers fs (ds_files e1)" using covers_mkdir[OF m] .
      obtain e2 o2 where r2: "syscall io (k_remove tmp) e1 = (e2, o2)" by fastforce
      show ?thesis
      proof (cases o2)
        case (Some e)
        then show ?thesis using syscall_cases[OF r2] r2 assms(1) r0 same mk None False wf1 cov1
          by (auto simp: stash_def fs_def)
      next
        case n2: None
        then have rm: "k_remove tmp (ds_files e1) = Some (ds_files e2)" using syscall_cases[OF r2] by simp
        have wf2: "wf_files (ds_files e2)" using wf_k_remove[OF wf1 rm] .
        have "ds_files e2 = filter (\<lambda>x. fst x \<noteq> tmp) (put_entry tmp Dir fs)"
          using rm fe1 by (auto simp: k_remove_def split: if_splits)
        then have undone: "at (ds_files e2) q = at fs q" for q using free by simp
        obtain e3 o3 where r3: "syscall io (k_rename p tmp) e2 = (e3, o3)" by fastforce
        have out: "(d1, out) = (e3, case o3 of Some e \<Rightarrow> Inl e | None \<Rightarrow> Inr (UndoRestore tmp p, Some tmp))"
          using assms(1) r0 same mk None False r2 n2 r3 by (auto simp: stash_def fs_def split: option.splits)
        show ?thesis
        proof (cases o3)
          case (Some e)
          have "covers fs (ds_files e2)" using undone by (simp add: covers_def)
          then show ?thesis using syscall_cases[OF r3] Some out wf2 by (auto simp: fs_def)
        next
          case n3: None
          have "has_dir (ds_files e2) (butlast tmp)"
            using assms(2) False sib(5) undone by (auto simp: wf_files_def has_dir_def fs_def)
          then obtain s3 where s3: "k_rename p tmp (ds_files e2) = Some s3" "\<And>q. at s3 q =
              (if is_below tmp q then at (ds_files e2) (p @ drop (length tmp) q) else if is_below p q then None else at (ds_files e2) q)"
            using rename_free[OF wf2 assms(3), of tmp] undone False free sib(1,2) tmp_def by auto
          then have e3: "ds_files e3 = s3" using syscall_cases[OF r3] n3 by simp
          then have "stashed p tmp fs (ds_files e3)" using s3(2) undone by (simp add: stashed_def)
          then show ?thesis
            using out n3 wf_rename[OF wf2 s3(1)] e3 False free \<open>tmp \<noteq> p\<close> tmp_def by (auto simp: fs_def)
        qed
      qed
    qed
  qed
qed

subsection \<open>A batch that fails is taken back\<close>

text \<open>Undo functions that do not break themselves.\<close>

lemma undo_io_breaks [simp]: "io_breaks (undo_io io) = io_undo_breaks io"
  by (simp add: undo_io_def)

lemma syscall_undo: "\<forall>k. \<not> io_undo_breaks io k \<Longrightarrow> f (ds_files d) = Some fs \<Longrightarrow>
    ds_files (fst (syscall (undo_io io) f d)) = fs"
  by (simp add: syscall_def Let_def)

text \<open>What the undo function of a stash does, whatever came after it at the path.\<close>

definition undoes :: "io \<Rightarrow> undo \<Rightarrow> files \<Rightarrow> files \<Rightarrow> bool" where
  "undoes io u s s1 \<longleftrightarrow>
     (\<forall>d2. wf_files (ds_files d2) \<longrightarrow> covers s1 (ds_files d2) \<longrightarrow>
        wf_files (ds_files (run_undo io u d2)) \<and> covers s (ds_files (run_undo io u d2)))"

lemma stash_undoes:
  assumes "stash io p d = (d1, Inr (u, side))" "wf_files (ds_files d)" "p \<noteq> []" "\<forall>k. \<not> io_undo_breaks io k"
    and "covers_but p (ds_files d1) s"
  shows "undoes io u (ds_files d) s"
  unfolding undoes_def
proof (intro allI impI)
  fix d2 :: disk assume d2: "wf_files (ds_files d2)" "covers s (ds_files d2)"
  have r: "syscall (undo_io io) (k_remove_all p) d2 = (e, o1) \<Longrightarrow> ds_files e = drop_below p (ds_files d2)" for e o1
    using syscall_undo[OF assms(4), of "k_remove_all p" d2] by (simp add: k_remove_all_def)
  note st = stash_outcome[OF assms(1-3)]
  show "wf_files (ds_files (run_undo io u d2)) \<and> covers (ds_files d) (ds_files (run_undo io u d2))"
  proof (cases u)
    case (UndoRemove q)
    then have u: "u = UndoRemove p" "ds_files d1 = ds_files d" "at (ds_files d) p = None" using st by auto
    then have "ds_files (run_undo io u d2) = drop_below p (ds_files d2)"
      using syscall_undo[OF assms(4), of "k_remove_all p" d2] by (simp add: k_remove_all_def)
    then show ?thesis
      using undo_remove_covers[OF assms(2,3) u(3) _ d2(2)] assms(5) u(2) wf_drop[OF d2(1) assms(3)] by simp
  next
    case (UndoRestore tmp q)
    then obtain n where u: "u = UndoRestore tmp p" "tmp = butlast p @ [n]" "tmp \<noteq> p" "at (ds_files d) p \<noteq> None"
      "at (ds_files d) tmp = None" "stashed p tmp (ds_files d) (ds_files d1)" using st by auto
    obtain s3 where s3: "k_rename tmp p (drop_below p (ds_files d2)) = Some s3" "covers (ds_files d) s3" "wf_files s3"
      using undo_restore_covers[OF d2(1) assms(3) u(2,3) assms(2) u(4,5,6) assms(5) d2(2)] .
    have "ds_files (run_undo io u d2) = s3"
      using u(1) syscall_undo[OF assms(4)] s3(1) by (simp add: k_remove_all_def)
    then show ?thesis using s3 by simp
  next
    case (UndoRename a b)
    then show ?thesis using st by auto
  qed
qed

lemma disk_path_eq:
  "disk_path home p = (if valid_path p then Inr (clean_elems home @ split_on CHR ''/'' p) else Inl (Sent ErrInvalid))"
  using resolve_path_spec[of home p] by (auto simp: disk_path_def split: sum.splits if_splits)

lemma disk_path_ne: "disk_path home p = Inr full \<Longrightarrow> full \<noteq> []"
  by (auto simp: disk_path_eq split: if_splits)

lemma apply_disk_undoes:
  assumes "apply_disk io home mut d = (d1, out)" "wf_files (ds_files d)" "mu_op mut \<noteq> OpMove" "\<forall>k. \<not> io_undo_breaks io k"
  shows "wf_files (ds_files d1) \<and>
    (case out of Inl e \<Rightarrow> covers (ds_files d) (ds_files d1) | Inr (u, side) \<Rightarrow> undoes io u (ds_files d) (ds_files d1))"
proof (cases "disk_path home (mu_path mut)")
  case (Inl e)
  then show ?thesis using assms(1,2) by (auto simp: apply_disk_def)
next
  case (Inr p)
  have p: "p \<noteq> []" using disk_path_ne[OF Inr] .
  obtain e1 o1 where r1: "stash io p d = (e1, o1)" by fastforce
  note st = stash_outcome[OF r1 assms(2) p]
  have un: "undoes io u (ds_files d) s" if "o1 = Inr (u, side)" "covers_but p (ds_files e1) s" for u side s
    using stash_undoes[OF _ assms(2) p assms(4) that(2)] r1 that(1) by simp
  have now: "undoes io u s (ds_files x) \<Longrightarrow> wf_files (ds_files x) \<Longrightarrow>
      wf_files (ds_files (run_undo io u x)) \<and> covers s (ds_files (run_undo io u x))" for u s x
    unfolding undoes_def by simp
  show ?thesis
  proof (cases o1)
    case (Inl e)
    then show ?thesis using assms(1,2) \<open>disk_path home (mu_path mut) = Inr p\<close> r1 st assms(3)
      by (auto simp: apply_disk_def split: if_splits)
  next
    case (Inr us)
    obtain u side where us: "us = (u, side)" by fastforce
    have wf1: "wf_files (ds_files e1)" using st by simp
    consider (dir) "mu_op mut = OpCreate \<or> mu_op mut = OpReplace" "mu_kind mut = KindDirectory"
      | (body) "mu_op mut = OpCreate \<or> mu_op mut = OpReplace" "mu_kind mut \<noteq> KindDirectory"
      | (delete) "\<not> (mu_op mut = OpCreate \<or> mu_op mut = OpReplace)" "mu_op mut = OpDelete"
      | (bad) "\<not> (mu_op mut = OpCreate \<or> mu_op mut = OpReplace)" "mu_op mut \<noteq> OpDelete"
      by blast
    then show ?thesis
    proof cases
      case dir
      obtain e2 o2 where r2: "mkdir_all io p e1 = (e2, o2)" by fastforce
      have c2: "wf_files (ds_files e2)" "covers_but p (ds_files e1) (ds_files e2)"
        using mkdir_all_covers[OF r2 wf1] covers_covers_but by auto
      have u2: "undoes io u (ds_files d) (ds_files e2)" using un Inr us c2(2) by simp
      then show ?thesis
        using assms(1) \<open>disk_path home (mu_path mut) = Inr p\<close> r1 r2 Inr us dir now[OF u2 c2(1)] c2
        by (auto simp: apply_disk_def split: option.splits)
    next
      case body
      obtain e2 o2 where r2: "mkdir_all io (butlast p) e1 = (e2, o2)" by fastforce
      obtain e3 o3 where r3: "sys_write io p (body_of mut) e2 = (e3, o3)" by fastforce
      have c2: "wf_files (ds_files e2)" "covers_but p (ds_files e1) (ds_files e2)"
        using mkdir_all_covers[OF r2 wf1] covers_covers_but by auto
      have c3: "wf_files (ds_files e3)" "covers_but p (ds_files e1) (ds_files e3)"
        using sys_write_but[OF r3 c2(1)] covers_but_trans[OF c2(2)] by auto
      have u2: "undoes io u (ds_files d) (ds_files e2)" "undoes io u (ds_files d) (ds_files e3)"
        using un Inr us c2(2) c3(2) by auto
      then show ?thesis
        using assms(1) \<open>disk_path home (mu_path mut) = Inr p\<close> r1 r2 r3 Inr us body
          now[OF u2(1) c2(1)] now[OF u2(2) c3(1)] c3
        by (auto simp: apply_disk_def split: option.splits)
    next
      case delete
      obtain e2 o2 where r2: "syscall io (k_remove p) e1 = (e2, o2)" by fastforce
      have c2: "wf_files (ds_files e2)" "covers_but p (ds_files e1) (ds_files e2)"
        using syscall_cases[OF r2] wf_k_remove[OF wf1] k_remove_but wf1 by auto
      have u2: "undoes io u (ds_files d) (ds_files e2)" using un Inr us c2(2) by simp
      then show ?thesis
        using assms(1) \<open>disk_path home (mu_path mut) = Inr p\<close> r1 r2 Inr us delete now[OF u2 c2(1)] c2
        by (auto simp: apply_disk_def split: option.splits if_splits)
    next
      case bad
      then show ?thesis using assms(1,2,3) \<open>disk_path home (mu_path mut) = Inr p\<close> by (auto simp: apply_disk_def)
    qed
  qed
qed

lemma apply_loop_undoes:
  assumes "\<forall>k. \<not> io_undo_breaks io k"
  shows "apply_loop_disk io home muts undos side d = (d1, Inl e) \<Longrightarrow> wf_files (ds_files d) \<Longrightarrow>
    \<forall>m \<in> set muts. mu_op m \<noteq> OpMove \<Longrightarrow>
    (\<forall>d2. wf_files (ds_files d2) \<longrightarrow> covers (ds_files d) (ds_files d2) \<longrightarrow> covers s0 (ds_files (fold (run_undo io) undos d2))) \<Longrightarrow>
    covers s0 (ds_files d1)"
proof (induction muts arbitrary: undos side d)
  case (Cons mut muts)
  obtain e1 o1 where r: "apply_disk io home mut d = (e1, o1)" by fastforce
  have mv: "mu_op mut \<noteq> OpMove" using Cons.prems(3) by simp
  note ok = apply_disk_undoes[OF r Cons.prems(2) mv assms]
  show ?case
  proof (cases o1)
    case (Inl e')
    then show ?thesis using Cons.prems(1,4) r ok by auto
  next
    case (Inr us)
    obtain u st where us: "us = (u, st)" by fastforce
    have rest: "apply_loop_disk io home muts (u # undos) (side @ (case st of None \<Rightarrow> [] | Some p \<Rightarrow> [p])) e1 = (d1, Inl e)"
      using Cons.prems(1) r Inr us by simp
    have un: "undoes io u (ds_files d) (ds_files e1)" using ok Inr us by simp
    have "\<forall>d2. wf_files (ds_files d2) \<longrightarrow> covers (ds_files e1) (ds_files d2) \<longrightarrow>
        covers s0 (ds_files (fold (run_undo io) (u # undos) d2))"
      using un Cons.prems(4) unfolding undoes_def by simp
    then show ?thesis using Cons.IH[OF rest] ok Cons.prems(3) by simp
  qed
qed simp

text \<open>
  A batch that fails is taken back. Whatever call of \<open>applyHome\<close> breaks or is refused, in
  the middle of any mutation of a batch that moves nothing, and provided the undo functions' own
  calls succeed: afterwards every path of the disk is what it was, a file with its bytes included;
  at most some directories are new, which the batch made on the way to a path.
\<close>
lemma agent_apply_rolls_back:
  assumes "wf_files (ds_files d)" "\<forall>m \<in> set batch. mu_op m \<noteq> OpMove" "\<forall>k. \<not> io_undo_breaks io k"
    and "apply_home io home batch d = (d', Inl e)"
  shows "\<forall>q. at (ds_files d') q = at (ds_files d) q \<or> at (ds_files d) q = None \<and> at (ds_files d') q = Some Dir"
proof -
  have "apply_loop_disk io home batch [] [] d = (d', Inl e)"
    using assms(4) by (auto simp: apply_home_def split: prod.splits sum.splits)
  then have "covers (ds_files d) (ds_files d')"
    using apply_loop_undoes[OF assms(3) _ assms(1,2), of home "[]" "[]" d' e "ds_files d"] by simp
  then show ?thesis by (simp add: covers_def)
qed

definition steady_io :: "string \<Rightarrow> (nat \<Rightarrow> bool) \<Rightarrow> io" where
  "steady_io suffix breaks = \<lparr>io_breaks = breaks, io_undo_breaks = (\<lambda>_. False), io_left = (\<lambda>_. Some []),
     io_suffix = (\<lambda>_. suffix), io_says = (\<lambda>_. ''input/output error'')\<rparr>"

definition sample_home :: disk where
  "sample_home = \<lparr>ds_files = [([''h''], Dir), ([''h'', ''d''], Dir), ([''h'', ''d'', ''x''], File [1]), ([''h'', ''g''], File [2])], ds_calls = 0\<rparr>"

definition sample_mutation :: "op \<Rightarrow> string \<Rightarrow> string \<Rightarrow> node_kind \<Rightarrow> bytes option \<Rightarrow> mutation" where
  "sample_mutation oper path from_path kind data =
     \<lparr>mu_op = oper, mu_path = path, mu_from = from_path, mu_kind = kind, mu_version = '''', mu_expected = '''', mu_data = data\<rparr>"

lemma agent_apply_rolls_back_witness:
  "\<exists>d' e. apply_home (steady_io ''7'' (\<lambda>k. k = 7)) ''/h''
       [sample_mutation OpReplace ''d/x'' '''' KindFile (Some [9]), sample_mutation OpCreate ''n/m'' '''' KindFile (Some [3])]
       sample_home = (d', Inl e) \<and> at (ds_files d') [''h'', ''d'', ''x''] = Some (File [1])"
proof -
  let ?b = "[sample_mutation OpReplace ''d/x'' '''' KindFile (Some [9]), sample_mutation OpCreate ''n/m'' '''' KindFile (Some [3])]"
  let ?run = "apply_home (steady_io ''7'' (\<lambda>k. k = 7)) ''/h'' ?b sample_home"
  have "isl (snd ?run)" by code_simp
  then obtain d' e where r: "?run = (d', Inl e)" by (metis isl_def prod.collapse)
  have wf: "wf_files (ds_files sample_home)"
    by (auto simp: wf_files_def sample_home_def has_dir_def split: if_splits)
  have nomove: "\<forall>m \<in> set ?b. mu_op m \<noteq> OpMove" by (simp add: sample_mutation_def)
  have undo: "\<forall>k. \<not> io_undo_breaks (steady_io ''7'' (\<lambda>k. k = 7)) k" by (simp add: steady_io_def)
  have x: "at (ds_files sample_home) [''h'', ''d'', ''x''] = Some (File [1])" by (simp add: sample_home_def)
  have "at (ds_files d') [''h'', ''d'', ''x''] = Some (File [1])"
    using agent_apply_rolls_back[OF wf nomove undo r, rule_format, of "[''h'', ''d'', ''x'']"] x by simp
  then show ?thesis using r by blast
qed

subsection \<open>What an accepted batch destroys\<close>

text \<open>
  A directory the caller creates may be there already, because it holds the caller's or the
  guest's files. The snapshot engine accepts the batch and keeps the file below; on the disk the
  directory is put aside and dropped with everything in it.
\<close>

lemma create_directory_erases:
  "(case apply_batch [''d/x'' \<mapsto> \<lparr>tn_kind = KindFile, tn_version = '''', tn_data = [1]\<rparr>]
       [sample_mutation OpCreate ''d'' '''' KindDirectory None] of
      Inl e \<Rightarrow> False | Inr nxt \<Rightarrow> nxt ''d/x'' \<noteq> None) \<and>
   (case apply_home (steady_io ''7'' (\<lambda>_. False)) ''/h'' [sample_mutation OpCreate ''d'' '''' KindDirectory None] sample_home of
      (d', out) \<Rightarrow> out = Inr () \<and> at (ds_files sample_home) [''h'', ''d'', ''x''] = Some (File [1]) \<and>
        at (ds_files d') [''h'', ''d'', ''x''] = None)"
  by code_simp

text \<open>
  A batch that moves a file over one of the guest's and then fails: the undo function moves it
  back, and the guest's file is gone.
\<close>

lemma failed_move_destroys:
  "case apply_home (steady_io ''7'' (\<lambda>k. k = 1)) ''/h''
       [sample_mutation OpMove ''d/x'' ''g'' KindFile None, sample_mutation OpCreate ''n'' '''' KindFile (Some [3])] sample_home of
     (d', out) \<Rightarrow> isl out \<and> at (ds_files sample_home) [''h'', ''d'', ''x''] = Some (File [1]) \<and>
       at (ds_files d') [''h'', ''d'', ''x''] = None \<and> at (ds_files d') [''h'', ''g''] = Some (File [2])"
  by code_simp

subsection \<open>The tree is rewritten exactly\<close>

text \<open>The nodes of a snapshot as entries below the tree's root, in the order of the iteration.\<close>

definition node_entry :: "string \<times> tree_node \<Rightarrow> fpath \<times> entry" where
  "node_entry x = (split_on CHR ''/'' (fst x), if tn_kind (snd x) = KindDirectory then Dir else File (tn_data (snd x)))"

text \<open>What there is to be at a path: a listed node, a directory above one, or nothing.\<close>

definition expected :: "(fpath \<times> entry) list \<Rightarrow> fpath \<Rightarrow> entry option" where
  "expected nodes q =
     (case map_of nodes q of
        Some e \<Rightarrow> Some e
      | None \<Rightarrow> if list_ex (\<lambda>x. is_below q (fst x)) nodes then Some Dir else None)"

text \<open>No path twice, and nothing below a file.\<close>

definition consistent :: "(fpath \<times> entry) list \<Rightarrow> bool" where
  "consistent nodes \<longleftrightarrow> distinct (map fst nodes) \<and> (\<forall>x \<in> set nodes. fst x \<noteq> [] \<and>
     (snd x \<noteq> Dir \<longrightarrow> (\<forall>y \<in> set nodes. is_below (fst x) (fst y) \<longrightarrow> fst y = fst x)))"

lemma expected_snoc:
  assumes "consistent (nodes @ [(q, e)])"
  shows "expected (nodes @ [(q, e)]) r =
      (if r = q then Some e else if is_below r q \<and> expected nodes r = None then Some Dir else expected nodes r)"
    and "is_below r q \<Longrightarrow> r \<noteq> q \<Longrightarrow> expected nodes r = None \<or> expected nodes r = Some Dir"
    and "expected nodes q = None \<or> expected nodes q = Some Dir \<and> e = Dir"
proof -
  have notin: "q \<notin> fst ` set nodes" using assms by (simp add: consistent_def)
  then have none: "map_of nodes q = None" by (simp add: map_of_eq_None_iff)
  show "expected (nodes @ [(q, e)]) r =
      (if r = q then Some e else if is_below r q \<and> expected nodes r = None then Some Dir else expected nodes r)"
    using none by (auto simp: expected_def map_add_def split: option.splits)
  show "expected nodes r = None \<or> expected nodes r = Some Dir" if r: "is_below r q" "r \<noteq> q"
  proof (cases "map_of nodes r")
    case None
    then show ?thesis by (auto simp: expected_def)
  next
    case (Some e')
    then have "(r, e') \<in> set nodes" by (rule map_of_SomeD)
    then have "e' = Dir" using assms r unfolding consistent_def by fastforce
    then show ?thesis using Some by (simp add: expected_def)
  qed
  show "expected nodes q = None \<or> expected nodes q = Some Dir \<and> e = Dir"
  proof (cases "list_ex (\<lambda>x. is_below q (fst x)) nodes")
    case True
    then obtain x where x: "x \<in> set nodes" "is_below q (fst x)" by (auto simp: list_ex_iff)
    then have "fst x \<noteq> q" using notin by auto
    then have "e = Dir" using assms x unfolding consistent_def by fastforce
    then show ?thesis using True none by (simp add: expected_def)
  next
    case False
    then show ?thesis using none by (simp add: expected_def)
  qed
qed

lemma expected_Nil [simp]: "expected [] q = None"
  by (simp add: expected_def)

text \<open>Calls that do not break.\<close>

definition steady :: "io \<Rightarrow> bool" where
  "steady io \<longleftrightarrow> (\<forall>k. \<not> io_breaks io k)"

lemma syscall_steady:
  "steady io \<Longrightarrow> f (ds_files d) = Some fs \<Longrightarrow> syscall io f d = (\<lparr>ds_files = fs, ds_calls = Suc (ds_calls d)\<rparr>, None)"
  by (cases d) (simp add: syscall_def steady_def Let_def)

lemma mkdir_each_steady:
  assumes "steady io"
  shows "wf_files (ds_files d) \<Longrightarrow> (\<forall>k < length ps. ps ! k \<noteq> [] \<and> (has_dir (ds_files d) (butlast (ps ! k)) \<or> (\<exists>j < k. ps ! j = butlast (ps ! k)))) \<Longrightarrow>
    (\<forall>p \<in> set ps. at (ds_files d) p = None \<or> at (ds_files d) p = Some Dir) \<Longrightarrow>
    \<exists>d1. mkdir_each io ps d = (d1, None) \<and> wf_files (ds_files d1) \<and>
      (\<forall>q. at (ds_files d1) q = (if q \<in> set ps then Some Dir else at (ds_files d) q))"
proof (induction ps arbitrary: d)
  case (Cons p ps)
  have p: "p \<noteq> []" "has_dir (ds_files d) (butlast p)" using Cons.prems(2)[rule_format, of 0] by auto
  have shift: "has_dir fs (butlast (ps ! k)) \<or> (\<exists>j < k. ps ! j = butlast (ps ! k))" "ps ! k \<noteq> []"
    if "k < length ps" "has_dir fs p" "\<And>q. has_dir (ds_files d) q \<Longrightarrow> has_dir fs q" for k fs
  proof -
    have "(p # ps) ! Suc k \<noteq> [] \<and> (has_dir (ds_files d) (butlast ((p # ps) ! Suc k)) \<or>
        (\<exists>j < Suc k. (p # ps) ! j = butlast ((p # ps) ! Suc k)))"
      using Cons.prems(2) that(1) by (metis Suc_less_eq length_Cons)
    then show "ps ! k \<noteq> []" "has_dir fs (butlast (ps ! k)) \<or> (\<exists>j < k. ps ! j = butlast (ps ! k))"
      using that(2,3) by (auto simp: less_Suc_eq_0_disj)
  qed
  show ?case
  proof (cases "has_dir (ds_files d) p")
    case True
    have dir: "at (ds_files d) p = Some Dir" using True p by (simp add: has_dir_def)
    have "\<exists>d1. mkdir_each io ps d = (d1, None) \<and> wf_files (ds_files d1) \<and>
        (\<forall>q. at (ds_files d1) q = (if q \<in> set ps then Some Dir else at (ds_files d) q))"
      using Cons.IH[OF Cons.prems(1)] shift[of _ "ds_files d"] True Cons.prems(3) by auto
    then show ?thesis using True dir by auto
  next
    case False
    then have none: "at (ds_files d) p = None" using Cons.prems(3) p by (auto simp: has_dir_def)
    define fs where "fs = put_entry p Dir (ds_files d)"
    have mk: "k_mkdir p (ds_files d) = Some fs" using p none by (simp add: k_mkdir_def fs_def)
    define d2 where "d2 = \<lparr>ds_files = fs, ds_calls = Suc (ds_calls d)\<rparr>"
    have r: "syscall io (k_mkdir p) d = (d2, None)" using syscall_steady[where f = "k_mkdir p" and d = d, OF assms mk] by (simp add: d2_def)
    have look: "at (ds_files d2) q = (if q = p then Some Dir else at (ds_files d) q)" for q by (simp add: d2_def fs_def)
    have wf2: "wf_files (ds_files d2)" using wf_k_mkdir[OF Cons.prems(1) mk] by (simp add: d2_def)
    have "\<exists>d1. mkdir_each io ps d2 = (d1, None) \<and> wf_files (ds_files d1) \<and>
        (\<forall>q. at (ds_files d1) q = (if q \<in> set ps then Some Dir else at (ds_files d2) q))"
      using Cons.IH[OF wf2] shift[of _ "ds_files d2"] look Cons.prems(3) by (auto simp: has_dir_def)
    then show ?thesis using False r look by auto
  qed
qed simp

lemma mkdir_all_steady:
  assumes "steady io" "wf_files (ds_files d)"
    and "\<And>q. is_below q p \<Longrightarrow> q \<noteq> [] \<Longrightarrow> at (ds_files d) q = None \<or> at (ds_files d) q = Some Dir"
  shows "\<exists>d1. mkdir_all io p d = (d1, None) \<and> wf_files (ds_files d1) \<and>
    (\<forall>q. at (ds_files d1) q = (if is_below q p \<and> q \<noteq> [] then Some Dir else at (ds_files d) q))"
proof -
  define ps where "ps = map (\<lambda>k. take k p) [1..<Suc (length p)]"
  have set: "q \<in> set ps \<longleftrightarrow> is_below q p \<and> q \<noteq> []" for q
  proof
    assume "is_below q p \<and> q \<noteq> []"
    then have "q = take (length q) p" "1 \<le> length q" "length q \<le> length p"
      by (auto simp: is_below_ex Suc_le_eq)
    then show "q \<in> set ps" unfolding ps_def by (metis atLeastLessThan_iff image_eqI le_imp_less_Suc set_map set_upt)
  qed (auto simp: ps_def is_below_def)
  have nth: "ps ! k = take (Suc k) p" if "k < length p" for k using that by (simp add: ps_def del: upt_Suc)
  have len: "length ps = length p" by (simp add: ps_def del: upt_Suc)
  have chain: "ps ! k \<noteq> [] \<and> (has_dir (ds_files d) (butlast (ps ! k)) \<or> (\<exists>j < k. ps ! j = butlast (ps ! k)))"
    if "k < length ps" for k
  proof -
    have b: "butlast (ps ! k) = take k p" using that len nth by (simp add: butlast_take)
    show ?thesis
    proof (cases k)
      case 0
      then show ?thesis using b nth that len by (auto simp: has_dir_def)
    next
      case (Suc j)
      then have "ps ! j = butlast (ps ! k)" using b nth that len by simp
      moreover have "ps ! k \<noteq> []" using nth that len by auto
      ultimately show ?thesis using Suc by auto
    qed
  qed
  have "\<forall>p' \<in> set ps. at (ds_files d) p' = None \<or> at (ds_files d) p' = Some Dir" using assms(3) set by simp
  then show ?thesis
    using mkdir_each_steady[OF assms(1,2), of ps] chain set unfolding mkdir_all_def ps_def[symmetric] by simp
qed

text \<open>The content of a directory is what a list of nodes asks for.\<close>

definition holds :: "fpath \<Rightarrow> (fpath \<times> entry) list \<Rightarrow> files \<Rightarrow> bool" where
  "holds dir nodes fs \<longleftrightarrow> (\<forall>r. at fs (dir @ r) = (if r = [] then Some Dir else expected nodes r))"

lemma disk_path_staging:
  assumes "valid_path p" "list_all plain_elem dir"
  shows "disk_path (CHR ''/'' # join_with CHR ''/'' dir) p = Inr (dir @ split_on CHR ''/'' p)"
proof -
  have "clean_form True (rev [] @ dir)" using assms(2) by (simp add: clean_form_def list_all_iff)
  then have "clean_elems (render True dir) = dir" using clean_elems_render[of True dir] by simp
  then show ?thesis using assms(1) by (simp add: disk_path_eq render_def)
qed

lemma write_nodes_steady:
  assumes io: "steady io" and dir: "dir \<noteq> []" "list_all plain_elem dir"
  shows "wf_files (ds_files d) \<Longrightarrow> holds dir (map node_entry nds) (ds_files d) \<Longrightarrow>
    (\<forall>x \<in> set order. valid_path (fst x)) \<Longrightarrow> consistent (map node_entry (nds @ order)) \<Longrightarrow>
    \<exists>d1. write_nodes io (CHR ''/'' # join_with CHR ''/'' dir) order d = (d1, None) \<and> wf_files (ds_files d1) \<and>
      holds dir (map node_entry (nds @ order)) (ds_files d1) \<and>
      (\<forall>q. \<not> is_below dir q \<longrightarrow> at (ds_files d1) q = at (ds_files d) q)"
proof (induction order arbitrary: nds d)
  case (Cons x order)
  obtain p n where x: "x = (p, n)" by fastforce
  define q where "q = split_on CHR ''/'' p"
  define e where "e = snd (node_entry x)"
  have qe: "node_entry x = (q, e)" by (simp add: e_def q_def x node_entry_def)
  have q: "q \<noteq> []" by (simp add: q_def)
  have path: "disk_path (CHR ''/'' # join_with CHR ''/'' dir) p = Inr (dir @ q)"
    using disk_path_staging Cons.prems(3) dir(2) x q_def by simp
  have cons: "consistent (map node_entry nds @ [(q, e)])"
    using Cons.prems(4) qe unfolding consistent_def by auto
  note ex = expected_snoc[OF cons]
  have below_dir: "at (ds_files d) r = Some Dir" if r0: "is_below r dir" "r \<noteq> []" for r
  proof -
    have "at (ds_files d) dir = Some Dir" using Cons.prems(2) unfolding holds_def by (metis append_Nil2)
    moreover obtain t where t: "dir = r @ t" using r0(1) by (auto simp: is_below_ex)
    ultimately show ?thesis using wf_above[OF Cons.prems(1), of r t] r0(2) by (cases "t = []") (auto simp: has_dir_def)
  qed
  have at0: "at (ds_files d) (dir @ r) = (if r = [] then Some Dir else expected (map node_entry nds) r)" for r
    using Cons.prems(2) by (simp add: holds_def)
  have split_below: "is_below r (dir @ s) \<longleftrightarrow> is_below r dir \<or> (\<exists>t. r = dir @ t \<and> is_below t s)" for r s
    by (auto simp: is_below_ex append_eq_append_conv2)
  have above: "at (ds_files d) r = None \<or> at (ds_files d) r = Some Dir" if r: "is_below r (dir @ s)" "r \<noteq> []"
    and s: "is_below s q" "s \<noteq> q \<or> e = Dir" for r s
  proof (cases "is_below r dir")
    case True
    then show ?thesis using below_dir r(2) by simp
  next
    case False
    then obtain t where t: "r = dir @ t" "is_below t s" using r split_below by blast
    have "is_below t q" using t(2) s(1) by (auto simp: is_below_ex)
    consider "t = []" | "t \<noteq> []" "t = q" | "t \<noteq> []" "t \<noteq> q" by blast
    then show ?thesis
    proof cases
      case 2
      then have "s = q" using is_below_antisym t(2) s(1) by blast
      then show ?thesis using at0[of t] t(1) 2 s(2) ex(3) by auto
    qed (use at0[of t] t(1) ex(2) \<open>is_below t q\<close> in auto)
  qed
  have step: "\<exists>d2. wf_files (ds_files d2) \<and> holds dir (map node_entry (nds @ [x])) (ds_files d2) \<and>
      (\<forall>r. \<not> is_below dir r \<longrightarrow> at (ds_files d2) r = at (ds_files d) r) \<and>
      write_nodes io (CHR ''/'' # join_with CHR ''/'' dir) (x # order) d =
        write_nodes io (CHR ''/'' # join_with CHR ''/'' dir) order d2"
  proof (cases "tn_kind n = KindDirectory")
    case True
    then have e: "e = Dir" by (simp add: e_def x node_entry_def)
    obtain d1 where d1: "mkdir_all io (dir @ q) d = (d1, None)" "wf_files (ds_files d1)"
      "\<And>r. at (ds_files d1) r = (if is_below r (dir @ q) \<and> r \<noteq> [] then Some Dir else at (ds_files d) r)"
      using mkdir_all_steady[OF io Cons.prems(1), of "dir @ q"] above[of _ q] e by auto
    have "at (ds_files d1) (dir @ r) = (if r = [] then Some Dir else expected (map node_entry nds @ [(q, e)]) r)" for r
      using d1(3)[of "dir @ r"] dir(1) at0[of r] ex(1)[of r] ex(2)[of r] e q
      by (cases "is_below r q"; cases "r = q"; cases "r = []") auto
    then have "holds dir (map node_entry (nds @ [x])) (ds_files d1)" by (simp add: holds_def qe)
    moreover have "\<not> is_below dir r \<longrightarrow> at (ds_files d1) r = at (ds_files d) r" for r
      using d1(3)[of r] split_below[of r q] below_dir by auto
    moreover have "write_nodes io (CHR ''/'' # join_with CHR ''/'' dir) (x # order) d =
        write_nodes io (CHR ''/'' # join_with CHR ''/'' dir) order d1"
      using d1(1) path True x by simp
    ultimately show ?thesis using d1(2) by blast
  next
    case False
    then have e: "e = File (tn_data n)" by (simp add: e_def x node_entry_def)
    have bl: "is_below (butlast q) q" "butlast q \<noteq> q"
      using q by (cases q rule: rev_cases; simp)+
    have bd: "butlast (dir @ q) = dir @ butlast q" using q by (simp add: butlast_append)
    obtain d1 where d1: "mkdir_all io (dir @ butlast q) d = (d1, None)" "wf_files (ds_files d1)"
      "\<And>r. at (ds_files d1) r = (if is_below r (dir @ butlast q) \<and> r \<noteq> [] then Some Dir else at (ds_files d) r)"
      using mkdir_all_steady[OF io Cons.prems(1), of "dir @ butlast q"] above[of _ "butlast q"] bl by auto
    have free: "at (ds_files d1) (dir @ q) = None"
    proof -
      have "\<not> is_below (dir @ q) (dir @ butlast q)" using not_below_butlast[OF q] by simp
      then show ?thesis using d1(3)[of "dir @ q"] at0[of q] ex(3) e q by auto
    qed
    have parent: "has_dir (ds_files d1) (dir @ butlast q)"
      using d1(3)[of "dir @ butlast q"] dir(1) by (simp add: has_dir_def)
    define fs where "fs = put_entry (dir @ q) (File (tn_data n)) (ds_files d1)"
    have wr: "k_write (dir @ q) (tn_data n) (ds_files d1) = Some fs"
      using free parent dir(1) bd by (simp add: k_write_def fs_def)
    define d2 where "d2 = \<lparr>ds_files = fs, ds_calls = Suc (ds_calls d1)\<rparr>"
    have w: "sys_write io (dir @ q) (tn_data n) d1 = (d2, None)"
      using syscall_steady[where f = "k_write (dir @ q) (tn_data n)" and d = d1, OF io wr] io
      by (simp add: sys_write_def steady_def d2_def Let_def)
    have look: "at (ds_files d2) r = (if r = dir @ q then Some e else at (ds_files d1) r)" for r
      by (simp add: d2_def fs_def e)
    have "at (ds_files d2) (dir @ r) = (if r = [] then Some Dir else expected (map node_entry nds @ [(q, e)]) r)" for r
    proof (cases "is_below r q \<and> r \<noteq> q \<and> r \<noteq> []")
      case True
      then obtain t where "q = r @ t" "t \<noteq> []" by (auto simp: is_below_ex)
      then have "is_below r (butlast q)" by (auto simp: is_below_ex butlast_append)
      then show ?thesis
        using look[of "dir @ r"] d1(3)[of "dir @ r"] dir(1) True ex(1)[of r] ex(2)[of r] by auto
    next
      case no: False
      have "r = q \<or> r = [] \<or> \<not> is_below r (butlast q)" using no bl(1) by (auto simp: is_below_ex)
      then show ?thesis
        using look[of "dir @ r"] d1(3)[of "dir @ r"] dir(1) no ex(1)[of r] q at0[of r] by auto
    qed
    then have "holds dir (map node_entry (nds @ [x])) (ds_files d2)" by (simp add: holds_def qe)
    moreover have "\<not> is_below dir r \<longrightarrow> at (ds_files d2) r = at (ds_files d) r" for r
      using look[of r] d1(3)[of r] split_below[of r "butlast q"] below_dir by auto
    moreover have "wf_files (ds_files d2)" using wf_k_write[OF d1(2) wr] by (simp add: d2_def)
    moreover have "write_nodes io (CHR ''/'' # join_with CHR ''/'' dir) (x # order) d =
        write_nodes io (CHR ''/'' # join_with CHR ''/'' dir) order d2"
      using d1(1) path False x w bd by simp
    ultimately show ?thesis by blast
  qed
  then obtain d2 where d2: "wf_files (ds_files d2)" "holds dir (map node_entry (nds @ [x])) (ds_files d2)"
    "\<forall>r. \<not> is_below dir r \<longrightarrow> at (ds_files d2) r = at (ds_files d) r"
    "write_nodes io (CHR ''/'' # join_with CHR ''/'' dir) (x # order) d = write_nodes io (CHR ''/'' # join_with CHR ''/'' dir) order d2"
    by blast
  have "\<forall>y \<in> set order. valid_path (fst y)" using Cons.prems(3) by simp
  moreover have "consistent (map node_entry ((nds @ [x]) @ order))" using Cons.prems(4) by simp
  ultimately show ?case using Cons.IH[OF d2(1,2)] d2(3,4) by auto
qed auto

lemma remove_each_steady:
  assumes "steady io"
  shows "wf_files (ds_files d) \<Longrightarrow> [] \<notin> set ps \<Longrightarrow> \<exists>d1. remove_each io ps d = (d1, None) \<and> wf_files (ds_files d1) \<and>
    (\<forall>q. at (ds_files d1) q = (if \<exists>p \<in> set ps. is_below p q then None else at (ds_files d) q))"
proof (induction ps arbitrary: d)
  case (Cons p ps)
  define d2 where "d2 = \<lparr>ds_files = drop_below p (ds_files d), ds_calls = Suc (ds_calls d)\<rparr>"
  have r: "syscall io (k_remove_all p) d = (d2, None)"
    using syscall_steady[where f = "k_remove_all p" and d = d, OF assms] by (simp add: d2_def k_remove_all_def)
  have "p \<noteq> []" using Cons.prems(2) by auto
  then have "wf_files (ds_files d2)" using wf_drop Cons.prems(1) by (simp add: d2_def)
  then obtain d1 where "remove_each io ps d2 = (d1, None)" "wf_files (ds_files d1)"
    "\<forall>q. at (ds_files d1) q = (if \<exists>p \<in> set ps. is_below p q then None else at (ds_files d2) q)"
    using Cons.IH[of d2] Cons.prems(2) by auto
  then show ?case using r by (auto simp: d2_def)
qed simp

lemma at_in: "at fs p \<noteq> None \<longleftrightarrow> (\<exists>e. (p, e) \<in> set fs)"
  unfolding at_def by (metis map_of_SomeD map_of_eq_None_iff image_eqI fst_conv not_None_eq)

lemma children_iff: "n \<in> set (children fs p) \<longleftrightarrow> at fs (p @ [n]) \<noteq> None"
proof
  assume "n \<in> set (children fs p)"
  then obtain x where "x \<in> set fs" "fst x \<noteq> []" "butlast (fst x) = p" "last (fst x) = n" by (auto simp: children_def)
  then have "fst x = p @ [n]" by (metis append_butlast_last_id)
  then show "at fs (p @ [n]) \<noteq> None" using \<open>x \<in> set fs\<close> at_in by (metis prod.collapse)
next
  assume "at fs (p @ [n]) \<noteq> None"
  then obtain e where "(p @ [n], e) \<in> set fs" using at_in by blast
  then show "n \<in> set (children fs p)" by (force simp: children_def)
qed

lemma distinct_children [simp]: "distinct (children fs p)"
  by (simp add: children_def)

lemma rename_each_steady:
  assumes "steady io" and ne: "S \<noteq> []" "h \<noteq> []" and apart: "\<not> is_below S h" "\<not> is_below h S"
  shows "wf_files (ds_files d) \<Longrightarrow> at (ds_files d) h = Some Dir \<Longrightarrow> distinct ns \<Longrightarrow>
    (\<forall>n \<in> set ns. at (ds_files d) (S @ [n]) \<noteq> None \<and> at (ds_files d) (h @ [n]) = None) \<Longrightarrow>
    \<exists>d1. rename_each io S h ns d = (d1, None) \<and> wf_files (ds_files d1) \<and>
      (\<forall>q. at (ds_files d1) q = (if \<exists>n \<in> set ns. is_below (h @ [n]) q then at (ds_files d) (S @ drop (length h) q)
         else if \<exists>n \<in> set ns. is_below (S @ [n]) q then None else at (ds_files d) q))"
proof (induction ns arbitrary: d)
  case (Cons n ns)
  have ap: "\<not> is_below (S @ [m]) (h @ r)" "\<not> is_below (h @ [m]) (S @ r)" for m r
    using apart by (auto simp: is_below_ex append_eq_append_conv2 append_eq_Cons_conv)
  have app: "is_below (p @ [m]) (p @ r) \<longleftrightarrow> (\<exists>t. r = m # t)" for p m r by (auto simp: is_below_ex)
  have pre: "S @ [n] \<noteq> []" "h @ [n] \<noteq> []" "at (ds_files d) (S @ [n]) \<noteq> None" "at (ds_files d) (h @ [n]) = None"
    "has_dir (ds_files d) (butlast (h @ [n]))"
    using Cons.prems(2,4) by (auto simp: has_dir_def)
  obtain fs where fs: "k_rename (S @ [n]) (h @ [n]) (ds_files d) = Some fs" "\<And>q. at fs q =
      (if is_below (h @ [n]) q then at (ds_files d) ((S @ [n]) @ drop (length (h @ [n])) q)
       else if is_below (S @ [n]) q then None else at (ds_files d) q)"
    using rename_free[OF Cons.prems(1) pre ap(1)[of n "[n]"] ap(2)[of n "[n]"]] by metis
  define d2 where "d2 = \<lparr>ds_files = fs, ds_calls = Suc (ds_calls d)\<rparr>"
  have r: "syscall io (k_rename (S @ [n]) (h @ [n])) d = (d2, None)"
    using syscall_steady[where f = "k_rename (S @ [n]) (h @ [n])" and d = d, OF assms(1) fs(1)] by (simp add: d2_def)
  have look: "at (ds_files d2) q = (if is_below (h @ [n]) q then at (ds_files d) (S @ drop (length h) q)
       else if is_below (S @ [n]) q then None else at (ds_files d) q)" for q
    using fs(2)[of q] by (auto simp: d2_def is_below_ex)
  have wf2: "wf_files (ds_files d2)" using wf_rename[OF Cons.prems(1) fs(1)] by (simp add: d2_def)
  have keep: "at (ds_files d2) (S @ m # t) = at (ds_files d) (S @ m # t)" "at (ds_files d2) (h @ m # t) = at (ds_files d) (h @ m # t)"
    if "m \<noteq> n" for m t
    using look[of "S @ m # t"] look[of "h @ m # t"] ap[of n "m # t"] app that by auto
  have h2: "at (ds_files d2) h = Some Dir" using look[of h] Cons.prems(2) ap[of n "[]"] app[of h n "[]"] by simp
  have prem: "\<forall>m \<in> set ns. at (ds_files d2) (S @ [m]) \<noteq> None \<and> at (ds_files d2) (h @ [m]) = None"
    using Cons.prems(3,4) keep by (metis distinct.simps(2) list.set_intros(2))
  have "distinct ns" using Cons.prems(3) by simp
  then obtain d1 where d1: "rename_each io S h ns d2 = (d1, None)" "wf_files (ds_files d1)"
    "\<And>q. at (ds_files d1) q = (if \<exists>n \<in> set ns. is_below (h @ [n]) q then at (ds_files d2) (S @ drop (length h) q)
       else if \<exists>n \<in> set ns. is_below (S @ [n]) q then None else at (ds_files d2) q)"
    using Cons.IH[OF wf2 h2 _ prem] by blast
  have "at (ds_files d1) q = (if \<exists>n' \<in> set (n # ns). is_below (h @ [n']) q then at (ds_files d) (S @ drop (length h) q)
       else if \<exists>n' \<in> set (n # ns). is_below (S @ [n']) q then None else at (ds_files d) q)" for q
  proof (cases "\<exists>m \<in> set ns. is_below (h @ [m]) q")
    case True
    then obtain m t where m: "m \<in> set ns" "q = h @ m # t" by (auto simp: is_below_ex)
    then have "m \<noteq> n" using Cons.prems(3) by auto
    then show ?thesis using True d1(3)[of q] keep(1)[of m t] m(2) by auto
  next
    case no_h: False
    show ?thesis
    proof (cases "is_below (h @ [n]) q")
      case True
      then obtain t where q: "q = h @ n # t" by (auto simp: is_below_ex)
      have "\<not> (\<exists>m \<in> set ns. is_below (S @ [m]) q)" using q ap by auto
      then show ?thesis using d1(3)[of q] no_h True look[of q] by auto
    next
      case False
      then show ?thesis using d1(3)[of q] no_h look[of q] by auto
    qed
  qed
  then show ?case using r d1(1,2) by auto
qed simp

lemma mkdir_all_there:
  assumes "steady io" "wf_files (ds_files d)" "at (ds_files d) h = Some Dir"
  shows "\<exists>d1. mkdir_all io h d = (d1, None) \<and> wf_files (ds_files d1) \<and> (\<forall>q. at (ds_files d1) q = at (ds_files d) q)"
proof -
  have above: "at (ds_files d) q = Some Dir" if "is_below q h" "q \<noteq> []" for q
  proof -
    obtain t where "h = q @ t" using \<open>is_below q h\<close> by (auto simp: is_below_ex)
    then show ?thesis using wf_above[OF assms(2), of q t] assms(3) \<open>q \<noteq> []\<close> by (cases "t = []") (auto simp: has_dir_def)
  qed
  then show ?thesis using mkdir_all_steady[OF assms(1,2), of h] by auto
qed

lemma strictly_below: "is_below h q \<Longrightarrow> q \<noteq> h \<Longrightarrow> \<exists>n t. q = h @ n # t"
  by (auto simp: is_below_ex) (metis neq_Nil_conv)

text \<open>Clearing a directory removes what is below it.\<close>

lemma clear_children_steady:
  assumes "steady io" "wf_files (ds_files d)" "at (ds_files d) h = Some Dir" "h \<noteq> []"
  shows "\<exists>d1. clear_children io h d = (d1, None) \<and> wf_files (ds_files d1) \<and>
    (\<forall>q. at (ds_files d1) q = (if is_below h q \<and> q \<noteq> h then None else at (ds_files d) q))"
proof -
  obtain d4 where d4: "mkdir_all io h d = (d4, None)" "wf_files (ds_files d4)" "\<And>q. at (ds_files d4) q = at (ds_files d) q"
    using mkdir_all_there[OF assms(1-3)] by blast
  define d5 where "d5 = d4\<lparr>ds_calls := Suc (ds_calls d4)\<rparr>"
  have r5: "syscall io Some d4 = (d5, None)"
    using syscall_steady[where f = Some and d = d4, OF assms(1)] by (simp add: d5_def)
  have wf5: "wf_files (ds_files d5)" using d4(2) by (simp add: d5_def)
  have nn: "[] \<notin> set (map (\<lambda>n. h @ [n]) (children (ds_files d5) h))" by auto
  obtain d6 where d6: "remove_each io (map (\<lambda>n. h @ [n]) (children (ds_files d5) h)) d5 = (d6, None)" "wf_files (ds_files d6)"
    "\<And>q. at (ds_files d6) q = (if \<exists>p \<in> set (map (\<lambda>n. h @ [n]) (children (ds_files d5) h)). is_below p q then None else at (ds_files d5) q)"
    using remove_each_steady[OF assms(1) wf5 nn] by blast
  have "at (ds_files d6) q = (if is_below h q \<and> q \<noteq> h then None else at (ds_files d) q)" for q
  proof (cases "is_below h q \<and> q \<noteq> h")
    case True
    then obtain n t where q: "q = h @ n # t" using strictly_below by blast
    show ?thesis
    proof (cases "at (ds_files d4) (h @ [n]) = None")
      case none: True
      then have "at (ds_files d4) q = None" using wf_nothing_below[OF d4(2) none] q by (simp add: is_below_def)
      then show ?thesis using d6(3)[of q] True by (simp add: d5_def)
    next
      case False
      then have "n \<in> set (children (ds_files d5) h)" by (simp add: children_iff d5_def)
      moreover have "is_below (h @ [n]) q" using q by (simp add: is_below_def)
      ultimately show ?thesis using d6(3)[of q] True by auto
    qed
  next
    case False
    then have "\<not> is_below (h @ [n]) q" for n by (auto simp: is_below_ex)
    then show ?thesis using d6(3)[of q] d4(3) False by (auto simp: d5_def)
  qed
  moreover have "clear_children io h d = (d6, None)" using d4(1) r5 d6(1) by (simp add: clear_children_def)
  ultimately show ?thesis using d6(2) by blast
qed

text \<open>Moving the children of one directory into another that is empty.\<close>

lemma move_children_steady:
  assumes "steady io" "wf_files (ds_files d)" "S \<noteq> []" "h \<noteq> []" "\<not> is_below S h" "\<not> is_below h S"
    and "at (ds_files d) h = Some Dir" "\<And>q. is_below h q \<Longrightarrow> q \<noteq> h \<Longrightarrow> at (ds_files d) q = None"
  shows "\<exists>d1. rename_each io S h (children (ds_files d) S) d = (d1, None) \<and>
    (\<forall>q. \<not> is_below S q \<longrightarrow>
       at (ds_files d1) q = (if is_below h q \<and> q \<noteq> h then at (ds_files d) (S @ drop (length h) q) else at (ds_files d) q))"
proof -
  define ns where "ns = children (ds_files d) S"
  have "\<forall>n \<in> set ns. at (ds_files d) (S @ [n]) \<noteq> None \<and> at (ds_files d) (h @ [n]) = None"
    using assms(8) by (auto simp: ns_def children_iff)
  then obtain d8 where d8: "rename_each io S h ns d = (d8, None)"
    "\<And>q. at (ds_files d8) q = (if \<exists>n \<in> set ns. is_below (h @ [n]) q then at (ds_files d) (S @ drop (length h) q)
       else if \<exists>n \<in> set ns. is_below (S @ [n]) q then None else at (ds_files d) q)"
    using rename_each_steady[OF assms(1,3,4,5,6,2,7), of ns] by (auto simp: ns_def)
  have "at (ds_files d8) q = (if is_below h q \<and> q \<noteq> h then at (ds_files d) (S @ drop (length h) q) else at (ds_files d) q)"
    if nS: "\<not> is_below S q" for q
  proof -
    have nSn: "\<not> is_below (S @ [n]) q" for n using nS by (auto simp: is_below_ex)
    show ?thesis
    proof (cases "is_below h q \<and> q \<noteq> h")
      case True
      then obtain n t where q: "q = h @ n # t" using strictly_below by blast
      have below_n: "is_below (h @ [m]) q \<longleftrightarrow> m = n" for m using q by (auto simp: is_below_def)
      have "at (ds_files d) (S @ n # t) = None" if "n \<notin> set ns"
      proof -
        have none: "at (ds_files d) (S @ [n]) = None" using \<open>n \<notin> set ns\<close> by (simp add: ns_def children_iff)
        then show ?thesis using wf_nothing_below[OF assms(2) none, of "S @ n # t"] by (simp add: is_below_def)
      qed
      then show ?thesis using d8(2)[of q] below_n nSn True assms(8)[of q] q by (cases "n \<in> set ns") auto
    next
      case False
      then have "\<not> is_below (h @ [n]) q" for n by (auto simp: is_below_ex)
      then show ?thesis using d8(2)[of q] nSn False by auto
    qed
  qed
  then show ?thesis using d8(1) ns_def by blast
qed

text \<open>
  The two halves of \<open>rewriteHome\<close>. First the snapshot is written to a new directory beside the home directory, and
  nothing else changes.
\<close>

lemma stage_tree:
  assumes "steady io" "wf_files (ds_files d)" "list_all plain_elem h" "at (ds_files d) h = Some Dir" "h \<noteq> []"
    and free: "\<forall>k. CHR ''/'' \<notin> set (io_suffix io k) \<and>
           at (ds_files d) (butlast h @ [(CHR ''.'' # last h @ ''-next-'') @ io_suffix io k]) = None"
    and "\<forall>x \<in> set order. valid_path (fst x)" "consistent (map node_entry order)"
  shows "\<exists>d1 d2 d3 S. mkdir_all io h d = (d1, None) \<and>
    mkdir_temp io (butlast h) (CHR ''.'' # last h @ ''-next-'') d1 = (d2, Inr S) \<and>
    write_nodes io (CHR ''/'' # join_with CHR ''/'' S) order d2 = (d3, None) \<and>
    wf_files (ds_files d3) \<and> S \<noteq> [] \<and> \<not> is_below S h \<and> \<not> is_below h S \<and> (\<forall>t. at (ds_files d) (S @ t) = None) \<and>
    (\<forall>t. at (ds_files d3) (S @ t) = (if t = [] then Some Dir else expected (map node_entry order) t)) \<and>
    (\<forall>q. \<not> is_below S q \<longrightarrow> at (ds_files d3) q = at (ds_files d) q)"
proof -
  obtain d1 where d1: "mkdir_all io h d = (d1, None)" "wf_files (ds_files d1)" "\<And>q. at (ds_files d1) q = at (ds_files d) q"
    using mkdir_all_there[OF assms(1,2,4)] by blast
  define S where "S = butlast h @ [(CHR ''.'' # last h @ ''-next-'') @ io_suffix io (ds_calls d1)]"
  have S_free: "at (ds_files d) S = None" using free by (simp add: S_def)
  have "S \<noteq> h" using S_free assms(4) by auto
  note sib = sibling[OF assms(5) S_def this]
  have S_plain: "list_all plain_elem S"
    using assms(3) free by (auto simp: S_def list_all_iff plain_elem_def in_set_butlastD)
      (metis append_butlast_last_id assms(5) in_set_conv_decomp)+
  have S: "S \<noteq> []" by (simp add: S_def)
  define d2 where "d2 = \<lparr>ds_files = put_entry S Dir (ds_files d1), ds_calls = Suc (ds_calls d1)\<rparr>"
  have parent: "has_dir (ds_files d1) (butlast S)"
    using assms(2,4) d1(3) sib(5) by (auto simp: wf_files_def has_dir_def)
  have mk: "k_mkdir S (ds_files d1) = Some (put_entry S Dir (ds_files d1))"
    using S S_free d1(3) parent by (simp add: k_mkdir_def)
  have r2: "mkdir_temp io (butlast h) (CHR ''.'' # last h @ ''-next-'') d1 = (d2, Inr S)"
    using syscall_steady[where f = "k_mkdir S" and d = d1, OF assms(1) mk]
    by (simp add: mkdir_temp_def Let_def d2_def S_def)
  have wf2: "wf_files (ds_files d2)" using wf_k_mkdir[OF d1(2) mk] by (simp add: d2_def)
  have at2: "at (ds_files d2) q = (if q = S then Some Dir else at (ds_files d) q)" for q by (simp add: d2_def d1(3))
  have below_S: "at (ds_files d) (S @ t) = None" for t using wf_nothing_below[OF assms(2) S_free S] by simp
  have "holds S (map node_entry []) (ds_files d2)" using at2 below_S by (auto simp: holds_def)
  then obtain d3 where d3: "write_nodes io (CHR ''/'' # join_with CHR ''/'' S) order d2 = (d3, None)" "wf_files (ds_files d3)"
    "holds S (map node_entry order) (ds_files d3)" "\<And>q. \<not> is_below S q \<Longrightarrow> at (ds_files d3) q = at (ds_files d2) q"
    using write_nodes_steady[OF assms(1) S S_plain wf2, of "[]" order] assms(7,8) by auto
  have "at (ds_files d3) q = at (ds_files d) q" if "\<not> is_below S q" for q using d3(4)[OF that] at2[of q] that by auto
  then show ?thesis using d1(1) r2 d3(1,2,3) S sib(1,2) below_S by (intro exI[of _ d1] exI[of _ d2] exI[of _ d3] exI[of _ S]) (simp add: holds_def)
qed

text \<open>Then the home directory is emptied, what was written is moved there, and the new directory is removed.\<close>

lemma swap_tree:
  assumes "steady io" "wf_files (ds_files d3)" "at (ds_files d3) h = Some Dir" "h \<noteq> []" "S \<noteq> []" "\<not> is_below S h" "\<not> is_below h S"
    and staged: "\<And>t. at (ds_files d3) (S @ t) = (if t = [] then Some Dir else want t)"
  shows "\<exists>d6 d7 d8 d9. clear_children io h d3 = (d6, None) \<and> syscall io Some d6 = (d7, None) \<and>
    rename_each io S h (children (ds_files d7) S) d7 = (d8, None) \<and> syscall io (k_remove_all S) d8 = (d9, None) \<and>
    (\<forall>q. at (ds_files d9) q = (if is_below S q then None else if is_below h q \<and> q \<noteq> h then want (drop (length h) q)
       else at (ds_files d3) q))"
proof -
  obtain d6 where d6: "clear_children io h d3 = (d6, None)" "wf_files (ds_files d6)"
    "\<And>q. at (ds_files d6) q = (if is_below h q \<and> q \<noteq> h then None else at (ds_files d3) q)"
    using clear_children_steady[OF assms(1-4)] by blast
  define d7 where "d7 = d6\<lparr>ds_calls := Suc (ds_calls d6)\<rparr>"
  have r7: "syscall io Some d6 = (d7, None)"
    using syscall_steady[where f = Some and d = d6, OF assms(1)] by (simp add: d7_def)
  have apart: "\<not> is_below h (S @ t)" for t using assms(6,7) by (auto simp: is_below_ex append_eq_append_conv2)
  have S7: "at (ds_files d7) (S @ t) = (if t = [] then Some Dir else want t)" for t
    using d6(3)[of "S @ t"] apart[of t] staged[of t] by (simp add: d7_def)
  have h7: "at (ds_files d7) h = Some Dir" "wf_files (ds_files d7)"
    "\<And>q. is_below h q \<Longrightarrow> q \<noteq> h \<Longrightarrow> at (ds_files d7) q = None"
    using d6(2,3) assms(3) by (auto simp: d7_def)
  obtain d8 where d8: "rename_each io S h (children (ds_files d7) S) d7 = (d8, None)"
    "\<And>q. \<not> is_below S q \<Longrightarrow>
       at (ds_files d8) q = (if is_below h q \<and> q \<noteq> h then at (ds_files d7) (S @ drop (length h) q) else at (ds_files d7) q)"
    using move_children_steady[OF assms(1) h7(2) assms(5,4,6,7) h7(1,3)] by blast
  define d9 where "d9 = \<lparr>ds_files = drop_below S (ds_files d8), ds_calls = Suc (ds_calls d8)\<rparr>"
  have r9: "syscall io (k_remove_all S) d8 = (d9, None)"
    using syscall_steady[where f = "k_remove_all S" and d = d8, OF assms(1)] by (simp add: d9_def k_remove_all_def)
  have "at (ds_files d9) q = (if is_below S q then None else if is_below h q \<and> q \<noteq> h then want (drop (length h) q)
      else at (ds_files d3) q)" for q
    using d8(2)[of q] d6(3)[of q] S7[of "drop (length h) q"] strictly_below[of h q]
    by (cases "is_below S q"; cases "is_below h q \<and> q \<noteq> h") (auto simp: d9_def d7_def)
  then show ?thesis using d6(1) r7 d8(1) r9 by blast
qed

text \<open>
  C15. A tree is rewritten exactly. On a disk where no call breaks, for a home directory that exists
  and a snapshot of valid paths in which nothing lies below a file, taken in any order:
  \<open>rewriteHome\<close> succeeds, below the home directory there are then the listed nodes with their
  bytes, the directories above them and nothing else, and everywhere else the disk is as before,
  with no staging directory left.
\<close>
theorem agent_replace_exact:
  assumes "steady io" "wf_files (ds_files d)" "rooted home" "has_dir (ds_files d) (clean_elems home)" "clean_elems home \<noteq> []"
    and "\<forall>k. CHR ''/'' \<notin> set (io_suffix io k) \<and>
           at (ds_files d) (butlast (clean_elems home) @ [(CHR ''.'' # last (clean_elems home) @ ''-next-'') @ io_suffix io k]) = None"
    and "\<forall>x \<in> set order. valid_path (fst x)" "consistent (map node_entry order)"
  shows "\<exists>d'. rewrite_home io home order d = (d', None) \<and>
    (\<forall>q. at (ds_files d') q =
       (if is_below (clean_elems home) q \<and> q \<noteq> clean_elems home
        then expected (map node_entry order) (drop (length (clean_elems home)) q)
        else at (ds_files d) q))"
proof -
  define h where "h = clean_elems home"
  have h: "h \<noteq> []" "at (ds_files d) h = Some Dir" using assms(4,5) by (auto simp: h_def has_dir_def)
  have plain: "list_all plain_elem h"
    using clean_form_elems[of home] assms(3) by (auto simp: h_def clean_form_def list_all_iff)
  obtain d1 d2 d3 S where st: "mkdir_all io h d = (d1, None)"
    "mkdir_temp io (butlast h) (CHR ''.'' # last h @ ''-next-'') d1 = (d2, Inr S)"
    "write_nodes io (CHR ''/'' # join_with CHR ''/'' S) order d2 = (d3, None)" "wf_files (ds_files d3)"
    "S \<noteq> []" "\<not> is_below S h" "\<not> is_below h S" "\<And>t. at (ds_files d) (S @ t) = None"
    "\<And>t. at (ds_files d3) (S @ t) = (if t = [] then Some Dir else expected (map node_entry order) t)"
    "\<And>q. \<not> is_below S q \<Longrightarrow> at (ds_files d3) q = at (ds_files d) q"
    using stage_tree[OF assms(1,2) plain h(2,1) assms(6)[folded h_def] assms(7,8)] by blast
  have "at (ds_files d3) h = Some Dir" using st(10)[OF st(6)] h(2) by simp
  from swap_tree[OF assms(1) st(4) this h(1) st(5-7,9)]
  obtain d6 d7 d8 d9 where sw: "clear_children io h d3 = (d6, None)" "syscall io Some d6 = (d7, None)"
    "rename_each io S h (children (ds_files d7) S) d7 = (d8, None)" "syscall io (k_remove_all S) d8 = (d9, None)"
    "\<And>q. at (ds_files d9) q = (if is_below S q then None else if is_below h q \<and> q \<noteq> h
       then expected (map node_entry order) (drop (length h) q) else at (ds_files d3) q)" by blast
  have "rewrite_home io home order d = (d9, None)"
    using st(1-3) sw(1-4) by (simp add: rewrite_home_def rewrite_staged_def h_def[symmetric])
  moreover have "at (ds_files d9) q = (if is_below h q \<and> q \<noteq> h then expected (map node_entry order) (drop (length h) q)
      else at (ds_files d) q)" for q
    using sw(5)[of q] st(6,7,8,10) by (auto simp: is_below_ex append_eq_append_conv2)
  ultimately show ?thesis by (auto simp: h_def)
qed

definition sample_nodes :: "(string \<times> tree_node) list" where
  "sample_nodes = [(''d/y'', \<lparr>tn_kind = KindFile, tn_version = ''v'', tn_data = [5]\<rparr>), (''e'', \<lparr>tn_kind = KindDirectory, tn_version = '''', tn_data = []\<rparr>)]"

lemma agent_replace_exact_witness:
  "\<exists>d'. rewrite_home (steady_io ''7'' (\<lambda>_. False)) ''/h'' sample_nodes sample_home = (d', None) \<and>
     at (ds_files d') [''h'', ''d'', ''y''] = Some (File [5]) \<and> at (ds_files d') [''h'', ''d'', ''x''] = None"
proof -
  have home: "clean_elems ''/h'' = [''h'']" "rooted ''/h''" by code_simp+
  have wf: "wf_files (ds_files sample_home)"
    by (auto simp: wf_files_def sample_home_def has_dir_def split: if_splits)
  have nodes: "\<forall>x \<in> set sample_nodes. valid_path (fst x)"
  proof -
    have "valid_path ''d/y''" "valid_path ''e''" by code_simp+
    then show ?thesis by (simp add: sample_nodes_def)
  qed
  have entries: "map node_entry sample_nodes = [([''d'', ''y''], File [5]), ([''e''], Dir)]"
    by (simp add: sample_nodes_def node_entry_def)
  have cons: "consistent (map node_entry sample_nodes)"
    unfolding entries by (simp add: consistent_def is_below_def)
  have st: "steady (steady_io ''7'' (\<lambda>_. False))" by (simp add: steady_def steady_io_def)
  have hd: "has_dir (ds_files sample_home) (clean_elems ''/h'')" "clean_elems ''/h'' \<noteq> []"
    by (simp_all add: home has_dir_def sample_home_def)
  have temp: "\<forall>k. CHR ''/'' \<notin> set (io_suffix (steady_io ''7'' (\<lambda>_. False)) k) \<and>
      at (ds_files sample_home) (butlast (clean_elems ''/h'') @
        [(CHR ''.'' # last (clean_elems ''/h'') @ ''-next-'') @ io_suffix (steady_io ''7'' (\<lambda>_. False)) k]) = None"
    by (simp add: home steady_io_def sample_home_def)
  obtain d' where d': "rewrite_home (steady_io ''7'' (\<lambda>_. False)) ''/h'' sample_nodes sample_home = (d', None)"
    "\<And>q. at (ds_files d') q = (if is_below [''h''] q \<and> q \<noteq> [''h''] then expected (map node_entry sample_nodes) (drop 1 q)
       else at (ds_files sample_home) q)"
    using agent_replace_exact[OF st wf home(2) hd temp nodes cons] home by auto
  have "expected (map node_entry sample_nodes) [''d'', ''y''] = Some (File [5])"
    "expected (map node_entry sample_nodes) [''d'', ''x''] = None"
    unfolding entries by (simp_all add: expected_def is_below_def)
  then show ?thesis
    using d'(1) d'(2)[of "[''h'', ''d'', ''y'']"] d'(2)[of "[''h'', ''d'', ''x'']"] by (simp add: is_below_def)
qed

end
