(* ===== verification/Isolated_Inv.thy ===== *)
theory Isolated_Inv
  imports Isolated_Host "HOL-Library.Multiset"
begin

text \<open>
  Runs of the isolated host: the sections of \<open>Ensure\<close>, \<open>Revoke\<close>, \<open>Freeze\<close> and \<open>Thaw\<close> in any order the
  goroutines take them. The invariant accounts for every machine: the environments that are
  not revoked are, each exactly once, granted, being launched, or about to be revoked.
\<close>

inductive istep :: "iso_host \<Rightarrow> iso_host \<Rightarrow> bool" where
  reserve: "istep h (fst (ensure_reserve sp mkdir h))"
| launch: "c < length (ih_calls h) \<Longrightarrow> ec_phase (ih_calls h ! c) = Reserved \<Longrightarrow> istep h (launched c img att h)"
| launch_failed: "c < length (ih_calls h) \<Longrightarrow> ec_phase (ih_calls h ! c) = Reserved \<Longrightarrow>
    istep h (complete_ensure c None (Some e) h)"
| dialed: "c < length (ih_calls h) \<Longrightarrow> ec_phase (ih_calls h ! c) = Launched r \<Longrightarrow>
    ienv_dial ctx conn r h = (h1, Inr ()) \<Longrightarrow> istep h (complete_ensure c (Some r) None h1)"
| dial_failed: "c < length (ih_calls h) \<Longrightarrow> ec_phase (ih_calls h ! c) = Launched r \<Longrightarrow>
    ienv_dial ctx conn r h = (h1, Inl e) \<Longrightarrow>
    istep h (complete_ensure c None (Some (OpError ''ensure'' e)) (ienv_revoke r h1))"
| cleanup: "c < length (ih_calls h) \<Longrightarrow> istep h (ensure_cleanup c h)"
| turn: "istep h (fst (revoke_turn i h))"
| taken: "r \<in> set (ih_taken h) \<Longrightarrow> istep h (revoke_taken r h)"
| finish: "istep h (fst (revoke_finish i e h))"
| freeze: "r < length (ih_envs h) \<Longrightarrow> istep h (fst (ienv_freeze ctx r h))"
| thaw: "r < length (ih_envs h) \<Longrightarrow> istep h (fst (ienv_thaw ctx ans r h))"

abbreviation iso_run :: "iso_host \<Rightarrow> iso_host \<Rightarrow> bool" where
  "iso_run \<equiv> istep\<^sup>*\<^sup>*"

subsection \<open>The invariant\<close>

definition phase_refs :: "launch_phase \<Rightarrow> nat list" where
  "phase_refs p = (case p of Launched r \<Rightarrow> [r] | _ \<Rightarrow> [])"

definition launch_refs :: "ensure_call list \<Rightarrow> (grant_id \<times> nat) list \<Rightarrow> nat list" where
  "launch_refs calls pending = concat (map (\<lambda>p. phase_refs (ec_phase (calls ! snd p))) pending)"

definition live_refs :: "iso_env list \<Rightarrow> nat list" where
  "live_refs envs = filter (\<lambda>r. \<not> ie_revoked (envs ! r)) [0..<length envs]"

definition env_ok :: "vm list \<Rightarrow> nat \<Rightarrow> iso_env \<Rightarrow> bool" where
  "env_ok vms r e \<longleftrightarrow> ie_inst e = (if ie_revoked e then None else Some r) \<and> vm_running (vms ! r) = (\<not> ie_revoked e)"

definition ecall_ok :: "(grant_id \<times> nat) list \<Rightarrow> nat \<Rightarrow> ensure_call \<Rightarrow> bool" where
  "ecall_ok pending c x \<longleftrightarrow>
     (ec_done x \<longleftrightarrow> ec_phase x = Completed) \<and>
     (ec_phase x = Completed \<longrightarrow> (ec_err x = None \<longleftrightarrow> ec_env x \<noteq> None)) \<and>
     (ec_phase x \<noteq> Completed \<longleftrightarrow> (spec_id (ec_spec x), c) \<in> set pending)"

definition tables_ok :: "iso_host \<Rightarrow> bool" where
  "tables_ok h \<longleftrightarrow>
     1 \<le> ih_slots h \<and> distinct (map fst (ih_grants h) @ map fst (ih_pending h)) \<and>
     int (length (ih_grants h)) + int (length (ih_pending h)) \<le> ih_slots h"

definition ecalls_ok :: "iso_host \<Rightarrow> bool" where
  "ecalls_ok h \<longleftrightarrow>
     (\<forall>p \<in> set (ih_pending h). snd p < length (ih_calls h) \<and> spec_id (ec_spec (ih_calls h ! snd p)) = fst p) \<and>
     (\<forall>c < length (ih_calls h). ecall_ok (ih_pending h) c (ih_calls h ! c))"

definition envs_ok :: "iso_host \<Rightarrow> bool" where
  "envs_ok h \<longleftrightarrow>
     length (ih_vms h) = length (ih_envs h) \<and>
     (\<forall>r < length (ih_envs h). env_ok (ih_vms h) r (ih_envs h ! r)) \<and>
     (\<forall>g \<in> set (ih_grants h). ie_id (ih_envs h ! snd g) = fst g)"

definition owners_ok :: "iso_host \<Rightarrow> bool" where
  "owners_ok h \<longleftrightarrow>
     mset (live_refs (ih_envs h)) =
       mset (map snd (ih_grants h)) + mset (launch_refs (ih_calls h) (ih_pending h)) + mset (ih_taken h) \<and>
     (\<forall>p \<in> set (ih_pending h). \<forall>r \<in> set (phase_refs (ec_phase (ih_calls h ! snd p))). ie_id (ih_envs h ! r) = fst p)"

definition iso_inv :: "iso_host \<Rightarrow> bool" where
  "iso_inv h \<longleftrightarrow> tables_ok h \<and> ecalls_ok h \<and> envs_ok h \<and> owners_ok h"

lemma iso_invD:
  assumes "iso_inv h"
  shows "tables_ok h" "ecalls_ok h" "envs_ok h" "owners_ok h"
  using assms by (simp_all add: iso_inv_def)

subsection \<open>Accounting\<close>

lemma set_setters [simp]:
  "ih_calls (set_ecall c x h) = (ih_calls h)[c := x]" "ih_pending (set_ecall c x h) = ih_pending h"
  "ih_grants (set_ecall c x h) = ih_grants h" "ih_envs (set_ecall c x h) = ih_envs h"
  "ih_vms (set_ecall c x h) = ih_vms h" "ih_taken (set_ecall c x h) = ih_taken h"
  "ih_slots (set_ecall c x h) = ih_slots h"
  "ih_calls (set_ienv r e h) = ih_calls h" "ih_pending (set_ienv r e h) = ih_pending h"
  "ih_grants (set_ienv r e h) = ih_grants h" "ih_envs (set_ienv r e h) = (ih_envs h)[r := e]"
  "ih_vms (set_ienv r e h) = ih_vms h" "ih_taken (set_ienv r e h) = ih_taken h"
  "ih_slots (set_ienv r e h) = ih_slots h"
  "ih_calls (set_vm v y h) = ih_calls h" "ih_pending (set_vm v y h) = ih_pending h"
  "ih_grants (set_vm v y h) = ih_grants h" "ih_envs (set_vm v y h) = ih_envs h"
  "ih_vms (set_vm v y h) = (ih_vms h)[v := y]" "ih_taken (set_vm v y h) = ih_taken h"
  "ih_slots (set_vm v y h) = ih_slots h"
  by (simp_all add: set_ecall_def set_ienv_def set_vm_def)

lemma mem_live_refs [simp]: "r \<in> set (live_refs envs) \<longleftrightarrow> r < length envs \<and> \<not> ie_revoked (envs ! r)"
  by (auto simp: live_refs_def)

lemma live_refs_append [simp]:
  "live_refs (envs @ [e]) = live_refs envs @ (if ie_revoked e then [] else [length envs])"
  by (auto simp: live_refs_def nth_append intro!: filter_cong)

lemma live_refs_same: "r < length envs \<Longrightarrow> ie_revoked e = ie_revoked (envs ! r) \<Longrightarrow> live_refs (envs[r := e]) = live_refs envs"
  by (auto simp: live_refs_def nth_list_update intro!: filter_cong)

lemma live_refs_revoke:
  assumes "r < length envs" "\<not> ie_revoked (envs ! r)" "ie_revoked e"
  shows "mset (live_refs (envs[r := e])) = mset (live_refs envs) - {#r#}"
proof -
  have "live_refs (envs[r := e]) = remove1 r (live_refs envs)"
  proof -
    have "distinct (live_refs envs)" by (simp add: live_refs_def)
    then have "remove1 r (live_refs envs) = filter (\<lambda>x. r \<noteq> x) (live_refs envs)"
      by (simp add: distinct_remove1_removeAll removeAll_filter_not_eq)
    also have "\<dots> = live_refs (envs[r := e])"
      using assms by (auto simp: live_refs_def nth_list_update intro!: filter_cong)
    finally show ?thesis by simp
  qed
  then show ?thesis by simp
qed

text \<open>The launches of a table, one entry less or one call changed.\<close>

lemma launch_refs_remove:
  assumes "distinct (map fst ps)" "(i, c) \<in> set ps"
  shows "mset (launch_refs calls ps) =
    mset (phase_refs (ec_phase (calls ! c))) + mset (launch_refs calls (filter (\<lambda>p. fst p \<noteq> i) ps))"
  using assms
proof (induction ps)
  case (Cons p ps)
  show ?case
  proof (cases "p = (i, c)")
    case True
    then have "filter (\<lambda>p. fst p \<noteq> i) ps = ps" using Cons.prems(1) by (auto simp: filter_id_conv)
    with True show ?thesis by (simp add: launch_refs_def)
  next
    case False
    then have "(i, c) \<in> set ps" using Cons.prems(2) by auto
    moreover from this have "i \<in> fst ` set ps" by force
    then have "fst p \<noteq> i" using Cons.prems(1) by auto
    ultimately show ?thesis using Cons by (simp add: launch_refs_def)
  qed
qed simp

lemma launch_refs_cong:
  "(\<And>p. p \<in> set ps \<Longrightarrow> ec_phase (calls ! snd p) = ec_phase (calls' ! snd p)) \<Longrightarrow>
   launch_refs calls ps = launch_refs calls' ps"
  unfolding launch_refs_def by (rule arg_cong [where f = concat], rule map_cong) auto

lemma launch_refs_length: "length (launch_refs calls ps) \<le> length ps"
  by (induction ps) (auto simp: launch_refs_def phase_refs_def split: launch_phase.split)

lemma owners_live:
  assumes "owners_ok h"
  shows "r \<in> snd ` set (ih_grants h) \<or> r \<in> set (launch_refs (ih_calls h) (ih_pending h)) \<or> r \<in> set (ih_taken h) \<longleftrightarrow>
    r < length (ih_envs h) \<and> \<not> ie_revoked (ih_envs h ! r)"
proof -
  have "set_mset (mset (live_refs (ih_envs h))) =
      set_mset (mset (map snd (ih_grants h)) + mset (launch_refs (ih_calls h) (ih_pending h)) + mset (ih_taken h))"
    using assms by (simp add: owners_ok_def)
  then have "r \<in> set (live_refs (ih_envs h)) \<longleftrightarrow>
      r \<in> snd ` set (ih_grants h) \<or> r \<in> set (launch_refs (ih_calls h) (ih_pending h)) \<or> r \<in> set (ih_taken h)" by auto
  then show ?thesis by auto
qed

lemma launched_entry:
  assumes "ecalls_ok h" "c < length (ih_calls h)" "ec_phase (ih_calls h ! c) \<noteq> Completed"
  shows "(spec_id (ec_spec (ih_calls h ! c)), c) \<in> set (ih_pending h)"
  using assms by (simp add: ecalls_ok_def ecall_ok_def)

lemma launched_ref:
  assumes "ecalls_ok h" "c < length (ih_calls h)" "ec_phase (ih_calls h ! c) = Launched r"
  shows "r \<in> set (launch_refs (ih_calls h) (ih_pending h))"
  using launched_entry [OF assms(1,2)] assms(3) by (force simp: launch_refs_def phase_refs_def)

lemma entry_split:
  "distinct (map fst ps) \<Longrightarrow> (i, c) \<in> set ps \<Longrightarrow> mset ps = add_mset (i, c) (mset (filter (\<lambda>p. fst p \<noteq> i) ps))"
proof (induction ps)
  case (Cons p ps)
  show ?case
  proof (cases "fst p = i")
    case True
    moreover have "fst p \<notin> fst ` set ps" using Cons.prems(1) by simp
    ultimately have n: "\<forall>q \<in> set ps. fst q \<noteq> i" by (metis image_eqI)
    then have "filter (\<lambda>p. fst p \<noteq> i) ps = ps" by (simp add: filter_id_conv)
    moreover have "p = (i, c)" using Cons.prems(2) n by auto
    ultimately show ?thesis by simp
  next
    case False
    then show ?thesis using Cons by auto
  qed
qed simp

lemma filter_entry_length:
  assumes "distinct (map fst ps)" "(i, c) \<in> set ps"
  shows "Suc (length (filter (\<lambda>p. fst p \<noteq> i) ps)) = length ps"
  using arg_cong [OF entry_split [OF assms], of size] by (simp del: mset_filter add: size_mset)

text \<open>The entry of a key that occurs once.\<close>

lemma entry_unique: "distinct (map fst ps) \<Longrightarrow> (i, c) \<in> set ps \<Longrightarrow> (i, d) \<in> set ps \<Longrightarrow> c = d"
  by (meson eq_key_imp_eq_value)

lemma entry_call:
  assumes "ecalls_ok h" "(i, c) \<in> set (ih_pending h)" "p \<in> set (ih_pending h)" "fst p \<noteq> i"
  shows "c \<noteq> snd p"
  using assms unfolding ecalls_ok_def by (metis fst_conv snd_conv)

subsection \<open>Sections\<close>

lemma reserve_ok:
  assumes "iso_inv h"
  shows "iso_inv (fst (ensure_reserve sp mkdir h))"
proof (cases "\<exists>c. snd (ensure_reserve sp mkdir h) = LaunchCall c")
  case False
  then have "fst (ensure_reserve sp mkdir h) = h"
    by (auto simp: ensure_reserve_def Let_def split: option.splits if_splits)
  with assms show ?thesis by simp
next
  case True
  let ?c = "length (ih_calls h)" and ?i = "spec_id sp" and ?h = "fst (ensure_reserve sp mkdir h)"
  have n: "map_of (ih_grants h) ?i = None" "map_of (ih_pending h) ?i = None"
    and f: "ih_pending ?h = (?i, ?c) # ih_pending h" "ih_calls ?h = ih_calls h @ [new_call sp]"
      "ih_grants ?h = ih_grants h" "ih_envs ?h = ih_envs h" "ih_vms ?h = ih_vms h" "ih_taken ?h = ih_taken h"
      "ih_slots ?h = ih_slots h" "int (length (ih_grants h)) + int (length (ih_pending h)) < ih_slots h"
    using True by (auto simp: ensure_reserve_def occupied_def Let_def split: option.splits if_splits)
  note i = iso_invD [OF assms]
  have p: "p \<in> set (ih_pending h) \<Longrightarrow> snd p < ?c" for p using i(2) by (simp add: ecalls_ok_def)
  have l: "launch_refs (ih_calls ?h) (ih_pending ?h) = launch_refs (ih_calls h) (ih_pending h)"
    using launch_refs_cong [of "ih_pending h" "ih_calls h @ [new_call sp]" "ih_calls h"] p
    by (simp add: f launch_refs_def phase_refs_def new_call_def nth_append)
  have "tables_ok ?h" using i(1) n f(8) by (auto simp: tables_ok_def f(1-7) map_of_eq_None_iff)
  moreover have "ecalls_ok ?h"
  proof -
    have "ecall_ok ((?i, ?c) # ih_pending h) c (ih_calls h ! c)" if "c < ?c" for c
      using i(2) that by (auto simp: ecalls_ok_def ecall_ok_def)
    moreover have "ecall_ok ((?i, ?c) # ih_pending h) ?c (new_call sp)" by (simp add: ecall_ok_def new_call_def)
    ultimately show ?thesis using i(2) by (auto simp: ecalls_ok_def f nth_append less_Suc_eq new_call_def)
  qed
  moreover have "envs_ok ?h" using i(3) by (simp add: envs_ok_def f)
  moreover have "owners_ok ?h"
    using i(4) l p by (auto simp: owners_ok_def f nth_append phase_refs_def new_call_def)
  ultimately show ?thesis by (simp add: iso_inv_def)
qed

lemma launch_ok:
  assumes "iso_inv h" and c: "c < length (ih_calls h)" and ph: "ec_phase (ih_calls h ! c) = Reserved"
  shows "iso_inv (launched c img att h)"
proof -
  note i = iso_invD [OF assms(1)]
  let ?h = "launched c img att h" and ?x = "ih_calls h ! c" and ?r = "length (ih_envs h)"
  let ?i = "spec_id (ec_spec ?x)"
  have f: "ih_pending ?h = ih_pending h" "ih_grants ?h = ih_grants h" "ih_taken ?h = ih_taken h"
      "ih_slots ?h = ih_slots h" "ih_calls ?h = (ih_calls h)[c := ?x\<lparr>ec_phase := Launched ?r\<rparr>]"
    by (simp_all add: launched_def Let_def)
  obtain e where e: "ih_envs ?h = ih_envs h @ [e]" "ie_id e = ?i" "\<not> ie_revoked e" "ie_inst e = Some ?r"
    and v: "\<exists>v. ih_vms ?h = ih_vms h @ [v] \<and> vm_running v"
    using i(3) by (simp add: launched_def envs_ok_def Let_def)
  have ent: "(?i, c) \<in> set (ih_pending h)" using launched_entry [OF i(2) c] ph by simp
  have d: "distinct (map fst (ih_pending h))" using i(1) by (simp add: tables_ok_def)
  have "ecalls_ok ?h" using i(2) c ph ent
    by (auto simp: ecalls_ok_def f ecall_ok_def nth_list_update)
  moreover have "tables_ok ?h" using i(1) by (simp add: tables_ok_def f)
  moreover have "envs_ok ?h"
  proof -
    have "g \<in> set (ih_grants h) \<Longrightarrow> snd g < ?r" for g using owners_live [OF i(4), of "snd g"] by auto
    then show ?thesis using i(3) e v by (auto simp: envs_ok_def f nth_append less_Suc_eq env_ok_def)
  qed
  moreover have "owners_ok ?h"
  proof -
    let ?rest = "filter (\<lambda>p. fst p \<noteq> ?i) (ih_pending h)"
    have "launch_refs (ih_calls ?h) ?rest = launch_refs (ih_calls h) ?rest"
      by (rule launch_refs_cong) (use entry_call [OF i(2) ent] in \<open>auto simp: f\<close>)
    then have "mset (launch_refs (ih_calls ?h) (ih_pending h)) = add_mset ?r (mset (launch_refs (ih_calls h) (ih_pending h)))"
      using launch_refs_remove [OF d ent, of "ih_calls ?h"] launch_refs_remove [OF d ent, of "ih_calls h"] c ph
      by (simp add: f phase_refs_def)
    moreover have "ie_id (ih_envs ?h ! r) = fst p"
      if p: "p \<in> set (ih_pending h)" and r: "r \<in> set (phase_refs (ec_phase (ih_calls ?h ! snd p)))" for p r
    proof (cases "fst p = ?i")
      case True
      then have "snd p = c" using entry_unique [OF d ent] p by (metis prod.collapse)
      then show ?thesis using r True c e by (simp add: f phase_refs_def)
    next
      case False
      then have "r \<in> set (phase_refs (ec_phase (ih_calls h ! snd p)))"
        using r entry_call [OF i(2) ent p] by (simp add: f)
      moreover from this have "r \<in> set (launch_refs (ih_calls h) (ih_pending h))"
        using p by (auto simp: launch_refs_def)
      then have "r < ?r" using owners_live [OF i(4), of r] by simp
      ultimately show ?thesis using i(4) p e by (simp add: owners_ok_def nth_append)
    qed
    ultimately show ?thesis using i(4) e by (simp add: owners_ok_def f)
  qed
  ultimately show ?thesis by (simp add: iso_inv_def)
qed

text \<open>\<open>completeEnsure\<close>: its tables, and the launches it leaves.\<close>

lemma complete_parts:
  assumes i: "tables_ok h" "ecalls_ok h" "envs_ok h" and c: "c < length (ih_calls h)"
    and ph: "ec_phase (ih_calls h ! c) \<noteq> Completed" and env: "err = None \<longleftrightarrow> env \<noteq> None"
    and id: "err = None \<Longrightarrow> ie_id (ih_envs h ! the env) = spec_id (ec_spec (ih_calls h ! c))"
  shows "tables_ok (complete_ensure c env err h)" "ecalls_ok (complete_ensure c env err h)"
    "envs_ok (complete_ensure c env err h)"
    "mset (launch_refs (ih_calls h) (ih_pending h)) = mset (phase_refs (ec_phase (ih_calls h ! c))) +
       mset (launch_refs (ih_calls (complete_ensure c env err h)) (ih_pending (complete_ensure c env err h)))"
    "p \<in> set (ih_pending (complete_ensure c env err h)) \<Longrightarrow>
       p \<in> set (ih_pending h) \<and> ih_calls (complete_ensure c env err h) ! snd p = ih_calls h ! snd p"
proof -
  let ?h = "complete_ensure c env err h" and ?x = "ih_calls h ! c"
  let ?i = "spec_id (ec_spec ?x)"
  let ?y = "?x\<lparr>ec_env := env, ec_err := err, ec_cancelled := True, ec_done := True, ec_phase := Completed\<rparr>"
  have f: "ih_pending ?h = filter (\<lambda>p. fst p \<noteq> ?i) (ih_pending h)" "ih_calls ?h = (ih_calls h)[c := ?y]"
      "ih_grants ?h = (if err = None then (?i, the env) # ih_grants h else ih_grants h)"
      "ih_envs ?h = ih_envs h" "ih_vms ?h = ih_vms h" "ih_slots ?h = ih_slots h"
    by (simp_all add: complete_ensure_def Let_def)
  have ent: "(?i, c) \<in> set (ih_pending h)" by (rule launched_entry [OF i(2) c ph])
  have d: "distinct (map fst (ih_pending h))" using i(1) by (simp add: tables_ok_def)
  have ic: "?i \<in> fst ` set (ih_pending h)" using ent by force
  show "tables_ok ?h"
    using i(1) ic filter_entry_length [OF d ent] by (auto simp: tables_ok_def f distinct_map_filter)
  have "ecall_ok (ih_pending ?h) k (ih_calls h ! k)" if "k < length (ih_calls h)" "k \<noteq> c" for k
  proof -
    have "(j, k) \<in> set (ih_pending h) \<Longrightarrow> j \<noteq> ?i" for j using entry_unique [OF d ent] that(2) by metis
    then show ?thesis using i(2) that(1) by (auto simp: ecalls_ok_def ecall_ok_def f)
  qed
  moreover have "ecall_ok (ih_pending ?h) c ?y" using env by (simp add: ecall_ok_def f)
  ultimately show "ecalls_ok ?h" using i(2) c entry_call [OF i(2) ent]
    by (auto simp: ecalls_ok_def f nth_list_update)
  show "envs_ok ?h" using i(3) id by (auto simp: envs_ok_def f)
  have "launch_refs (ih_calls ?h) (ih_pending ?h) = launch_refs (ih_calls h) (ih_pending ?h)"
    by (rule launch_refs_cong) (use entry_call [OF i(2) ent] in \<open>auto simp: f\<close>)
  then show "mset (launch_refs (ih_calls h) (ih_pending h)) =
      mset (phase_refs (ec_phase ?x)) + mset (launch_refs (ih_calls ?h) (ih_pending ?h))"
    using launch_refs_remove [OF d ent, of "ih_calls h"] by (simp add: f)
  show "p \<in> set (ih_pending ?h) \<Longrightarrow> p \<in> set (ih_pending h) \<and> ih_calls ?h ! snd p = ih_calls h ! snd p"
    using entry_call [OF i(2) ent] by (auto simp: f)
qed

lemma complete_same:
  "ih_grants (complete_ensure c env err h) =
     (if err = None then (spec_id (ec_spec (ih_calls h ! c)), the env) # ih_grants h else ih_grants h)"
  "ih_envs (complete_ensure c env err h) = ih_envs h" "ih_taken (complete_ensure c env err h) = ih_taken h"
  by (simp_all add: complete_ensure_def Let_def)

lemma launch_failed_ok:
  assumes "iso_inv h" "c < length (ih_calls h)" "ec_phase (ih_calls h ! c) = Reserved"
  shows "iso_inv (complete_ensure c None (Some e) h)"
proof -
  note i = iso_invD [OF assms(1)]
  have ph: "ec_phase (ih_calls h ! c) \<noteq> Completed" using assms(3) by simp
  note q = complete_parts [OF i(1-3) assms(2) ph, of "Some e" None]
  have "owners_ok (complete_ensure c None (Some e) h)"
    using i(4) q(4,5) assms(3) by (auto simp: owners_ok_def complete_same phase_refs_def)
  with q show ?thesis by (simp add: iso_inv_def)
qed

lemma dialed_ok:
  assumes "iso_inv h" "c < length (ih_calls h)" "ec_phase (ih_calls h ! c) = Launched r"
    and "ienv_dial ctx conn r h = (h1, Inr ())"
  shows "iso_inv (complete_ensure c (Some r) None h1)"
proof -
  note i = iso_invD [OF assms(1)]
  have h1: "h1 = set_ienv r ((ih_envs h ! r)\<lparr>ie_client := True\<rparr>) h"
    using assms(4) by (auto simp: ienv_dial_def Let_def split: option.splits if_splits)
  have ph: "ec_phase (ih_calls h1 ! c) \<noteq> Completed" and c: "c < length (ih_calls h1)" using assms(2,3) h1 by simp_all
  have r: "r < length (ih_envs h)" "\<not> ie_revoked (ih_envs h ! r)"
    using owners_live [OF i(4), of r] launched_ref [OF i(2) assms(2,3)] by auto
  have ent: "(spec_id (ec_spec (ih_calls h ! c)), c) \<in> set (ih_pending h)"
    using launched_entry [OF i(2) assms(2)] assms(3) by simp
  then have id: "ie_id (ih_envs h ! r) = spec_id (ec_spec (ih_calls h ! c))"
    using i(4) assms(3) by (force simp: owners_ok_def phase_refs_def)
  have i1: "tables_ok h1" "ecalls_ok h1" using i h1 by (simp_all add: tables_ok_def ecalls_ok_def)
  have e1: "envs_ok h1" using i(3) r by (auto simp: envs_ok_def env_ok_def h1 nth_list_update)
  have en: "(None :: go_error option) = None \<longleftrightarrow> Some r \<noteq> None" by simp
  have "ie_id (ih_envs h1 ! the (Some r)) = spec_id (ec_spec (ih_calls h1 ! c))" using id h1 r by simp
  note q = complete_parts [OF i1 e1 c ph en this]
  have l: "live_refs (ih_envs h1) = live_refs (ih_envs h)" using r h1 by (simp add: live_refs_same)
  have "ie_id (ih_envs h1 ! s) = ie_id (ih_envs h ! s)" for s
    using h1 r(1) by (cases "s = r") simp_all
  then have "owners_ok (complete_ensure c (Some r) None h1)"
    using i(4) q(4,5) assms(3) l h1 by (auto simp: owners_ok_def complete_same phase_refs_def)
  with q(1-3) show ?thesis by (simp add: iso_inv_def)
qed

text \<open>Revoking a live environment, apart from who owned it.\<close>

lemma revoke_parts:
  assumes i: "tables_ok h" "ecalls_ok h" "envs_ok h" and r: "r < length (ih_envs h)" "\<not> ie_revoked (ih_envs h ! r)"
  shows "tables_ok (ienv_revoke r h)" "ecalls_ok (ienv_revoke r h)" "envs_ok (ienv_revoke r h)"
    "mset (live_refs (ih_envs (ienv_revoke r h))) = mset (live_refs (ih_envs h)) - {#r#}"
    "ie_id (ih_envs (ienv_revoke r h) ! s) = ie_id (ih_envs h ! s)"
    "ih_calls (ienv_revoke r h) = ih_calls h" "ih_pending (ienv_revoke r h) = ih_pending h"
    "ih_grants (ienv_revoke r h) = ih_grants h" "ih_taken (ienv_revoke r h) = ih_taken h"
proof -
  let ?e = "(ih_envs h ! r)\<lparr>ie_revoked := True, ie_frozen := False, ie_client := False, ie_inst := None\<rparr>"
  have inst: "ie_inst (ih_envs h ! r) = Some r" using i(3) r by (simp add: envs_ok_def env_ok_def)
  have f: "ih_envs (ienv_revoke r h) = (ih_envs h)[r := ?e]"
    "ih_vms (ienv_revoke r h) = (ih_vms h)[r := (ih_vms h ! r)\<lparr>vm_running := False, vm_attached := False\<rparr>]"
    "ih_slots (ienv_revoke r h) = ih_slots h"
    by (simp_all add: ienv_revoke_def env_do_stop_def vm_stop_def inst Let_def)
  show g: "ih_calls (ienv_revoke r h) = ih_calls h" "ih_pending (ienv_revoke r h) = ih_pending h"
    "ih_grants (ienv_revoke r h) = ih_grants h" "ih_taken (ienv_revoke r h) = ih_taken h"
    by (simp_all add: ienv_revoke_def env_do_stop_def vm_stop_def inst Let_def)
  show "tables_ok (ienv_revoke r h)" "ecalls_ok (ienv_revoke r h)"
    using i by (simp_all add: tables_ok_def ecalls_ok_def f g)
  show id: "ie_id (ih_envs (ienv_revoke r h) ! s) = ie_id (ih_envs h ! s)" for s
    using r(1) by (cases "s = r") (simp_all add: f)
  have "env_ok (ih_vms (ienv_revoke r h)) s (ih_envs (ienv_revoke r h) ! s)" if "s < length (ih_envs h)" for s
    using i(3) r that by (cases "s = r") (simp_all add: envs_ok_def env_ok_def f)
  then show "envs_ok (ienv_revoke r h)" using i(3) id by (simp add: envs_ok_def f g)
  show "mset (live_refs (ih_envs (ienv_revoke r h))) = mset (live_refs (ih_envs h)) - {#r#}"
    using live_refs_revoke [OF r, of ?e] by (simp add: f)
qed

lemma dial_failed_ok:
  assumes "iso_inv h" "c < length (ih_calls h)" "ec_phase (ih_calls h ! c) = Launched r"
    and "ienv_dial ctx conn r h = (h1, Inl e)"
  shows "iso_inv (complete_ensure c None (Some (OpError ''ensure'' e)) (ienv_revoke r h1))"
proof -
  note i = iso_invD [OF assms(1)]
  have h1: "h1 = h" using assms(4) by (auto simp: ienv_dial_def Let_def split: option.splits if_splits)
  have r: "r < length (ih_envs h)" "\<not> ie_revoked (ih_envs h ! r)"
    using owners_live [OF i(4), of r] launched_ref [OF i(2) assms(2,3)] by auto
  note v = revoke_parts [OF i(1-3) r]
  have c: "c < length (ih_calls (ienv_revoke r h))" "ec_phase (ih_calls (ienv_revoke r h) ! c) \<noteq> Completed"
    using assms(2,3) v(6) by simp_all
  note q = complete_parts [OF v(1-3) c, of "Some (OpError ''ensure'' e)" None]
  have "owners_ok (complete_ensure c None (Some (OpError ''ensure'' e)) (ienv_revoke r h))"
    using i(4) q(4,5) v assms(3) by (auto simp: owners_ok_def complete_same phase_refs_def)
  with q h1 show ?thesis by (simp add: iso_inv_def)
qed

lemma taken_ok:
  assumes "iso_inv h" "r \<in> set (ih_taken h)"
  shows "iso_inv (revoke_taken r h)"
proof -
  note i = iso_invD [OF assms(1)]
  have r: "r < length (ih_envs h)" "\<not> ie_revoked (ih_envs h ! r)"
    using owners_live [OF i(4), of r] assms(2) by auto
  note v = revoke_parts [OF i(1-3) r]
  obtain T where T: "mset (ih_taken h) = add_mset r T" using assms(2) by (metis multi_member_split set_mset_mset)
  then have "mset (remove1 r (ih_taken h)) = T" by simp
  moreover have "mset (live_refs (ih_envs h)) - {#r#} =
      mset (map snd (ih_grants h)) + mset (launch_refs (ih_calls h) (ih_pending h)) + T"
    using i(4) by (simp add: owners_ok_def T)
  ultimately have "owners_ok (revoke_taken r h)" using i(4) v by (simp add: owners_ok_def revoke_taken_def)
  moreover have "tables_ok (revoke_taken r h)" "ecalls_ok (revoke_taken r h)" "envs_ok (revoke_taken r h)"
    using v(1-3) by (simp_all add: revoke_taken_def tables_ok_def ecalls_ok_def envs_ok_def)
  ultimately show ?thesis by (simp add: iso_inv_def)
qed

lemma turn_ok:
  assumes "iso_inv h"
  shows "iso_inv (fst (revoke_turn i h))"
proof -
  note v = iso_invD [OF assms]
  consider (w) c where "map_of (ih_pending h) i = Some c" | (n) "map_of (ih_pending h) i = None" "map_of (ih_grants h) i = None"
    | (t) r where "map_of (ih_pending h) i = None" "map_of (ih_grants h) i = Some r"
    by (cases "map_of (ih_pending h) i"; cases "map_of (ih_grants h) i") auto
  then show ?thesis
  proof cases
    case w
    let ?h = "fst (revoke_turn i h)"
    have f: "ih_calls ?h = (ih_calls h)[c := (ih_calls h ! c)\<lparr>ec_cancelled := True\<rparr>]" "ih_pending ?h = ih_pending h"
      "ih_grants ?h = ih_grants h" "ih_envs ?h = ih_envs h" "ih_vms ?h = ih_vms h" "ih_taken ?h = ih_taken h"
      "ih_slots ?h = ih_slots h" using w by (simp_all add: revoke_turn_def)
    have c: "c < length (ih_calls h)" using v(2) map_of_SomeD [OF w] by (force simp: ecalls_ok_def)
    have ph: "ec_phase (ih_calls ?h ! k) = ec_phase (ih_calls h ! k)" for k using c by (cases "k = c") (simp_all add: f)
    have "ecall_ok (ih_pending h) k (ih_calls ?h ! k)" if "k < length (ih_calls h)" for k
      using v(2) that c by (cases "k = c") (simp_all add: ecalls_ok_def ecall_ok_def f)
    moreover have "spec_id (ec_spec (ih_calls ?h ! k)) = spec_id (ec_spec (ih_calls h ! k))" for k
      using c by (cases "k = c") (simp_all add: f)
    ultimately have "ecalls_ok ?h" using v(2) by (simp add: ecalls_ok_def f(2) f(1))
    moreover have "owners_ok ?h" using v(4) launch_refs_cong [OF ph] by (simp add: owners_ok_def f(2-7) ph)
    ultimately show ?thesis using v by (simp add: iso_inv_def tables_ok_def envs_ok_def f(2-7))
  next
    case n
    then show ?thesis using assms by (simp add: revoke_turn_def)
  next
    case t
    let ?h = "fst (revoke_turn i h)"
    have f: "ih_calls ?h = ih_calls h" "ih_pending ?h = ih_pending h" "ih_envs ?h = ih_envs h" "ih_vms ?h = ih_vms h"
      "ih_grants ?h = filter (\<lambda>g. fst g \<noteq> i) (ih_grants h)" "ih_taken ?h = r # ih_taken h" "ih_slots ?h = ih_slots h"
      using t by (simp_all add: revoke_turn_def)
    have d: "distinct (map fst (ih_grants h))" and g: "(i, r) \<in> set (ih_grants h)"
      using v(1) map_of_SomeD [OF t(2)] by (simp_all add: tables_ok_def)
    have "mset (map snd (ih_grants h)) = add_mset r (mset (map snd (ih_grants ?h)))"
      using arg_cong [OF entry_split [OF d g], of "image_mset snd"] by (simp add: f)
    then have "owners_ok ?h" using v(4) by (simp add: owners_ok_def f(1-4,6))
    moreover have "tables_ok ?h"
    proof -
      have "length (ih_grants ?h) \<le> length (ih_grants h)" by (simp add: f)
      moreover have "fst ` set (ih_grants ?h) \<subseteq> fst ` set (ih_grants h)" by (auto simp: f)
      moreover have "distinct (map fst (ih_grants ?h))" using d by (simp add: f distinct_map_filter)
      ultimately show ?thesis using v(1) by (auto simp: tables_ok_def f(2,7))
    qed
    ultimately show ?thesis using v(2,3) by (simp add: iso_inv_def ecalls_ok_def envs_ok_def f)
  qed
qed

text \<open>Freezing and thawing leave owners and running machines alone.\<close>

lemma pause_ok:
  assumes "iso_inv h" "r < length (ih_envs h)" "ie_revoked e = ie_revoked (ih_envs h ! r)"
    "ie_id e = ie_id (ih_envs h ! r)" "ie_inst e = ie_inst (ih_envs h ! r)" "inst = ie_inst e"
  shows "iso_inv (vm_set_paused p inst (set_ienv r e h))"
proof -
  note i = iso_invD [OF assms(1)]
  let ?h = "vm_set_paused p inst (set_ienv r e h)"
  have f: "ih_calls ?h = ih_calls h" "ih_pending ?h = ih_pending h" "ih_grants ?h = ih_grants h"
    "ih_envs ?h = (ih_envs h)[r := e]" "ih_taken ?h = ih_taken h" "ih_slots ?h = ih_slots h"
    and v: "length (ih_vms ?h) = length (ih_vms h)"
    by (simp_all add: vm_set_paused_def split: option.split)
  have run: "vm_running (ih_vms ?h ! s) = vm_running (ih_vms h ! s)" if "s < length (ih_vms h)" for s
  proof (cases inst)
    case (Some v)
    with that show ?thesis by (cases "v = s") (simp_all add: vm_set_paused_def)
  qed (simp add: vm_set_paused_def)
  have id: "ie_id ((ih_envs h)[r := e] ! s) = ie_id (ih_envs h ! s)" for s
    using assms(2,4) by (cases "s = r") simp_all
  have "env_ok (ih_vms ?h) s ((ih_envs h)[r := e] ! s)" if "s < length (ih_envs h)" for s
    using i(3) that assms(2-5) run [of s] by (cases "s = r") (simp_all add: envs_ok_def env_ok_def)
  then have "envs_ok ?h" using i(3) id v by (simp add: envs_ok_def f)
  moreover have "owners_ok ?h" using i(4) id live_refs_same [OF assms(2,3)] by (simp add: owners_ok_def f)
  ultimately show ?thesis using i(1,2) by (simp add: iso_inv_def tables_ok_def ecalls_ok_def f)
qed

lemma freeze_ok: "iso_inv h \<Longrightarrow> r < length (ih_envs h) \<Longrightarrow> iso_inv (fst (ienv_freeze ctx r h))"
  by (simp add: ienv_freeze_def Let_def pause_ok split: option.split)

lemma thaw_ok: "iso_inv h \<Longrightarrow> r < length (ih_envs h) \<Longrightarrow> iso_inv (fst (ienv_thaw ctx ans r h))"
  by (simp add: ienv_thaw_def Let_def pause_ok split: option.split)

lemma remove_ok: "iso_inv h \<Longrightarrow> iso_inv (remove_all d h)"
  by (simp add: remove_all_def iso_inv_def tables_ok_def ecalls_ok_def envs_ok_def owners_ok_def)

lemma istep_inv: "istep h h' \<Longrightarrow> iso_inv h \<Longrightarrow> iso_inv h'"
  by (induction rule: istep.induct)
    (simp_all add: reserve_ok launch_ok launch_failed_ok dialed_ok dial_failed_ok turn_ok taken_ok freeze_ok thaw_ok
      ensure_cleanup_def revoke_finish_def remove_ok split: option.split)

lemma iso_new_inv: "iso_new cfg prepared = Inr h \<Longrightarrow> iso_inv h"
  by (auto simp: iso_new_def iso_inv_def tables_ok_def ecalls_ok_def envs_ok_def owners_ok_def live_refs_def
      launch_refs_def split: if_splits sum.splits option.splits)

interpretation isolated_steps: steps_keep_from istep iso_inv "\<lambda>h. \<exists>cfg prepared. iso_new cfg prepared = Inr h"
  by unfold_locales (auto intro: istep_inv iso_new_inv)

lemma iso_reachable: "iso_new cfg prepared = Inr h0 \<Longrightarrow> iso_run h0 h \<Longrightarrow> iso_inv h"
  using isolated_steps.kept_reached by blast

end
