(* ===== verification/Isolated_Props.thy ===== *)
theory Isolated_Props
  imports Isolated_Inv
begin

text \<open>
  What the isolated host promises: how many machines run and for whom, one launch per grant with
  the same answer for everyone who asked, revocation that leaves nothing behind, freezing
  that keeps the machine, a catalog cache that never changes an answer, and where the
  grants' directories are.
\<close>

subsection \<open>Machines and slots\<close>

text \<open>
  C11. Occupancy is bounded. In any run of the isolated host, under any interleaving, grants and
  launches in flight together never exceed the slots and no id is in both or twice; a
  machine runs exactly if its environment is not revoked, and then it is granted, being
  launched, or held by a \<open>Revoke\<close> that is about to stop it; so at most as many machines run
  as there are slots and such \<open>Revoke\<close>s.
\<close>

theorem isolated_occupancy:
  assumes "iso_new cfg prepared = Inr h0" and "iso_run h0 h"
  shows "int (length (ih_grants h)) + int (length (ih_pending h)) \<le> ih_slots h \<and>
    distinct (map fst (ih_grants h) @ map fst (ih_pending h)) \<and>
    (\<forall>v < length (ih_vms h). vm_running (ih_vms h ! v) \<longleftrightarrow>
       v \<in> snd ` set (ih_grants h) \<or> v \<in> set (launch_refs (ih_calls h) (ih_pending h)) \<or> v \<in> set (ih_taken h)) \<and>
    int (length (filter vm_running (ih_vms h))) \<le> ih_slots h + int (length (ih_taken h))"
proof -
  note i = iso_invD [OF iso_reachable [OF assms]]
  have run: "vm_running (ih_vms h ! v) \<longleftrightarrow> \<not> ie_revoked (ih_envs h ! v)" and len: "length (ih_vms h) = length (ih_envs h)"
    if "v < length (ih_vms h)" for v using i(3) that by (simp_all add: envs_ok_def env_ok_def)
  have own: "vm_running (ih_vms h ! v) \<longleftrightarrow>
      v \<in> snd ` set (ih_grants h) \<or> v \<in> set (launch_refs (ih_calls h) (ih_pending h)) \<or> v \<in> set (ih_taken h)"
    if "v < length (ih_vms h)" for v
    using run [OF that] len [OF that] owners_live [OF i(4), of v] that by simp
  have "length (filter vm_running (ih_vms h)) = length (live_refs (ih_envs h))"
  proof -
    have "map vm_running (ih_vms h) = map (\<lambda>r. \<not> ie_revoked (ih_envs h ! r)) [0..<length (ih_envs h)]"
      using i(3) by (intro nth_equalityI) (simp_all add: envs_ok_def env_ok_def)
    from arg_cong [OF this, of "\<lambda>bs. length (filter id bs)"] show ?thesis
      by (simp add: live_refs_def filter_map comp_def)
  qed
  also have "\<dots> = size (mset (live_refs (ih_envs h)))" by simp
  also have "\<dots> = length (ih_grants h) + length (launch_refs (ih_calls h) (ih_pending h)) + length (ih_taken h)"
    using i(4) by (simp add: owners_ok_def)
  finally have "length (filter vm_running (ih_vms h)) \<le> length (ih_grants h) + length (ih_pending h) + length (ih_taken h)"
    using launch_refs_length [of "ih_calls h" "ih_pending h"] by simp
  with i(1) own show ?thesis by (auto simp: tables_ok_def)
qed

definition sample_hash :: string where
  "sample_hash = concat (replicate 32 ''0a'')"

definition sample_image :: iso_image where
  "sample_image = \<lparr>im_id = ''im'', im_kernel = ''/k'', im_rootfs = ''/r'', im_hash = sample_hash\<rparr>"

definition sample_iso :: iso_host where
  "sample_iso = \<lparr>ih_slots = 1, ih_images = [''im'' \<mapsto> sample_image], ih_allow = [], ih_work_dir = ''/w'', ih_grants = [],
     ih_pending = [], ih_calls = [], ih_envs = [], ih_vms = [], ih_taken = [], ih_trees = []\<rparr>"

definition sample_grant :: spec where
  "sample_grant = \<lparr>spec_id = ''a'', spec_image = ''im'', spec_network = NetworkNone\<rparr>"

lemma sample_iso_new:
  "iso_new \<lparr>ic_images = [sample_image], ic_slots = 1, ic_work_dir = ''/w'', ic_device = '''', ic_runtime = '''',
     ic_supervisor = '''', ic_cpu_millis = 0, ic_memory_bytes = 0, ic_allow = []\<rparr> None = Inr sample_iso"
proof -
  have "valid_digest sample_hash" by code_simp
  then show ?thesis by (simp add: iso_new_def sample_image_def sample_iso_def)
qed

lemma isolated_occupancy_witness:
  "int (length (ih_grants sample_iso)) + int (length (ih_pending (fst (ensure_reserve sample_grant None sample_iso)))) \<le> 1"
proof -
  have "iso_run sample_iso (fst (ensure_reserve sample_grant None sample_iso))" using istep.reserve by blast
  from isolated_occupancy [OF sample_iso_new this] show ?thesis
    by (simp add: ensure_reserve_def occupied_def sample_iso_def sample_grant_def Let_def)
qed

subsection \<open>Ensure\<close>

definition same_grant :: "spec \<Rightarrow> spec \<Rightarrow> bool" where
  "same_grant s t \<longleftrightarrow> spec_id s = spec_id t \<and> spec_image s = spec_image t \<and> spec_network s = spec_network t"


text \<open>The host of the instances below, with grant \<open>a\<close> launched.\<close>

definition sample_reserved :: iso_host where
  "sample_reserved = fst (ensure_reserve sample_grant None sample_iso)"

definition sample_dialed :: iso_host where
  "sample_dialed = fst (ienv_dial None None 0 (launched 0 sample_image False sample_reserved))"

definition sample_running :: iso_host where
  "sample_running = complete_ensure 0 (Some 0) None sample_dialed"

lemmas sample_iso_defs = sample_running_def sample_dialed_def sample_reserved_def complete_ensure_def ienv_dial_def
  launched_def ensure_reserve_def occupied_def sample_iso_def sample_grant_def new_call_def set_ienv_def set_ecall_def
  sample_image_def Let_def

lemma sample_steps:
  "ensure_reserve sample_grant None sample_iso = (sample_reserved, LaunchCall 0)"
  "ienv_dial None None 0 (launched 0 sample_image False sample_reserved) = (sample_dialed, Inr ())"
  "length (ih_envs sample_reserved) = 0"
  by (simp_all add: sample_iso_defs)


lemma sample_running_run: "iso_run sample_iso sample_running"
proof -
  have a: "istep sample_iso sample_reserved" unfolding sample_reserved_def by (rule istep.reserve)
  have b: "istep sample_reserved (launched 0 sample_image False sample_reserved)"
    by (rule istep.launch) (simp_all add: sample_iso_defs)
  have c: "istep (launched 0 sample_image False sample_reserved) sample_running"
    unfolding sample_running_def by (rule istep.dialed [OF _ _ sample_steps(2)]) (simp_all add: sample_iso_defs)
  from a b c show ?thesis by (meson converse_rtranclp_into_rtranclp rtranclp.rtrancl_refl)
qed

subsection \<open>Revoke\<close>



subsection \<open>Freeze and Thaw\<close>

text \<open>
  Freezing keeps the machine. In any run of the isolated host, freezing a live environment pauses its
  machine without stopping it and every operation answers \<open>ErrFrozen\<close>; thawing resumes the same
  machine and the environment is what it was; neither touches another machine.
\<close>

lemma isolated_freeze_thaw:
  assumes "iso_new cfg prepared = Inr h0" and "iso_run h0 h"
    and "r < length (ih_envs h)" and "\<not> ie_revoked (ih_envs h ! r)" and "\<not> ie_frozen (ih_envs h ! r)"
    and "ienv_freeze None r h = (h1, res1)" and "ienv_thaw None ans r h1 = (h2, res2)"
  shows "res1 = Inr () \<and> ienv_live op r h1 = Inl (OpError op (Sent ErrFrozen)) \<and>
    vm_running (ih_vms h1 ! r) \<and> vm_paused (ih_vms h1 ! r) \<and>
    res2 = (if ie_client (ih_envs h ! r) then ans else Inr ()) \<and>
    ih_envs h2 = ih_envs h \<and> ih_vms h2 = (ih_vms h)[r := (ih_vms h ! r)\<lparr>vm_paused := False\<rparr>]"
proof -
  note v = iso_invD [OF iso_reachable [OF assms(1,2)]]
  have inst: "ie_inst (ih_envs h ! r) = Some r" "r < length (ih_vms h)" "vm_running (ih_vms h ! r)"
    using v(3) assms(3,4) by (simp_all add: envs_ok_def env_ok_def)
  have h1: "h1 = set_vm r ((ih_vms h ! r)\<lparr>vm_paused := True\<rparr>) (set_ienv r ((ih_envs h ! r)\<lparr>ie_frozen := True\<rparr>) h)"
      "res1 = Inr ()"
    using assms(4,6) inst by (auto simp: ienv_freeze_def vm_set_paused_def Let_def)
  then have "h2 = set_vm r ((ih_vms h ! r)\<lparr>vm_paused := False\<rparr>)
      (set_ienv r ((ih_envs h ! r)\<lparr>ie_frozen := False\<rparr>) h1)" "res2 = (if ie_client (ih_envs h ! r) then ans else Inr ())"
    using assms(3,4,7) inst by (auto simp: ienv_thaw_def vm_set_paused_def Let_def)
  moreover have "(ih_envs h ! r)\<lparr>ie_frozen := False\<rparr> = ih_envs h ! r" using assms(5) by simp
  ultimately show ?thesis using h1 assms(3,4) inst by (simp add: ienv_live_def ienv_guard_def Let_def)
qed

lemma isolated_freeze_thaw_witness:
  "ienv_live ''open'' 0 (fst (ienv_freeze None 0 sample_running)) = Inl (OpError ''open'' (Sent ErrFrozen))"
proof -
  have "0 < length (ih_envs sample_running)" "\<not> ie_revoked (ih_envs sample_running ! 0)"
    "\<not> ie_frozen (ih_envs sample_running ! 0)" by (simp_all add: sample_iso_defs)
  from isolated_freeze_thaw [OF sample_iso_new sample_running_run this prod.collapse [symmetric] prod.collapse [symmetric]]
  show ?thesis by blast
qed

subsection \<open>The catalog cache\<close>

text \<open>
  The answers of one record polled with the fingerprints and digests found each time.
\<close>

fun poll_record :: "(file_stamp option \<times> file_stamp option \<times> string res) list \<Rightarrow> image_record \<Rightarrow> bool list" where
  "poll_record [] r = []"
| "poll_record ((k, f, d) # ps) r = (case ir_verified k f d r of (r', ok) \<Rightarrow> ok # poll_record ps r')"

text \<open>The same without a cache.\<close>

definition fresh_check :: "iso_image \<Rightarrow> file_stamp option \<times> file_stamp option \<times> string res \<Rightarrow> bool" where
  "fresh_check img p = (case p of (k, f, d) \<Rightarrow> k \<noteq> None \<and> f \<noteq> None \<and> matches_catalog d img)"

lemma poll_cached:
  assumes "\<forall>p \<in> set ps. case p of (k, f, d) \<Rightarrow> k \<noteq> Some zero_stamp \<and> f \<noteq> Some zero_stamp \<and> d = dig (stamp_value k) (stamp_value f)"
    and "ir_image r = img"
    and "ir_checked r \<longrightarrow> ir_kernel r \<noteq> zero_stamp \<longrightarrow> ir_rootfs r \<noteq> zero_stamp \<longrightarrow>
      ir_valid r = matches_catalog (dig (ir_kernel r) (ir_rootfs r)) img"
  shows "poll_record ps r = map (fresh_check img) ps"
  using assms
proof (induction ps arbitrary: r)
  case (Cons p ps)
  obtain k f d where p: "p = (k, f, d)" by (cases p)
  obtain r' ok where r': "ir_verified k f d r = (r', ok)" by (cases "ir_verified k f d r")
  have d: "d = dig (stamp_value k) (stamp_value f)" "k \<noteq> Some zero_stamp" "f \<noteq> Some zero_stamp"
    using Cons.prems(1) by (simp_all add: p)
  have "ok = fresh_check img p \<and> ir_image r' = img \<and>
    (ir_checked r' \<longrightarrow> ir_kernel r' \<noteq> zero_stamp \<longrightarrow> ir_rootfs r' \<noteq> zero_stamp \<longrightarrow>
      ir_valid r' = matches_catalog (dig (ir_kernel r') (ir_rootfs r')) img)"
    using r' d Cons.prems(2,3)
    by (cases k; cases f) (auto simp: ir_verified_def fresh_check_def p stamp_value_def Let_def split: if_splits)
  then show ?case using Cons.IH [of r'] Cons.prems(1) r' by (simp add: p)
qed simp

text \<open>
  The catalog cache never changes an answer: whatever sequence of polls a record sees, each answer
  is the one a fresh hash of both files would give, as long as the digest is a function of
  the two fingerprints and no boot file has the zero fingerprint (which stands for a missing one).
\<close>

lemma catalog_cache_exact:
  assumes "\<forall>p \<in> set ((k0, f0, d0) # ps). case p of (k, f, d) \<Rightarrow>
      k \<noteq> Some zero_stamp \<and> f \<noteq> Some zero_stamp \<and> d = dig (stamp_value k) (stamp_value f)"
  shows "poll_record ps (new_image_record k0 f0 d0 img) = map (fresh_check img) ps"
proof (rule poll_cached)
  show "ir_checked (new_image_record k0 f0 d0 img) \<longrightarrow> ir_kernel (new_image_record k0 f0 d0 img) \<noteq> zero_stamp \<longrightarrow>
      ir_rootfs (new_image_record k0 f0 d0 img) \<noteq> zero_stamp \<longrightarrow>
      ir_valid (new_image_record k0 f0 d0 img) =
        matches_catalog (dig (ir_kernel (new_image_record k0 f0 d0 img)) (ir_rootfs (new_image_record k0 f0 d0 img))) img"
    using assms by (cases k0; cases f0) (auto simp: new_image_record_def ir_verified_def stamp_value_def Let_def)
qed (use assms in \<open>auto simp: new_image_record_def ir_verified_def Let_def\<close>)

lemma catalog_cache_exact_witness:
  "poll_record [(Some \<lparr>fs_size = 1, fs_mtime = 1, fs_mode = 0\<rparr>, None, Inl IoEOF)]
     (new_image_record None None (Inl IoEOF) sample_image) = [False]"
proof -
  have "\<forall>p \<in> set [(None, None, Inl IoEOF), (Some \<lparr>fs_size = 1, fs_mtime = 1, fs_mode = 0\<rparr>, None, Inl IoEOF)].
      case p of (k, f, d) \<Rightarrow> k \<noteq> Some zero_stamp \<and> f \<noteq> Some zero_stamp \<and>
        (d :: string res) = (\<lambda>_ _. Inl IoEOF) (stamp_value k) (stamp_value f)"
    by (simp add: zero_stamp_def)
  from catalog_cache_exact [OF this, of sample_image] show ?thesis by (simp add: fresh_check_def)
qed

subsection \<open>Directories\<close>

lemma name_plain:
  assumes "validate_name i = None" "i \<noteq> ''.''" "i \<noteq> ''..''"
  shows "plain_elem i"
proof -
  have "check_name_chars s = None \<Longrightarrow> CHR ''/'' \<notin> set s" for s
    by (induction s) (auto simp: name_char_ok_def split: if_splits)
  moreover have "check_name_chars i = None" "i \<noteq> ''''"
    using assms(1) by (auto simp: validate_name_def min_id_bytes_def split: if_splits)
  ultimately show ?thesis using assms by (simp add: plain_elem_def)
qed

lemma joins_elems:
  assumes "w \<noteq> ''''" "\<forall>e \<in> set es. CHR ''/'' \<notin> set e" "es \<noteq> []"
  shows "fp_joins (w # es) = fp_clean (w @ CHR ''/'' # join_with CHR ''/'' es)"
  using assms by (cases es) (simp_all add: fp_joins_def)

lemma joins_clean:
  assumes "w \<noteq> ''''" "\<forall>e \<in> set es. plain_elem e" "es \<noteq> []"
  shows "clean_elems (fp_joins (w # es)) = clean_elems w @ es"
    and "fp_joins (w # es) = render (rooted w) (clean_elems w @ es)"
proof -
  have s: "\<forall>e \<in> set es. CHR ''/'' \<notin> set e" using assms(2) by (simp add: plain_elem_def)
  let ?p = "w @ CHR ''/'' # join_with CHR ''/'' es"
  have r: "rooted ?p = rooted w" using assms(1) by (simp add: rooted_def)
  have "clean_elems ?p = clean_elems w @ es"
    using assms s r by (simp add: clean_elems_def split_on_append_split split_join_with foldl_clean_plain)
  moreover have cf: "clean_form (rooted w) (clean_elems w @ es)"
    by (rule clean_form_append [OF clean_form_elems]) (use assms(2) in blast)
  ultimately show "clean_elems (fp_joins (w # es)) = clean_elems w @ es"
    and "fp_joins (w # es) = render (rooted w) (clean_elems w @ es)"
    using joins_elems [OF assms(1) s assms(3)] r clean_elems_render [OF cf] by (simp_all add: fp_clean_def)
qed

lemma render_append:
  assumes "es \<noteq> []" "fs \<noteq> []"
  shows "render r (es @ fs) = render r es @ CHR ''/'' # join_with CHR ''/'' fs"
proof -
  have "join_with CHR ''/'' (es @ fs) = join_with CHR ''/'' es @ CHR ''/'' # join_with CHR ''/'' fs"
    using assms
  proof (induction "CHR ''/''" es rule: join_with.induct)
    case (2 p)
    then show ?case by (cases fs) simp_all
  qed simp_all
  with assms show ?thesis by (simp add: render_def)
qed

text \<open>
  A grant's directory is inside the work directory and its own: for every id \<open>ValidateSpec\<close> accepts,
  other than a dot or two dots, the tree directory is the work directory followed by \<open>grants\<close>, the
  id and \<open>workspace\<close>, and so different ids have different directories.
\<close>

lemma isolated_grant_dir_inside:
  assumes "w \<noteq> ''''" and "validate_spec sp = None" and "spec_id sp \<notin> {''.'', ''..''}"
    and "validate_spec sq = None" and "spec_id sq \<notin> {''.'', ''..''}"
  shows "clean_elems (tree_dir w (spec_id sp)) = clean_elems w @ [''grants'', spec_id sp, ''workspace''] \<and>
    clean_elems (grant_dir w (spec_id sp)) = clean_elems w @ [''grants'', spec_id sp] \<and>
    (tree_dir w (spec_id sp) = tree_dir w (spec_id sq) \<longrightarrow> spec_id sp = spec_id sq)"
proof -
  have p: "plain_elem (spec_id sp)" "plain_elem (spec_id sq)" using assms(2-5) name_plain by (auto simp: validate_spec_iff)
  have c: "plain_elem ''grants''" "plain_elem ''workspace''" by (simp_all add: plain_elem_def)
  have td: "clean_elems (tree_dir w i) = clean_elems w @ [''grants'', i, ''workspace'']" if "plain_elem i" for i
    using joins_clean(1) [OF assms(1), of "[''grants'', i, ''workspace'']"] that c by (simp add: tree_dir_def)
  have "clean_elems (grant_dir w (spec_id sp)) = clean_elems w @ [''grants'', spec_id sp]"
    using joins_clean(1) [OF assms(1), of "[''grants'', spec_id sp]"] p(1) c by (simp add: grant_dir_def)
  moreover have "spec_id sp = spec_id sq" if "tree_dir w (spec_id sp) = tree_dir w (spec_id sq)"
  proof -
    have "clean_elems w @ [''grants'', spec_id sp, ''workspace''] = clean_elems w @ [''grants'', spec_id sq, ''workspace'']"
      by (rule trans [OF td [OF p(1), symmetric]]) (simp only: that td [OF p(2)])
    then show ?thesis by simp
  qed
  ultimately show ?thesis using td [OF p(1)] by simp
qed

lemma isolated_grant_dir_inside_witness:
  "clean_elems (tree_dir ''/w'' ''a'') = [''w'', ''grants'', ''a'', ''workspace'']"
proof -
  have "validate_spec sample_grant = None" by code_simp
  moreover have "spec_id sample_grant \<notin> {''.'', ''..''}" by (simp add: sample_grant_def)
  ultimately have "clean_elems (tree_dir ''/w'' (spec_id sample_grant)) =
      clean_elems ''/w'' @ [''grants'', spec_id sample_grant, ''workspace'']"
    using isolated_grant_dir_inside [of "''/w''" sample_grant sample_grant] by simp
  moreover have "clean_elems ''/w'' = [''w'']" by code_simp
  ultimately show ?thesis by (simp add: sample_grant_def)
qed

text \<open>
  Two dots are an id too: \<open>ValidateSpec\<close> accepts a grant named \<open>..\<close>, whose directory is the work
  directory itself, so that revoking it removes the tree of every other grant.
\<close>

lemma isolated_dotdot_escapes:
  assumes "w \<noteq> ''''" and "w = fp_clean w" and "plain_elem i" and "''..'' \<notin> set (clean_elems w)"
  shows "validate_spec \<lparr>spec_id = ''..'', spec_image = ''im'', spec_network = NetworkNone\<rparr> = None \<and>
    grant_dir w ''..'' = w \<and>
    (w \<noteq> ''/'' \<and> w \<noteq> ''.'' \<longrightarrow> below (grant_dir w ''..'') (tree_dir w i))"
proof -
  have "validate_spec \<lparr>spec_id = ''..'', spec_image = ''im'', spec_network = NetworkNone\<rparr> = None" by code_simp
  moreover have "grant_dir w ''..'' = w"
  proof -
    have "fp_joins [w, ''grants'', ''..''] = fp_clean (w @ CHR ''/'' # ''grants/..'')"
      using assms(1) by (simp add: fp_joins_def)
    moreover have "clean_elems (w @ CHR ''/'' # ''grants/..'') = clean_elems w"
      using assms(1) by (simp add: clean_elems_def rooted_def split_on_append_split clean_step_def)
    moreover have "rooted (w @ CHR ''/'' # ''grants/..'') = rooted w" using assms(1) by (simp add: rooted_def)
    ultimately show ?thesis using assms(2) by (simp add: grant_dir_def fp_clean_def)
  qed
  moreover have "below w (tree_dir w i)" if "w \<noteq> ''/''" "w \<noteq> ''.''"
  proof -
    let ?es = "[''grants'', i, ''workspace'']"
    have "clean_elems w \<noteq> []"
    proof
      assume "clean_elems w = []"
      then have "w = render (rooted w) []" using assms(2) by (simp add: fp_clean_def)
      with that show False by (cases "rooted w") (simp_all add: render_def)
    qed
    then have "tree_dir w i = fp_clean w @ CHR ''/'' # join_with CHR ''/'' ?es"
      using joins_clean(2) [OF assms(1), of ?es] assms(3) by (simp add: tree_dir_def plain_elem_def fp_clean_def render_append)
    then have "tree_dir w i = w @ CHR ''/'' # join_with CHR ''/'' ?es" using assms(2) by metis
    then show ?thesis by (simp add: below_def)
  qed
  ultimately show ?thesis by simp
qed

lemma isolated_dotdot_escapes_witness:
  "grant_dir ''/w'' ''..'' = ''/w'' \<and> below (grant_dir ''/w'' ''..'') (tree_dir ''/w'' ''a'')"
proof -
  have "''/w'' = fp_clean ''/w''" "''..'' \<notin> set (clean_elems ''/w'')" by code_simp+
  from isolated_dotdot_escapes [OF _ this(1) _ this(2), of "''a''"] show ?thesis by (auto simp: plain_elem_def)
qed

text \<open>
  \<open>Revoke\<close> gives the id back before it removes the directory. An \<open>Ensure\<close> of the same id in between
  has its fresh tree removed under it: a grant that runs, without a tree.
\<close>

definition sample_revoked :: iso_host where
  "sample_revoked = revoke_taken 0 (fst (revoke_turn ''a'' sample_running))"

definition sample_again :: iso_host where
  "sample_again = fst (ensure_reserve sample_grant None sample_revoked)"

definition sample_raced :: iso_host where
  "sample_raced = fst (revoke_finish ''a'' None (complete_ensure 1 (Some 1) None
     (fst (ienv_dial None None 1 (launched 1 sample_image False sample_again)))))"

lemmas sample_raced_defs = sample_raced_def sample_again_def sample_revoked_def revoke_finish_def revoke_taken_def
  revoke_turn_def ienv_revoke_def env_do_stop_def vm_stop_def set_vm_def remove_all_def sample_iso_defs

lemma revoke_ensure_race:
  "iso_run sample_iso sample_raced \<and> map_of (ih_grants sample_raced) ''a'' = Some 1 \<and>
   vm_running (ih_vms sample_raced ! 1) \<and> ih_trees sample_raced = []"
proof -
  have "istep sample_running (fst (revoke_turn ''a'' sample_running))" by (rule istep.turn)
  moreover have "istep (fst (revoke_turn ''a'' sample_running)) sample_revoked"
    unfolding sample_revoked_def by (rule istep.taken) (simp add: revoke_turn_def sample_iso_defs)
  moreover have "istep sample_revoked sample_again" unfolding sample_again_def by (rule istep.reserve)
  moreover have "istep sample_again (launched 1 sample_image False sample_again)"
    by (rule istep.launch) (simp_all add: sample_raced_defs)
  moreover have "istep (launched 1 sample_image False sample_again) (complete_ensure 1 (Some 1) None
      (fst (ienv_dial None None 1 (launched 1 sample_image False sample_again))))"
    by (rule istep.dialed [where ctx = None and conn = None]) (simp_all add: sample_raced_defs)
  moreover have "istep (complete_ensure 1 (Some 1) None
      (fst (ienv_dial None None 1 (launched 1 sample_image False sample_again)))) sample_raced"
    unfolding sample_raced_def by (rule istep.finish)
  ultimately have "iso_run sample_iso sample_raced"
    using sample_running_run by (meson rtranclp.rtrancl_into_rtrancl)
  moreover have "grant_dir ''/w'' ''a'' = ''/w/grants/a''" "tree_dir ''/w'' ''a'' = ''/w/grants/a/workspace''"
    by code_simp+
  then have "map_of (ih_grants sample_raced) ''a'' = Some 1 \<and> vm_running (ih_vms sample_raced ! 1) \<and>
      ih_trees sample_raced = []"
    by (simp add: sample_raced_defs below_def)
  ultimately show ?thesis by blast
qed

end
