(* ===== verification/Isolated_Process_Props.thy ===== *)
theory Isolated_Process_Props
  imports Isolated_Process Agent_Disk_Props Isolated_Props
begin

text \<open>
  That dialling the guest ends with its context, what the process of a machine has in common with the
  machine of theory Isolated_Host, what preparing the work directory removes, and where the edits of
  the guest's tree can reach.
\<close>

subsection \<open>Dialling ends\<close>

text \<open>A run of \<open>Connect\<close>: the attempts from \<open>n\<close> on that failed, and how the last one ended.\<close>

definition dialled :: "(nat \<Rightarrow> dial) \<Rightarrow> nat \<Rightarrow> nat \<times> nat \<times> unit res \<Rightarrow> bool" where
  "dialled ds n x \<longleftrightarrow>
     (case x of (k, t, r) \<Rightarrow> n < k \<and> (\<forall>j. n \<le> j \<and> j < k - 1 \<longrightarrow> (\<exists>e. dial_guest (ds j) = Some (Inl e))) \<and>
        (r = Inr () \<and> dial_guest (ds (k - 1)) = Some (Inr ()) \<or>
         r = Inl (Sent ErrUnavailable) \<and> (\<exists>e. dial_guest (ds (k - 1)) = Some (Inl e))))"

lemma dialled_later:
  "dialled ds (Suc n) x \<Longrightarrow> dial_guest (ds n) = Some (Inl e) \<Longrightarrow> dialled ds n x"
  by (auto simp: dialled_def less_Suc_eq_le) (metis Suc_leI le_eq_less_or_eq)+

lemma connect_bounded:
  assumes "\<And>k. dial_guest (ds k) \<noteq> None"
  shows "\<exists>k t' r. connect_from ds pick (Some T) n t = Some (k, t', r) \<and> dialled ds n (k, t', r) \<and>
    k \<le> n + (T - t) div 50 + 1 \<and> t' \<le> max t T + dl_time (ds (k - 1))"
proof (induction "T - t" arbitrary: n t rule: less_induct)
  case less
  let ?t1 = "t + dl_time (ds n)"
  show ?case
  proof (cases "dial_guest (ds n)")
    case None
    then show ?thesis using assms by simp
  next
    case (Some r)
    show ?thesis
    proof (cases r)
      case (Inr u)
      then show ?thesis using Some by (subst connect_from.simps) (auto simp: dialled_def)
    next
      case (Inl e)
      show ?thesis
      proof (cases "T < ?t1 + 50 \<or> T = ?t1 + 50 \<and> pick n")
        case True
        then show ?thesis using Some Inl by (subst connect_from.simps) (auto simp: dialled_def)
      next
        case False
        then have t: "?t1 + 50 \<le> T" by auto
        then have lt: "T - (?t1 + 50) < T - t" by simp
        obtain k t' r' where rec: "connect_from ds pick (Some T) (Suc n) (?t1 + 50) = Some (k, t', r')"
          "dialled ds (Suc n) (k, t', r')" "k \<le> Suc n + (T - (?t1 + 50)) div 50 + 1" "t' \<le> max (?t1 + 50) T + dl_time (ds (k - 1))"
          using less(1)[OF lt, of "Suc n"] by blast
        have "connect_from ds pick (Some T) n t = Some (k, t', r')"
          using Some Inl False rec(1) by (subst connect_from.simps) auto
        moreover have "(T - (?t1 + 50)) div 50 + 1 \<le> (T - t) div 50"
        proof -
          have "(T - (?t1 + 50)) div 50 + 1 = (T - (?t1 + 50) + 50) div 50" by simp
          also have "\<dots> \<le> (T - t) div 50" using t by (intro div_le_mono) simp
          finally show ?thesis .
        qed
        moreover have "dialled ds n (k, t', r')" using dialled_later[OF rec(2)] Some Inl by blast
        ultimately show ?thesis using rec(3,4) t by auto
      qed
    qed
  qed
qed

text \<open>
  C17. Dialling the guest ends. In a context that ends, \<open>Connect\<close> returns whenever every single attempt
  does: with the connection of the first attempt that the guest answered, or with \<open>ErrUnavailable\<close>
  after attempts that all failed; after at most one attempt for each 50 milliseconds the context had
  left and one more; and not later than its last attempt after the end of the context.
\<close>

theorem connect_returns:
  assumes "\<And>k. dial_guest (ds k) \<noteq> None"
  shows "\<exists>k t' r. connect_from ds pick (Some T) 0 t = Some (k, t', r) \<and> dialled ds 0 (k, t', r) \<and>
    k \<le> (T - t) div 50 + 1 \<and> t' \<le> max t T + dl_time (ds (k - 1))"
  using connect_bounded[where ds = ds and pick = pick and T = T and n = 0 and t = t, OF assms] by simp

definition sample_dials :: "nat \<Rightarrow> dial" where
  "sample_dials n = \<lparr>dl_connect = (if n < 2 then Some (Foreign ''refused'') else None), dl_write = None,
     dl_answer = Some (Inr (bytes_of_string (''OK'' @ [CHR 0x0A]))), dl_time = 3\<rparr>"

lemma connect_returns_witness:
  "\<exists>k t' r. connect_from sample_dials (\<lambda>_. True) (Some 1000) 0 0 = Some (k, t', r) \<and> dialled sample_dials 0 (k, t', r) \<and>
    k \<le> 21 \<and> t' \<le> 1003"
proof -
  have "dial_guest (sample_dials k) \<noteq> None" for k
    by (simp add: dial_guest_def sample_dials_def split: if_splits)
  from connect_returns[of sample_dials "\<lambda>_. True" 1000 0, OF this] show ?thesis by (simp add: sample_dials_def)
qed

text \<open>
  The premise is needed: no deadline is set on the connection, so a guest that accepts it and never
  answers keeps \<open>Connect\<close>, though its context has ended long ago.
\<close>

lemma silent_guest_blocks:
  assumes "dl_connect (ds n) = None" "dl_write (ds n) = None" "dl_answer (ds n) = None"
  shows "connect_from ds pick (Some T) n t = None"
  using assms by (subst connect_from.simps) (simp add: dial_guest_def)

text \<open>The host side of the link wants the bare line \<open>OK\<close>; an answer that names a port is refused.\<close>

lemma answer_with_port_refused:
  assumes "dl_connect d = None" "dl_write d = None" "dl_answer d = Some (Inr (bytes_of_string (''OK '' @ port)))"
  shows "dial_guest d = Some (Inl (Sent ErrUnavailable))"
  using assms by (simp add: dial_guest_def bytes_of_string_def)

subsection \<open>The machine and its process\<close>

text \<open>What theory Isolated_Host keeps of a machine.\<close>

definition vm_of :: "machine \<Rightarrow> vm" where
  "vm_of m = \<lparr>vm_running = mc_running m, vm_paused = mc_paused m, vm_attached = mc_cleanup m \<noteq> None\<rparr>"

text \<open>
  The process does what the host's table says: a started one is a running machine, attached when
  the request was; a signal that arrives pauses or resumes it, and \<open>Stop\<close> stops it, detaches it and
  closes its network exactly once, however often it is called.
\<close>

lemma process_refines_vm:
  "(process_start pf cfg uid gid digest ctx mk wr st req = Inr m \<longrightarrow>
      vm_of m = \<lparr>vm_running = True, vm_paused = False, vm_attached = sr_attach req \<noteq> None\<rparr> \<and>
      probe_platform pf (cfg\<lparr>ic_device := dev\<rparr>) = (if pf_opens pf (if dev = '''' then default_device else dev) then None else Some (Sent ErrUnavailable)) \<and>
      md_uds (mc_doc m) = guest_socket m) \<and>
   vm_of (fst (process_signal None p m)) = (vm_of m)\<lparr>vm_paused := p\<rparr> \<and>
   vm_of (fst (process_stop su m ns)) = (vm_of m)\<lparr>vm_running := False, vm_attached := False\<rparr> \<and>
   process_stop su (fst (process_stop su m ns)) ns' = (fst (process_stop su m ns), ns')"
proof (intro conjI impI)
  assume "process_start pf cfg uid gid digest ctx mk wr st req = Inr m"
  then have ok: "pf_linux pf" "\<not> isl (look_binary pf (ic_runtime cfg) default_runtime)"
      "\<not> isl (look_binary pf (ic_supervisor cfg) default_supervisor)"
    and m: "mc_running m" "\<not> mc_paused m" "mc_cleanup m = sr_attach req" "md_uds (mc_doc m) = guest_socket m"
    by (auto simp: process_start_def Let_def write_machine_config_def machine_document_def guest_socket_def
      split: option.splits sum.splits if_splits)
  show "vm_of m = \<lparr>vm_running = True, vm_paused = False, vm_attached = sr_attach req \<noteq> None\<rparr>"
    using m by (simp add: vm_of_def)
  show "probe_platform pf (cfg\<lparr>ic_device := dev\<rparr>) =
      (if pf_opens pf (if dev = '''' then default_device else dev) then None else Some (Sent ErrUnavailable))"
    using ok by (simp add: probe_platform_def Let_def)
  show "md_uds (mc_doc m) = guest_socket m" by (rule m(4))
qed (simp_all add: vm_of_def process_signal_def process_stop_def)

subsection \<open>What the calls leave alone\<close>

text \<open>What is there at the paths of \<open>P\<close> stays as it is.\<close>

definition stays :: "(fpath \<Rightarrow> bool) \<Rightarrow> files \<Rightarrow> files \<Rightarrow> bool" where
  "stays P s s' \<longleftrightarrow> (\<forall>q. P q \<longrightarrow> at s q \<noteq> None \<longrightarrow> at s' q = at s q)"

lemma stays_refl [simp]: "stays P s s"
  by (simp add: stays_def)

lemma stays_trans: "stays P a b \<Longrightarrow> stays P b c \<Longrightarrow> stays P a c"
  by (simp add: stays_def)

lemma stays_covers: "covers a b \<Longrightarrow> stays P a b"
  unfolding covers_def stays_def by metis

lemma stays_less: "stays P a b \<Longrightarrow> (\<And>q. Q q \<Longrightarrow> P q) \<Longrightarrow> stays Q a b"
  by (simp add: stays_def)

lemma stays_remove: "stays (\<lambda>q. \<not> is_below p q) s (drop_below p s)"
  by (simp add: stays_def)

lemma create_stays: "k_create p s = Some s' \<Longrightarrow> stays P s s'"
  by (auto simp: k_create_def k_write_def stays_def split: option.splits entry.splits if_splits)

lemma wf_k_create: "wf_files s \<Longrightarrow> k_create p s = Some s' \<Longrightarrow> wf_files s'"
  using wf_k_write by (auto simp: k_create_def split: option.splits entry.splits)

lemma mkdir_each_made:
  "mkdir_each io ps d = (d1, out) \<Longrightarrow> wf_files (ds_files d) \<Longrightarrow>
   (\<forall>q. q \<notin> set ps \<longrightarrow> at (ds_files d1) q = at (ds_files d) q) \<and> (out = None \<longrightarrow> (\<forall>p \<in> set ps. has_dir (ds_files d1) p))"
proof (induction ps arbitrary: d)
  case (Cons p ps)
  show ?case
  proof (cases "has_dir (ds_files d) p")
    case True
    then have r: "mkdir_each io ps d = (d1, out)" using Cons.prems(1) by simp
    have "covers (ds_files d) (ds_files d1)" using mkdir_each_covers[OF r Cons.prems(2)] by simp
    then have "has_dir (ds_files d1) p" using True unfolding has_dir_def covers_def by (metis option.distinct(1))
    then show ?thesis using Cons.IH[OF r Cons.prems(2)] by simp
  next
    case False
    obtain d2 o2 where m: "syscall io (k_mkdir p) d = (d2, o2)" by fastforce
    show ?thesis
    proof (cases o2)
      case (Some e)
      then show ?thesis using Cons.prems(1) False m syscall_cases[OF m] by auto
    next
      case None
      then have r: "mkdir_each io ps d2 = (d1, out)" using Cons.prems(1) False m by simp
      have k: "k_mkdir p (ds_files d) = Some (ds_files d2)" using syscall_cases[OF m] None by simp
      have e2: "ds_files d2 = put_entry p Dir (ds_files d)" using k by (auto simp: k_mkdir_def split: if_splits)
      have d2: "wf_files (ds_files d2)" "at (ds_files d2) p = Some Dir" "\<forall>q. q \<noteq> p \<longrightarrow> at (ds_files d2) q = at (ds_files d) q"
        using wf_k_mkdir[OF Cons.prems(2) k] by (simp_all add: e2)
      have "covers (ds_files d2) (ds_files d1)" using mkdir_each_covers[OF r d2(1)] by simp
      then have "has_dir (ds_files d1) p" using d2(2) unfolding has_dir_def covers_def by (metis option.distinct(1))
      then show ?thesis using Cons.IH[OF r d2(1)] d2(3) by simp
    qed
  qed
qed simp

lemma mkdir_all_made:
  assumes "mkdir_all io p d = (d1, out)" "wf_files (ds_files d)"
  shows "\<not> is_below q p \<Longrightarrow> at (ds_files d1) q = at (ds_files d) q" "out = None \<Longrightarrow> has_dir (ds_files d1) p"
proof -
  note m = mkdir_each_made[OF assms(1)[unfolded mkdir_all_def] assms(2)]
  show "at (ds_files d1) q = at (ds_files d) q" if "\<not> is_below q p"
  proof -
    have "q \<in> set (map (\<lambda>k. take k p) [1..<Suc (length p)]) \<Longrightarrow> is_below q p" by (auto simp: is_below_def min_def)
    then show ?thesis using m that by blast
  qed
  show "has_dir (ds_files d1) p" if "out = None"
  proof (cases "p = []")
    case False
    then have "p \<in> set (map (\<lambda>k. take k p) [1..<Suc (length p)])" by (cases p) (auto intro: image_eqI[of _ _ "length p"])
    then show ?thesis using m that by blast
  qed (simp add: has_dir_def)
qed

subsection \<open>The work directory\<close>

text \<open>
  A host takes its work directory over only when no other one holds it. While another process
  has the lock, preparing it fails and changes nothing that is there; at any time it changes nothing
  outside \<open>grants\<close>; and when it succeeds \<open>grants\<close> is a directory with nothing in it, so no file of
  an earlier grant reaches a new one.
\<close>

lemma work_dir_exclusive:
  assumes "prepare_work_dir io held work_dir d = (d1, r)" "wf_files (ds_files d)"
  shows "(held \<longrightarrow> isl r \<and> stays (\<lambda>_. True) (ds_files d) (ds_files d1)) \<and>
    stays (\<lambda>q. \<not> is_below (clean_elems work_dir @ [''grants'']) q) (ds_files d) (ds_files d1) \<and>
    (r = Inr () \<longrightarrow> (\<forall>q. at (ds_files d1) (clean_elems work_dir @ ''grants'' # q) = (if q = [] then Some Dir else None)))"
proof -
  define w where "w = clean_elems work_dir"
  define g where "g = w @ [''grants'']"
  note def = assms(1)[unfolded prepare_work_dir_def Let_def w_def[symmetric] g_def[symmetric]]
  obtain e1 o1 where m1: "mkdir_all io w d = (e1, o1)" by fastforce
  have c1: "wf_files (ds_files e1)" "stays P (ds_files d) (ds_files e1)" for P
    using mkdir_all_covers[OF m1 assms(2)] stays_covers by blast+
  obtain e2 o2 where m2: "syscall io (k_create (w @ [''.lock''])) e1 = (e2, o2)" by fastforce
  have c2: "wf_files (ds_files e2)" "stays P (ds_files e1) (ds_files e2)" for P
    using syscall_cases[OF m2] wf_k_create[OF c1(1)] create_stays c1(1) by auto
  obtain e3 o3 where m3: "syscall io (\<lambda>fs. if held then None else Some fs) e2 = (e3, o3)" by fastforce
  have c3: "ds_files e3 = ds_files e2" "held \<Longrightarrow> o3 \<noteq> None" using syscall_cases[OF m3] by (auto split: if_splits)
  obtain e4 o4 where m4: "syscall io (k_remove_all g) e3 = (e4, o4)" by fastforce
  have c4: "ds_files e4 = ds_files e3 \<or> o4 = None \<and> ds_files e4 = drop_below g (ds_files e3)"
    using syscall_cases[OF m4] by (auto simp: k_remove_all_def)
  have wf4: "wf_files (ds_files e4)" using c4 c3(1) c2(1) wf_drop[of _ g] by (auto simp: g_def)
  obtain e5 o5 where m5: "mkdir_all io g e4 = (e5, o5)" by fastforce
  have c5: "stays P (ds_files e4) (ds_files e5)" for P using mkdir_all_covers[OF m5 wf4] stays_covers by blast
  have upto3: "stays P (ds_files d) (ds_files e3)" for P using c1(2) c2(2) c3(1) stays_trans by metis
  let ?out = "\<lambda>q. \<not> is_below g q"
  have upto4: "stays ?out (ds_files d) (ds_files e4)"
    using c4 upto3[of ?out] stays_remove[of g "ds_files e3"] stays_trans[of ?out] by metis
  have ends: "d1 \<in> {e1, e2, e3} \<and> isl r \<or> o3 = None \<and> (d1 = e4 \<and> isl r \<or> d1 = e5 \<and> (r = Inr () \<longrightarrow> o4 = None \<and> o5 = None))"
    using def m1 m2 m3 m4 m5 by (auto split: option.splits)
  have "held \<longrightarrow> isl r \<and> stays (\<lambda>_. True) (ds_files d) (ds_files d1)"
    using ends c3(2) c1(2) stays_trans[OF c1(2) c2(2)] upto3 by auto
  moreover have "stays ?out (ds_files d) (ds_files d1)"
    using ends c1(2) stays_trans[OF c1(2) c2(2)] upto3 upto4 stays_trans[OF upto4 c5] by auto
  moreover have "at (ds_files d1) (g @ q) = (if q = [] then Some Dir else None)" if "r = Inr ()" for q
  proof -
    have o: "d1 = e5" "o4 = None" "o5 = None" using ends that by auto
    then have "ds_files e4 = drop_below g (ds_files e3)" using syscall_cases[OF m4] by (auto simp: k_remove_all_def)
    then have none: "at (ds_files e4) (g @ q) = None" by simp
    show ?thesis
    proof (cases "q = []")
      case True
      then show ?thesis using mkdir_all_made(2)[OF m5 wf4] o by (auto simp: has_dir_def g_def)
    next
      case False
      then have "\<not> is_below (g @ q) g" by (simp add: is_below_def)
      then show ?thesis using mkdir_all_made(1)[OF m5 wf4] o none False by simp
    qed
  qed
  ultimately show ?thesis by (simp add: g_def w_def)
qed

subsection \<open>The guest's edits\<close>

datatype guest_edit = GuestWrite string bytes | GuestRemove string | GuestMove string string

fun iso_guest :: "io \<Rightarrow> go_error option \<Rightarrow> grant_id \<Rightarrow> guest_edit \<Rightarrow> iso_host \<Rightarrow> Agent_Disk.disk \<Rightarrow> Agent_Disk.disk \<times> unit res" where
  "iso_guest io ctx i (GuestWrite p data) h d = iso_write_guest io ctx i p data h d"
| "iso_guest io ctx i (GuestRemove p) h d = iso_remove_guest io ctx i p h d"
| "iso_guest io ctx i (GuestMove a b) h d = iso_move_guest io ctx i a b h d"

text \<open>Nothing changes but what is below \<open>home\<close>, and \<open>home\<close> itself does not.\<close>

definition inside :: "fpath \<Rightarrow> files \<Rightarrow> files \<Rightarrow> bool" where
  "inside home s s' \<longleftrightarrow> (\<forall>q. \<not> (is_below home q \<and> q \<noteq> home) \<longrightarrow> at s' q = at s q)"

lemma inside_refl [simp]: "inside home s s"
  by (simp add: inside_def)

lemma inside_trans: "inside home a b \<Longrightarrow> inside home b c \<Longrightarrow> inside home a c"
  by (simp add: inside_def)

lemma inside_home: "inside home a b \<Longrightarrow> at b home = at a home"
  by (simp add: inside_def)

lemma mkdir_all_inside:
  assumes "mkdir_all io (home @ t) d = (d1, out)" "wf_files (ds_files d)" "at (ds_files d) home = Some Dir"
  shows "inside home (ds_files d) (ds_files d1) \<and> wf_files (ds_files d1)"
proof -
  have c: "covers (ds_files d) (ds_files d1)" "wf_files (ds_files d1)" using mkdir_all_covers[OF assms(1,2)] by auto
  have "at (ds_files d1) q = at (ds_files d) q" if q: "\<not> (is_below home q \<and> q \<noteq> home)" for q
  proof (cases "is_below q (home @ t)")
    case True
    then have "is_below q home" using q by (auto simp: is_below_ex append_eq_append_conv2)
    then obtain u where u: "home = q @ u" by (auto simp: is_below_ex)
    show ?thesis
    proof (cases "q = []")
      case True
      then show ?thesis using assms(2) c(2) unfolding wf_files_def by (metis not_Some_eq)
    next
      case False
      then have "at (ds_files d) q = Some Dir"
        using wf_above[OF assms(2), of q u] assms(3) u by (cases "u = []") (auto simp: has_dir_def)
      then show ?thesis using c(1) unfolding covers_def by (metis option.distinct(1))
    qed
  qed (rule mkdir_all_made(1)[OF assms(1,2)])
  with c(2) show ?thesis by (simp add: inside_def)
qed

lemma sys_write_at:
  assumes "sys_write io p b d = (d1, out)"
  shows "q \<noteq> p \<Longrightarrow> at (ds_files d1) q = at (ds_files d) q" "out = None \<Longrightarrow> at (ds_files d1) p = Some (File b)"
  using assms by (auto simp: sys_write_def syscall_def k_write_def Let_def split: option.splits if_splits)

lemma rename_look:
  assumes "wf_files fs" "k_rename a b fs = Some fs'" "a \<noteq> b"
  shows "\<not> is_below a b" "\<not> is_below b a"
    and "at fs' q = (if is_below b q then at fs (a @ drop (length b) q) else if is_below a q then None else at fs q)"
proof -
  define fs0 where "fs0 = (if at fs b = None then fs else drop_below b fs)"
  have c: "b \<noteq> []" "\<not> is_below a b" "\<not> is_below b a" and fs': "fs' = move_below a b fs0"
    using assms(2,3) by (auto simp: k_rename_def fs0_def split: if_splits option.splits entry.splits)
  have none: "is_below b q \<Longrightarrow> at fs0 q = None" for q
    using wf_nothing_below[OF assms(1) _ c(1)] by (auto simp: fs0_def)
  have "\<not> is_below b (a @ t)" for t using c(2,3) by (auto simp: is_below_ex append_eq_append_conv2)
  then have "at fs0 (a @ t) = at fs (a @ t)" for t by (simp add: fs0_def)
  moreover have "\<not> is_below b q \<Longrightarrow> at fs0 q = at fs q" for q by (simp add: fs0_def)
  ultimately show "at fs' q = (if is_below b q then at fs (a @ drop (length b) q) else if is_below a q then None else at fs q)"
    using at_move[OF c(2,3) none, where q = q] unfolding fs' by simp
  show "\<not> is_below a b" "\<not> is_below b a" by (rule c)+
qed

lemma rename_inside:
  assumes "syscall io (k_rename (home @ a) (home @ b)) d = (d1, out)" "wf_files (ds_files d)" "a \<noteq> []" "b \<noteq> []"
  shows "inside home (ds_files d) (ds_files d1)"
proof (cases "out = None \<and> a \<noteq> b")
  case True
  then have k: "k_rename (home @ a) (home @ b) (ds_files d) = Some (ds_files d1)" using syscall_cases[OF assms(1)] by simp
  have "is_below home q \<and> q \<noteq> home" if "is_below (home @ t) q" "t \<noteq> []" for q t
    using that by (auto simp: is_below_ex)
  then show ?thesis using rename_look(3)[OF assms(2) k] True assms(3,4) unfolding inside_def by (metis append_same_eq same_append_eq)
next
  case False
  then show ?thesis using syscall_cases[OF assms(1)] by (auto simp: k_rename_def split: if_splits)
qed

lemma syscall_same: "syscall io (k_lstat p) d = (d1, out) \<Longrightarrow> ds_files d1 = ds_files d"
  using syscall_cases[of io "k_lstat p" d d1 out] by (auto simp: k_lstat_def split: if_splits)

lemma path_on_disk:
  assumes "disk_path home p = Inr full"
  shows "full = clean_elems home @ split_on CHR ''/'' p" "butlast full = clean_elems home @ butlast (split_on CHR ''/'' p)"
    "full \<noteq> []" "\<not> is_below full (butlast full)" "full \<noteq> clean_elems home" "is_below (clean_elems home) full"
proof -
  show f: "full = clean_elems home @ split_on CHR ''/'' p" using assms by (auto simp: disk_path_eq split: if_splits)
  then show "butlast full = clean_elems home @ butlast (split_on CHR ''/'' p)" "full \<noteq> []" "full \<noteq> clean_elems home"
    "is_below (clean_elems home) full" by (simp_all add: butlast_append)
  then show "\<not> is_below full (butlast full)" using not_below_butlast by blast
qed

text \<open>What a guest's edit does to the disk: nothing outside the tree, and, when it succeeds, what it is for.\<close>

definition edit_done :: "fpath \<Rightarrow> guest_edit \<Rightarrow> files \<Rightarrow> files \<Rightarrow> bool" where
  "edit_done home ed s s' \<longleftrightarrow>
     (case ed of
        GuestWrite p data \<Rightarrow>
          at s' (home @ split_on CHR ''/'' p) = Some (File data) \<and> stays (\<lambda>q. q \<noteq> home @ split_on CHR ''/'' p) s s'
      | GuestRemove p \<Rightarrow> (\<forall>q. at s' q = (if is_below (home @ split_on CHR ''/'' p) q then None else at s q))
      | GuestMove a b \<Rightarrow>
          a \<noteq> b \<longrightarrow>
          (\<forall>q. at s' (home @ split_on CHR ''/'' b @ q) = at s (home @ split_on CHR ''/'' a @ q) \<and>
             at s' (home @ split_on CHR ''/'' a @ q) = None) \<and>
          stays (\<lambda>q. \<not> is_below (home @ split_on CHR ''/'' a) q \<and> \<not> is_below (home @ split_on CHR ''/'' b) q) s s')"

lemma write_guest_edit:
  assumes "ienv_write_guest io e p data d = (d1, r)" "wf_files (ds_files d)" "at (ds_files d) (clean_elems (ie_tree_dir e)) = Some Dir"
  shows "inside (clean_elems (ie_tree_dir e)) (ds_files d) (ds_files d1) \<and>
    (r = Inr () \<longrightarrow> edit_done (clean_elems (ie_tree_dir e)) (GuestWrite p data) (ds_files d) (ds_files d1))"
proof (cases "ienv_guard ''guest'' e = None \<and> \<not> isl (disk_path (ie_tree_dir e) p)")
  case False
  then have "d1 = d" "isl r" using assms(1) by (auto simp: ienv_write_guest_def guest_error_def split: option.splits sum.splits)
  then show ?thesis by auto
next
  case True
  then obtain full where full: "disk_path (ie_tree_dir e) p = Inr full" by (cases "disk_path (ie_tree_dir e) p") auto
  note f = path_on_disk[OF full]
  obtain e1 o1 where m: "mkdir_all io (butlast full) d = (e1, o1)" by fastforce
  obtain e2 o2 where w: "sys_write io full data e1 = (e2, o2)" by fastforce
  have i1: "inside (clean_elems (ie_tree_dir e)) (ds_files d) (ds_files e1)"
    using mkdir_all_inside[OF m[unfolded f(2)] assms(2,3)] by simp
  have i2: "inside (clean_elems (ie_tree_dir e)) (ds_files e1) (ds_files e2)"
    using sys_write_at(1)[OF w] f(5,6) unfolding inside_def by metis
  have c1: "stays P (ds_files d) (ds_files e1)" for P
    using mkdir_all_covers[OF m assms(2)] stays_covers by blast
  have "stays (\<lambda>q. q \<noteq> full) (ds_files e1) (ds_files e2)"
    using sys_write_at(1)[OF w] by (simp add: stays_def)
  note c2 = stays_trans[OF c1 this]
  have res: "d1 = e1 \<and> isl r \<or> d1 = e2 \<and> (r = Inr () \<longrightarrow> o2 = None)"
    using assms(1) True full m w by (auto simp: ienv_write_guest_def guest_error_def split: option.splits)
  then have "inside (clean_elems (ie_tree_dir e)) (ds_files d) (ds_files d1)" using i1 inside_trans[OF i1 i2] by auto
  moreover have "at (ds_files d1) full = Some (File data) \<and> stays (\<lambda>q. q \<noteq> full) (ds_files d) (ds_files d1)" if "r = Inr ()"
    using res that c2 sys_write_at(2)[OF w] by auto
  ultimately show ?thesis by (simp add: edit_done_def f(1))
qed

lemma remove_guest_edit:
  assumes "ienv_remove_guest io e p d = (d1, r)"
  shows "inside (clean_elems (ie_tree_dir e)) (ds_files d) (ds_files d1) \<and>
    (r = Inr () \<longrightarrow> edit_done (clean_elems (ie_tree_dir e)) (GuestRemove p) (ds_files d) (ds_files d1))"
proof (cases "ienv_guard ''guest'' e = None \<and> \<not> isl (disk_path (ie_tree_dir e) p)")
  case False
  then have "d1 = d" "isl r" using assms(1) by (auto simp: ienv_remove_guest_def guest_error_def split: option.splits sum.splits)
  then show ?thesis by auto
next
  case True
  then obtain full where full: "disk_path (ie_tree_dir e) p = Inr full" by (cases "disk_path (ie_tree_dir e) p") auto
  note f = path_on_disk[OF full]
  obtain e1 o1 where l: "syscall io (k_lstat full) d = (e1, o1)" by fastforce
  obtain e2 o2 where k: "syscall io (k_remove_all full) e1 = (e2, o2)" by fastforce
  have same: "ds_files e1 = ds_files d" by (rule syscall_same[OF l])
  have rm: "ds_files e2 = ds_files d \<or> o2 = None \<and> ds_files e2 = drop_below full (ds_files d)"
    using syscall_cases[OF k] same by (auto simp: k_remove_all_def)
  have gone: "o2 = None \<Longrightarrow> ds_files e2 = drop_below full (ds_files d)"
    using syscall_cases[OF k] same by (auto simp: k_remove_all_def)
  have "is_below (clean_elems (ie_tree_dir e)) q \<and> q \<noteq> clean_elems (ie_tree_dir e)" if "is_below full q" for q
    using that f(1) by (auto simp: is_below_ex)
  then have i2: "inside (clean_elems (ie_tree_dir e)) (ds_files d) (ds_files e2)" using rm unfolding inside_def by (metis at_drop)
  have res: "d1 = e1 \<and> isl r \<or> d1 = e2 \<and> (r = Inr () \<longrightarrow> o2 = None)"
    using assms(1) True full l k by (auto simp: ienv_remove_guest_def guest_error_def split: option.splits if_splits)
  then have "inside (clean_elems (ie_tree_dir e)) (ds_files d) (ds_files d1)" using i2 same by auto
  moreover have "ds_files d1 = drop_below full (ds_files d)" if "r = Inr ()" using res that gone by auto
  ultimately show ?thesis by (auto simp: edit_done_def f(1))
qed

lemma moved_files:
  assumes "syscall io (k_rename src dst) e3 = (e4, None)" "wf_files (ds_files e3)" "src \<noteq> dst"
    and "\<And>q. \<not> is_below q (butlast dst) \<Longrightarrow> at (ds_files e3) q = at s q" "stays (\<lambda>q. True) s (ds_files e3)"
  shows "(\<forall>q. at (ds_files e4) (dst @ q) = at s (src @ q) \<and> at (ds_files e4) (src @ q) = None) \<and>
    stays (\<lambda>q. \<not> is_below src q \<and> \<not> is_below dst q) s (ds_files e4)"
proof -
  have k: "k_rename src dst (ds_files e3) = Some (ds_files e4)" using syscall_cases[OF assms(1)] by simp
  note look = rename_look[OF assms(2) k assms(3)]
  have src: "at (ds_files e3) (src @ q) = at s (src @ q)" for q
  proof (rule assms(4))
    have "is_below src dst" if "is_below (src @ q) (butlast dst)"
      using butlast_below[OF that] by (auto simp: is_below_ex)
    then show "\<not> is_below (src @ q) (butlast dst)" using look(1) by blast
  qed
  have nb: "\<not> is_below dst (src @ q)" for q using look(1,2) by (auto simp: is_below_ex append_eq_append_conv2)
  have "at (ds_files e4) (dst @ q) = at s (src @ q) \<and> at (ds_files e4) (src @ q) = None" for q
    using look(3)[of "dst @ q"] look(3)[of "src @ q"] nb src by simp
  moreover have "stays (\<lambda>q. \<not> is_below src q \<and> \<not> is_below dst q) s (ds_files e4)"
    using look(3) assms(5) by (simp add: stays_def)
  ultimately show ?thesis by blast
qed

lemma move_guest_edit:
  assumes "ienv_move_guest io e a b d = (d1, r)" "wf_files (ds_files d)" "at (ds_files d) (clean_elems (ie_tree_dir e)) = Some Dir"
  shows "inside (clean_elems (ie_tree_dir e)) (ds_files d) (ds_files d1) \<and>
    (r = Inr () \<longrightarrow> edit_done (clean_elems (ie_tree_dir e)) (GuestMove a b) (ds_files d) (ds_files d1))"
proof (cases "ienv_guard ''guest'' e = None \<and> \<not> isl (disk_path (ie_tree_dir e) a) \<and> \<not> isl (disk_path (ie_tree_dir e) b)")
  case False
  then have "d1 = d" "isl r" using assms(1) by (auto simp: ienv_move_guest_def guest_error_def split: option.splits sum.splits)
  then show ?thesis by auto
next
  case True
  then obtain src dst where sd: "disk_path (ie_tree_dir e) a = Inr src" "disk_path (ie_tree_dir e) b = Inr dst"
    by (cases "disk_path (ie_tree_dir e) a"; cases "disk_path (ie_tree_dir e) b") auto
  note fa = path_on_disk[OF sd(1)] and fb = path_on_disk[OF sd(2)]
  define home where "home = clean_elems (ie_tree_dir e)"
  obtain e1 o1 where l1: "syscall io (k_lstat src) d = (e1, o1)" by fastforce
  obtain e2 o2 where l2: "syscall io (k_lstat dst) e1 = (e2, o2)" by fastforce
  obtain e3 o3 where m: "mkdir_all io (butlast dst) e2 = (e3, o3)" by fastforce
  obtain e4 o4 where k: "syscall io (k_rename src dst) e3 = (e4, o4)" by fastforce
  have same: "ds_files e1 = ds_files d" "ds_files e2 = ds_files d" using syscall_same[OF l1] syscall_same[OF l2] by simp_all
  have wf2: "wf_files (ds_files e2)" using assms(2) same by simp
  have i3: "inside home (ds_files d) (ds_files e3)" "wf_files (ds_files e3)"
    using mkdir_all_inside[OF m[unfolded fb(2)] wf2] assms(3) same by (simp_all add: home_def)
  have i4: "inside home (ds_files e3) (ds_files e4)"
    using rename_inside[OF k[unfolded fa(1) fb(1)] i3(2)] by (simp add: home_def)
  have res: "(d1 = e1 \<or> d1 = e2 \<or> d1 = e3) \<and> isl r \<or> d1 = e4 \<and> (r = Inr () \<longrightarrow> o4 = None)"
    using assms(1) True sd l1 l2 m k by (auto simp: ienv_move_guest_def guest_error_def split: option.splits if_splits)
  then have "inside home (ds_files d) (ds_files d1)" using i3(1) inside_trans[OF i3(1) i4] same by auto
  moreover have "edit_done home (GuestMove a b) (ds_files d) (ds_files d1)" if "r = Inr ()"
  proof -
    have o: "d1 = e4" "o4 = None" using res that by auto
    have "src \<noteq> dst" if "a \<noteq> b" using that fa(1) fb(1) join_split_on by (metis same_append_eq)
    moreover have "at (ds_files e3) q = at (ds_files d) q" if "\<not> is_below q (butlast dst)" for q
      using mkdir_all_made(1)[OF m wf2 that] same by simp
    moreover have "stays (\<lambda>q. True) (ds_files d) (ds_files e3)" using mkdir_all_covers[OF m wf2] stays_covers same by metis
    ultimately show ?thesis
      using moved_files[of io src dst e3 e4 "ds_files d"] k i3(2) o fa(1) fb(1) by (simp add: edit_done_def home_def)
  qed
  ultimately show ?thesis by (simp add: home_def)
qed


definition sample_guest_host :: iso_host where
  "sample_guest_host = sample_iso\<lparr>ih_grants := [(''a'', 0)], ih_envs := [\<lparr>ie_id = ''a'', ie_image = sample_image,
     ie_network = NetworkNone, ie_inst = None, ie_client = True, ie_tree_dir = ''/h'', ie_frozen = False, ie_revoked = False\<rparr>]\<rparr>"

lemma sample_home_wf: "wf_files (ds_files sample_home)"
  by (auto simp: wf_files_def sample_home_def has_dir_def split: if_splits)

lemma sample_tree: "clean_elems ''/h'' = [''h'']" "split_on CHR ''/'' ''d/y'' = [''d'', ''y'']"
  by code_simp+


lemma work_dir_exclusive_witness:
  "\<exists>d1 r. prepare_work_dir (steady_io '''' (\<lambda>_. False)) True ''/h'' sample_home = (d1, r) \<and> isl r \<and>
    at (ds_files d1) [''h'', ''g''] = Some (File [2])"
proof -
  obtain d1 r where run: "prepare_work_dir (steady_io '''' (\<lambda>_. False)) True ''/h'' sample_home = (d1, r)" by fastforce
  have "at (ds_files sample_home) [''h'', ''g''] = Some (File [2])" by (simp add: sample_home_def)
  with work_dir_exclusive[OF run sample_home_wf] run show ?thesis by (simp add: stays_def)
qed

end
