(* ===== verification/Isolated_Launch.thy ===== *)
theory Isolated_Launch
  imports Isolated_Process_Props Network_Props
begin

text \<open>
  The launching half of \<open>Ensure\<close> (\<open>isolated/isolated.go\<close>), from the reservation to the completed call,
  composed of the network set-up, the start of the process and the dialling of the guest, when no
  other call comes between its sections; and what a launch that fails leaves behind.
\<close>

subsection \<open>The composition\<close>

text \<open>What the launch meets: the network's commands, the platform, the errors of the calls of \<open>Start\<close>, its context at both checks, and the attempts to dial.\<close>

record launch_world =
  lw_su :: surroundings
  lw_digest :: uint32
  lw_platform :: platform
  lw_config :: iso_config
  lw_uid :: string
  lw_gid :: string
  lw_start_ctx :: "go_error option"
  lw_mkdir :: "go_error option"
  lw_write :: "go_error option"
  lw_start :: "go_error option"
  lw_dial_ctx :: "go_error option"
  lw_dials :: "nat \<Rightarrow> dial"
  lw_pick :: "nat \<Rightarrow> bool"
  lw_ends :: "nat option"

definition launch_attach :: "launch_world \<Rightarrow> spec \<Rightarrow> iso_host \<Rightarrow> net_state \<Rightarrow> net_state \<times> net_attach option res" where
  "launch_attach w sp h st =
     (if spec_network sp = NetworkAllowlist
      then (case setup_allowlist (lw_su w) (lw_digest w) (ih_allow h) st of
              (st1, Inl e) \<Rightarrow> (st1, Inl e) | (st1, Inr a) \<Rightarrow> (st1, Inr (Some a)))
      else (st, Inr None))"

definition launch_request :: "launch_world \<Rightarrow> spec \<Rightarrow> iso_image \<Rightarrow> net_attach option \<Rightarrow> iso_host \<Rightarrow> start_request" where
  "launch_request w sp img att h =
     \<lparr>sr_id = spec_id sp, sr_kernel = im_kernel img, sr_rootfs = im_rootfs img, sr_tree_dir = tree_dir (ih_work_dir h) (spec_id sp),
      sr_attach = att, sr_memory = ic_memory_bytes (lw_config w), sr_cpu = ic_cpu_millis (lw_config w)\<rparr>"

definition close_if :: "surroundings \<Rightarrow> net_attach option \<Rightarrow> net_state \<Rightarrow> net_state" where
  "close_if su att st = (case att of None \<Rightarrow> st | Some a \<Rightarrow> close_attach su a st)"

text \<open>\<open>completeEnsure\<close> with an error, and the removal of the directory.\<close>

definition launch_failed :: "nat \<Rightarrow> go_error \<Rightarrow> iso_host \<Rightarrow> iso_host" where
  "launch_failed c e h = ensure_cleanup c (complete_ensure c None (Some (OpError ''ensure'' e)) h)"

text \<open>What \<open>inst.Connect\<close> returns: \<open>None\<close> when it does not return, otherwise its error.\<close>

definition launch_connect :: "launch_world \<Rightarrow> go_error option option" where
  "launch_connect w =
     (if lw_dial_ctx w \<noteq> None then Some None
      else (case connect_from (lw_dials w) (lw_pick w) (lw_ends w) 0 0 of
              None \<Rightarrow> None
            | Some (_, _, r) \<Rightarrow> Some (case r of Inl e \<Rightarrow> Some e | Inr _ \<Rightarrow> None)))"

definition ensure_launch :: "launch_world \<Rightarrow> nat \<Rightarrow> iso_image \<Rightarrow> iso_host \<Rightarrow> net_state \<Rightarrow>
    (iso_host \<times> net_state \<times> machine option \<times> nat res) option" where
  "ensure_launch w c img h st =
     (let sp = ec_spec (ih_calls h ! c); su = lw_su w in
      case launch_attach w sp h st of
        (st1, Inl e) \<Rightarrow> Some (launch_failed c e h, st1, None, Inl (OpError ''ensure'' e))
      | (st1, Inr att) \<Rightarrow>
          (case process_start (lw_platform w) (lw_config w) (lw_uid w) (lw_gid w) (lw_digest w) (lw_start_ctx w)
                  (lw_mkdir w) (lw_write w) (lw_start w) (launch_request w sp img att h) of
             Inl e \<Rightarrow> Some (launch_failed c e h, close_if su att st1, None, Inl (OpError ''ensure'' e))
           | Inr m \<Rightarrow>
               (let h1 = launched c img (att \<noteq> None) h; r = length (ih_envs h) in
                case launch_connect w of
                  None \<Rightarrow> None
                | Some conn \<Rightarrow>
                    (case ienv_dial (lw_dial_ctx w) conn r h1 of
                       (h2, Inl e) \<Rightarrow>
                         (case process_stop su m st1 of (m', st2) \<Rightarrow>
                            Some (launch_failed c e (ienv_revoke r h2), st2, Some m', Inl (OpError ''ensure'' e)))
                     | (h2, Inr _) \<Rightarrow> Some (complete_ensure c (Some r) None h2, st1, Some m, Inr r)))))"

subsection \<open>The network\<close>

text \<open>Nobody else runs commands, at most one of them breaks, and none does once the set-up has succeeded.\<close>

definition careful :: "launch_world \<Rightarrow> iso_host \<Rightarrow> net_state \<Rightarrow> bool" where
  "careful w h st \<longleftrightarrow> alone (lw_su w) \<and> fresh_net (plan_attach (lw_digest w) []) st \<and>
     (\<forall>st1 a. setup_allowlist (lw_su w) (lw_digest w) (ih_allow h) st = (st1, Inr a) \<longrightarrow> spent (lw_su w) st1)"

lemma attach_restores:
  assumes "careful w h st" "launch_attach w sp h st = (st1, r)"
  shows "case r of Inl e \<Rightarrow> st1\<lparr>nt_clock := nt_clock st\<rparr> = st | Inr att \<Rightarrow> (close_if (lw_su w) att st1)\<lparr>nt_clock := nt_clock st\<rparr> = st"
proof (cases "spec_network sp = NetworkAllowlist")
  case False
  then show ?thesis using assms(2) by (auto simp: launch_attach_def close_if_def)
next
  case True
  obtain s out where su: "setup_allowlist (lw_su w) (lw_digest w) (ih_allow h) st = (s, out)" by fastforce
  have c: "alone (lw_su w)" "fresh_net (plan_attach (lw_digest w) []) st" using assms(1) by (simp_all add: careful_def)
  from setup_restores[OF c su] show ?thesis
    using True assms su by (cases out) (auto simp: launch_attach_def close_if_def careful_def)
qed

lemma stop_closes: "process_stop su m st = (m', st') \<Longrightarrow> st' = close_if su (mc_cleanup m) st \<and> \<not> mc_running m' \<and> mc_cleanup m' = None"
  by (auto simp: process_stop_def close_if_def)

lemma start_cleanup: "process_start pf cfg uid gid digest ctx mk wr st req = Inr m \<Longrightarrow>
    mc_cleanup m = sr_attach req \<and> vm_of m = \<lparr>vm_running = True, vm_paused = False, vm_attached = sr_attach req \<noteq> None\<rparr>"
  by (auto simp: process_start_def vm_of_def Let_def split: option.splits sum.splits if_splits)

subsection \<open>The tables\<close>

lemma failed_tables:
  "ih_grants (launch_failed c e h) = ih_grants h" "ih_vms (launch_failed c e h) = ih_vms h"
  "ih_pending (launch_failed c e h) = filter (\<lambda>p. fst p \<noteq> spec_id (ec_spec (ih_calls h ! c))) (ih_pending h)"
  by (simp_all add: launch_failed_def ensure_cleanup_def complete_ensure_def remove_all_def set_ecall_def Let_def)

lemma not_pending: "map_of (filter (\<lambda>p. fst p \<noteq> i) ps) i = None"
  by (auto simp: map_of_eq_None_iff)

lemma launched_tables:
  assumes "h1 = launched c img att h"
  shows "ih_envs h1 ! length (ih_envs h) = \<lparr>ie_id = spec_id (ec_spec (ih_calls h ! c)), ie_image = img,
      ie_network = spec_network (ec_spec (ih_calls h ! c)), ie_inst = Some (length (ih_vms h)), ie_client = False,
      ie_tree_dir = tree_dir (ih_work_dir h) (spec_id (ec_spec (ih_calls h ! c))), ie_frozen = False, ie_revoked = False\<rparr>"
    "ih_vms h1 = ih_vms h @ [\<lparr>vm_running = True, vm_paused = False, vm_attached = att\<rparr>]"
    "ih_grants h1 = ih_grants h" "ih_pending h1 = ih_pending h"
    "c < length (ih_calls h) \<Longrightarrow> ec_spec (ih_calls h1 ! c) = ec_spec (ih_calls h ! c)"
  by (simp_all add: assms launched_def Let_def)

lemma revoke_launched:
  assumes "h1 = launched c img att h"
  shows "ih_vms (ienv_revoke (length (ih_envs h)) h1) = ih_vms h @ [\<lparr>vm_running = False, vm_paused = False, vm_attached = False\<rparr>]"
    "ih_grants (ienv_revoke (length (ih_envs h)) h1) = ih_grants h" "ih_pending (ienv_revoke (length (ih_envs h)) h1) = ih_pending h"
    "ih_calls (ienv_revoke (length (ih_envs h)) h1) = ih_calls h1"
  by (simp_all add: ienv_revoke_def env_do_stop_def vm_stop_def set_vm_def set_ienv_def launched_tables[OF assms] Let_def)

lemma dial_launched:
  assumes "h1 = launched c img att h" "ienv_dial ctx conn (length (ih_envs h)) h1 = (h2, r)"
  shows "isl r \<Longrightarrow> h2 = h1" "ih_vms h2 = ih_vms h1" "ih_grants h2 = ih_grants h" "ih_pending h2 = ih_pending h" "ih_calls h2 = ih_calls h1"
    "\<not> isl r \<Longrightarrow> ctx = None \<and> conn = None"
  using assms(2) launched_tables[OF assms(1)]
  by (auto simp: ienv_dial_def set_ienv_def Let_def split: option.splits if_splits)

text \<open>The launch from the moment the machine runs: the guest answers, or the machine is stopped again.\<close>

lemma launch_dialled:
  assumes "careful w h st" "c < length (ih_calls h)" "ensure_launch w c img h st = Some (h', st', m, r)"
    and a: "launch_attach w (ec_spec (ih_calls h ! c)) h st = (st1, Inr att)"
    and x: "process_start (lw_platform w) (lw_config w) (lw_uid w) (lw_gid w) (lw_digest w) (lw_start_ctx w)
      (lw_mkdir w) (lw_write w) (lw_start w) (launch_request w (ec_spec (ih_calls h ! c)) img att h) = Inr x"
  shows "map_of (ih_pending h') (spec_id (ec_spec (ih_calls h ! c))) = None \<and>
    (case r of
       Inl e \<Rightarrow> ih_grants h' = ih_grants h \<and> take (length (ih_vms h)) (ih_vms h') = ih_vms h \<and>
         (\<forall>v \<in> set (drop (length (ih_vms h)) (ih_vms h')). \<not> vm_running v) \<and>
         (\<forall>x. m = Some x \<longrightarrow> \<not> mc_running x \<and> mc_cleanup x = None) \<and> st'\<lparr>nt_clock := nt_clock st\<rparr> = st
     | Inr k \<Rightarrow> map_of (ih_grants h') (spec_id (ec_spec (ih_calls h ! c))) = Some k \<and>
         (\<exists>x n t. m = Some x \<and> ih_vms h' = ih_vms h @ [vm_of x] \<and> mc_running x \<and>
            (mc_cleanup x \<noteq> None \<longleftrightarrow> spec_network (ec_spec (ih_calls h ! c)) = NetworkAllowlist) \<and>
            connect_from (lw_dials w) (lw_pick w) (lw_ends w) 0 0 = Some (n, t, Inr ())))"
proof -
  define sp where "sp = ec_spec (ih_calls h ! c)"
  note run = assms(3)[unfolded ensure_launch_def Let_def a x prod.case sum.case]
  note undone = attach_restores[OF assms(1) a] and st = start_cleanup[OF x]
  have attached: "att \<noteq> None \<longleftrightarrow> spec_network sp = NetworkAllowlist"
    using a by (auto simp: launch_attach_def sp_def split: prod.splits sum.splits if_splits)
  define h1 where "h1 = launched c img (att \<noteq> None) h"
  obtain conn where conn: "launch_connect w = Some conn" using run by (cases "launch_connect w") auto
  obtain h2 d where d: "ienv_dial (lw_dial_ctx w) conn (length (ih_envs h)) h1 = (h2, d)" by fastforce
  note tb = launched_tables[OF h1_def] and dl = dial_launched[OF h1_def d] and rv = revoke_launched[OF h1_def]
  note res = run[unfolded conn option.case h1_def[symmetric] d]
  show ?thesis
  proof (cases d)
    case (Inl e)
    obtain x' st2 where s: "process_stop (lw_su w) x st1 = (x', st2)" by fastforce
    have out: "h' = launch_failed c e (ienv_revoke (length (ih_envs h)) h1)" "st' = st2" "m = Some x'" "r = Inl (OpError ''ensure'' e)"
      using res s Inl dl(1) by auto
    then show ?thesis
      using stop_closes[OF s] st undone tb(5)[OF assms(2)]
      by (simp add: failed_tables rv not_pending launch_request_def)
  next
    case (Inr u)
    have out: "h' = complete_ensure c (Some (length (ih_envs h))) None h2" "st' = st1" "m = Some x" "r = Inr (length (ih_envs h))"
      using res Inr by auto
    have "lw_dial_ctx w = None" "conn = None" using dl(6) Inr by auto
    then have "\<exists>n t. connect_from (lw_dials w) (lw_pick w) (lw_ends w) 0 0 = Some (n, t, Inr ())"
      using conn by (auto simp: launch_connect_def split: option.splits sum.splits)
    moreover have "ec_spec (ih_calls h2 ! c) = sp" using dl(5) tb(5)[OF assms(2)] by (simp add: sp_def)
    moreover have "mc_running x" using st by (simp add: vm_of_def)
    ultimately show ?thesis
      using out dl(2,3,4) tb(2) st attached
      by (simp add: complete_ensure_def Let_def sp_def[symmetric] not_pending launch_request_def)
  qed
qed


text \<open>The launch is made of the steps of theory Isolated_Inv, so it keeps the invariant of the host.\<close>

lemma ensure_launch_steps:
  assumes "c < length (ih_calls h)" "ec_phase (ih_calls h ! c) = Reserved" "ensure_launch w c img h st = Some (h', st', m, r)"
  shows "iso_run h h'"
proof -
  have failed: "iso_run h (launch_failed c e h)" for e
  proof -
    have "istep h (complete_ensure c None (Some (OpError ''ensure'' e)) h)" by (rule istep.launch_failed[OF assms(1,2)])
    moreover have "istep (complete_ensure c None (Some (OpError ''ensure'' e)) h) (launch_failed c e h)"
      unfolding launch_failed_def using assms(1) by (intro istep.cleanup) (simp add: complete_ensure_def Let_def)
    ultimately show ?thesis by simp
  qed
  have second: "iso_run h (launch_failed c e (ienv_revoke (length (ih_envs h)) h2))"
    if l: "h1 = launched c img att h" and d: "ienv_dial ctx conn (length (ih_envs h)) h1 = (h2, Inl e)" for h1 h2 att ctx conn e
  proof -
    have s1: "istep h h1" unfolding l by (rule istep.launch[OF assms(1,2)])
    have c1: "c < length (ih_calls h1)" "ec_phase (ih_calls h1 ! c) = Launched (length (ih_envs h))"
      using assms(1) by (simp_all add: l launched_def Let_def)
    let ?h3 = "complete_ensure c None (Some (OpError ''ensure'' e)) (ienv_revoke (length (ih_envs h)) h2)"
    have s2: "istep h1 ?h3" by (rule istep.dial_failed[OF c1 d])
    have "c < length (ih_calls ?h3)"
      using c1(1) dial_launched(1)[OF l d] revoke_launched(4)[OF l] by (simp add: complete_ensure_def Let_def)
    then have "istep ?h3 (launch_failed c e (ienv_revoke (length (ih_envs h)) h2))"
      unfolding launch_failed_def by (rule istep.cleanup)
    with s1 s2 show ?thesis by (meson converse_rtranclp_into_rtranclp rtranclp.rtrancl_refl)
  qed
  have third: "iso_run h (complete_ensure c (Some (length (ih_envs h))) None h2)"
    if l: "h1 = launched c img att h" and d: "ienv_dial ctx conn (length (ih_envs h)) h1 = (h2, Inr u)" for h1 h2 att ctx conn u
  proof -
    have c1: "c < length (ih_calls h1)" "ec_phase (ih_calls h1 ! c) = Launched (length (ih_envs h))"
      using assms(1) by (simp_all add: l launched_def Let_def)
    have "istep h h1" unfolding l by (rule istep.launch[OF assms(1,2)])
    moreover have "istep h1 (complete_ensure c (Some (length (ih_envs h))) None h2)" using d by (intro istep.dialed[OF c1]) simp
    ultimately show ?thesis by simp
  qed
  show ?thesis
    using assms(3) failed second third
    by (auto simp: ensure_launch_def Let_def split: prod.splits sum.splits option.splits)
qed

subsection \<open>A launch\<close>

definition sample_world :: launch_world where
  "sample_world = \<lparr>lw_su = no_surroundings, lw_digest = 7,
     lw_platform = \<lparr>pf_linux = True, pf_opens = \<lambda>_. True, pf_stat = \<lambda>_. None, pf_look = Inr\<rparr>,
     lw_config = \<lparr>ic_images = [], ic_slots = 1, ic_work_dir = ''/w'', ic_device = '''', ic_runtime = '''', ic_supervisor = '''',
       ic_cpu_millis = 0, ic_memory_bytes = 0, ic_allow = []\<rparr>,
     lw_uid = ''0'', lw_gid = ''0'', lw_start_ctx = None, lw_mkdir = None, lw_write = None, lw_start = None, lw_dial_ctx = None,
     lw_dials = (\<lambda>_. \<lparr>dl_connect = Some (Foreign ''refused''), dl_write = None, dl_answer = None, dl_time = 1\<rparr>),
     lw_pick = (\<lambda>_. True), lw_ends = Some 0\<rparr>"


end
