(* ===== verification/Remote_Endpoints.thy ===== *)
theory Remote_Endpoints
  imports Remote_Server Isolated_Network
begin

text \<open>
  The two ends of the remote hop before any frame: the client's configuration and \<open>New\<close>
  (\<open>remote/config.go\<close>, \<open>remote/client.go\<close>), and \<open>Serve\<close> with its accept loop (\<open>remote/server.go\<close>).
  Dialling, the TLS handshake and the authentication that follows are arguments.
\<close>

subsection \<open>The client's configuration\<close>

record tls_client =
  tc_certificates :: nat
  tc_get_certificate :: bool
  tc_min_version :: nat
  tc_server_name :: string

record client_config =
  cc_address :: string
  cc_server_name :: string
  cc_tls :: "tls_client option"
  cc_security :: security
  cc_token :: bytes
  cc_timeout :: int
  cc_operation_timeout :: int

text \<open>The host part that \<open>net.SplitHostPort\<close> finds; \<open>None\<close> is its error.\<close>

definition split_host :: "string \<Rightarrow> string option" where
  "split_host s =
     (if CHR '':'' \<notin> set s then None
      else if hd s = CHR ''['' then
        (let inner = takeWhile (\<lambda>c. c \<noteq> CHR '']'') (tl s); rest = drop (length inner + 2) s in
         if CHR '']'' \<notin> set s \<or> rest = '''' \<or> hd rest \<noteq> CHR '':'' \<or> CHR '':'' \<in> set (tl rest) then None
         else if CHR ''['' \<in> set (tl s) \<or> CHR '']'' \<in> set rest then None
         else Some inner)
      else
        (let host = rev (tl (dropWhile (\<lambda>c. c \<noteq> CHR '':'') (rev s))) in
         if CHR '':'' \<in> set host \<or> CHR ''['' \<in> set s \<or> CHR '']'' \<in> set s then None else Some host))"

text \<open>\<open>net.ParseIP\<close> and \<open>IsLoopback\<close>: 127.0.0.0/8, also in its sixteen-byte form, and ::1.\<close>

definition loopback_ip :: "ip_addr_text \<Rightarrow> bool" where
  "loopback_ip ip =
     (case ip of
        V4 w \<Rightarrow> drop_bit 24 w = 127
      | V6 os \<Rightarrow> (case to4 os of Some w \<Rightarrow> drop_bit 24 w = 127 | None \<Rightarrow> os = replicate 15 0 @ [1]))"

text \<open>\<open>strings.EqualFold\<close> with \<open>localhost\<close>: the only letter outside ASCII that folds to one of its letters is the long s.\<close>

fun fold_long_s :: "string \<Rightarrow> string" where
  "fold_long_s (c # d # s) = (if c = CHR 0xC5 \<and> d = CHR 0xBF then CHR ''s'' # fold_long_s s else c # fold_long_s (d # s))"
| "fold_long_s s = s"

definition ascii_lower :: "char \<Rightarrow> char" where
  "ascii_lower c = (if ord_of CHR ''A'' \<le> ord_of c \<and> ord_of c \<le> ord_of CHR ''Z'' then char_of (ord_of c + 32) else c)"

definition is_loopback :: "string \<Rightarrow> bool" where
  "is_loopback address =
     (let host = (case split_host address of None \<Rightarrow> address | Some h \<Rightarrow> h) in
      host = ''localhost'' \<or>
      (case parse_addr host of
         Some ip \<Rightarrow> loopback_ip ip
       | None \<Rightarrow> map ascii_lower (fold_long_s host) = ''localhost''))"

definition dial_error :: "go_error option" where
  "dial_error = Some (OpError ''dial'' (Sent ErrInvalid))"

definition validate_client :: "client_config \<Rightarrow> go_error option" where
  "validate_client cfg =
     (if cc_address cfg = '''' then dial_error
      else (case cc_security cfg of
              SecurityTLS \<Rightarrow>
                (case cc_tls cfg of
                   None \<Rightarrow> dial_error
                 | Some t \<Rightarrow>
                     if cc_token cfg = [] \<and> tc_certificates t = 0 \<and> \<not> tc_get_certificate t then dial_error else None)
            | SecurityInsecureLocal \<Rightarrow> if \<not> is_loopback (cc_address cfg) then dial_error else None
            | SecurityOther \<Rightarrow> dial_error))"

subsection \<open>New\<close>

text \<open>How the host is dialled: in the clear, or with TLS of at least a version and for a server name.\<close>

datatype dialling = DialPlain string | DialTLS string nat string

definition tls13 :: nat where "tls13 = 772"

definition client_dialling :: "client_config \<Rightarrow> dialling" where
  "client_dialling cfg =
     (case (cc_security cfg, cc_tls cfg) of
        (SecurityTLS, Some t) \<Rightarrow>
          DialTLS (cc_address cfg) (if tc_min_version t = 0 then tls13 else tc_min_version t)
            (if tc_server_name t = '''' then cc_server_name cfg else tc_server_name t)
      | _ \<Rightarrow> DialPlain (cc_address cfg))"

text \<open>\<open>New\<close>: what was dialled, and the error; \<open>dialled\<close> and \<open>authenticated\<close> are the errors of the two steps.\<close>

definition client_new :: "client_config \<Rightarrow> go_error option \<Rightarrow> go_error option \<Rightarrow> dialling option \<times> go_error option" where
  "client_new cfg dialled authenticated =
     (case validate_client cfg of
        Some e \<Rightarrow> (None, Some e)
      | None \<Rightarrow>
          (case dialled of
             Some _ \<Rightarrow> (Some (client_dialling cfg), Some (OpError ''dial'' (Sent ErrConnection)))
           | None \<Rightarrow> (Some (client_dialling cfg), authenticated)))"

subsection \<open>Serve\<close>

text \<open>
  One turn of the accept loop: the error of \<open>Accept\<close> and whether the context has ended then; a
  connection is served beside the loop. The result is the number of connections served and the
  error, \<open>None\<close> while the loop waits.
\<close>

fun serve_loop :: "(go_error option \<times> bool) list \<Rightarrow> nat \<Rightarrow> (nat \<times> go_error option) option" where
  "serve_loop [] n = None"
| "serve_loop ((err, ended) # turns) n =
     (case err of
        None \<Rightarrow> serve_loop turns (Suc n)
      | Some e \<Rightarrow> Some (n, if ended then None else Some (OpError ''serve'' e)))"

definition serve_min_version :: "server_config \<Rightarrow> nat \<Rightarrow> nat" where
  "serve_min_version cfg v = (if cfg_security cfg = SecurityTLS \<and> cfg_tls cfg \<noteq> None \<and> v = 0 then tls13 else v)"

definition remote_serve :: "server_config \<Rightarrow> bool \<Rightarrow> (go_error option \<times> bool) list \<Rightarrow> (nat \<times> go_error option) option" where
  "remote_serve cfg has_host turns =
     (case validate_server cfg of
        Some e \<Rightarrow> Some (0, Some e)
      | None \<Rightarrow> if \<not> has_host then Some (0, Some (OpError ''serve'' (Sent ErrInvalid))) else serve_loop turns 0)"

subsection \<open>What never happens\<close>

lemma clear_text_only_local:
  assumes "client_new cfg dialled authenticated = (Some (DialPlain a), err)"
  shows "cc_security cfg = SecurityInsecureLocal \<and> is_loopback a"
  using assms
  by (auto simp: client_new_def client_dialling_def validate_client_def dial_error_def
      split: option.splits if_splits security.splits)

lemma tls_never_old:
  assumes "client_new cfg dialled authenticated = (Some (DialTLS a v n), err)" "cc_tls cfg = Some t" "tc_min_version t = 0"
  shows "v = 772 \<and> (cc_token cfg \<noteq> [] \<or> tc_certificates t \<noteq> 0 \<or> tc_get_certificate t)"
  using assms
  by (auto simp: client_new_def client_dialling_def validate_client_def dial_error_def tls13_def
      split: option.splits if_splits security.splits)

text \<open>A name that only looks like the loopback host is refused, and so is a public address.\<close>

lemma loopback_examples:
  "is_loopback ''127.0.0.1:8443''" "is_loopback ''[::1]:8443''" "is_loopback ''LOCALHOST:1''" "is_loopback ''::1''"
  "\<not> is_loopback ''localhost.example.org:8443''" "\<not> is_loopback ''10.0.0.1:8443''" "\<not> is_loopback ''128.0.0.1''"
  by code_simp+

lemma serve_ends: "remote_serve cfg has_host turns = Some (n, None) \<Longrightarrow> \<exists>e. (Some e, True) \<in> set turns"
proof -
  have "serve_loop turns k = Some (n, None) \<Longrightarrow> \<exists>e. (Some e, True) \<in> set turns" for k
    by (induction turns arbitrary: k) (auto split: option.splits if_splits)
  then show "remote_serve cfg has_host turns = Some (n, None) \<Longrightarrow> ?thesis"
    by (auto simp: remote_serve_def split: option.splits if_splits)
qed

end
