(* ===== verification/Daemon_Config.thy ===== *)
theory Daemon_Config
  imports Remote_Server Isolated_Host Memory_Host
begin

text \<open>
  The daemon (\<open>daemon/config.go\<close>, \<open>daemon/run.go\<close>) and the build identity (\<open>build.go\<close>): what an operator
  document must say, the host it selects, and the server configuration made of it. Reading
  files, decoding JSON, \<open>time.ParseDuration\<close>, loading certificates and lower-casing what is not
  ASCII are arguments.
\<close>

subsection \<open>Build identity\<close>

record build_vars =
  bv_release :: string
  bv_build :: string
  bv_tag :: string

definition module_path :: string where
  "module_path = ''github.com/sudosylabs/execenv''"

definition stamp_dev :: string where "stamp_dev = ''dev''"

text \<open>The text after the last dash, and how many dashes there are.\<close>

definition is_pseudo_version :: "string \<Rightarrow> bool" where
  "is_pseudo_version raw =
     (let suf = rev (takeWhile (\<lambda>c. c \<noteq> CHR ''-'') (rev raw))
      in if length (filter (\<lambda>c. c = CHR ''-'') raw) < 2 then False
         else if length suf \<noteq> 12 then False
         else list_all (\<lambda>c. (ord_of CHR ''0'' \<le> ord_of c \<and> ord_of c \<le> ord_of CHR ''9'') \<or>
                            (ord_of CHR ''a'' \<le> ord_of c \<and> ord_of c \<le> ord_of CHR ''f'')) suf)"

definition parse_module_version :: "string \<Rightarrow> string \<times> string" where
  "parse_module_version s =
     (let raw = takeWhile (\<lambda>c. c \<noteq> CHR ''+'') s
      in if raw = '''' \<or> raw = ''(devel)'' then (stamp_dev, '''')
         else if is_pseudo_version raw then (stamp_dev, '''')
         else if take 1 raw \<noteq> ''v'' then (stamp_dev, '''')
         else (drop 1 raw, raw))"

text \<open>The main module and the dependencies of a binary, each with its version.\<close>

fun module_version :: "(string \<times> string) \<Rightarrow> (string \<times> string) list \<Rightarrow> string" where
  "module_version (path, version) deps =
     (if path = module_path then version
      else (case map_of deps module_path of None \<Rightarrow> '''' | Some v \<Rightarrow> v))"

definition apply_build_info :: "((string \<times> string) \<times> (string \<times> string) list) option \<Rightarrow> build_vars \<Rightarrow> build_vars" where
  "apply_build_info info v =
     (if bv_release v \<noteq> '''' then v
      else (case info of
              None \<Rightarrow> v\<lparr>bv_release := stamp_dev\<rparr>
            | Some (main, deps) \<Rightarrow>
                (let (ver, tag) = parse_module_version (module_version main deps)
                 in v\<lparr>bv_release := ver, bv_tag := (if bv_tag v = '''' then tag else bv_tag v)\<rparr>)))"

definition init_build :: "((string \<times> string) \<times> (string \<times> string) list) option \<Rightarrow> build_vars \<Rightarrow> build_vars" where
  "init_build info v =
     (let v = apply_build_info info v;
          v = (if bv_release v = '''' then v\<lparr>bv_release := stamp_dev\<rparr> else v)
      in if bv_build v = '''' then v\<lparr>bv_build := stamp_dev\<rparr> else v)"

definition build_stamp :: "build_vars \<Rightarrow> string" where
  "build_stamp v = ''version='' @ bv_release v @ [CHR 0x0A] @ ''build='' @ bv_build v @ [CHR 0x0A] @
     ''tag='' @ bv_tag v @ [CHR 0x0A]"

lemma init_build_stamped: "bv_release (init_build info v) \<noteq> '''' \<and> bv_build (init_build info v) \<noteq> ''''"
  by (simp add: init_build_def Let_def stamp_dev_def)

lemma init_build_keeps: "bv_release v \<noteq> '''' \<Longrightarrow> bv_release (init_build info v) = bv_release v"
  by (simp add: init_build_def apply_build_info_def Let_def)

subsection \<open>The operator document\<close>

record daemon_image =
  di_id :: string
  di_kernel :: string
  di_rootfs :: string
  di_hash :: string

text \<open>\<open>UnmarshalJSON\<close>: the older key \<open>path\<close> stands in for an empty \<open>rootfs\<close>.\<close>

record raw_image =
  ri_id :: string
  ri_kernel :: string
  ri_rootfs :: string
  ri_path :: string
  ri_hash :: string

definition image_of_raw :: "raw_image \<Rightarrow> daemon_image" where
  "image_of_raw raw =
     \<lparr>di_id = ri_id raw, di_kernel = ri_kernel raw,
      di_rootfs = (if ri_rootfs raw = '''' then ri_path raw else ri_rootfs raw), di_hash = ri_hash raw\<rparr>"

text \<open>\<open>MarshalJSON\<close> writes the canonical keys.\<close>

definition raw_of_image :: "daemon_image \<Rightarrow> raw_image" where
  "raw_of_image img =
     \<lparr>ri_id = di_id img, ri_kernel = di_kernel img, ri_rootfs = di_rootfs img, ri_path = '''', ri_hash = di_hash img\<rparr>"

lemma image_round_trip: "image_of_raw (raw_of_image img) = img"
  by (simp add: image_of_raw_def raw_of_image_def)

record daemon_config =
  dc_listen :: string
  dc_token :: string
  dc_security :: string
  dc_adapter :: string
  dc_tls_cert :: string
  dc_tls_key :: string
  dc_tls_client_ca :: string
  dc_work_dir :: string
  dc_device :: string
  dc_runtime :: string
  dc_supervisor :: string
  dc_images :: "daemon_image list"
  dc_slots :: int
  dc_cpu_millis :: int
  dc_memory_bytes :: int
  dc_disk_bytes :: int
  dc_network :: string
  dc_allow :: "string list"
  dc_grace :: int
  dc_grace_text :: string

text \<open>\<open>strings.ToLower\<close>; \<open>uni\<close> is what it does with a string that is not all ASCII.\<close>

definition lower_char :: "char \<Rightarrow> char" where
  "lower_char c =
     (if ord_of CHR ''A'' \<le> ord_of c \<and> ord_of c \<le> ord_of CHR ''Z'' then char_of (ord_of c + 32) else c)"

definition to_lower :: "(string \<Rightarrow> string) \<Rightarrow> string \<Rightarrow> string" where
  "to_lower uni s = (if list_all (\<lambda>c. ord_of c < 128) s then map lower_char s else uni s)"

definition config_error :: "'a res" where
  "config_error = Inl (OpError ''config'' (Sent ErrInvalid))"

definition image_bad :: "string \<Rightarrow> daemon_image \<Rightarrow> bool" where
  "image_bad adapter img \<longleftrightarrow>
     validate_spec \<lparr>spec_id = ''ok'', spec_image = di_id img, spec_network = NetworkNone\<rparr> \<noteq> None \<or>
     adapter = ''isolated'' \<and> (di_kernel img = '''' \<or> di_rootfs img = '''' \<or> \<not> valid_digest (di_hash img))"

fun check_images :: "string \<Rightarrow> daemon_image list \<Rightarrow> bool" where
  "check_images adapter [] = True"
| "check_images adapter (img # imgs) = (if image_bad adapter img then False else check_images adapter imgs)"

definition security_ok :: "daemon_config \<Rightarrow> bool" where
  "security_ok cfg \<longleftrightarrow>
     (if dc_security cfg = ''tls'' then
        \<not> (dc_tls_cert cfg = '''' \<or> dc_tls_key cfg = '''') \<and> \<not> (dc_token cfg = '''' \<and> dc_tls_client_ca cfg = '''')
      else if dc_security cfg = ''insecure_local'' then \<not> (dc_token cfg = '''' \<or> dc_tls_client_ca cfg \<noteq> '''')
      else False)"

definition adapter_ok :: "daemon_config \<Rightarrow> bool" where
  "adapter_ok cfg \<longleftrightarrow>
     (if dc_adapter cfg = ''memory'' then dc_security cfg \<noteq> ''tls'' else dc_adapter cfg = ''isolated'')"

definition network_ok :: "daemon_config \<Rightarrow> bool" where
  "network_ok cfg \<longleftrightarrow>
     (if dc_network cfg = ''none'' then dc_allow cfg = []
      else if dc_network cfg = ''allowlist'' then dc_allow cfg \<noteq> []
      else False)"

text \<open>\<open>duration\<close> is \<open>time.ParseDuration\<close>. The three keywords are lower-cased in place.\<close>

definition validate_config :: "(string \<Rightarrow> string) \<Rightarrow> (string \<Rightarrow> int option) \<Rightarrow> daemon_config \<Rightarrow> daemon_config res" where
  "validate_config uni duration cfg0 =
     (if dc_listen cfg0 = '''' \<or> dc_security cfg0 = '''' \<or> dc_adapter cfg0 = '''' then config_error
      else
        (let cfg = cfg0\<lparr>dc_security := to_lower uni (dc_security cfg0), dc_adapter := to_lower uni (dc_adapter cfg0),
                        dc_network := to_lower uni (if dc_network cfg0 = '''' then ''none'' else dc_network cfg0)\<rparr>
         in if \<not> security_ok cfg then config_error
            else if \<not> adapter_ok cfg then config_error
            else if \<not> network_ok cfg then config_error
            else if \<not> check_images (dc_adapter cfg) (dc_images cfg) then config_error
            else if dc_slots cfg \<le> 0 then config_error
            else if dc_grace_text cfg \<noteq> '''' then
              (case duration (dc_grace_text cfg) of
                 None \<Rightarrow> config_error
               | Some grace \<Rightarrow> if grace \<le> 0 then config_error else Inr (cfg\<lparr>dc_grace := grace\<rparr>))
            else Inr cfg))"

text \<open>\<open>Load\<close> of a path whose bytes are \<open>raw\<close>, with \<open>parsed\<close> what \<open>json.Unmarshal\<close> makes of them.\<close>

definition load_config :: "(string \<Rightarrow> string) \<Rightarrow> (string \<Rightarrow> int option) \<Rightarrow> string \<Rightarrow> bytes res \<Rightarrow>
    (bytes \<Rightarrow> daemon_config option) \<Rightarrow> daemon_config res" where
  "load_config uni duration path raw parsed =
     (if path = '''' then config_error
      else (case raw of
              Inl e \<Rightarrow> Inl (OpError ''config'' e)
            | Inr bs \<Rightarrow>
                (case parsed bs of None \<Rightarrow> config_error | Some cfg \<Rightarrow> validate_config uni duration cfg)))"

text \<open>
  \<open>Save\<close>: the file system as a map from paths to contents; writing the new file (which may leave
  anything in it), renaming it and setting its mode may fail. The mode itself, 0600, is not tracked.
\<close>

type_synonym disk = "string \<rightharpoonup> bytes"

definition save_config :: "(string \<Rightarrow> string) \<Rightarrow> (string \<Rightarrow> int option) \<Rightarrow> (daemon_config \<Rightarrow> bytes option) \<Rightarrow>
    (go_error \<times> bytes option) option \<Rightarrow> go_error option \<Rightarrow> go_error option \<Rightarrow> string \<Rightarrow> daemon_config \<Rightarrow> disk \<Rightarrow> disk \<times> unit res" where
  "save_config uni duration marshal write_err rename_err chmod_err path cfg fs =
     (if path = '''' then (fs, config_error)
      else (case validate_config uni duration cfg of
              Inl e \<Rightarrow> (fs, Inl e)
            | Inr cfg' \<Rightarrow>
                (case marshal cfg' of
                   None \<Rightarrow> (fs, config_error)
                 | Some bs \<Rightarrow>
                     (let raw = bs @ [0x0A]; tmp = path @ ''.new''; fs1 = fs(tmp \<mapsto> raw) in
                      case write_err of
                        Some (e, left) \<Rightarrow> (fs(tmp := left), Inl (OpError ''config'' e))
                      | None \<Rightarrow>
                          (case rename_err of
                             Some e \<Rightarrow> (fs1(tmp := None), Inl (OpError ''config'' e))
                           | None \<Rightarrow>
                               (fs1(path \<mapsto> raw, tmp := None),
                                case chmod_err of Some e \<Rightarrow> Inl (OpError ''config'' e) | None \<Rightarrow> Inr ()))))))"

definition daemon_security :: "daemon_config \<Rightarrow> security" where
  "daemon_security cfg = (if dc_security cfg = ''insecure_local'' then SecurityInsecureLocal else SecurityTLS)"

definition image_ids :: "daemon_config \<Rightarrow> image_name list" where
  "image_ids cfg = map di_id (dc_images cfg)"

definition format_int :: "int \<Rightarrow> string" where
  "format_int n = (if n < 0 then ''-'' @ format_uint (nat (- n)) else format_uint (nat n))"

definition redacted :: "daemon_config \<Rightarrow> string" where
  "redacted cfg = ''listen='' @ dc_listen cfg @ '' adapter='' @ dc_adapter cfg @ '' security='' @ dc_security cfg @
     '' slots='' @ format_int (dc_slots cfg) @ '' images='' @ format_int (int (length (dc_images cfg)))"

lemma redacted_token: "redacted (cfg\<lparr>dc_token := t\<rparr>) = redacted cfg"
  by (simp add: redacted_def)

subsection \<open>Running it\<close>

datatype adapter = MemoryHost mem_state | IsolatedHost iso_host

definition new_adapter :: "go_error option \<Rightarrow> daemon_config \<Rightarrow> adapter res" where
  "new_adapter prepared cfg =
     (if dc_adapter cfg = ''memory'' then Inr (MemoryHost (host_new (image_ids cfg) (dc_slots cfg) False))
      else if dc_adapter cfg = ''isolated'' then
        (if dc_work_dir cfg = '''' then Inl (OpError ''adapter'' (Sent ErrInvalid))
         else (case iso_new
                 \<lparr>ic_images = map (\<lambda>img. \<lparr>im_id = di_id img, im_kernel = di_kernel img, im_rootfs = di_rootfs img,
                                        im_hash = di_hash img\<rparr>) (dc_images cfg),
                  ic_slots = dc_slots cfg, ic_work_dir = dc_work_dir cfg,
                  ic_device = dc_device cfg, ic_runtime = dc_runtime cfg, ic_supervisor = dc_supervisor cfg,
                  ic_cpu_millis = dc_cpu_millis cfg, ic_memory_bytes = dc_memory_bytes cfg, ic_allow = dc_allow cfg\<rparr> prepared of
                 Inl e \<Rightarrow> Inl e
               | Inr h \<Rightarrow> Inr (IsolatedHost h)))
      else Inl (OpError ''adapter'' (Sent ErrInvalid)))"

definition adapter_capabilities :: "adapter \<Rightarrow> capabilities" where
  "adapter_capabilities a = (case a of MemoryHost m \<Rightarrow> host_capabilities m | IsolatedHost _ \<Rightarrow> iso_capabilities)"

text \<open>
  \<open>serveListener\<close> up to \<open>remote.Serve\<close>: \<open>pair_ok\<close>, \<open>ca_read\<close> and \<open>ca_pem\<close> say whether the key pair
  loads, the client CA file can be read, and holds a certificate.
\<close>

definition serve_listener :: "bool \<Rightarrow> bool \<Rightarrow> bool \<Rightarrow> adapter \<Rightarrow> daemon_config \<Rightarrow> server_config res" where
  "serve_listener pair_ok ca_read ca_pem inner cfg =
     (let base = \<lparr>cfg_security = daemon_security cfg, cfg_tls = None, cfg_token = bytes_of_string (dc_token cfg),
                  cfg_auth_timeout = 0, cfg_operation_timeout = 0, cfg_claim = ''''\<rparr>;
          invalid = Inl (OpError ''tls'' (Sent ErrInvalid))
      in if daemon_security cfg = SecurityTLS then
           (case require_isolated (Some (adapter_capabilities inner)) of
              Some e \<Rightarrow> Inl e
            | None \<Rightarrow>
                if \<not> pair_ok then invalid
                else if dc_tls_client_ca cfg \<noteq> '''' then
                  (if \<not> ca_read then invalid
                   else if \<not> ca_pem then invalid
                   else Inr (base\<lparr>cfg_tls := Some \<lparr>tls_client_cas = True, tls_verify_if_given = (dc_token cfg \<noteq> ''''),
                                                    tls_require_and_verify = (dc_token cfg = '''')\<rparr>\<rparr>))
                else Inr (base\<lparr>cfg_tls := Some \<lparr>tls_client_cas = False, tls_verify_if_given = False,
                                                 tls_require_and_verify = False\<rparr>\<rparr>))
         else Inr base)"

text \<open>\<open>Run\<close> up to the accept loop; \<open>listening\<close> is the error of \<open>net.Listen\<close>.\<close>

definition daemon_run :: "go_error option \<Rightarrow> go_error option \<Rightarrow> bool \<Rightarrow> bool \<Rightarrow> bool \<Rightarrow>
    daemon_config \<Rightarrow> (adapter \<times> server_config) res" where
  "daemon_run prepared listening pair_ok ca_read ca_pem cfg =
     (case new_adapter prepared cfg of
        Inl e \<Rightarrow> Inl e
      | Inr inner \<Rightarrow>
          (case listening of
             Some e \<Rightarrow> Inl (OpError ''listen'' e)
           | None \<Rightarrow>
               (case serve_listener pair_ok ca_read ca_pem inner cfg of
                  Inl e \<Rightarrow> Inl e
                | Inr server \<Rightarrow>
                    (case validate_server server of Some e \<Rightarrow> Inl e | None \<Rightarrow> Inr (inner, server)))))"

end
