(* ===== verification/Daemon_Props.thy ===== *)
theory Daemon_Props
  imports Daemon_Config
begin

text \<open>
  What an accepted operator document guarantees: the daemon never serves without an
  authentication, TLS always stands before an isolated adapter, validation is a projection, and a
  saved document loads as itself.
\<close>

subsection \<open>Accepted documents\<close>

lemma lower_keywords [simp]:
  "to_lower uni ''tls'' = ''tls''" "to_lower uni ''insecure_local'' = ''insecure_local''"
  "to_lower uni ''memory'' = ''memory''" "to_lower uni ''isolated'' = ''isolated''"
  "to_lower uni ''none'' = ''none''" "to_lower uni ''allowlist'' = ''allowlist''"
  by (simp_all add: to_lower_def lower_char_def)

lemma security_ok_cases: "security_ok cfg \<Longrightarrow> dc_security cfg = ''tls'' \<or> dc_security cfg = ''insecure_local''"
  by (auto simp: security_ok_def split: if_splits)

lemma adapter_ok_cases: "adapter_ok cfg \<Longrightarrow> dc_adapter cfg = ''memory'' \<or> dc_adapter cfg = ''isolated''"
  by (auto simp: adapter_ok_def split: if_splits)

lemma network_ok_cases: "network_ok cfg \<Longrightarrow> dc_network cfg = ''none'' \<or> dc_network cfg = ''allowlist''"
  by (auto simp: network_ok_def split: if_splits)

text \<open>What holds of every document \<open>validate\<close> returns.\<close>

definition accepted :: "(string \<Rightarrow> int option) \<Rightarrow> daemon_config \<Rightarrow> bool" where
  "accepted duration cfg \<longleftrightarrow>
     dc_listen cfg \<noteq> '''' \<and> security_ok cfg \<and> adapter_ok cfg \<and> network_ok cfg \<and>
     check_images (dc_adapter cfg) (dc_images cfg) \<and> 0 < dc_slots cfg \<and>
     (dc_grace_text cfg \<noteq> '''' \<longrightarrow> duration (dc_grace_text cfg) = Some (dc_grace cfg) \<and> 0 < dc_grace cfg)"

lemma oks_grace [simp]:
  "security_ok (cfg\<lparr>dc_grace := g\<rparr>) = security_ok cfg" "adapter_ok (cfg\<lparr>dc_grace := g\<rparr>) = adapter_ok cfg"
  "network_ok (cfg\<lparr>dc_grace := g\<rparr>) = network_ok cfg"
  by (simp_all add: security_ok_def adapter_ok_def network_ok_def)

lemma validate_accepted: "validate_config uni duration cfg0 = Inr cfg \<Longrightarrow> accepted duration cfg"
  unfolding validate_config_def Let_def config_error_def accepted_def
  by (auto split: if_splits option.splits)

lemma accepted_validate: "accepted duration cfg \<Longrightarrow> validate_config uni duration cfg = Inr cfg"
proof -
  assume a: "accepted duration cfg"
  then have "to_lower uni (dc_security cfg) = dc_security cfg" "to_lower uni (dc_adapter cfg) = dc_adapter cfg"
    "to_lower uni (dc_network cfg) = dc_network cfg" "dc_security cfg \<noteq> ''''" "dc_adapter cfg \<noteq> ''''" "dc_network cfg \<noteq> ''''"
    using security_ok_cases adapter_ok_cases network_ok_cases by (fastforce simp: accepted_def)+
  with a show ?thesis by (auto simp: validate_config_def accepted_def Let_def)
qed

lemma accepted_unset_grace: "accepted duration cfg \<Longrightarrow> validate_config uni duration (cfg\<lparr>dc_grace := 0\<rparr>) =
    Inr (if dc_grace_text cfg = '''' then cfg\<lparr>dc_grace := 0\<rparr> else cfg)"
proof (cases "dc_grace_text cfg = ''''")
  case True
  moreover assume "accepted duration cfg"
  ultimately have "accepted duration (cfg\<lparr>dc_grace := 0\<rparr>)" by (simp add: accepted_def)
  with True show ?thesis by (simp add: accepted_validate)
next
  case False
  assume a: "accepted duration cfg"
  then have "to_lower uni (dc_security cfg) = dc_security cfg" "to_lower uni (dc_adapter cfg) = dc_adapter cfg"
    "to_lower uni (dc_network cfg) = dc_network cfg" "dc_security cfg \<noteq> ''''" "dc_adapter cfg \<noteq> ''''" "dc_network cfg \<noteq> ''''"
    using security_ok_cases adapter_ok_cases network_ok_cases by (fastforce simp: accepted_def)+
  with a False show ?thesis by (auto simp: validate_config_def accepted_def Let_def)
qed

subsection \<open>What is served\<close>

lemma new_adapter_memory: "new_adapter prepared cfg = Inr (MemoryHost m) \<Longrightarrow> dc_adapter cfg = ''memory''"
  by (auto simp: new_adapter_def Let_def split: if_splits sum.splits)

lemma serve_listener_tls:
  assumes "serve_listener pair_ok ca_read ca_pem inner cfg = Inr server" "daemon_security cfg = SecurityTLS"
  shows "cap_isolated (adapter_capabilities inner)" "pair_ok"
    "cfg_token server = bytes_of_string (dc_token cfg)" "cfg_security server = SecurityTLS"
    "\<exists>t. cfg_tls server = Some t \<and> tls_client_cas t = (dc_tls_client_ca cfg \<noteq> '''') \<and>
         (dc_tls_client_ca cfg \<noteq> '''' \<longrightarrow> ca_read \<and> ca_pem \<and> tls_verify_if_given t = (dc_token cfg \<noteq> '''') \<and>
            tls_require_and_verify t = (dc_token cfg = ''''))"
  using assms unfolding serve_listener_def Let_def require_isolated_def
  by (auto split: if_splits option.splits)

text \<open>
  C33. A daemon never serves openly. Whatever document validation accepted, if \<open>Run\<close> reaches
  \<open>remote.Serve\<close> then the server configuration passes the server's own validation, and either the
  server speaks TLS, the host behind it is an isolated one, and there is a token or a client
  certificate every peer must show; or it is a plain local server with a token. The in-memory
  host is only ever behind the plain one.
\<close>
theorem daemon_never_open:
  assumes "validate_config uni duration cfg0 = Inr cfg"
    and "daemon_run prepared listening pair_ok ca_read ca_pem cfg = Inr (inner, server)"
  shows "validate_server server = None \<and> cfg_token server = bytes_of_string (dc_token cfg) \<and>
         ((cfg_security server = SecurityTLS \<and> cap_isolated (adapter_capabilities inner) \<and>
           (cfg_token server = [] \<longrightarrow> (\<exists>t. cfg_tls server = Some t \<and> tls_client_cas t \<and> tls_require_and_verify t))) \<or>
          (cfg_security server = SecurityInsecureLocal \<and> cfg_tls server = None \<and> cfg_token server \<noteq> [])) \<and>
         (\<forall>m. inner = MemoryHost m \<longrightarrow> cfg_security server = SecurityInsecureLocal)"
proof -
  have a: "accepted duration cfg" using assms(1) by (rule validate_accepted)
  have run: "new_adapter prepared cfg = Inr inner" "serve_listener pair_ok ca_read ca_pem inner cfg = Inr server"
    "validate_server server = None"
    using assms(2) by (auto simp: daemon_run_def split: sum.splits option.splits)
  have sec: "security_ok cfg" "adapter_ok cfg" using a by (auto simp: accepted_def)
  have "cfg_token server = bytes_of_string (dc_token cfg) \<and>
      ((cfg_security server = SecurityTLS \<and> cap_isolated (adapter_capabilities inner) \<and>
          (cfg_token server = [] \<longrightarrow> (\<exists>t. cfg_tls server = Some t \<and> tls_client_cas t \<and> tls_require_and_verify t))) \<or>
       (cfg_security server = SecurityInsecureLocal \<and> cfg_tls server = None \<and> cfg_token server \<noteq> [])) \<and>
      (\<forall>m. inner = MemoryHost m \<longrightarrow> cfg_security server = SecurityInsecureLocal)"
  proof (cases "dc_security cfg = ''insecure_local''")
    case True
    then have "daemon_security cfg = SecurityInsecureLocal" "dc_token cfg \<noteq> ''''"
      using sec(1) by (simp_all add: daemon_security_def security_ok_def)
    then have "cfg_token server = bytes_of_string (dc_token cfg)" "cfg_security server = SecurityInsecureLocal"
      "cfg_tls server = None" "bytes_of_string (dc_token cfg) \<noteq> []"
      using run(2) by (auto simp: serve_listener_def Let_def bytes_of_string_def)
    then show ?thesis by simp
  next
    case False
    then have tls: "daemon_security cfg = SecurityTLS" "dc_security cfg = ''tls''"
      using security_ok_cases[OF sec(1)] by (simp_all add: daemon_security_def)
    note s = serve_listener_tls[OF run(2) tls(1)]
    have "dc_adapter cfg \<noteq> ''memory''" using sec(2) tls(2) by (auto simp: adapter_ok_def)
    then have "\<forall>m. inner \<noteq> MemoryHost m" using run(1) new_adapter_memory by blast
    moreover have "dc_token cfg = '''' \<longrightarrow> dc_tls_client_ca cfg \<noteq> ''''" using sec(1) tls(2) by (simp add: security_ok_def)
    ultimately show ?thesis using s by (auto simp: bytes_of_string_def)
  qed
  with run(3) show ?thesis by blast
qed

definition sample_document :: daemon_config where
  "sample_document =
     \<lparr>dc_listen = '':7443'', dc_token = '''', dc_security = ''TLS'', dc_adapter = ''Isolated'',
      dc_tls_cert = ''c'', dc_tls_key = ''k'', dc_tls_client_ca = ''ca'', dc_work_dir = ''/w'',
      dc_device = '''', dc_runtime = '''', dc_supervisor = '''',
      dc_images = [], dc_slots = 2, dc_cpu_millis = 0, dc_memory_bytes = 0, dc_disk_bytes = 0,
      dc_network = '''', dc_allow = [], dc_grace = 0, dc_grace_text = ''5s''\<rparr>"

definition sample_accepted :: daemon_config where
  "sample_accepted = sample_document\<lparr>dc_security := ''tls'', dc_adapter := ''isolated'', dc_network := ''none'', dc_grace := 5\<rparr>"

definition sample_server :: server_config where
  "sample_server = \<lparr>cfg_security = SecurityTLS,
     cfg_tls = Some \<lparr>tls_client_cas = True, tls_verify_if_given = False, tls_require_and_verify = True\<rparr>,
     cfg_token = [], cfg_auth_timeout = 0, cfg_operation_timeout = 0, cfg_claim = ''''\<rparr>"

definition sample_adapter :: adapter where
  "sample_adapter = IsolatedHost
     \<lparr>ih_slots = 2, ih_images = Map.empty, ih_allow = [], ih_work_dir = ''/w'', ih_grants = [], ih_pending = [],
      ih_calls = [], ih_envs = [], ih_vms = [], ih_taken = [], ih_trees = []\<rparr>"

lemma sample_lower: "to_lower id ''TLS'' = ''tls''" "to_lower id ''Isolated'' = ''isolated''"
  by code_simp+

lemma sample_document_accepted: "validate_config id (\<lambda>_. Some 5) sample_document = Inr sample_accepted"
  by (simp add: validate_config_def sample_document_def sample_accepted_def sample_lower
      security_ok_def adapter_ok_def network_ok_def Let_def)

lemma sample_document_run:
  "daemon_run None None True True True sample_accepted = Inr (sample_adapter, sample_server)"
  by (simp add: daemon_run_def sample_accepted_def sample_document_def sample_adapter_def sample_server_def
      new_adapter_def iso_new_def serve_listener_def Let_def daemon_security_def require_isolated_def
      adapter_capabilities_def iso_capabilities_def validate_server_def bytes_of_string_def)

lemma daemon_never_open_witness:
  "validate_server sample_server = None \<and> cfg_token sample_server = bytes_of_string (dc_token sample_accepted) \<and>
   ((cfg_security sample_server = SecurityTLS \<and> cap_isolated (adapter_capabilities sample_adapter) \<and>
      (cfg_token sample_server = [] \<longrightarrow> (\<exists>t. cfg_tls sample_server = Some t \<and> tls_client_cas t \<and> tls_require_and_verify t))) \<or>
    (cfg_security sample_server = SecurityInsecureLocal \<and> cfg_tls sample_server = None \<and> cfg_token sample_server \<noteq> []))"
  using daemon_never_open[OF sample_document_accepted sample_document_run] by blast

subsection \<open>Saving and loading\<close>

lemma new_name [simp]: "p @ ''.new'' \<noteq> p"
  by simp

lemma save_config_cases:
  "save_config uni duration marshal we re ce path cfg fs = (fs', r) \<Longrightarrow>
   (\<exists>e. r = Inl e \<and> fs' path = fs path) \<or>
   (\<exists>cfg' bs. path \<noteq> '''' \<and> validate_config uni duration cfg = Inr cfg' \<and> marshal cfg' = Some bs \<and>
      fs' = fs(path \<mapsto> bs @ [0x0A], path @ ''.new'' := None) \<and>
      r = (case ce of Some e \<Rightarrow> Inl (OpError ''config'' e) | None \<Rightarrow> Inr ()))"
  by (auto simp: save_config_def Let_def config_error_def split: if_splits sum.splits option.splits prod.splits)

text \<open>
  Saving and loading an operator document. A document that \<open>Save\<close> refuses, for whatever
  reason but a failing \<open>chmod\<close>, leaves the file as it was. One it accepts is written whole, leaves
  no \<open>.new\<close> file, touches no other file, and reads back by \<open>Load\<close> as the document validation made
  of it; the grace period, which is not in the file, is parsed again. \<open>parsed\<close> is \<open>json.Unmarshal\<close>
  and \<open>marshal\<close> is \<open>json.MarshalIndent\<close>: what the second wrote of the accepted document the first
  reads back, without the field that is excluded from the encoding.
\<close>
lemma config_save_load:
  assumes saved: "save_config uni duration marshal we re ce path cfg fs = (fs', r)"
    and json: "\<forall>cfg' bs. validate_config uni duration cfg = Inr cfg' \<longrightarrow> marshal cfg' = Some bs \<longrightarrow>
                 parsed (bs @ [0x0A]) = Some (cfg'\<lparr>dc_grace := 0\<rparr>)"
  shows "(ce = None \<and> r \<noteq> Inr () \<longrightarrow> fs' path = fs path) \<and>
     (r = Inr () \<longrightarrow>
       (\<exists>cfg' raw. validate_config uni duration cfg = Inr cfg' \<and> fs' path = Some raw \<and> fs' (path @ ''.new'') = None \<and>
          load_config uni duration path (Inr raw) parsed =
            Inr (if dc_grace_text cfg' = '''' then cfg'\<lparr>dc_grace := 0\<rparr> else cfg'))) \<and>
     (\<forall>p. p \<noteq> path \<longrightarrow> p \<noteq> path @ ''.new'' \<longrightarrow> fs' p = fs p)"
proof (intro conjI)
  show "ce = None \<and> r \<noteq> Inr () \<longrightarrow> fs' path = fs path"
    using save_config_cases[OF saved] by auto
  show "\<forall>p. p \<noteq> path \<longrightarrow> p \<noteq> path @ ''.new'' \<longrightarrow> fs' p = fs p"
    using saved by (auto simp: save_config_def Let_def config_error_def split: if_splits sum.splits option.splits prod.splits)
  show "r = Inr () \<longrightarrow>
       (\<exists>cfg' raw. validate_config uni duration cfg = Inr cfg' \<and> fs' path = Some raw \<and> fs' (path @ ''.new'') = None \<and>
          load_config uni duration path (Inr raw) parsed =
            Inr (if dc_grace_text cfg' = '''' then cfg'\<lparr>dc_grace := 0\<rparr> else cfg'))"
  proof
    assume "r = Inr ()"
    then obtain cfg' bs where c: "path \<noteq> ''''" "validate_config uni duration cfg = Inr cfg'" "marshal cfg' = Some bs"
      "fs' = fs(path \<mapsto> bs @ [0x0A], path @ ''.new'' := None)"
      using save_config_cases[OF saved] by auto
    then have "parsed (bs @ [0x0A]) = Some (cfg'\<lparr>dc_grace := 0\<rparr>)" using json by blast
    then have "load_config uni duration path (Inr (bs @ [0x0A])) parsed =
        Inr (if dc_grace_text cfg' = '''' then cfg'\<lparr>dc_grace := 0\<rparr> else cfg')"
      using c(1) accepted_unset_grace[OF validate_accepted[OF c(2)]] by (simp add: load_config_def)
    with c show "\<exists>cfg' raw. validate_config uni duration cfg = Inr cfg' \<and> fs' path = Some raw \<and> fs' (path @ ''.new'') = None \<and>
          load_config uni duration path (Inr raw) parsed =
            Inr (if dc_grace_text cfg' = '''' then cfg'\<lparr>dc_grace := 0\<rparr> else cfg')"
      by auto
  qed
qed

lemma config_save_load_witness:
  "load_config id (\<lambda>_. Some 5) ''c'' (Inr [0x0A]) (\<lambda>_. Some (sample_accepted\<lparr>dc_grace := 0\<rparr>)) = Inr sample_accepted"
proof -
  have saved: "save_config id (\<lambda>_. Some 5) (\<lambda>_. Some []) None None None ''c'' sample_document (\<lambda>_. None)
      = ((\<lambda>_. None)(''c'' \<mapsto> [0x0A]), Inr ())"
    by (auto simp: save_config_def sample_document_accepted Let_def)
  have "\<forall>cfg' bs. validate_config id (\<lambda>_. Some 5) sample_document = Inr cfg' \<longrightarrow> Some [] = Some bs \<longrightarrow>
      Some (sample_accepted\<lparr>dc_grace := 0\<rparr>) = Some (cfg'\<lparr>dc_grace := 0\<rparr>)"
    by (simp add: sample_document_accepted)
  from config_save_load[OF saved this, THEN conjunct2, THEN conjunct1] obtain cfg' where
    "validate_config id (\<lambda>_. Some 5) sample_document = Inr cfg'"
    "load_config id (\<lambda>_. Some 5) ''c'' (Inr [0x0A]) (\<lambda>_. Some (sample_accepted\<lparr>dc_grace := 0\<rparr>)) =
       Inr (if dc_grace_text cfg' = '''' then cfg'\<lparr>dc_grace := 0\<rparr> else cfg')" by (auto simp: id_def)
  moreover have "dc_grace_text sample_accepted \<noteq> ''''" by (simp add: sample_accepted_def sample_document_def)
  ultimately show ?thesis by (simp only: sample_document_accepted sum.inject simp_thms if_False)
qed

end
