(* ===== verification/Agent_Watch.thy ===== *)
theory Agent_Watch
  imports Agent_Disk_Props Watch_Log
begin

text \<open>
  How the agent finds out what the guest changed (\<open>agent/watch.go\<close>): a scan of the home directory and
  the difference of two scans. The hash function is an argument, and so are the orders in which
  Go's iteration over a map finds its keys.
\<close>

subsection \<open>Scanning\<close>

record file_meta =
  fm_dir :: bool
  fm_hash :: bytes

type_synonym scan = "string \<rightharpoonup> file_meta"

text \<open>\<open>filepath.Rel\<close> and \<open>ToSlash\<close> for a path below the home directory.\<close>

definition rel_path :: "fpath \<Rightarrow> fpath \<Rightarrow> string" where
  "rel_path h p = join_with CHR ''/'' (drop (length h) p)"

text \<open>
  \<open>filepath.WalkDir\<close> comes to a path when every directory above it can be listed and none of them is
  skipped. \<open>bad p\<close>: the directory cannot be listed or the file cannot be read.
\<close>

definition walk_reaches :: "(fpath \<Rightarrow> bool) \<Rightarrow> fpath \<Rightarrow> fpath \<Rightarrow> bool" where
  "walk_reaches bad h p \<longleftrightarrow>
     list_all (\<lambda>k. \<not> bad (take k p) \<and> (k = length h \<or> valid_path (rel_path h (take k p)))) [length h..<length p]"

text \<open>\<open>hashFile\<close> and the entry the walk makes; \<open>None\<close> for a file that cannot be read.\<close>

definition meta_of :: "(bytes \<Rightarrow> bytes) \<Rightarrow> (fpath \<Rightarrow> bool) \<Rightarrow> fpath \<Rightarrow> entry \<Rightarrow> file_meta option" where
  "meta_of sha bad p e =
     (case e of
        Dir \<Rightarrow> Some \<lparr>fm_dir = True, fm_hash = replicate 32 0\<rparr>
      | File d \<Rightarrow> if bad p then None else Some \<lparr>fm_dir = False, fm_hash = sha d\<rparr>)"

definition scan_entry :: "(bytes \<Rightarrow> bytes) \<Rightarrow> (fpath \<Rightarrow> bool) \<Rightarrow> fpath \<Rightarrow> fpath \<times> entry \<Rightarrow> (string \<times> file_meta) option" where
  "scan_entry sha bad h x =
     (if \<not> is_below h (fst x) \<or> fst x = h \<or> \<not> walk_reaches bad h (fst x) then None
      else if \<not> valid_path (rel_path h (fst x)) then None
      else map_option (Pair (rel_path h (fst x))) (meta_of sha bad (fst x) (snd x)))"

definition scan_home :: "(bytes \<Rightarrow> bytes) \<Rightarrow> (fpath \<Rightarrow> bool) \<Rightarrow> fpath \<Rightarrow> files \<Rightarrow> scan" where
  "scan_home sha bad h fs = map_of (List.map_filter (scan_entry sha bad h) fs)"

subsection \<open>Differences\<close>

definition change :: "op \<Rightarrow> string \<Rightarrow> string \<Rightarrow> event" where
  "change o' path from = \<lparr>ev_cursor = '''', ev_op = o', ev_path = path, ev_from = from\<rparr>"

text \<open>The three lists the two loops of \<open>diffSnap\<close> build; \<open>old_keys\<close> and \<open>next_keys\<close> are their orders.\<close>

definition snap_deleted :: "scan \<Rightarrow> string list \<Rightarrow> string list" where
  "snap_deleted nxt old_keys = filter (\<lambda>p. nxt p = None) old_keys"

definition snap_changed :: "scan \<Rightarrow> scan \<Rightarrow> string \<Rightarrow> bool" where
  "snap_changed old nxt p =
     (case (old p, nxt p) of
        (Some meta, Some cur) \<Rightarrow> \<not> fm_dir meta \<and> \<not> fm_dir cur \<and> fm_hash meta \<noteq> fm_hash cur
      | _ \<Rightarrow> False)"

definition snap_created :: "scan \<Rightarrow> string list \<Rightarrow> string list" where
  "snap_created old next_keys = filter (\<lambda>p. old p = None) next_keys"

text \<open>One disappears and one appears with the same hash, and neither is a directory.\<close>

definition is_rename :: "scan \<Rightarrow> scan \<Rightarrow> string list \<Rightarrow> string list \<Rightarrow> bool" where
  "is_rename old nxt deleted created =
     (case (deleted, created) of
        ([d], [c]) \<Rightarrow>
          (case (old d, nxt c) of
             (Some a, Some b) \<Rightarrow> \<not> fm_dir a \<and> \<not> fm_dir b \<and> fm_hash a = fm_hash b
           | _ \<Rightarrow> False)
      | _ \<Rightarrow> False)"

definition diff_snap :: "scan \<Rightarrow> scan \<Rightarrow> string list \<Rightarrow> string list \<Rightarrow> event list" where
  "diff_snap old nxt old_keys next_keys =
     (let deleted = snap_deleted nxt old_keys;
          events = map (\<lambda>p. change OpReplace p '''') (filter (snap_changed old nxt) old_keys);
          created = snap_created old next_keys
      in if is_rename old nxt deleted created then events @ [change OpMove (hd created) (hd deleted)]
         else events @ map (\<lambda>p. change OpDelete p '''') deleted @ map (\<lambda>p. change OpCreate p '''') created)"

subsection \<open>What a difference says\<close>

text \<open>
  A reader of the events keeps what it knows of each path: \<open>Some (Some m)\<close> when it knows the
  contents, \<open>Some None\<close> when it has to fetch them.
\<close>

type_synonym reader = "string \<rightharpoonup> file_meta option"

fun follow :: "event list \<Rightarrow> reader \<Rightarrow> reader" where
  "follow [] v = v"
| "follow (ev # evs) v =
     follow evs
       (if ev_op ev = OpDelete then v(ev_path ev := None)
        else if ev_op ev = OpMove then v(ev_from ev := None, ev_path ev := v (ev_from ev))
        else v(ev_path ev \<mapsto> None))"

lemma follow_append [simp]: "follow (a @ b) v = follow b (follow a v)"
  by (induction a v rule: follow.induct) auto

lemma follow_fetch:
  "o' = OpReplace \<or> o' = OpCreate \<Longrightarrow> follow (map (\<lambda>p. change o' p '''') ps) v p = (if p \<in> set ps then Some None else v p)"
  by (induction ps arbitrary: v) (auto simp: change_def)

lemma follow_delete: "follow (map (\<lambda>p. change OpDelete p '''') ps) v p = (if p \<in> set ps then None else v p)"
  by (induction ps arbitrary: v) (auto simp: change_def)

lemma follow_move: "follow [change OpMove c d] v = v(d := None, c := v d)"
  by (simp add: change_def)

definition reader_of :: "scan \<Rightarrow> reader" where
  "reader_of m = map_option Some \<circ> m"

text \<open>A path that is a file in one scan and a directory in the other.\<close>

definition kind_swapped :: "scan \<Rightarrow> scan \<Rightarrow> string \<Rightarrow> bool" where
  "kind_swapped old nxt p \<longleftrightarrow>
     (case (old p, nxt p) of (Some a, Some b) \<Rightarrow> fm_dir a \<noteq> fm_dir b | _ \<Rightarrow> False)"

definition wf_scan :: "scan \<Rightarrow> bool" where
  "wf_scan m \<longleftrightarrow> (\<forall>p a. m p = Some a \<longrightarrow> fm_dir a \<longrightarrow> fm_hash a = replicate 32 0)"

lemma keys_iff: "set ks = dom m \<Longrightarrow> p \<in> set ks \<longleftrightarrow> m p \<noteq> None"
  by (simp add: domIff)

lemma deleted_iff: "set ks = dom old \<Longrightarrow> p \<in> set (snap_deleted nxt ks) \<longleftrightarrow> old p \<noteq> None \<and> nxt p = None"
  by (auto simp: snap_deleted_def keys_iff)

lemma created_iff: "set ks = dom nxt \<Longrightarrow> p \<in> set (snap_created old ks) \<longleftrightarrow> nxt p \<noteq> None \<and> old p = None"
  by (auto simp: snap_created_def keys_iff)

lemma changed_iff:
  "set ks = dom old \<Longrightarrow> p \<in> set (filter (snap_changed old nxt) ks) \<longleftrightarrow> snap_changed old nxt p"
  by (auto simp: snap_changed_def keys_iff split: option.splits)

lemma changed_neq:
  assumes "wf_scan old" "wf_scan nxt" "\<not> kind_swapped old nxt p" "old p = Some a" "nxt p = Some b"
  shows "snap_changed old nxt p \<longleftrightarrow> a \<noteq> b"
proof -
  have "fm_dir a = fm_dir b" using assms(3-5) by (simp add: kind_swapped_def)
  moreover have "fm_dir a \<Longrightarrow> fm_hash a = fm_hash b" using assms calculation unfolding wf_scan_def by metis
  ultimately show ?thesis using assms(4,5) by (cases a; cases b) (auto simp: snap_changed_def)
qed

lemma is_renameE:
  assumes "is_rename old nxt deleted created"
  obtains d c m where "deleted = [d]" "created = [c]" "old d = Some m" "nxt c = Some m"
proof -
  obtain d c where dc: "deleted = [d]" "created = [c]"
    using assms by (auto simp: is_rename_def split: list.splits)
  with assms obtain a b where "old d = Some a" "nxt c = Some b" "fm_dir a = fm_dir b" "fm_hash a = fm_hash b"
    by (auto simp: is_rename_def split: option.splits)
  then show ?thesis using dc that by (cases a; cases b) auto
qed

definition rename_target :: "scan \<Rightarrow> scan \<Rightarrow> string list \<Rightarrow> string list \<Rightarrow> string \<Rightarrow> bool" where
  "rename_target old nxt old_keys next_keys p \<longleftrightarrow>
     is_rename old nxt (snap_deleted nxt old_keys) (snap_created old next_keys) \<and> snap_created old next_keys = [p]"

lemma follow_diff:
  assumes "set old_keys = dom old" "set next_keys = dom nxt" "wf_scan old" "wf_scan nxt" "\<not> kind_swapped old nxt p"
  shows "follow (diff_snap old nxt old_keys next_keys) (reader_of old) p =
    (case nxt p of
       None \<Rightarrow> None
     | Some b \<Rightarrow> Some (if old p = Some b \<or> rename_target old nxt old_keys next_keys p then Some b else None))"
proof -
  define del cre rep where "del = snap_deleted nxt old_keys" and "cre = snap_created old next_keys"
    and "rep = filter (snap_changed old nxt) old_keys"
  note folds = del_def[symmetric] cre_def[symmetric] rep_def[symmetric]
  have del: "q \<in> set del \<longleftrightarrow> old q \<noteq> None \<and> nxt q = None" for q
    unfolding del_def by (rule deleted_iff[OF assms(1)])
  have cre: "q \<in> set cre \<longleftrightarrow> nxt q \<noteq> None \<and> old q = None" for q
    unfolding cre_def by (rule created_iff[OF assms(2)])
  have rep: "q \<in> set rep \<longleftrightarrow> snap_changed old nxt q" for q
    unfolding rep_def by (rule changed_iff[OF assms(1)])
  have same: "snap_changed old nxt p \<longleftrightarrow> a \<noteq> b" if "old p = Some a" "nxt p = Some b" for a b
    using changed_neq[OF assms(3-5)] that by blast
  have nrep: "old q = None \<or> nxt q = None \<Longrightarrow> \<not> snap_changed old nxt q" for q
    by (auto simp: snap_changed_def split: option.splits)
  define v where "v = follow (map (\<lambda>p. change OpReplace p '''') rep) (reader_of old)"
  have v: "v q = (if snap_changed old nxt q then Some None else map_option Some (old q))" for q
    by (simp add: v_def follow_fetch rep reader_of_def)
  show ?thesis
  proof (cases "is_rename old nxt del cre")
    case True
    then obtain d c m where dc: "del = [d]" "cre = [c]" "old d = Some m" "nxt c = Some m" by (rule is_renameE)
    then have dn: "nxt d = None" "old c = None" using del[of d] cre[of c] by auto
    have "follow (diff_snap old nxt old_keys next_keys) (reader_of old) p = (v(d := None, c := v d)) p"
      using True dc by (simp add: diff_snap_def Let_def folds follow_move v_def del: follow.simps)
    moreover have "v d = Some (Some m)" using v[of d] nrep[of d] dn dc by simp
    moreover have "rename_target old nxt old_keys next_keys p \<longleftrightarrow> p = c"
      using True dc by (auto simp: rename_target_def folds)
    moreover have "p \<noteq> d \<Longrightarrow> old p \<noteq> None \<Longrightarrow> nxt p \<noteq> None" "p \<noteq> c \<Longrightarrow> nxt p \<noteq> None \<Longrightarrow> old p \<noteq> None"
      using del[of p] cre[of p] dc by auto
    ultimately show ?thesis
      using v[of p] nrep[of p] same dn dc by (cases "old p"; cases "nxt p") auto
  next
    case False
    have "follow (diff_snap old nxt old_keys next_keys) (reader_of old) p =
      (if p \<in> set cre then Some None else if p \<in> set del then None else v p)"
      using False by (simp add: diff_snap_def Let_def folds follow_fetch follow_delete v_def)
    moreover have "\<not> rename_target old nxt old_keys next_keys p"
      using False by (simp add: rename_target_def folds)
    ultimately show ?thesis
      using v[of p] nrep[of p] same del[of p] cre[of p] by (cases "old p"; cases "nxt p") auto
  qed
qed

subsection \<open>What a scan sees\<close>

lemma utf8_cases:
  "utf8_valid (x # s) \<longleftrightarrow>
     (ord_of x < 128 \<and> utf8_valid s) \<or>
     (\<exists>y t. s = y # t \<and> \<not> ord_of x < 128 \<and> in_range x 194 223 \<and> cont_byte y \<and> utf8_valid t) \<or>
     (\<exists>y z t. s = y # z # t \<and> \<not> ord_of x < 128 \<and> \<not> in_range x 194 223 \<and> in_range x 224 239 \<and>
        in_range y (if ord_of x = 224 then 160 else 128) (if ord_of x = 237 then 159 else 191) \<and> cont_byte z \<and> utf8_valid t) \<or>
     (\<exists>y z w t. s = y # z # w # t \<and> \<not> ord_of x < 128 \<and> \<not> in_range x 194 223 \<and> \<not> in_range x 224 239 \<and> in_range x 240 244 \<and>
        in_range y (if ord_of x = 240 then 144 else 128) (if ord_of x = 244 then 143 else 191) \<and>
        cont_byte z \<and> cont_byte w \<and> utf8_valid t)"
  by (subst utf8_valid.simps(2)) (simp split: list.split del: utf8_valid.simps)

lemma utf8_valid_cut: "utf8_valid (a @ c # b) \<Longrightarrow> ord_of c < 128 \<Longrightarrow> utf8_valid a"
proof (induction a rule: length_induct)
  case (1 a)
  have c: "\<not> cont_byte c" "\<And>lo hi. 128 \<le> lo \<Longrightarrow> \<not> in_range c lo hi"
    using "1.prems"(2) by (auto simp: cont_byte_def in_range_def)
  have IH: "utf8_valid t" if "length t < length a" "utf8_valid (t @ c # b)" for t using 1 that by blast
  show ?case
  proof (cases a)
    case (Cons x s)
    have "utf8_valid (x # s @ c # b)" using "1.prems"(1) Cons by simp
    then consider "ord_of x < 128" "utf8_valid (s @ c # b)"
      | y t where "s @ c # b = y # t" "\<not> ord_of x < 128" "in_range x 194 223" "cont_byte y" "utf8_valid t"
      | y z t where "s @ c # b = y # z # t" "\<not> ord_of x < 128" "\<not> in_range x 194 223" "in_range x 224 239"
          "in_range y (if ord_of x = 224 then 160 else 128) (if ord_of x = 237 then 159 else 191)" "cont_byte z" "utf8_valid t"
      | y z w t where "s @ c # b = y # z # w # t" "\<not> ord_of x < 128" "\<not> in_range x 194 223" "\<not> in_range x 224 239" "in_range x 240 244"
          "in_range y (if ord_of x = 240 then 144 else 128) (if ord_of x = 244 then 143 else 191)" "cont_byte z" "cont_byte w" "utf8_valid t"
      unfolding utf8_cases by blast
    then show ?thesis
    proof cases
      case 1
      then show ?thesis using IH[of s] Cons by simp
    next
      case (2 y t)
      then obtain s' where "s = y # s'" "t = s' @ c # b" using c by (cases s) auto
      then show ?thesis using 2 IH[of s'] Cons unfolding utf8_cases[of x s] by simp
    next
      case (3 y z t)
      then obtain s' where "s = y # z # s'" "t = s' @ c # b" using c by (auto simp: Cons_eq_append_conv append_eq_Cons_conv split: if_splits)
      then show ?thesis using 3 IH[of s'] Cons unfolding utf8_cases[of x s] by simp
    next
      case (4 y z w t)
      then obtain s' where "s = y # z # w # s'" "t = s' @ c # b" using c by (auto simp: Cons_eq_append_conv append_eq_Cons_conv split: if_splits)
      then show ?thesis using 4 IH[of s'] Cons unfolding utf8_cases[of x s] by simp
    qed
  qed simp
qed

lemma join_append: "xs \<noteq> [] \<Longrightarrow> ys \<noteq> [] \<Longrightarrow> join_with c (xs @ ys) = join_with c xs @ c # join_with c ys"
  by (induction c xs rule: join_with.induct) (auto simp: neq_Nil_conv)

text \<open>What stands above a valid path is valid, so skipping a directory loses nothing.\<close>

lemma valid_path_above:
  assumes "valid_path (join_with CHR ''/'' (xs @ ys))" "xs \<noteq> []" "\<forall>q \<in> set (xs @ ys). CHR ''/'' \<notin> set q"
  shows "valid_path (join_with CHR ''/'' xs)"
proof (cases "ys = []")
  case False
  have s: "split_on CHR ''/'' (join_with CHR ''/'' (xs @ ys)) = xs @ ys"
    using assms(2,3) by (intro split_join_with) auto
  have "split_on CHR ''/'' (join_with CHR ''/'' xs) = xs"
    using assms(2,3) by (intro split_join_with) auto
  moreover have "utf8_valid (join_with CHR ''/'' xs @ CHR ''/'' # join_with CHR ''/'' ys)"
    using assms(1) join_append[OF assms(2) False] by (simp add: valid_path_split)
  then have "utf8_valid (join_with CHR ''/'' xs)" by (rule utf8_valid_cut) simp
  moreover note calculation
  ultimately show ?thesis
    using assms(1) s join_append[OF assms(2) False, of "CHR ''/''"] by (auto simp: valid_path_split)
qed (use assms(1) in simp)

definition plain_names :: "fpath \<Rightarrow> files \<Rightarrow> bool" where
  "plain_names h fs \<longleftrightarrow> (\<forall>x \<in> set fs. \<forall>q \<in> set (drop (length h) (fst x)). CHR ''/'' \<notin> set q)"

lemma split_rel_path:
  assumes "is_below h p" "p \<noteq> h" "\<forall>q \<in> set (drop (length h) p). CHR ''/'' \<notin> set q"
  shows "rel_path h p = r \<longleftrightarrow> p = h @ split_on CHR ''/'' r"
proof -
  obtain t where t: "p = h @ t" "t \<noteq> []" using assms(1,2) by (auto simp: is_below_ex)
  have "split_on CHR ''/'' (join_with CHR ''/'' t) = t" using t assms(3) by (intro split_join_with) auto
  then show ?thesis using t by (auto simp: rel_path_def)
qed

lemma walk_reaches_valid:
  assumes "is_below h p" "\<forall>q \<in> set (drop (length h) p). CHR ''/'' \<notin> set q" "valid_path (rel_path h p)"
  shows "walk_reaches (\<lambda>_. False) h p"
proof -
  obtain t where t: "p = h @ t" using assms(1) by (auto simp: is_below_ex)
  have "valid_path (join_with CHR ''/'' (take j t))" if "0 < j" "j < length t" for j
  proof (rule valid_path_above)
    show "valid_path (join_with CHR ''/'' (take j t @ drop j t))" using assms(3) t by (simp add: rel_path_def)
    show "take j t \<noteq> []" using that by auto
    show "\<forall>q \<in> set (take j t @ drop j t). CHR ''/'' \<notin> set q" using assms(2) t by simp
  qed
  then have "k = length h \<or> valid_path (join_with CHR ''/'' (take (k - length h) t))"
    if "length h \<le> k" "k < length h + length t" for k
    using that by (cases "k = length h") auto
  then show ?thesis by (auto simp: walk_reaches_def list_all_iff t rel_path_def)
qed

lemma scan_exact:
  assumes "plain_names h fs"
  shows "scan_home sha (\<lambda>_. False) h fs r =
    (if valid_path r then Option.bind (at fs (h @ split_on CHR ''/'' r)) (meta_of sha (\<lambda>_. False) h) else None)"
  using assms unfolding scan_home_def
proof (induction fs)
  case (Cons x fs)
  obtain p e where x: "x = (p, e)" by fastforce
  have fs: "plain_names h fs" and p: "\<forall>q \<in> set (drop (length h) p). CHR ''/'' \<notin> set q"
    using Cons.prems x by (simp_all add: plain_names_def)
  have meta: "meta_of sha (\<lambda>_. False) p e = meta_of sha (\<lambda>_. False) h e" "meta_of sha (\<lambda>_. False) h e \<noteq> None"
    by (auto simp: meta_of_def split: entry.splits)
  have here: "scan_entry sha (\<lambda>_. False) h x =
      (if is_below h p \<and> p \<noteq> h \<and> valid_path (rel_path h p) then Some (rel_path h p, the (meta_of sha (\<lambda>_. False) h e)) else None)"
    using walk_reaches_valid[OF _ p] meta x by (auto simp: scan_entry_def)
  note IH = Cons.IH[OF fs]
  show ?case
  proof (cases "is_below h p \<and> p \<noteq> h")
    case True
    then show ?thesis using split_rel_path[of h p r] p here IH meta(2) x
      by (auto simp: List.map_filter_simps)
  next
    case False
    moreover have "h @ split_on CHR ''/'' r \<noteq> p"
      using False split_on_nonempty[of "CHR ''/''" r] by (metis append_self_conv is_below_append)
    ultimately show ?thesis using here IH x by (auto simp: List.map_filter_simps)
  qed
qed (simp add: List.map_filter_simps)

lemma wf_scan_home: "wf_scan (scan_home sha bad h fs)"
proof -
  have "fm_dir a \<Longrightarrow> fm_hash a = replicate 32 0" if "(p, a) \<in> set (List.map_filter (scan_entry sha bad h) fs)" for p a
    using that by (auto simp: List.map_filter_def scan_entry_def meta_of_def split: if_splits entry.splits)
  then show ?thesis unfolding wf_scan_def scan_home_def by (meson map_of_SomeD)
qed

text \<open>
  C35. A poll reports the guest's changes exactly. For two scans of a home directory and any iteration
  orders of their maps, a reader who knew the first scan and follows the events of \<open>diffSnap\<close> then
  has exactly the valid paths that are on the disk, knows the contents of those that did not change
  and of the target of a rename, and has to fetch all the others; the only paths excepted are those
  that changed between file and directory.
\<close>
theorem agent_diff_exact:
  assumes "plain_names h fs" "plain_names h fs'"
    and "old = scan_home sha (\<lambda>_. False) h fs" "nxt = scan_home sha (\<lambda>_. False) h fs'"
    and "set old_keys = dom old" "set next_keys = dom nxt" "\<not> kind_swapped old nxt p"
  shows "follow (diff_snap old nxt old_keys next_keys) (reader_of old) p =
    (case (if valid_path p then at fs' (h @ split_on CHR ''/'' p) else None) of
       None \<Rightarrow> None
     | Some e \<Rightarrow>
         Some (if old p = nxt p \<or> rename_target old nxt old_keys next_keys p
               then Some \<lparr>fm_dir = (e = Dir), fm_hash = (case e of Dir \<Rightarrow> replicate 32 0 | File d \<Rightarrow> sha d)\<rparr>
               else None))"
proof -
  have "wf_scan old" "wf_scan nxt" using assms(3,4) wf_scan_home by auto
  then have "follow (diff_snap old nxt old_keys next_keys) (reader_of old) p =
    (case nxt p of
       None \<Rightarrow> None
     | Some b \<Rightarrow> Some (if old p = Some b \<or> rename_target old nxt old_keys next_keys p then Some b else None))"
    using follow_diff assms(5-7) by blast
  moreover have "nxt p = (if valid_path p then Option.bind (at fs' (h @ split_on CHR ''/'' p)) (meta_of sha (\<lambda>_. False) h) else None)"
    using scan_exact[OF assms(2)] assms(4) by simp
  ultimately show ?thesis
    by (auto simp: meta_of_def split: option.splits entry.splits)
qed

definition two_disks :: "files \<times> files" where
  "two_disks =
     ([([''h''], Dir), ([''h'', ''a''], File [1]), ([''h'', ''b''], File [2])],
      [([''h''], Dir), ([''h'', ''c''], File [1]), ([''h'', ''b''], File [3])])"

lemma agent_diff_exact_witness:
  "(let old = scan_home (\<lambda>d. d) (\<lambda>_. False) [''h''] (fst two_disks);
        nxt = scan_home (\<lambda>d. d) (\<lambda>_. False) [''h''] (snd two_disks)
    in follow (diff_snap old nxt [''b'', ''a''] [''b'', ''c'']) (reader_of old) ''c'' =
       Some (Some \<lparr>fm_dir = False, fm_hash = [1]\<rparr>))"
proof -
  define old nxt where "old = scan_home (\<lambda>d. d) (\<lambda>_. False) [''h''] (fst two_disks)"
    and "nxt = scan_home (\<lambda>d. d) (\<lambda>_. False) [''h''] (snd two_disks)"
  have valid: "valid_path ''a''" "valid_path ''b''" "valid_path ''c''" by code_simp+
  have maps: "old = [''a'' \<mapsto> \<lparr>fm_dir = False, fm_hash = [1]\<rparr>, ''b'' \<mapsto> \<lparr>fm_dir = False, fm_hash = [2]\<rparr>]"
    "nxt = [''c'' \<mapsto> \<lparr>fm_dir = False, fm_hash = [1]\<rparr>, ''b'' \<mapsto> \<lparr>fm_dir = False, fm_hash = [3]\<rparr>]"
    by (auto simp: old_def nxt_def two_disks_def scan_home_def scan_entry_def List.map_filter_simps is_below_def
        walk_reaches_def meta_of_def rel_path_def valid)
  have dom: "set [''b'', ''a''] = dom old" "set [''b'', ''c''] = dom nxt" by (auto simp: maps)
  have plain: "plain_names [''h''] (fst two_disks)" "plain_names [''h''] (snd two_disks)"
    by (auto simp: plain_names_def two_disks_def)
  have kind: "\<not> kind_swapped old nxt ''c''" by (simp add: kind_swapped_def maps)
  have target: "rename_target old nxt [''b'', ''a''] [''b'', ''c''] ''c''"
    by (simp add: rename_target_def is_rename_def snap_deleted_def snap_created_def maps)
  show ?thesis
    unfolding Let_def old_def[symmetric] nxt_def[symmetric]
    using agent_diff_exact[OF plain old_def nxt_def dom kind] target valid(3)
    by (simp add: two_disks_def)
qed

text \<open>A file that a directory of the same name replaces, empty or not, is not reported.\<close>

lemma kind_swap_unreported:
  "diff_snap [''a'' \<mapsto> \<lparr>fm_dir = False, fm_hash = h\<rparr>] [''a'' \<mapsto> \<lparr>fm_dir = True, fm_hash = replicate 32 0\<rparr>] [''a''] [''a''] = []"
  by (simp add: diff_snap_def snap_deleted_def snap_created_def snap_changed_def is_rename_def)

text \<open>Not even a scan error is told from a deletion: a file that cannot be read is reported as deleted.\<close>

lemma unreadable_reported_deleted:
  "diff_snap (scan_home sha (\<lambda>_. False) [''h''] [([''h'', ''a''], File d)]) (scan_home sha (\<lambda>p. p = [''h'', ''a'']) [''h''] [([''h'', ''a''], File d)])
     [''a''] [] = [change OpDelete ''a'' '''']"
proof -
  have valid: "valid_path ''a''" by code_simp
  show ?thesis
    by (simp add: diff_snap_def snap_deleted_def snap_created_def snap_changed_def is_rename_def scan_home_def scan_entry_def
        List.map_filter_simps is_below_def walk_reaches_def meta_of_def rel_path_def valid)
qed

end
