(* ===== verification/Agent_Server.thy ===== *)
theory Agent_Server
  imports Agent_Watch Remote_Server
begin

text \<open>
  The agent's side of its connection (\<open>agent/server.go\<close>, the polling of \<open>agent/watch.go\<close>, the shell of
  \<open>agent/pty_unix.go\<close>): one state behind one lock, one function per locked section. The operating
  system and the connection are arguments; what they answer is indexed by \<open>ag_tick\<close>, the number of
  times the agent asked. JSON is a record of functions, as in theory Remote_Server.
\<close>

subsection \<open>State\<close>

record agent_env =
  ge_home :: string
  ge_io :: io
  ge_sha :: "bytes \<Rightarrow> bytes"
  ge_unreadable :: "nat \<Rightarrow> fpath \<Rightarrow> bool"
  ge_send :: "nat \<Rightarrow> go_error option"
  ge_epoch :: "nat \<Rightarrow> string"
  ge_order :: "nat \<Rightarrow> snapshot \<Rightarrow> (string \<times> tree_node) list"
  ge_keys :: "nat \<Rightarrow> scan \<Rightarrow> string list"
  ge_shell :: "nat \<Rightarrow> bool"
  ge_window :: "nat \<Rightarrow> go_error option"

text \<open>
  \<open>sh_open\<close>: the agent holds the master end of the pseudo-terminal. \<open>sh_reaped\<close>: the process has been
  waited for. \<open>cmd.ProcessState\<close>, which \<open>done\<close> looks at, is set by \<open>cmd.Wait\<close> only, and nothing calls
  that: a shell is never done.
\<close>

record shell =
  sh_open :: bool
  sh_reaped :: bool
  sh_window :: window
  sh_input :: bytes

text \<open>
  \<open>ag_copiers\<close>: the running \<open>copyPty\<close> goroutines. \<open>ag_ending\<close>: the last frames of those that have left
  their locked section and not sent it yet. \<open>ag_polling\<close>: \<open>pollStop\<close> is not nil.
\<close>

record agent =
  ag_disk :: disk
  ag_projected :: snapshot
  ag_frozen :: bool
  ag_term :: "nat option"
  ag_term_stream :: uint64
  ag_shells :: "shell list"
  ag_watching :: bool
  ag_watch_stream :: uint64
  ag_watch_err :: "go_error option"
  ag_snap :: scan
  ag_polling :: bool
  ag_log :: watch_log
  ag_copiers :: "(uint64 \<times> nat) list"
  ag_ending :: "frame list"
  ag_sent :: "frame list"
  ag_tick :: nat

text \<open>\<open>Serve\<close> up to its loop.\<close>

definition agent_new :: "agent_env \<Rightarrow> disk \<Rightarrow> agent res" where
  "agent_new env d =
     (if ge_home env = '''' then Inl (OpError ''agent'' (Sent ErrInvalid))
      else (case mkdir_all (ge_io env) (clean_elems (ge_home env)) d of
              (d', Some e) \<Rightarrow> Inl (OpError ''agent'' e)
            | (d', None) \<Rightarrow>
                Inr \<lparr>ag_disk = d', ag_projected = Map.empty, ag_frozen = False, ag_term = None, ag_term_stream = 0,
                     ag_shells = [], ag_watching = False, ag_watch_stream = 0, ag_watch_err = None,
                     ag_snap = Map.empty, ag_polling = False, ag_log = new_log (ge_epoch env 0) (int default_capacity),
                     ag_copiers = [], ag_ending = [], ag_sent = [], ag_tick = 1\<rparr>))"

subsection \<open>Sending and watching\<close>

definition agent_send :: "agent_env \<Rightarrow> frame \<Rightarrow> agent \<Rightarrow> agent \<times> go_error option" where
  "agent_send env f s =
     (let s1 = s\<lparr>ag_tick := Suc (ag_tick s)\<rparr> in
      case ge_send env (ag_tick s) of
        Some e \<Rightarrow> (s1, Some e)
      | None \<Rightarrow> (s1\<lparr>ag_sent := ag_sent s @ [f]\<rparr>, None))"

definition scan_now :: "agent_env \<Rightarrow> agent \<Rightarrow> scan" where
  "scan_now env s =
     scan_home (ge_sha env) (ge_unreadable env (ag_tick s)) (clean_elems (ge_home env)) (ds_files (ag_disk s))"

definition reset_snap :: "agent_env \<Rightarrow> agent \<Rightarrow> agent" where
  "reset_snap env s = s\<lparr>ag_snap := scan_now env s, ag_tick := Suc (ag_tick s)\<rparr>"

definition agent_reset_log :: "agent_env \<Rightarrow> agent \<Rightarrow> agent" where
  "agent_reset_log env s = s\<lparr>ag_log := reset_log (ge_epoch env (ag_tick s)) (ag_log s), ag_tick := Suc (ag_tick s)\<rparr>"

definition stop_poll :: "agent_env \<Rightarrow> go_error \<Rightarrow> agent \<Rightarrow> agent" where
  "stop_poll env err s =
     (let s1 = s\<lparr>ag_watching := False, ag_watch_stream := 0, ag_watch_err := Some err, ag_polling := False\<rparr>
      in if ag_watching s then fst (agent_send env (watch_frame '''' (ag_watch_stream s) [] (Some err)) s1) else s1)"

definition invalidate_watch :: "agent_env \<Rightarrow> go_error \<Rightarrow> agent \<Rightarrow> agent" where
  "invalidate_watch env err s =
     (if \<not> ag_watching s then s
      else fst (agent_send env (watch_frame '''' (ag_watch_stream s) [] (Some err))
             (s\<lparr>ag_watching := False, ag_watch_stream := 0, ag_watch_err := Some err\<rparr>)))"

text \<open>The loop of \<open>diffOnce\<close> over the events, and whether it got to its end.\<close>

fun poll_events :: "agent_env \<Rightarrow> json \<Rightarrow> event list \<Rightarrow> agent \<Rightarrow> agent \<times> bool" where
  "poll_events env js [] s = (s, True)"
| "poll_events env js (ev # evs) s =
     (case append_log (ag_log s) ev of
        (l, ev') \<Rightarrow>
          (let s1 = s\<lparr>ag_log := l\<rparr> in
           if \<not> ag_watching s1 then poll_events env js evs s1
           else (case encode_extra (Some (js_event js ev')) of
                   Inl _ \<Rightarrow> (stop_poll env (Sent ErrUnavailable) s1, False)
                 | Inr raw \<Rightarrow>
                     (case agent_send env (watch_frame '''' (ag_watch_stream s1) raw None) s1 of
                        (s2, Some _) \<Rightarrow> (stop_poll env (Sent ErrClosed) s2, False)
                      | (s2, None) \<Rightarrow> poll_events env js evs s2))))"

definition watch_buffer_agent :: nat where "watch_buffer_agent = default_capacity"

definition diff_once :: "agent_env \<Rightarrow> json \<Rightarrow> agent \<Rightarrow> agent" where
  "diff_once env js s =
     (if \<not> ag_polling s then s
      else
        (let k = ag_tick s; nxt = scan_now env s;
             events = diff_snap (ag_snap s) nxt (ge_keys env k (ag_snap s)) (ge_keys env (Suc k) nxt);
             s1 = s\<lparr>ag_tick := Suc (Suc k)\<rparr>
         in if length events > watch_buffer_agent
            then (agent_reset_log env (invalidate_watch env (Sent ErrLagged) s1))\<lparr>ag_snap := nxt\<rparr>
            else (case poll_events env js events s1 of
                    (s2, False) \<Rightarrow> s2
                  | (s2, True) \<Rightarrow> s2\<lparr>ag_snap := nxt\<rparr>)))"

subsection \<open>Shells\<close>

text \<open>\<open>shell.close\<close> and \<open>killShell\<close>.\<close>

definition shell_close :: "nat \<Rightarrow> agent \<Rightarrow> agent" where
  "shell_close i s = s\<lparr>ag_shells := (ag_shells s)[i := (ag_shells s ! i)\<lparr>sh_open := False, sh_reaped := True\<rparr>]\<rparr>"

definition kill_shell :: "agent \<Rightarrow> agent" where
  "kill_shell s =
     (case ag_term s of
        None \<Rightarrow> s
      | Some i \<Rightarrow> (shell_close i s)\<lparr>ag_term := None, ag_term_stream := 0\<rparr>)"

definition shell_done :: "nat option \<Rightarrow> bool" where
  "shell_done sh = (sh = None)"

text \<open>\<open>pty_end_status\<close>: \<open>hung_up\<close> is \<open>isPtyHangup\<close>, the error a read gets when the shell is gone.\<close>

definition pty_end_status :: "bool \<Rightarrow> bool \<Rightarrow> go_error option \<Rightarrow> string" where
  "pty_end_status frozen hung_up err =
     (if frozen then status_of (Some (Sent ErrFrozen))
      else if err = None \<or> err = Some IoEOF \<or> hung_up then ''''
      else status_of err)"

text \<open>
  One read of \<open>copyPty\<close> that brought bytes; the locked section after one that failed; and the last
  frame.
\<close>

definition copy_data :: "agent_env \<Rightarrow> uint64 \<Rightarrow> bytes \<Rightarrow> agent \<Rightarrow> agent" where
  "copy_data env stream bs s = (if bs = [] then s else fst (agent_send env (pty_frame '''' stream bs None) s))"

definition copy_unlock :: "uint64 \<Rightarrow> nat \<Rightarrow> bool \<Rightarrow> go_error \<Rightarrow> agent \<Rightarrow> agent" where
  "copy_unlock stream i hung_up err s =
     (let s1 = (if ag_term s = Some i then s\<lparr>ag_term := None, ag_term_stream := 0\<rparr> else s);
          last = (pty_frame '''' stream [] None)\<lparr>fr_status := pty_end_status (ag_frozen s) hung_up (Some err)\<rparr>
      in s1\<lparr>ag_copiers := remove1 (stream, i) (ag_copiers s), ag_ending := ag_ending s @ [last]\<rparr>)"

definition copy_last :: "agent_env \<Rightarrow> frame \<Rightarrow> agent \<Rightarrow> agent" where
  "copy_last env f s = fst (agent_send env f (s\<lparr>ag_ending := remove1 f (ag_ending s)\<rparr>))"

subsection \<open>Handlers\<close>

definition agent_guard :: "agent \<Rightarrow> go_error option" where
  "agent_guard s = (if ag_frozen s then Some (Sent ErrFrozen) else None)"

definition agent_replace :: "agent_env \<Rightarrow> json \<Rightarrow> go_error option \<Rightarrow> frame \<Rightarrow> agent \<Rightarrow> agent \<times> bytes res" where
  "agent_replace env js ctx f s =
     (case ctx of
        Some e \<Rightarrow> (s, Inl e)
      | None \<Rightarrow>
     (case decode_extra (js_replace js) [] (fr_extra f) of
        Inl _ \<Rightarrow> (s, Inl (Sent ErrInvalid))
      | Inr tree \<Rightarrow>
     (case agent_guard s of
        Some e \<Rightarrow> (s, Inl e)
      | None \<Rightarrow>
     (case replace_tree (ag_projected s) tree of
        Inl e \<Rightarrow> (s, Inl e)
      | Inr nxt \<Rightarrow>
     (case rewrite_home (ge_io env) (ge_home env) (ge_order env (ag_tick s) nxt) (ag_disk s) of
        (d, Some e) \<Rightarrow> (s\<lparr>ag_disk := d, ag_tick := Suc (ag_tick s)\<rparr>, Inl e)
      | (d, None) \<Rightarrow>
          (reset_snap env (agent_reset_log env (invalidate_watch env (Sent ErrLagged)
             (s\<lparr>ag_disk := d, ag_tick := Suc (ag_tick s), ag_projected := nxt\<rparr>))), Inr []))))))"

definition agent_apply :: "agent_env \<Rightarrow> json \<Rightarrow> go_error option \<Rightarrow> frame \<Rightarrow> agent \<Rightarrow> agent \<times> bytes res" where
  "agent_apply env js ctx f s =
     (case ctx of
        Some e \<Rightarrow> (s, Inl e)
      | None \<Rightarrow>
     (case decode_extra (js_apply js) [] (fr_extra f) of
        Inl _ \<Rightarrow> (s, Inl (Sent ErrInvalid))
      | Inr batch \<Rightarrow>
     (case agent_guard s of
        Some e \<Rightarrow> (s, Inl e)
      | None \<Rightarrow>
     (case apply_batch (ag_projected s) batch of
        Inl e \<Rightarrow> (s, Inl e)
      | Inr nxt \<Rightarrow>
     (case apply_home (ge_io env) (ge_home env) batch (ag_disk s) of
        (d, Inl e) \<Rightarrow> (s\<lparr>ag_disk := d\<rparr>, Inl e)
      | (d, Inr _) \<Rightarrow> (reset_snap env (s\<lparr>ag_disk := d, ag_projected := nxt\<rparr>), Inr []))))))"

text \<open>\<open>Lstat\<close>, the size check and \<open>ReadFile\<close>; \<open>ge_unreadable\<close> says whether the file can be read.\<close>

definition agent_open :: "agent_env \<Rightarrow> json \<Rightarrow> go_error option \<Rightarrow> frame \<Rightarrow> agent \<Rightarrow> agent \<times> bytes res" where
  "agent_open env js ctx f s =
     (case ctx of
        Some e \<Rightarrow> (s, Inl e)
      | None \<Rightarrow>
     (case decode_extra (js_open js) '''' (fr_extra f) of
        Inl _ \<Rightarrow> (s, Inl (Sent ErrInvalid))
      | Inr path \<Rightarrow>
     (case validate_path path of
        Some e \<Rightarrow> (s, Inl e)
      | None \<Rightarrow>
     (case agent_guard s of
        Some e \<Rightarrow> (s, Inl e)
      | None \<Rightarrow>
     (case disk_path (ge_home env) path of
        Inl e \<Rightarrow> (s, Inl e)
      | Inr full \<Rightarrow>
          (s\<lparr>ag_tick := Suc (ag_tick s)\<rparr>,
           case at (ds_files (ag_disk s)) full of
             Some (File data) \<Rightarrow>
               if length data > max_file_bytes then Inl (Sent ErrTooLarge)
               else if ge_unreadable env (ag_tick s) full then Inl (Sent ErrNotFound)
               else encode_extra (Some (js_body js data))
           | _ \<Rightarrow> Inl (Sent ErrNotFound)))))))"

text \<open>The replay of \<open>watch\<close>.\<close>

fun send_replay :: "agent_env \<Rightarrow> json \<Rightarrow> uint64 \<Rightarrow> event list \<Rightarrow> agent \<Rightarrow> agent \<times> go_error option" where
  "send_replay env js stream [] s = (s, None)"
| "send_replay env js stream (ev # evs) s =
     (case encode_extra (Some (js_event js ev)) of
        Inl _ \<Rightarrow> (s\<lparr>ag_watching := False\<rparr>, Some (Sent ErrUnavailable))
      | Inr raw \<Rightarrow>
          (case agent_send env (watch_frame '''' stream raw None) s of
             (s1, Some _) \<Rightarrow> (s1\<lparr>ag_watching := False\<rparr>, Some (Sent ErrClosed))
           | (s1, None) \<Rightarrow> send_replay env js stream evs s1))"

definition agent_watch :: "agent_env \<Rightarrow> json \<Rightarrow> go_error option \<Rightarrow> frame \<Rightarrow> agent \<Rightarrow> agent \<times> bytes res" where
  "agent_watch env js ctx f s =
     (case ctx of
        Some e \<Rightarrow> (s, Inl e)
      | None \<Rightarrow>
     (case decode_extra (js_watch js) \<lparr>wt_after = '''', wt_stream = 0\<rparr> (fr_extra f) of
        Inl _ \<Rightarrow> (s, Inl (Sent ErrInvalid))
      | Inr args \<Rightarrow>
     if wt_stream args = 0 then (s, Inl (Sent ErrInvalid))
     else
     (case agent_guard s of
        Some e \<Rightarrow> (s, Inl e)
      | None \<Rightarrow>
     if ag_watching s then (s, Inl (Sent ErrBusy))
     else
     (case since_log (ag_log s) (wt_after args) of
        Inl e \<Rightarrow> (s, Inl e)
      | Inr (cur, replay) \<Rightarrow>
          (let s1 = s\<lparr>ag_watching := True, ag_watch_stream := wt_stream args, ag_watch_err := None\<rparr>;
               s2 = (if ag_polling s1 then s1 else (reset_snap env s1)\<lparr>ag_polling := True\<rparr>)
           in case send_replay env js (wt_stream args) replay s2 of
                (s3, Some e) \<Rightarrow> (s3, Inl e)
              | (s3, None) \<Rightarrow> (s3, encode_extra (Some (js_cursor js cur))))))))"

definition agent_unwatch :: "json \<Rightarrow> frame \<Rightarrow> agent \<Rightarrow> agent \<times> bytes res" where
  "agent_unwatch js f s =
     (case decode_extra (js_stream js) 0 (fr_extra f) of
        Inl _ \<Rightarrow> (s, Inl (Sent ErrInvalid))
      | Inr stream \<Rightarrow>
          if stream = 0 then (s, Inl (Sent ErrInvalid))
          else if ag_watch_stream s = stream
          then (s\<lparr>ag_watching := False, ag_watch_stream := 0, ag_watch_err := Some (Sent ErrClosed)\<rparr>, Inr [])
          else (s, Inr []))"

definition agent_attach :: "agent_env \<Rightarrow> json \<Rightarrow> go_error option \<Rightarrow> frame \<Rightarrow> agent \<Rightarrow> agent \<times> bytes res" where
  "agent_attach env js ctx f s =
     (case ctx of
        Some e \<Rightarrow> (s, Inl e)
      | None \<Rightarrow>
     (case decode_extra (js_window js) zero_window_args (fr_extra f) of
        Inl _ \<Rightarrow> (s, Inl (Sent ErrInvalid))
      | Inr args \<Rightarrow>
     if wa_stream args = 0 then (s, Inl (Sent ErrInvalid))
     else
     (case agent_guard s of
        Some e \<Rightarrow> (s, Inl e)
      | None \<Rightarrow>
     if ag_term s \<noteq> None \<and> \<not> shell_done (ag_term s) then (s, Inl (Sent ErrBusy))
     else if \<not> ge_shell env (ag_tick s) then (s\<lparr>ag_tick := Suc (ag_tick s)\<rparr>, Inl (Sent ErrUnavailable))
     else
       (let i = length (ag_shells s) in
        (s\<lparr>ag_tick := Suc (ag_tick s),
           ag_shells := ag_shells s @
             [\<lparr>sh_open = True, sh_reaped = False, sh_window = default_window (wa_window args), sh_input = []\<rparr>],
           ag_term := Some i, ag_term_stream := wa_stream args,
           ag_copiers := ag_copiers s @ [(wa_stream args, i)]\<rparr>, Inr [])))))"

definition agent_write_pty :: "frame \<Rightarrow> agent \<Rightarrow> agent" where
  "agent_write_pty f s =
     (case ag_term s of
        None \<Rightarrow> s
      | Some i \<Rightarrow>
          if ag_frozen s \<or> ag_term_stream s \<noteq> fr_stream f then s
          else s\<lparr>ag_shells := (ag_shells s)[i := (ag_shells s ! i)\<lparr>sh_input := sh_input (ag_shells s ! i) @ fr_extra f\<rparr>]\<rparr>)"

definition agent_detach :: "json \<Rightarrow> frame \<Rightarrow> agent \<Rightarrow> agent \<times> bytes res" where
  "agent_detach js f s =
     (case decode_extra (js_stream js) 0 (fr_extra f) of
        Inl _ \<Rightarrow> (s, Inl (Sent ErrInvalid))
      | Inr stream \<Rightarrow>
          if stream = 0 then (s, Inl (Sent ErrInvalid))
          else if ag_term_stream s = stream then (kill_shell s, Inr [])
          else (s, Inr []))"

definition agent_resize :: "agent_env \<Rightarrow> json \<Rightarrow> go_error option \<Rightarrow> frame \<Rightarrow> agent \<Rightarrow> agent \<times> bytes res" where
  "agent_resize env js ctx f s =
     (case ctx of
        Some e \<Rightarrow> (s, Inl e)
      | None \<Rightarrow>
     (case decode_extra (js_window js) zero_window_args (fr_extra f) of
        Inl _ \<Rightarrow> (s, Inl (Sent ErrInvalid))
      | Inr args \<Rightarrow>
     if wa_stream args = 0 then (s, Inl (Sent ErrInvalid))
     else if ag_frozen s then (s, Inl (Sent ErrFrozen))
     else
     (case ag_term s of
        None \<Rightarrow> (s, Inl (Sent ErrClosed))
      | Some i \<Rightarrow>
          if ag_term_stream s \<noteq> wa_stream args then (s, Inl (Sent ErrClosed))
          else (case ge_window env (ag_tick s) of
                  Some e \<Rightarrow> (s\<lparr>ag_tick := Suc (ag_tick s)\<rparr>, Inl e)
                | None \<Rightarrow>
                    (s\<lparr>ag_tick := Suc (ag_tick s),
                       ag_shells := (ag_shells s)[i := (ag_shells s ! i)\<lparr>sh_window := default_window (wa_window args)\<rparr>]\<rparr>,
                     Inr [])))))"

definition agent_freeze :: "agent_env \<Rightarrow> go_error option \<Rightarrow> agent \<Rightarrow> agent \<times> bytes res" where
  "agent_freeze env ctx s =
     (case ctx of
        Some e \<Rightarrow> (s, Inl e)
      | None \<Rightarrow> (stop_poll env (Sent ErrFrozen) (kill_shell (s\<lparr>ag_frozen := True\<rparr>)), Inr []))"

definition agent_thaw :: "go_error option \<Rightarrow> agent \<Rightarrow> agent \<times> bytes res" where
  "agent_thaw ctx s =
     (case ctx of Some e \<Rightarrow> (s, Inl e) | None \<Rightarrow> (s\<lparr>ag_frozen := False\<rparr>, Inr []))"

definition agent_shutdown :: "agent_env \<Rightarrow> agent \<Rightarrow> agent" where
  "agent_shutdown env s = stop_poll env (Sent ErrClosed) (kill_shell s)"

subsection \<open>The loop\<close>

definition agent_handle :: "agent_env \<Rightarrow> json \<Rightarrow> go_error option \<Rightarrow> frame \<Rightarrow> agent \<Rightarrow> agent \<times> bytes res" where
  "agent_handle env js ctx f s =
     (let m = fr_method f in
      if m = ''replace'' then agent_replace env js ctx f s
      else if m = ''apply'' then agent_apply env js ctx f s
      else if m = ''open'' then agent_open env js ctx f s
      else if m = ''watch'' then agent_watch env js ctx f s
      else if m = ''unwatch'' then agent_unwatch js f s
      else if m = ''attach'' then agent_attach env js ctx f s
      else if m = ''detach'' then agent_detach js f s
      else if m = ''resize'' then agent_resize env js ctx f s
      else if m = ''freeze'' then agent_freeze env ctx s
      else if m = ''thaw'' then agent_thaw ctx s
      else (s, Inl (Sent ErrInvalid)))"

definition agent_reply :: "frame \<Rightarrow> bytes res \<Rightarrow> frame" where
  "agent_reply req result =
     \<lparr>fr_seq = fr_seq req, fr_kind = KindResponse, fr_method = fr_method req, fr_grant = '''', fr_stream = 0,
      fr_status = status_of (case result of Inl e \<Rightarrow> Some e | Inr _ \<Rightarrow> None),
      fr_extra = (case result of Inl _ \<Rightarrow> [] | Inr x \<Rightarrow> x), fr_deadline = 0\<rparr>"

text \<open>One frame of the loop of \<open>Serve\<close>; \<open>ctx\<close> is the state of the context when the handler looks.\<close>

definition agent_recv :: "agent_env \<Rightarrow> json \<Rightarrow> go_error option \<Rightarrow> frame \<Rightarrow> agent \<Rightarrow> agent" where
  "agent_recv env js ctx f s =
     (if fr_kind f = KindPty then agent_write_pty f s
      else if fr_kind f = KindRequest then
        (case agent_handle env js ctx f s of (s1, r) \<Rightarrow> fst (agent_send env (agent_reply f r) s1))
      else s)"

text \<open>
  Everything that can happen: a frame, a poll, the copiers, the end of the connection, and the guest
  changing its disk.
\<close>

inductive agent_step :: "agent_env \<Rightarrow> json \<Rightarrow> agent \<Rightarrow> agent \<Rightarrow> bool" for env js where
  Receive: "agent_step env js s (agent_recv env js ctx f s)"
| Poll: "agent_step env js s (diff_once env js s)"
| CopyData: "(stream, i) \<in> set (ag_copiers s) \<Longrightarrow> agent_step env js s (copy_data env stream bs s)"
| CopyUnlock: "(stream, i) \<in> set (ag_copiers s) \<Longrightarrow> agent_step env js s (copy_unlock stream i hung_up err s)"
| CopyLast: "f \<in> set (ag_ending s) \<Longrightarrow> agent_step env js s (copy_last env f s)"
| Shutdown: "agent_step env js s (agent_shutdown env s)"
| Guest: "wf_files fs \<Longrightarrow> agent_step env js s (s\<lparr>ag_disk := (ag_disk s)\<lparr>ds_files := fs\<rparr>\<rparr>)"

inductive_cases agent_stepE: "agent_step env js s s'"

end
