(* ===== verification/Agent_Client.thy ===== *)
theory Agent_Client
  imports Agent_Server Remote_Client
begin

text \<open>
  The host's side of an agent connection (\<open>agent/client.go\<close>): one connection serves one grant, so there
  is at most one terminal and one observation. Objects a caller holds live in stores and are named by
  their index; a call in progress is the record \<open>rcall\<close> of theory Remote_Client. A method that blocks
  is split where it blocks, and a step that panics is \<open>None\<close>.
\<close>

subsection \<open>State\<close>

record aterm =
  at_stream :: uint64
  at_buf :: bytes
  at_closed :: bool
  at_dead :: "go_error option"

text \<open>\<open>ao_shut\<close>: the \<open>once\<close> of \<open>fail\<close> has run and \<open>events\<close> is closed.\<close>

record aobs =
  ao_stream :: uint64
  ao_queue :: "event list"
  ao_shut :: bool
  ao_errc :: "go_error option"
  ao_cursor :: cursor
  ao_failed :: "go_error option"

text \<open>\<open>ac_unwatch\<close>: the streams the goroutines of \<open>abort\<close> are to unwatch.\<close>

record aclient =
  ac_seq :: uint64
  ac_stream :: uint64
  ac_pending :: "uint64 \<rightharpoonup> nat"
  ac_term :: "nat option"
  ac_obs :: "nat option"
  ac_closed :: bool
  ac_calls :: "rcall list"
  ac_terms :: "aterm list"
  ac_observations :: "aobs list"
  ac_unwatch :: "uint64 list"

definition new_aclient :: aclient where
  "new_aclient = \<lparr>ac_seq = 0, ac_stream = 0, ac_pending = Map.empty, ac_term = None, ac_obs = None, ac_closed = False,
     ac_calls = [], ac_terms = [], ac_observations = [], ac_unwatch = []\<rparr>"

definition set_acall :: "nat \<Rightarrow> rcall \<Rightarrow> aclient \<Rightarrow> aclient" where
  "set_acall i c cl = cl\<lparr>ac_calls := (ac_calls cl)[i := c]\<rparr>"

definition set_aterm :: "nat \<Rightarrow> aterm \<Rightarrow> aclient \<Rightarrow> aclient" where
  "set_aterm t x cl = cl\<lparr>ac_terms := (ac_terms cl)[t := x]\<rparr>"

definition set_aobs :: "nat \<Rightarrow> aobs \<Rightarrow> aclient \<Rightarrow> aclient" where
  "set_aobs b x cl = cl\<lparr>ac_observations := (ac_observations cl)[b := x]\<rparr>"

subsection \<open>Terminals\<close>

definition aterm_push :: "bytes \<Rightarrow> nat \<Rightarrow> aclient \<Rightarrow> aclient" where
  "aterm_push p t cl =
     (let x = ac_terms cl ! t in
      if \<not> at_closed x \<and> at_dead x = None then set_aterm t (x\<lparr>at_buf := at_buf x @ p\<rparr>) cl else cl)"

definition aterm_hangup :: "go_error option \<Rightarrow> nat \<Rightarrow> aclient \<Rightarrow> aclient" where
  "aterm_hangup err t cl =
     (let x = ac_terms cl ! t in
      if at_dead x = None
      then set_aterm t (x\<lparr>at_dead := Some (case err of None \<Rightarrow> Sent ErrClosed | Some e \<Rightarrow> e)\<rparr>) cl else cl)"

text \<open>\<open>Read\<close> into a buffer of \<open>cap\<close> bytes; \<open>None\<close> while it waits.\<close>

definition aterm_read :: "nat \<Rightarrow> nat \<Rightarrow> aclient \<Rightarrow> (aclient \<times> bytes res) option" where
  "aterm_read cap t cl =
     (let x = ac_terms cl ! t in
      if at_buf x = [] \<and> \<not> at_closed x \<and> at_dead x = None then None
      else Some
        (case (at_dead x, at_buf x) of
           (Some e, []) \<Rightarrow> (cl, Inl (OpError ''read'' e))
         | (None, []) \<Rightarrow> (cl, Inl IoEOF)
         | (_, b # bs) \<Rightarrow> (set_aterm t (x\<lparr>at_buf := drop cap (at_buf x)\<rparr>) cl, Inr (take cap (at_buf x)))))"

definition aterm_write :: "bytes \<Rightarrow> nat \<Rightarrow> aclient \<Rightarrow> frame res" where
  "aterm_write p t cl =
     (let x = ac_terms cl ! t in
      if at_closed x \<or> at_dead x \<noteq> None
      then Inl (OpError ''write'' (case at_dead x of None \<Rightarrow> Sent ErrClosed | Some e \<Rightarrow> e))
      else Inr (pty_frame '''' (at_stream x) p None))"

definition aterm_written :: "bytes \<Rightarrow> go_error option \<Rightarrow> nat res" where
  "aterm_written p sent =
     (case sent of
        None \<Rightarrow> Inr (length p)
      | Some e \<Rightarrow>
          if err_is e ErrTooLarge then Inl (OpError ''write'' e) else Inl (OpError ''write'' (Sent ErrClosed)))"

subsection \<open>Observations\<close>

definition aobs_fail :: "go_error \<Rightarrow> nat \<Rightarrow> aclient \<Rightarrow> aclient" where
  "aobs_fail e b cl =
     (let x = ac_observations cl ! b in
      if ao_shut x then cl else set_aobs b (x\<lparr>ao_failed := Some e, ao_errc := Some e, ao_shut := True\<rparr>) cl)"

definition ac_finish :: "nat \<Rightarrow> go_error \<Rightarrow> aclient \<Rightarrow> aclient" where
  "ac_finish b e cl = aobs_fail e b (if ac_obs cl = Some b then cl\<lparr>ac_obs := None\<rparr> else cl)"

definition aobs_abort :: "go_error \<Rightarrow> nat \<Rightarrow> aclient \<Rightarrow> aclient" where
  "aobs_abort e b cl =
     (let cl' = ac_finish b e cl in cl'\<lparr>ac_unwatch := ac_unwatch cl' @ [ao_stream (ac_observations cl ! b)]\<rparr>)"

text \<open>A send on a closed channel panics, in a \<open>select\<close> with a default too.\<close>

definition aobs_push :: "event \<Rightarrow> nat \<Rightarrow> aclient \<Rightarrow> aclient option" where
  "aobs_push ev b cl =
     (let x = ac_observations cl ! b in
      if ao_shut x then None
      else if length (ao_queue x) < watch_buffer_agent
      then Some (set_aobs b (x\<lparr>ao_queue := ao_queue x @ [ev]\<rparr>) cl)
      else Some (aobs_abort (Sent ErrLagged) b cl))"

definition aobs_initial :: "cursor \<Rightarrow> cursor \<Rightarrow> nat \<Rightarrow> aclient \<Rightarrow> aclient" where
  "aobs_initial c after b cl =
     (let x = ac_observations cl ! b in if ao_cursor x = after then set_aobs b (x\<lparr>ao_cursor := c\<rparr>) cl else cl)"

text \<open>\<open>Next\<close>: the first check, then the select, where the context or the channel may win.\<close>

definition aobs_receive :: "nat \<Rightarrow> aclient \<Rightarrow> (aclient \<times> event res) option" where
  "aobs_receive b cl =
     (let x = ac_observations cl ! b in
      case ao_queue x of
        ev # rest \<Rightarrow>
          Some (case ao_failed x of
                  Some e \<Rightarrow> (set_aobs b (x\<lparr>ao_queue := rest\<rparr>) cl, Inl (OpError ''watch'' e))
                | None \<Rightarrow> (set_aobs b (x\<lparr>ao_queue := rest, ao_cursor := ev_cursor ev\<rparr>) cl, Inr ev))
      | [] \<Rightarrow>
          if ao_shut x
          then Some (case ao_errc x of
                       Some e \<Rightarrow> (set_aobs b (x\<lparr>ao_errc := None\<rparr>) cl, Inl (OpError ''watch'' e))
                     | None \<Rightarrow> (cl, Inl (OpError ''watch'' (Sent ErrClosed))))
          else None)"

definition aobs_next :: "go_error option \<Rightarrow> bool \<Rightarrow> nat \<Rightarrow> aclient \<Rightarrow> (aclient \<times> event res) option" where
  "aobs_next ctx pick_ctx b cl =
     (case ao_failed (ac_observations cl ! b) of
        Some e \<Rightarrow> Some (cl, Inl (OpError ''watch'' e))
      | None \<Rightarrow>
          (case (ctx, aobs_receive b cl) of
             (Some e, None) \<Rightarrow> Some (cl, Inl (OpError ''watch'' e))
           | (Some e, Some r) \<Rightarrow> if pick_ctx then Some (cl, Inl (OpError ''watch'' e)) else Some r
           | (None, r) \<Rightarrow> r))"

subsection \<open>Calls\<close>

definition ac_ticket :: "string \<Rightarrow> aclient \<Rightarrow> aclient \<times> nat" where
  "ac_ticket method cl =
     (let s = ac_seq cl + 1
      in (cl\<lparr>ac_seq := s, ac_calls := ac_calls cl @ [\<lparr>rc_seq = s, rc_method = method, rc_box = None, rc_status = Ticketed\<rparr>]\<rparr>,
          length (ac_calls cl)))"

definition ac_returned :: "nat \<Rightarrow> aclient \<Rightarrow> aclient" where
  "ac_returned i cl = set_acall i ((ac_calls cl ! i)\<lparr>rc_status := Returned\<rparr>) cl"

definition ac_register :: "bytes \<Rightarrow> 64 word \<Rightarrow> nat \<Rightarrow> aclient \<Rightarrow> aclient \<times> frame res" where
  "ac_register extra deadline i cl =
     (let c = ac_calls cl ! i in
      if ac_closed cl then (ac_returned i cl, Inl (OpError (rc_method c) (Sent ErrUnavailable)))
      else (set_acall i (c\<lparr>rc_status := Sending\<rparr>) (cl\<lparr>ac_pending := (ac_pending cl)(rc_seq c \<mapsto> i)\<rparr>),
            Inr \<lparr>fr_seq = rc_seq c, fr_kind = KindRequest, fr_method = rc_method c, fr_grant = '''', fr_stream = 0,
                 fr_status = '''', fr_extra = extra, fr_deadline = deadline\<rparr>))"

definition ac_begin :: "go_error option \<Rightarrow> 64 word \<Rightarrow> string \<Rightarrow> bytes \<Rightarrow> aclient \<Rightarrow> aclient \<times> (nat \<times> frame) res" where
  "ac_begin ctx deadline method extra cl =
     (case ctx of
        Some e \<Rightarrow> (cl, Inl (OpError method e))
      | None \<Rightarrow>
          (case ac_ticket method cl of
             (cl1, i) \<Rightarrow>
               (case ac_register extra deadline i cl1 of
                  (cl2, Inl e) \<Rightarrow> (cl2, Inl e)
                | (cl2, Inr f) \<Rightarrow> (cl2, Inr (i, f)))))"

definition ac_abandon :: "nat \<Rightarrow> aclient \<Rightarrow> aclient" where
  "ac_abandon i cl = ac_returned i (cl\<lparr>ac_pending := (ac_pending cl)(rc_seq (ac_calls cl ! i) := None)\<rparr>)"

definition ac_sent :: "go_error option \<Rightarrow> nat \<Rightarrow> aclient \<Rightarrow> aclient \<times> unit res" where
  "ac_sent sent i cl =
     (case sent of
        None \<Rightarrow> (cl, Inr ())
      | Some e \<Rightarrow>
          (ac_abandon i cl,
           Inl (OpError (rc_method (ac_calls cl ! i))
                  (if err_is e ErrTooLarge \<or> err_is e ErrInvalid then e else Sent ErrUnavailable))))"

text \<open>The select at the end of \<open>call\<close>; \<open>pick_ctx\<close> decides when both are ready.\<close>

definition ac_wait :: "go_error option \<Rightarrow> bool \<Rightarrow> nat \<Rightarrow> aclient \<Rightarrow> (aclient \<times> bytes res) option" where
  "ac_wait ctx pick_ctx i cl =
     (let c = ac_calls cl ! i in
      case (ctx, rc_box c) of
        (None, None) \<Rightarrow> None
      | (Some e, None) \<Rightarrow> Some (ac_abandon i cl, Inl (OpError (rc_method c) e))
      | (None, Some f) \<Rightarrow> Some (ac_returned i (set_acall i (c\<lparr>rc_box := None\<rparr>) cl), call_answer (rc_method c) f)
      | (Some e, Some f) \<Rightarrow>
          if pick_ctx then Some (ac_abandon i cl, Inl (OpError (rc_method c) e))
          else Some (ac_returned i (set_acall i (c\<lparr>rc_box := None\<rparr>) cl), call_answer (rc_method c) f))"

subsection \<open>The read loop\<close>

text \<open>\<open>None\<close>: a response that would block the loop, or an event that panics.\<close>

definition ac_response :: "frame \<Rightarrow> aclient \<Rightarrow> aclient option" where
  "ac_response f cl =
     (let cl' = cl\<lparr>ac_pending := (ac_pending cl)(fr_seq f := None)\<rparr> in
      case ac_pending cl (fr_seq f) of
        None \<Rightarrow> Some cl'
      | Some i \<Rightarrow>
          (case rc_box (ac_calls cl ! i) of
             Some _ \<Rightarrow> None
           | None \<Rightarrow> Some (set_acall i ((ac_calls cl ! i)\<lparr>rc_box := Some f\<rparr>) cl')))"

definition ac_pty :: "frame \<Rightarrow> aclient \<Rightarrow> aclient" where
  "ac_pty f cl =
     (case ac_term cl of
        None \<Rightarrow> cl
      | Some t \<Rightarrow>
          if at_stream (ac_terms cl ! t) \<noteq> fr_stream f then cl
          else if fr_status f \<noteq> '''' then aterm_hangup (error_from_status (fr_status f)) t cl
          else aterm_push (fr_extra f) t cl)"

definition ac_event :: "client_json \<Rightarrow> frame \<Rightarrow> aclient \<Rightarrow> aclient option" where
  "ac_event js f cl =
     (case ac_obs cl of
        None \<Rightarrow> Some cl
      | Some b \<Rightarrow>
          if ao_stream (ac_observations cl ! b) \<noteq> fr_stream f then Some cl
          else if fr_status f \<noteq> '''' then Some (ac_finish b (the (error_from_status (fr_status f))) cl)
          else (case decode_extra (cj_event js) zero_event (fr_extra f) of
                  Inl _ \<Rightarrow> Some (ac_finish b (Sent ErrUnavailable) cl)
                | Inr ev \<Rightarrow>
                    (case validate_event ev of
                       Some _ \<Rightarrow> Some (ac_finish b (Sent ErrUnavailable) cl)
                     | None \<Rightarrow> aobs_push ev b cl)))"

definition ac_recv :: "client_json \<Rightarrow> frame \<Rightarrow> aclient \<Rightarrow> aclient option" where
  "ac_recv js f cl =
     (if fr_kind f = KindResponse then ac_response f cl
      else if fr_kind f = KindPty then Some (ac_pty f cl)
      else if fr_kind f = KindWatch then ac_event js f cl
      else Some cl)"

text \<open>Every call in \<open>pending\<close> gets a frame with this status, and the map is empty.\<close>

definition ac_answer_all :: "string \<Rightarrow> aclient \<Rightarrow> aclient" where
  "ac_answer_all status cl = cl\<lparr>ac_pending := Map.empty,
     ac_calls := map2 (\<lambda>i c. if ac_pending cl (rc_seq c) = Some i
         then c\<lparr>rc_box := Some \<lparr>fr_seq = rc_seq c, fr_kind = 0, fr_method = '''', fr_grant = '''', fr_stream = 0,
                               fr_status = status, fr_extra = [], fr_deadline = 0\<rparr>\<rparr>
         else c) [0..<length (ac_calls cl)] (ac_calls cl)\<rparr>"

definition hangup_opt :: "go_error \<Rightarrow> nat option \<Rightarrow> aclient \<Rightarrow> aclient" where
  "hangup_opt e t cl = (case t of None \<Rightarrow> cl | Some t \<Rightarrow> aterm_hangup (Some e) t cl)"

definition fail_opt :: "go_error \<Rightarrow> nat option \<Rightarrow> aclient \<Rightarrow> aclient" where
  "fail_opt e b cl = (case b of None \<Rightarrow> cl | Some b \<Rightarrow> aobs_fail e b cl)"

definition ac_hangup :: "go_error \<Rightarrow> aclient \<Rightarrow> aclient" where
  "ac_hangup e cl =
     fail_opt e (ac_obs cl) (hangup_opt e (ac_term cl)
       (ac_answer_all (status_of (Some e)) (cl\<lparr>ac_closed := True, ac_term := None, ac_obs := None\<rparr>)))"

definition ac_fail_all :: "aclient \<Rightarrow> aclient" where
  "ac_fail_all cl =
     (fail_opt (Sent ErrClosed) (ac_obs cl) (hangup_opt (Sent ErrClosed) (ac_term cl)
        (ac_answer_all ''unavailable'' (cl\<lparr>ac_closed := True\<rparr>))))\<lparr>ac_term := None, ac_obs := None\<rparr>"

text \<open>\<open>Close\<close>, the connection apart.\<close>

definition ac_close :: "aclient \<Rightarrow> aclient" where
  "ac_close cl = ac_hangup (Sent ErrClosed) cl"

subsection \<open>The methods\<close>

definition ac_rpc :: "go_error option \<Rightarrow> 64 word \<Rightarrow> string \<Rightarrow> bytes res \<Rightarrow> aclient \<Rightarrow> aclient \<times> (nat \<times> frame) res" where
  "ac_rpc ctx deadline method payload cl =
     (case encode_extra (Some payload) of
        Inl e \<Rightarrow> (cl, Inl (OpError method e))
      | Inr extra \<Rightarrow> ac_begin ctx deadline method extra cl)"

definition ac_replace_begin :: "client_json \<Rightarrow> go_error option \<Rightarrow> 64 word \<Rightarrow> node list \<Rightarrow> aclient \<Rightarrow> aclient \<times> (nat \<times> frame) res" where
  "ac_replace_begin js ctx deadline tree cl = ac_rpc ctx deadline ''replace'' (cj_replace js tree) cl"

definition ac_apply_begin :: "client_json \<Rightarrow> go_error option \<Rightarrow> 64 word \<Rightarrow> mutation list \<Rightarrow> aclient \<Rightarrow> aclient \<times> (nat \<times> frame) res" where
  "ac_apply_begin js ctx deadline batch cl = ac_rpc ctx deadline ''apply'' (cj_apply js batch) cl"

definition ac_open_begin :: "client_json \<Rightarrow> go_error option \<Rightarrow> 64 word \<Rightarrow> string \<Rightarrow> aclient \<Rightarrow> aclient \<times> (nat \<times> frame) res" where
  "ac_open_begin js ctx deadline path cl = ac_rpc ctx deadline ''open'' (cj_open js path) cl"

definition ac_open_end :: "client_json \<Rightarrow> bytes res \<Rightarrow> bytes res" where
  "ac_open_end js r =
     (case r of
        Inl e \<Rightarrow> Inl e
      | Inr out \<Rightarrow>
          (case decode_extra (cj_body js) [] out of
             Inl _ \<Rightarrow> Inl (OpError ''open'' (Sent ErrUnavailable))
           | Inr body \<Rightarrow> Inr body))"

text \<open>The observation is in its place before the call, so events that arrive with the answer find it.\<close>

definition ac_watch_open :: "client_json \<Rightarrow> cursor \<Rightarrow> aclient \<Rightarrow> aclient \<times> (nat \<times> bytes) res" where
  "ac_watch_open js after cl =
     (let s = ac_stream cl + 1; cl1 = cl\<lparr>ac_stream := s\<rparr>; b = length (ac_observations cl)
      in case encode_extra (Some (cj_watch js \<lparr>wt_after = after, wt_stream = s\<rparr>)) of
           Inl e \<Rightarrow> (cl1, Inl (OpError ''watch'' e))
         | Inr extra \<Rightarrow>
             if ac_obs cl \<noteq> None then (cl1, Inl (OpError ''watch'' (Sent ErrBusy)))
             else (cl1\<lparr>ac_observations := ac_observations cl @
                         [\<lparr>ao_stream = s, ao_queue = [], ao_shut = False, ao_errc = None, ao_cursor = after, ao_failed = None\<rparr>],
                       ac_obs := Some b\<rparr>, Inr (b, extra)))"

definition aobs_forget :: "nat \<Rightarrow> aclient \<Rightarrow> aclient" where
  "aobs_forget b cl = (if ac_obs cl = Some b then cl\<lparr>ac_obs := None\<rparr> else cl)"

text \<open>\<open>Close\<close> of an observation: it fails first, the call unwatches, and then it leaves its place.\<close>

definition aobs_close_begin :: "client_json \<Rightarrow> 64 word \<Rightarrow> nat \<Rightarrow> aclient \<Rightarrow> aclient \<times> (nat \<times> frame) res" where
  "aobs_close_begin js deadline b cl =
     ac_rpc None deadline ''unwatch'' (cj_stream js (ao_stream (ac_observations cl ! b))) (aobs_fail (Sent ErrClosed) b cl)"

definition aobs_close_end :: "nat \<Rightarrow> bytes res \<Rightarrow> aclient \<Rightarrow> aclient \<times> unit res" where
  "aobs_close_end b r cl = (aobs_forget b cl, done_unit r)"

text \<open>The third component is the stream that \<open>Close\<close> is to unwatch after an undecodable answer.\<close>

definition ac_watch_end :: "client_json \<Rightarrow> cursor \<Rightarrow> nat \<Rightarrow> bytes res \<Rightarrow> aclient \<Rightarrow> aclient \<times> nat res \<times> uint64 option" where
  "ac_watch_end js after b r cl =
     (case r of
        Inl e \<Rightarrow> (aobs_fail e b (aobs_forget b cl), Inl e, None)
      | Inr out \<Rightarrow>
          (case decode_extra (cj_cursor js) '''' out of
             Inl _ \<Rightarrow> (aobs_fail (Sent ErrClosed) b cl, Inl (OpError ''watch'' (Sent ErrUnavailable)),
                      Some (ao_stream (ac_observations cl ! b)))
           | Inr c \<Rightarrow> (aobs_initial c after b cl, Inr b, None)))"

definition ac_attach_open :: "client_json \<Rightarrow> window \<Rightarrow> aclient \<Rightarrow> aclient \<times> (nat \<times> bytes) res" where
  "ac_attach_open js win cl =
     (let s = ac_stream cl + 1; cl1 = cl\<lparr>ac_stream := s\<rparr>; t = length (ac_terms cl)
      in case encode_extra (Some (cj_window js \<lparr>wa_window = win, wa_stream = s\<rparr>)) of
           Inl e \<Rightarrow> (cl1, Inl (OpError ''attach'' e))
         | Inr extra \<Rightarrow>
             if ac_term cl \<noteq> None then (cl1, Inl (OpError ''attach'' (Sent ErrBusy)))
             else (cl1\<lparr>ac_terms := ac_terms cl @ [\<lparr>at_stream = s, at_buf = [], at_closed = False, at_dead = None\<rparr>],
                       ac_term := Some t\<rparr>, Inr (t, extra)))"

definition aterm_forget :: "nat \<Rightarrow> aclient \<Rightarrow> aclient" where
  "aterm_forget t cl = (if ac_term cl = Some t then cl\<lparr>ac_term := None\<rparr> else cl)"

definition ac_attach_end :: "nat \<Rightarrow> bytes res \<Rightarrow> aclient \<Rightarrow> aclient \<times> nat res" where
  "ac_attach_end t r cl =
     (case r of Inl e \<Rightarrow> (aterm_hangup (Some e) t (aterm_forget t cl), Inl e) | Inr _ \<Rightarrow> (cl, Inr t))"

definition ac_freeze_begin :: "go_error option \<Rightarrow> 64 word \<Rightarrow> aclient \<Rightarrow> aclient \<times> (nat \<times> frame) res" where
  "ac_freeze_begin ctx deadline cl = ac_begin ctx deadline ''freeze'' [] cl"

definition ac_freeze_end :: "bytes res \<Rightarrow> aclient \<Rightarrow> aclient \<times> unit res" where
  "ac_freeze_end r cl = (hangup_opt (Sent ErrFrozen) (ac_term cl) (cl\<lparr>ac_term := None\<rparr>), done_unit r)"

definition ac_thaw_begin :: "go_error option \<Rightarrow> 64 word \<Rightarrow> aclient \<Rightarrow> aclient \<times> (nat \<times> frame) res" where
  "ac_thaw_begin ctx deadline cl = ac_begin ctx deadline ''thaw'' [] cl"

definition aterm_resize_begin :: "client_json \<Rightarrow> go_error option \<Rightarrow> 64 word \<Rightarrow> window \<Rightarrow> nat \<Rightarrow> aclient \<Rightarrow> aclient \<times> (nat \<times> frame) res" where
  "aterm_resize_begin js ctx deadline win t cl =
     ac_rpc ctx deadline ''resize'' (cj_window js \<lparr>wa_window = win, wa_stream = at_stream (ac_terms cl ! t)\<rparr>) cl"

definition aterm_close_begin :: "client_json \<Rightarrow> 64 word \<Rightarrow> nat \<Rightarrow> aclient \<Rightarrow> aclient \<times> (nat \<times> frame) res" where
  "aterm_close_begin js deadline t cl =
     ac_rpc None deadline ''detach'' (cj_stream js (at_stream (ac_terms cl ! t)))
       (set_aterm t ((ac_terms cl ! t)\<lparr>at_closed := True\<rparr>) cl)"

definition aterm_close_end :: "nat \<Rightarrow> bytes res \<Rightarrow> aclient \<Rightarrow> aclient \<times> unit res" where
  "aterm_close_end t r cl = (aterm_forget t cl, done_unit r)"

text \<open>A goroutine that \<open>abort\<close> started; it gives up silently if it cannot encode.\<close>

definition ac_unwatch_spawned :: "client_json \<Rightarrow> 64 word \<Rightarrow> aclient \<Rightarrow> aclient \<times> (nat \<times> frame) option" where
  "ac_unwatch_spawned js deadline cl =
     (case ac_unwatch cl of
        [] \<Rightarrow> (cl, None)
      | s # rest \<Rightarrow>
          (case ac_rpc None deadline ''unwatch'' (cj_stream js s) (cl\<lparr>ac_unwatch := rest\<rparr>) of
             (cl2, Inl _) \<Rightarrow> (cl2, None)
           | (cl2, Inr x) \<Rightarrow> (cl2, Some x)))"

end
