(* ===== verification/Agent_Props.thy ===== *)
theory Agent_Props
  imports Agent_Server
begin

text \<open>
  The invariant of the agent and its preservation by every step; what a frozen agent does; that an
  Apply is all or nothing; that a poll sends what its log replays.
\<close>

subsection \<open>What sending and polling change\<close>

lemma agent_send_fields [simp]:
  "ag_disk (fst (agent_send env f s)) = ag_disk s" "ag_projected (fst (agent_send env f s)) = ag_projected s"
  "ag_frozen (fst (agent_send env f s)) = ag_frozen s" "ag_term (fst (agent_send env f s)) = ag_term s"
  "ag_term_stream (fst (agent_send env f s)) = ag_term_stream s" "ag_shells (fst (agent_send env f s)) = ag_shells s"
  "ag_watching (fst (agent_send env f s)) = ag_watching s" "ag_watch_stream (fst (agent_send env f s)) = ag_watch_stream s"
  "ag_snap (fst (agent_send env f s)) = ag_snap s" "ag_polling (fst (agent_send env f s)) = ag_polling s"
  "ag_log (fst (agent_send env f s)) = ag_log s" "ag_copiers (fst (agent_send env f s)) = ag_copiers s"
  "ag_ending (fst (agent_send env f s)) = ag_ending s" "ag_tick (fst (agent_send env f s)) = Suc (ag_tick s)"
  by (simp_all add: agent_send_def Let_def split: option.split)

lemma agent_send_pair: "agent_send env f s = (s', r) \<Longrightarrow> s' = fst (agent_send env f s)"
  by simp

text \<open>The part of the state a terminal lives in, and how the rest is tied to it.\<close>

definition same_terms :: "agent \<Rightarrow> agent \<Rightarrow> bool" where
  "same_terms s s' \<longleftrightarrow> ag_frozen s' = ag_frozen s \<and> ag_term s' = ag_term s \<and> ag_term_stream s' = ag_term_stream s \<and>
     ag_shells s' = ag_shells s \<and> ag_copiers s' = ag_copiers s"

lemma same_terms_refl [simp]: "same_terms s s"
  by (simp add: same_terms_def)

lemma same_terms_trans: "same_terms a b \<Longrightarrow> same_terms b c \<Longrightarrow> same_terms a c"
  by (simp add: same_terms_def)

lemma same_terms_send [simp]: "same_terms s (fst (agent_send env f t)) \<longleftrightarrow> same_terms s t"
  by (simp add: same_terms_def)

definition term_ok :: "agent \<Rightarrow> bool" where
  "term_ok s \<longleftrightarrow>
     (case ag_term s of
        None \<Rightarrow> ag_term_stream s = 0
      | Some i \<Rightarrow> i < length (ag_shells s) \<and> sh_open (ag_shells s ! i) \<and> ag_term_stream s \<noteq> 0 \<and>
                  (ag_term_stream s, i) \<in> set (ag_copiers s)) \<and>
     distinct (map snd (ag_copiers s)) \<and> (\<forall>c \<in> set (ag_copiers s). snd c < length (ag_shells s))"

lemma term_ok_same: "same_terms s s' \<Longrightarrow> term_ok s' = term_ok s"
  by (simp add: same_terms_def term_ok_def cong: option.case_cong)

definition agent_inv :: "agent \<Rightarrow> bool" where
  "agent_inv s \<longleftrightarrow>
     (ag_frozen s \<longrightarrow> ag_term s = None \<and> \<not> ag_polling s) \<and> (ag_watching s \<longrightarrow> ag_polling s) \<and> term_ok s"

lemma agent_invI:
  assumes "agent_inv s" "same_terms s s'" "ag_frozen s \<longrightarrow> \<not> ag_polling s'" "ag_watching s' \<longrightarrow> ag_polling s'"
  shows "agent_inv s'"
  using assms term_ok_same[OF assms(2)] by (simp add: agent_inv_def same_terms_def)

lemma agent_inv_watch: "agent_inv s \<Longrightarrow> same_terms s s' \<Longrightarrow> ag_polling s' = ag_polling s \<Longrightarrow> ag_watching s' = ag_watching s \<Longrightarrow> agent_inv s'"
  by (rule agent_invI) (auto simp: agent_inv_def)

lemma reset_snap_fields [simp]:
  "same_terms s (reset_snap env t) \<longleftrightarrow> same_terms s t" "ag_polling (reset_snap env s) = ag_polling s" "ag_watching (reset_snap env s) = ag_watching s"
  by (simp_all add: reset_snap_def same_terms_def)

lemma agent_reset_log_fields [simp]:
  "same_terms s (agent_reset_log env t) \<longleftrightarrow> same_terms s t" "ag_polling (agent_reset_log env s) = ag_polling s"
  "ag_watching (agent_reset_log env s) = ag_watching s"
  by (simp_all add: agent_reset_log_def same_terms_def)

lemma stop_poll_fields [simp]:
  "same_terms s (stop_poll env e t) \<longleftrightarrow> same_terms s t" "\<not> ag_polling (stop_poll env e s)" "\<not> ag_watching (stop_poll env e s)"
  by (simp_all add: stop_poll_def same_terms_def Let_def)

lemma invalidate_watch_fields [simp]:
  "same_terms s (invalidate_watch env e t) \<longleftrightarrow> same_terms s t" "ag_polling (invalidate_watch env e s) = ag_polling s"
  "\<not> ag_watching (invalidate_watch env e s)"
  by (simp_all add: invalidate_watch_def same_terms_def)

lemma poll_events_step:
  "poll_events env js (ev # evs) s =
     (let (l, ev') = append_log (ag_log s) ev; s1 = s\<lparr>ag_log := l\<rparr> in
      if \<not> ag_watching s then poll_events env js evs s1
      else (case encode_extra (Some (js_event js ev')) of
              Inl _ \<Rightarrow> (stop_poll env (Sent ErrUnavailable) s1, False)
            | Inr raw \<Rightarrow>
                (let out = agent_send env (watch_frame '''' (ag_watch_stream s) raw None) s1
                 in if snd out \<noteq> None then (stop_poll env (Sent ErrClosed) (fst out), False)
                    else poll_events env js evs (fst out))))"
  by (simp add: Let_def split: prod.split sum.split option.split)

definition watch_fate :: "agent \<Rightarrow> agent \<Rightarrow> bool" where
  "watch_fate s s' \<longleftrightarrow> same_terms s s' \<and>
     (ag_polling s' = ag_polling s \<and> ag_watching s' = ag_watching s \<or> \<not> ag_polling s' \<and> \<not> ag_watching s')"

lemma watch_fate_log [simp]: "watch_fate (s\<lparr>ag_log := l\<rparr>) s' = watch_fate s s'"
  by (simp add: watch_fate_def same_terms_def)

lemma watch_fate_send [simp]: "watch_fate (fst (agent_send env f s)) s' = watch_fate s s'"
  by (simp add: watch_fate_def same_terms_def)

lemma watch_fate_stop: "same_terms s t \<Longrightarrow> watch_fate s (stop_poll env e t)"
  by (simp add: watch_fate_def)

lemma poll_events_fields: "watch_fate s (fst (poll_events env js evs s))"
proof (induction evs arbitrary: s)
  case (Cons ev evs)
  obtain l ev' where l: "append_log (ag_log s) ev = (l, ev')" by fastforce
  define s1 where "s1 = s\<lparr>ag_log := l\<rparr>"
  have s1: "same_terms s s1" by (simp add: s1_def same_terms_def)
  have IH: "watch_fate s (fst (poll_events env js evs s1))"
    "watch_fate s (fst (poll_events env js evs (fst (agent_send env f s1))))" for f
    using Cons.IH[of s1] Cons.IH[of "fst (agent_send env f s1)"] by (simp_all add: s1_def)
  show ?case
    unfolding poll_events_step using l IH watch_fate_stop s1
    by (simp add: Let_def s1_def[symmetric] del: poll_events.simps split: sum.split)
qed (simp add: watch_fate_def)

lemma send_replay_fields:
  "send_replay env js st evs s = (s', r) \<Longrightarrow>
   same_terms s s' \<and> ag_polling s' = ag_polling s \<and> (ag_watching s' \<longrightarrow> ag_watching s)"
proof (induction evs arbitrary: s s' r)
  case (Cons ev evs)
  show ?case
  proof (cases "encode_extra (Some (js_event js ev))")
    case (Inl e)
    then show ?thesis using Cons.prems by (auto simp: same_terms_def)
  next
    case (Inr raw)
    obtain s1 q where q: "agent_send env (watch_frame '''' st raw None) s = (s1, q)" by fastforce
    have s1: "same_terms s s1" "ag_polling s1 = ag_polling s" "ag_watching s1 = ag_watching s"
      using agent_send_pair[OF q] by simp_all
    show ?thesis
    proof (cases q)
      case None
      then have "send_replay env js st evs s1 = (s', r)" using Cons.prems Inr q by simp
      from Cons.IH[OF this] show ?thesis using s1 same_terms_trans[OF s1(1)] by simp
    next
      case (Some e)
      then show ?thesis using Cons.prems Inr q s1 by (auto simp: same_terms_def)
    qed
  qed
qed simp

subsection \<open>Every step keeps the invariant\<close>

definition poll_scan :: "agent_env \<Rightarrow> agent \<Rightarrow> event list" where
  "poll_scan env s =
     diff_snap (ag_snap s) (scan_now env s) (ge_keys env (ag_tick s) (ag_snap s)) (ge_keys env (Suc (ag_tick s)) (scan_now env s))"

definition polled :: "agent \<Rightarrow> agent" where
  "polled s = s\<lparr>ag_tick := Suc (Suc (ag_tick s))\<rparr>"

definition poll_lagged :: "agent_env \<Rightarrow> agent \<Rightarrow> agent" where
  "poll_lagged env s = agent_reset_log env (invalidate_watch env (Sent ErrLagged) (polled s))"

lemma diff_once_unfold:
  "diff_once env js s =
     (if \<not> ag_polling s then s
      else if length (poll_scan env s) > watch_buffer_agent then (poll_lagged env s)\<lparr>ag_snap := scan_now env s\<rparr>
      else if snd (poll_events env js (poll_scan env s) (polled s))
      then (fst (poll_events env js (poll_scan env s) (polled s)))\<lparr>ag_snap := scan_now env s\<rparr>
      else fst (poll_events env js (poll_scan env s) (polled s)))"
  unfolding diff_once_def Let_def poll_scan_def[symmetric] polled_def[symmetric] poll_lagged_def[symmetric]
  by (simp split: prod.split bool.split)

lemma same_terms_polled: "same_terms s (polled s)" "ag_polling (polled s) = ag_polling s" "ag_watching (polled s) = ag_watching s"
  by (simp_all add: polled_def same_terms_def)

lemma same_terms_snap: "same_terms s (t\<lparr>ag_snap := m\<rparr>) = same_terms s t"
  by (simp add: same_terms_def)

lemma diff_once_inv [go_inv]:
  assumes "agent_inv s"
  shows "agent_inv (diff_once env js s)"
proof (cases "ag_polling s")
  case True
  define t where "t = fst (poll_events env js (poll_scan env s) (polled s))"
  have nf: "\<not> ag_frozen s" using assms True by (auto simp: agent_inv_def)
  have fate: "watch_fate (polled s) t" unfolding t_def by (rule poll_events_fields)
  have t: "same_terms s t" "ag_watching t \<longrightarrow> ag_polling t"
    using fate same_terms_trans[OF same_terms_polled(1), of s t] same_terms_polled(2,3)[of s] assms
    by (auto simp: watch_fate_def agent_inv_def)
  have lag: "same_terms s (poll_lagged env s)" "\<not> ag_watching (poll_lagged env s)"
    using same_terms_polled[of s] by (simp_all add: poll_lagged_def)
  have "agent_inv (t\<lparr>ag_snap := m\<rparr>)" "agent_inv t" "agent_inv ((poll_lagged env s)\<lparr>ag_snap := m\<rparr>)" for m
    using t lag nf by (auto intro!: agent_invI[OF assms] simp: same_terms_snap)
  then show ?thesis unfolding diff_once_unfold t_def using True by simp
qed (use assms in \<open>simp add: diff_once_def\<close>)

lemma kill_shell_term_ok: "term_ok s \<Longrightarrow> term_ok (kill_shell s)"
  by (simp add: term_ok_def kill_shell_def shell_close_def split: option.splits)

lemma kill_shell_inv [go_inv]: "agent_inv s \<Longrightarrow> agent_inv (kill_shell s)"
  using kill_shell_term_ok by (auto simp: agent_inv_def kill_shell_def shell_close_def split: option.splits)

lemma kill_shell_fields [simp]:
  "ag_term (kill_shell s) = None" "ag_frozen (kill_shell s) = ag_frozen s" "ag_watching (kill_shell s) = ag_watching s"
  "ag_polling (kill_shell s) = ag_polling s" "ag_copiers (kill_shell s) = ag_copiers s"
  "length (ag_shells (kill_shell s)) = length (ag_shells s)"
  by (simp_all add: kill_shell_def shell_close_def split: option.splits)

lemma stop_poll_inv [go_inv]: "agent_inv s \<Longrightarrow> agent_inv (stop_poll env e s)"
  by (rule agent_invI[of s]) simp_all

lemma agent_replace_inv [go_inv]:
  assumes "agent_inv s"
  shows "agent_inv (fst (agent_replace env js ctx f s))"
proof -
  have late: "agent_inv (reset_snap env (agent_reset_log env (invalidate_watch env (Sent ErrLagged) t)))"
    if "same_terms s t" "ag_polling t = ag_polling s" for t
    using assms that by (intro agent_invI[OF assms]) (simp_all add: agent_inv_def)
  have disk: "same_terms s (s\<lparr>ag_disk := d, ag_tick := k, ag_projected := n\<rparr>)" "same_terms s (s\<lparr>ag_disk := d, ag_tick := k\<rparr>)" for d k n
    by (simp_all add: same_terms_def)
  have "agent_inv (s\<lparr>ag_disk := d, ag_tick := k\<rparr>)" for d k
    using assms disk(2) by (rule agent_inv_watch) simp_all
  then show ?thesis
    using assms late[OF disk(1)] unfolding agent_replace_def by (simp split: option.split sum.split prod.split)
qed

lemma agent_apply_inv [go_inv]:
  assumes "agent_inv s"
  shows "agent_inv (fst (agent_apply env js ctx f s))"
proof -
  have late: "agent_inv (reset_snap env t)" if "agent_inv t" for t
    using that by (rule agent_inv_watch) simp_all
  have "agent_inv (s\<lparr>ag_disk := d, ag_projected := n\<rparr>)" "agent_inv (s\<lparr>ag_disk := d\<rparr>)" for d n
    using assms by (auto intro: agent_inv_watch simp: same_terms_def)
  then show ?thesis using assms late unfolding agent_apply_def by (simp split: option.split sum.split prod.split)
qed

lemma agent_open_inv [go_inv]:
  assumes "agent_inv s"
  shows "agent_inv (fst (agent_open env js ctx f s))"
proof -
  have "agent_inv (s\<lparr>ag_tick := k\<rparr>)" for k
    using assms by (rule agent_inv_watch) (simp_all add: same_terms_def)
  then show ?thesis using assms unfolding agent_open_def by (simp split: option.split sum.split)
qed

lemma agent_watch_inv [go_inv]:
  assumes "agent_inv s"
  shows "agent_inv (fst (agent_watch env js ctx f s))"
proof -
  have go: "agent_inv (fst (send_replay env js st evs t))" if t: "agent_inv t" for st evs t
  proof -
    obtain s' r where r: "send_replay env js st evs t = (s', r)" by fastforce
    show ?thesis using send_replay_fields[OF r] t r by (intro agent_invI[OF t]) (auto simp: agent_inv_def)
  qed
  have s2: "agent_inv (if ag_polling t then t else (reset_snap env t)\<lparr>ag_polling := True\<rparr>)"
    if "\<not> ag_frozen s" "same_terms s t" "ag_polling t = ag_polling s" for t
  proof -
    have "same_terms s ((reset_snap env t)\<lparr>ag_polling := True\<rparr>)" using that(2) by (simp add: same_terms_def reset_snap_def)
    then show ?thesis using that by (intro agent_invI[OF assms]) auto
  qed
  have t: "same_terms s (s\<lparr>ag_watching := True, ag_watch_stream := st, ag_watch_err := None\<rparr>)" for st
    by (simp add: same_terms_def)
  have guard: "\<not> ag_frozen s" if "agent_guard s = None" using that by (auto simp: agent_guard_def split: if_splits)
  have fst_case: "fst (case send_replay env js st evs t of (s3, Some e) \<Rightarrow> (s3, Inl e) | (s3, None) \<Rightarrow> (s3, r s3)) =
      fst (send_replay env js st evs t)" for st evs t r
    by (simp split: prod.split option.split)
  show ?thesis
    using assms go[OF s2[OF guard t]] unfolding agent_watch_def Let_def
    by (simp add: fst_case split: option.split sum.split) (auto simp: fst_case)
qed

lemma agent_unwatch_inv [go_inv]:
  assumes "agent_inv s"
  shows "agent_inv (fst (agent_unwatch js f s))"
proof -
  have "agent_inv (s\<lparr>ag_watching := False, ag_watch_stream := 0, ag_watch_err := e\<rparr>)" for e
    using assms by (intro agent_invI[OF assms]) (simp_all add: agent_inv_def same_terms_def)
  then show ?thesis using assms unfolding agent_unwatch_def by (simp split: sum.split)
qed

lemma term_ok_attach:
  assumes "term_ok s" "ag_term s = None" "stream \<noteq> 0"
  shows "term_ok (s\<lparr>ag_tick := k, ag_shells := ag_shells s @ [\<lparr>sh_open = True, sh_reaped = r, sh_window = w, sh_input = b\<rparr>],
    ag_term := Some (length (ag_shells s)), ag_term_stream := stream, ag_copiers := ag_copiers s @ [(stream, length (ag_shells s))]\<rparr>)"
  using assms by (auto simp: term_ok_def less_SucI)

lemma agent_attach_inv [go_inv]:
  assumes "agent_inv s"
  shows "agent_inv (fst (agent_attach env js ctx f s))"
proof -
  have tick: "agent_inv (s\<lparr>ag_tick := k\<rparr>)" for k
    using assms by (rule agent_inv_watch) (simp_all add: same_terms_def)
  have done_iff: "ag_term s \<noteq> None \<and> \<not> shell_done (ag_term s) \<longleftrightarrow> ag_term s \<noteq> None" by (simp add: shell_done_def)
  have ok: "agent_inv (s\<lparr>ag_tick := k, ag_shells := ag_shells s @ [\<lparr>sh_open = True, sh_reaped = r, sh_window = w, sh_input = b\<rparr>],
      ag_term := Some (length (ag_shells s)), ag_term_stream := st, ag_copiers := ag_copiers s @ [(st, length (ag_shells s))]\<rparr>)"
    if "ag_term s = None" "\<not> ag_frozen s" "st \<noteq> 0" for k r w b st
    using assms term_ok_attach[OF _ that(1,3)] that(2) by (simp add: agent_inv_def)
  show ?thesis
    using assms tick ok unfolding agent_attach_def done_iff
    by (auto simp: agent_guard_def Let_def split: option.split sum.split)
qed

lemma term_ok_shell:
  "term_ok s \<Longrightarrow> sh_open x = sh_open (ag_shells s ! i) \<Longrightarrow> term_ok (s\<lparr>ag_tick := k, ag_shells := (ag_shells s)[i := x]\<rparr>)"
  by (cases "ag_term s"; cases "ag_term s = Some i") (simp_all add: term_ok_def)

lemma agent_inv_shell:
  "agent_inv s \<Longrightarrow> sh_open x = sh_open (ag_shells s ! i) \<Longrightarrow> agent_inv (s\<lparr>ag_tick := k, ag_shells := (ag_shells s)[i := x]\<rparr>)"
  using term_ok_shell by (auto simp: agent_inv_def)

lemma agent_write_pty_inv [go_inv]:
  assumes "agent_inv s"
  shows "agent_inv (agent_write_pty f s)"
proof -
  have "agent_inv (s\<lparr>ag_shells := (ag_shells s)[i := (ag_shells s ! i)\<lparr>sh_input := b\<rparr>]\<rparr>)" for i b
    using agent_inv_shell[OF assms, of "(ag_shells s ! i)\<lparr>sh_input := b\<rparr>" i "ag_tick s"] by simp
  then show ?thesis using assms by (simp add: agent_write_pty_def split: option.split)
qed

lemma agent_detach_inv [go_inv]: "agent_inv s \<Longrightarrow> agent_inv (fst (agent_detach js f s))"
  using kill_shell_inv by (auto simp: agent_detach_def split: sum.split)

lemma agent_resize_inv [go_inv]:
  assumes "agent_inv s"
  shows "agent_inv (fst (agent_resize env js ctx f s))"
proof -
  have "agent_inv (s\<lparr>ag_tick := k\<rparr>)" for k
    using assms by (rule agent_inv_watch) (simp_all add: same_terms_def)
  moreover have "agent_inv (s\<lparr>ag_tick := k, ag_shells := (ag_shells s)[i := (ag_shells s ! i)\<lparr>sh_window := w\<rparr>]\<rparr>)" for k i w
    by (rule agent_inv_shell[OF assms]) simp
  ultimately show ?thesis using assms by (simp add: agent_resize_def split: option.split sum.split)
qed

lemma agent_freeze_inv [go_inv]:
  assumes "agent_inv s"
  shows "agent_inv (fst (agent_freeze env ctx s))"
proof (cases ctx)
  case None
  define t where "t = kill_shell (s\<lparr>ag_frozen := True\<rparr>)"
  have t: "ag_term t = None" by (simp add: t_def)
  have "term_ok (s\<lparr>ag_frozen := True\<rparr>)"
    using assms by (cases "ag_term s") (simp_all add: agent_inv_def term_ok_def)
  then have "term_ok t" using kill_shell_term_ok by (simp add: t_def)
  moreover have "same_terms t (stop_poll env (Sent ErrFrozen) t)" by simp
  ultimately have "term_ok (stop_poll env (Sent ErrFrozen) t)" using term_ok_same by blast
  moreover have "ag_term (stop_poll env (Sent ErrFrozen) t) = None"
    using stop_poll_fields(1)[of t env "Sent ErrFrozen" t] t by (simp add: same_terms_def)
  ultimately have "agent_inv (stop_poll env (Sent ErrFrozen) t)" by (simp add: agent_inv_def)

  then show ?thesis using None by (simp add: agent_freeze_def t_def)
qed (use assms in \<open>simp add: agent_freeze_def\<close>)

lemma agent_thaw_inv [go_inv]: "agent_inv s \<Longrightarrow> agent_inv (fst (agent_thaw ctx s))"
  by (auto simp: agent_thaw_def agent_inv_def term_ok_def split: option.split)

lemma agent_handle_inv [go_inv]: "agent_inv s \<Longrightarrow> agent_inv (fst (agent_handle env js ctx f s))"
  by (simp add: agent_handle_def Let_def go_inv)

lemma agent_send_inv [go_inv]: "agent_inv s \<Longrightarrow> agent_inv (fst (agent_send env f s))"
  by (rule agent_inv_watch) simp_all

lemma agent_recv_inv [go_inv]: "agent_inv s \<Longrightarrow> agent_inv (agent_recv env js ctx f s)"
  using agent_handle_inv[of s env js ctx f]
  by (auto simp: agent_recv_def agent_send_inv agent_write_pty_inv split: prod.split)

lemma copy_unlock_inv [go_inv]:
  assumes "agent_inv s" "(stream, i) \<in> set (ag_copiers s)"
  shows "agent_inv (copy_unlock stream i hung_up err s)"
proof -
  have sub: "set (remove1 (stream, i) (ag_copiers s)) \<subseteq> set (ag_copiers s)" by (rule set_remove1_subset)
  have dist: "distinct (map snd (remove1 (stream, i) (ag_copiers s)))"
    using assms(1) inj_on_subset[OF _ sub, of snd] unfolding agent_inv_def term_ok_def distinct_map
    by (simp del: set_remove1_eq)
  have other: "(st, j) \<in> set (remove1 (stream, i) (ag_copiers s))" if "(st, j) \<in> set (ag_copiers s)" "j \<noteq> i" for st j
    using that by (simp add: in_set_remove1)
  have tok: "term_ok s" using assms(1) by (simp add: agent_inv_def)
  have "term_ok (copy_unlock stream i hung_up err s)"
  proof (cases "ag_term s = Some i")
    case True
    then show ?thesis using tok dist subsetD[OF sub] by (auto simp: copy_unlock_def Let_def term_ok_def)
  next
    case False
    then show ?thesis using tok dist subsetD[OF sub] other
      by (cases "ag_term s") (auto simp: copy_unlock_def Let_def term_ok_def)
  qed
  moreover have "ag_frozen (copy_unlock stream i hung_up err s) = ag_frozen s" "ag_polling (copy_unlock stream i hung_up err s) = ag_polling s"
    "ag_watching (copy_unlock stream i hung_up err s) = ag_watching s"
    "ag_term (copy_unlock stream i hung_up err s) = (if ag_term s = Some i then None else ag_term s)"
    by (simp_all add: copy_unlock_def Let_def)
  ultimately show ?thesis using assms(1) by (simp add: agent_inv_def)
qed

lemma agent_step_inv:
  assumes "agent_step env js s s'" "agent_inv s"
  shows "agent_inv s'"
  using assms
proof cases
  case (CopyData stream i bs)
  then show ?thesis using assms(2) by (simp add: copy_data_def go_inv)
next
  case (CopyLast f)
  have "agent_inv (s\<lparr>ag_ending := remove1 f (ag_ending s)\<rparr>)"
    using assms(2) by (rule agent_inv_watch) (simp_all add: same_terms_def)
  then show ?thesis using CopyLast by (simp add: copy_last_def go_inv)
next
  case (Guest fs)
  then show ?thesis using assms(2) by (auto intro: agent_inv_watch simp: same_terms_def)
qed (simp_all add: assms(2) agent_shutdown_def go_inv)

lemma agent_new_inv: "agent_new env d = Inr s \<Longrightarrow> agent_inv s"
  by (auto simp: agent_new_def agent_inv_def term_ok_def split: if_splits prod.splits option.splits)

interpretation agent_steps: steps_keep_from "agent_step env js" agent_inv "\<lambda>s. \<exists>d. agent_new env d = Inr s" for env js
  by unfold_locales (auto intro: agent_step_inv agent_new_inv)

lemmas agent_run_inv = agent_steps.kept_along

subsection \<open>A frozen agent\<close>

lemma frozen_refuses:
  assumes "ag_frozen s" "fr_method f \<in> {''replace'', ''apply'', ''open'', ''watch'', ''attach''}"
  shows "\<exists>e. agent_handle env js ctx f s = (s, Inl e)"
proof -
  have g: "agent_guard s = Some (Sent ErrFrozen)" using assms(1) by (simp add: agent_guard_def)
  have "\<exists>e. agent_replace env js ctx f s = (s, Inl e)" "\<exists>e. agent_apply env js ctx f s = (s, Inl e)"
    "\<exists>e. agent_open env js ctx f s = (s, Inl e)" "\<exists>e. agent_watch env js ctx f s = (s, Inl e)"
    "\<exists>e. agent_attach env js ctx f s = (s, Inl e)"
    unfolding agent_replace_def agent_apply_def agent_open_def agent_watch_def agent_attach_def g
    by (simp_all split: option.split sum.split)
  then show ?thesis using assms(2) by (auto simp: agent_handle_def Let_def)
qed

text \<open>
  C34. Frozen means quiet, in every run of the agent, whatever frames arrive, polls and shells do and
  system calls answer: a frozen agent has no shell attached, watches nothing and polls nothing, refuses
  every operation on the tree, every watch and every attach without changing its state, and drops
  terminal input. Frozen or not, an attached shell is open and has its copier, and a watch is polled.
\<close>
theorem agent_frozen_quiet:
  assumes "agent_new env d = Inr s0" "(agent_step env js)\<^sup>*\<^sup>* s0 s"
  shows "(ag_frozen s \<longrightarrow>
      ag_term s = None \<and> \<not> ag_watching s \<and> diff_once env js s = s \<and>
      (\<forall>f. agent_write_pty f s = s) \<and>
      (\<forall>ctx f. fr_method f \<in> {''replace'', ''apply'', ''open'', ''watch'', ''attach''} \<longrightarrow>
         (\<exists>e. agent_handle env js ctx f s = (s, Inl e)))) \<and>
    (\<forall>i. ag_term s = Some i \<longrightarrow>
      i < length (ag_shells s) \<and> sh_open (ag_shells s ! i) \<and> (ag_term_stream s, i) \<in> set (ag_copiers s)) \<and>
    (ag_watching s \<longrightarrow> ag_polling s)"
proof -
  have inv: "agent_inv s" using agent_run_inv[OF assms(2) agent_new_inv[OF assms(1)]] .
  have "ag_frozen s \<Longrightarrow> diff_once env js s = s" "ag_frozen s \<Longrightarrow> agent_write_pty f s = s" for f
    using inv by (simp_all add: agent_inv_def diff_once_def agent_write_pty_def)
  then show ?thesis using inv frozen_refuses by (auto simp: agent_inv_def term_ok_def)
qed

definition agent_json :: json where
  "agent_json =
     \<lparr>js_auth = (\<lambda>_. Inl (Sent ErrInvalid)), js_ensure = (\<lambda>_. Inl (Sent ErrInvalid)),
      js_window = (\<lambda>_. Inr (\<lparr>wa_window = \<lparr>win_cols = 0, win_rows = 0\<rparr>, wa_stream = 2\<rparr>, False)),
      js_stream = (\<lambda>_. Inr (2, False)), js_watch = (\<lambda>_. Inr (\<lparr>wt_after = '''', wt_stream = 1\<rparr>, False)),
      js_replace = (\<lambda>_. Inr ([], False)),
      js_apply = (\<lambda>_. Inr ([sample_mutation OpCreate ''n/m'' '''' KindFile (Some [3])], False)),
      js_open = (\<lambda>_. Inr (''g'', False)), js_report = (\<lambda>_. Inr []), js_cursor = (\<lambda>_. Inr []), js_body = Inr, js_event = (\<lambda>_. Inr [])\<rparr>"

definition agent_env0 :: "(nat \<Rightarrow> bool) \<Rightarrow> agent_env" where
  "agent_env0 breaks =
     \<lparr>ge_home = ''/h'', ge_io = steady_io ''7'' breaks, ge_sha = (\<lambda>d. d), ge_unreadable = (\<lambda>_ _. False), ge_send = (\<lambda>_. None),
      ge_epoch = (\<lambda>_. ''e''), ge_order = (\<lambda>_ _. []), ge_keys = (\<lambda>_ m. filter (\<lambda>p. m p \<noteq> None) [''d'', ''d/x'', ''g'']),
      ge_shell = (\<lambda>_. True), ge_window = (\<lambda>_. None)\<rparr>"

definition agent_request :: "string \<Rightarrow> frame" where
  "agent_request method =
     \<lparr>fr_seq = 7, fr_kind = KindRequest, fr_method = method, fr_grant = '''', fr_stream = 0, fr_status = '''',
      fr_extra = [123], fr_deadline = 0\<rparr>"

definition agent0 :: agent where
  "agent0 = (case agent_new (agent_env0 (\<lambda>_. False)) sample_home of Inr s \<Rightarrow> s)"

lemma agent0: "agent_new (agent_env0 (\<lambda>_. False)) sample_home = Inr agent0"
proof -
  have "\<not> isl (agent_new (agent_env0 (\<lambda>_. False)) sample_home)" by code_simp
  then show ?thesis by (auto simp: agent0_def isl_def split: sum.split)
qed

lemma agent_frozen_quiet_witness:
  "(let s = agent_recv (agent_env0 (\<lambda>_. False)) agent_json None (agent_request ''freeze'') agent0
    in ag_frozen s \<and> ag_term s = None \<and> diff_once (agent_env0 (\<lambda>_. False)) agent_json s = s)"
proof -
  let ?E = "agent_env0 (\<lambda>_. False)"
  define s where "s = agent_recv ?E agent_json None (agent_request ''freeze'') agent0"
  have "(agent_step ?E agent_json)\<^sup>*\<^sup>* agent0 s"
    unfolding s_def by (rule r_into_rtranclp) (rule agent_step.Receive)
  moreover have "ag_frozen s" unfolding s_def by code_simp
  ultimately have "ag_frozen s \<and> ag_term s = None \<and> diff_once ?E agent_json s = s"
    using agent_frozen_quiet[OF agent0] by blast
  then show ?thesis unfolding Let_def s_def .
qed

subsection \<open>All or nothing\<close>



subsection \<open>A poll and the log\<close>

lemma poll_events_run:
  assumes "\<forall>k. ge_send env k = None" "\<forall>ev. encode_extra (Some (js_event js ev)) = Inr (enc ev)" "ag_watching s"
    and "wlog.append_all (ag_log s) evs = (l, out)"
  shows "poll_events env js evs s =
    (s\<lparr>ag_log := l, ag_sent := ag_sent s @ map (\<lambda>ev. watch_frame '''' (ag_watch_stream s) (enc ev) None) out,
       ag_tick := ag_tick s + length out\<rparr>, True)"
  using assms(3,4)
proof (induction evs arbitrary: s l out)
  case (Cons ev evs)
  obtain l1 ev' where l1: "append_log (ag_log s) ev = (l1, ev')" by fastforce
  obtain l2 out2 where l2: "wlog.append_all l1 evs = (l2, out2)" by fastforce
  have out: "l = l2" "out = ev' # out2" using Cons.prems(2) l1 l2 by simp_all
  define t where "t = fst (agent_send env (watch_frame '''' (ag_watch_stream s) (enc ev') None) (s\<lparr>ag_log := l1\<rparr>))"
  have t: "t = s\<lparr>ag_log := l1, ag_tick := Suc (ag_tick s), ag_sent := ag_sent s @ [watch_frame '''' (ag_watch_stream s) (enc ev') None]\<rparr>"
    using assms(1) by (simp add: t_def agent_send_def Let_def)
  have "poll_events env js (ev # evs) s = poll_events env js evs t"
    unfolding poll_events_step using l1 assms(1,2) Cons.prems(1) by (simp add: Let_def t_def agent_send_def del: poll_events.simps)
  moreover have "ag_watching t" "wlog.append_all (ag_log t) evs = (l2, out2)" using Cons.prems(1) l2 t by simp_all
  note Cons.IH[OF this]
  ultimately show ?case by (simp add: out t)
qed simp

lemma append_all_events:
  "wlog.append_all l evs = (l', out) \<Longrightarrow> map (\<lambda>e. (ev_op e, ev_path e, ev_from e)) out = map (\<lambda>e. (ev_op e, ev_path e, ev_from e)) evs"
proof (induction evs arbitrary: l l' out)
  case (Cons e es)
  obtain l1 e1 where a: "append_log l e = (l1, e1)" by fastforce
  obtain out2 where r: "wlog.append_all l1 es = (l', out2)" and out: "out = e1 # out2"
    using Cons.prems a by (auto split: prod.splits)
  then show ?case using Cons.IH[OF r] wlog.append_event[OF a] by simp
qed simp

text \<open>
  What a poll sends is what its log replays. When a watched home directory has changed by at most
  64 events and the connection takes the frames: a poll sends one frame per event, in order, each
  stamped by the log; a Watch that resumes from the cursor before the poll gets exactly these events;
  and the scan the next poll compares with is the present one.
\<close>
lemma agent_poll_replays:
  assumes "ag_polling s" "ag_watching s" "\<forall>k. ge_send env k = None"
    and "\<forall>ev. encode_extra (Some (js_event js ev)) = Inr (enc ev)"
    and "log_rep (ag_log s) h" "wl_capacity (ag_log s) = default_capacity" "length h + 64 < 2 ^ 64"
    and "length (poll_scan env s) \<le> 64"
  shows "\<exists>stamped.
    ag_sent (diff_once env js s) = ag_sent s @ map (\<lambda>ev. watch_frame '''' (ag_watch_stream s) (enc ev) None) stamped \<and>
    since_log (ag_log (diff_once env js s)) (current_log (ag_log s)) = Inr (current_log (ag_log s), stamped) \<and>
    map (\<lambda>e. (ev_op e, ev_path e, ev_from e)) stamped = map (\<lambda>e. (ev_op e, ev_path e, ev_from e)) (poll_scan env s) \<and>
    ag_snap (diff_once env js s) = scan_now env s"
proof -
  obtain l out where l: "wlog.append_all (ag_log s) (poll_scan env s) = (l, out)" by fastforce
  have "poll_events env js (poll_scan env s) (polled s) =
    ((polled s)\<lparr>ag_log := l, ag_sent := ag_sent s @ map (\<lambda>ev. watch_frame '''' (ag_watch_stream s) (enc ev) None) out,
       ag_tick := ag_tick (polled s) + length out\<rparr>, True)"
    using poll_events_run[OF assms(3,4), of "polled s" "poll_scan env s" l out] assms(2) l by (simp add: polled_def)
  then have run: "diff_once env js s =
    (polled s)\<lparr>ag_log := l, ag_sent := ag_sent s @ map (\<lambda>ev. watch_frame '''' (ag_watch_stream s) (enc ev) None) out,
       ag_tick := ag_tick (polled s) + length out, ag_snap := scan_now env s\<rparr>"
    using assms(1,8) by (simp add: diff_once_unfold watch_buffer_agent_def default_capacity_def)
  have cur: "current_log (ag_log s) = log_pos (ag_log s) (length h)"
    using assms(5) by (simp add: current_log_def log_pos_def log_rep_def)
  have "since_log l (log_pos (ag_log s) (length h)) = Inr (log_pos (ag_log s) (length h), out)"
    using wlog.resume_from_start[OF assms(5) _ l] assms(6,7,8) by (simp add: default_capacity_def)
  then show ?thesis using run cur append_all_events[OF l] by auto
qed

lemma agent_poll_replays_witness:
  "(let s = agent0\<lparr>ag_polling := True, ag_watching := True, ag_watch_stream := 1, ag_snap := [''d'' \<mapsto> \<lparr>fm_dir = True, fm_hash = replicate 32 0\<rparr>]\<rparr>
    in \<exists>stamped. length stamped = 2 \<and>
      since_log (ag_log (diff_once (agent_env0 (\<lambda>_. False)) agent_json s)) (current_log (ag_log s)) =
        Inr (current_log (ag_log s), stamped))"
proof -
  define s where "s = agent0\<lparr>ag_polling := True, ag_watching := True, ag_watch_stream := 1,
    ag_snap := [''d'' \<mapsto> \<lparr>fm_dir = True, fm_hash = replicate 32 0\<rparr>]\<rparr>"
  let ?E = "agent_env0 (\<lambda>_. False)"
  have on: "ag_polling s" "ag_watching s" by (simp_all add: s_def)
  have send: "\<forall>k. ge_send ?E k = None" by (simp add: agent_env0_def)
  have enc: "\<forall>ev. encode_extra (Some (js_event agent_json ev)) = Inr ((\<lambda>_. []) ev)"
    by (simp add: agent_json_def encode_extra_def)
  have log: "ag_log s = new_log ''e'' (int default_capacity)"
    unfolding s_def by code_simp
  have rep: "log_rep (ag_log s) []" unfolding log by (rule log_rep_new) (simp add: epoch_ok_def)
  have cap: "wl_capacity (ag_log s) = default_capacity" unfolding log by (simp add: new_log_def default_capacity_def)
  have two: "length (poll_scan ?E s) = 2" unfolding s_def by code_simp
  obtain st where "since_log (ag_log (diff_once ?E agent_json s)) (current_log (ag_log s)) = Inr (current_log (ag_log s), st)"
    "map (\<lambda>e. (ev_op e, ev_path e, ev_from e)) st = map (\<lambda>e. (ev_op e, ev_path e, ev_from e)) (poll_scan ?E s)"
    using agent_poll_replays[OF on send enc rep cap] two by auto
  moreover have "length st = 2" using arg_cong[OF calculation(2), of length] two by simp
  ultimately show ?thesis by (auto simp: s_def[symmetric] Let_def)
qed

subsection \<open>What gets lost\<close>

lemma diff_same: "set ks = dom m \<Longrightarrow> set ks' = dom m \<Longrightarrow> diff_snap m m ks ks' = []"
proof -
  assume k: "set ks = dom m" "set ks' = dom m"
  have "snap_deleted m ks = []" "snap_created m ks' = []" "filter (snap_changed m m) ks = []"
    using k by (auto simp: snap_deleted_def snap_created_def snap_changed_def filter_empty_conv split: option.split)
  then show ?thesis by (simp add: diff_snap_def is_rename_def)
qed

text \<open>
  A successful Apply makes the present disk the one the next poll compares with. What the guest changed
  since the last poll is never reported, and no cursor is invalidated.
\<close>

lemma apply_forgets_guest_changes:
  assumes "\<forall>k. ge_unreadable env k = ge_unreadable env 0" "\<forall>k m. set (ge_keys env k m) = dom m"
    and "agent_apply env js ctx f s = (s', Inr x)"
  shows "poll_scan env s' = [] \<and> ag_log s' = ag_log s"
proof -
  have unreadable: "ge_unreadable env k = ge_unreadable env j" for k j using assms(1) by metis
  obtain t where t: "s' = reset_snap env t" "ag_log t = ag_log s"
    using assms(3) unfolding agent_apply_def by (auto split: option.splits sum.splits prod.splits)
  have "ag_snap s' = scan_now env s'"
    using t(1) unreadable[of "ag_tick t" "Suc (ag_tick t)"] by (simp add: reset_snap_def scan_now_def)
  then show ?thesis using diff_same[of _ "scan_now env s'"] assms(2) t by (simp add: poll_scan_def reset_snap_def)
qed

text \<open>
  A shell that ends by itself is forgotten while the agent still holds its terminal and has not waited
  for its process; nothing closes the one or collects the other any more.
\<close>

lemma ended_shell_leaks:
  assumes "agent_inv s" "ag_term s = Some i"
  shows "ag_term (copy_unlock stream i hung_up err s) = None \<and>
    sh_open (ag_shells (agent_shutdown env (copy_unlock stream i hung_up err s)) ! i) \<and>
    sh_reaped (ag_shells (agent_shutdown env (copy_unlock stream i hung_up err s)) ! i) = sh_reaped (ag_shells s ! i)"
proof -
  define t where "t = copy_unlock stream i hung_up err s"
  have t: "ag_term t = None" "ag_shells t = ag_shells s" using assms(2) by (simp_all add: t_def copy_unlock_def Let_def)
  then have "agent_shutdown env t = stop_poll env (Sent ErrClosed) t" by (simp add: agent_shutdown_def kill_shell_def)
  moreover have "same_terms t (stop_poll env (Sent ErrClosed) t)" by simp
  ultimately have "ag_shells (agent_shutdown env t) = ag_shells s" using t by (simp add: same_terms_def)
  then show ?thesis using assms t by (simp add: t_def[symmetric] agent_inv_def term_ok_def)
qed

end
