(* ===== verification/Agent_Client_Props.thy ===== *)
theory Agent_Client_Props
  imports Agent_Client Agent_Props Client_Props
begin

text \<open>
  The host's side of an agent connection: its invariant over every run, what a hang-up leaves, and the
  calls and terminal bytes that cross the hop to the agent of theory Agent_Server.
\<close>

subsection \<open>Runs\<close>

inductive ac_step :: "client_json \<Rightarrow> aclient \<Rightarrow> aclient \<Rightarrow> bool" for js where
  Ticket: "ac_step js cl (fst (ac_ticket m cl))"
| Register: "i < length (ac_calls cl) \<Longrightarrow> rc_status (ac_calls cl ! i) = Ticketed \<Longrightarrow>
    ac_step js cl (fst (ac_register x dl i cl))"
| Sent: "i < length (ac_calls cl) \<Longrightarrow> rc_status (ac_calls cl ! i) = Sending \<Longrightarrow> ac_step js cl (fst (ac_sent e i cl))"
| Wait: "i < length (ac_calls cl) \<Longrightarrow> rc_status (ac_calls cl ! i) = Sending \<Longrightarrow>
    ac_wait ctx pick i cl = Some (cl', r) \<Longrightarrow> ac_step js cl cl'"
| Receive: "ac_recv js f cl = Some cl' \<Longrightarrow> ac_step js cl cl'"
| Hangup: "ac_step js cl (ac_hangup e cl)"
| FailAll: "ac_step js cl (ac_fail_all cl)"
| AttachOpen: "ac_step js cl (fst (ac_attach_open js win cl))"
| AttachEnd: "t < length (ac_terms cl) \<Longrightarrow> ac_step js cl (fst (ac_attach_end t r cl))"
| Read: "aterm_read cap t cl = Some (cl', r) \<Longrightarrow> ac_step js cl cl'"
| CloseTerm: "ac_step js cl (set_aterm t ((ac_terms cl ! t)\<lparr>at_closed := True\<rparr>) cl)"
| ForgetTerm: "ac_step js cl (aterm_forget t cl)"
| FreezeEnd: "ac_step js cl (fst (ac_freeze_end r cl))"
| WatchOpen: "ac_step js cl (fst (ac_watch_open js after cl))"
| WatchEnd: "b < length (ac_observations cl) \<Longrightarrow> ac_step js cl (fst (ac_watch_end js after b r cl))"
| Next: "aobs_next ctx pick b cl = Some (cl', r) \<Longrightarrow> ac_step js cl cl'"
| CloseObs: "ac_step js cl (aobs_fail (Sent ErrClosed) b cl)"
| ForgetObs: "ac_step js cl (aobs_forget b cl)"
| Spawned: "ac_step js cl (cl\<lparr>ac_unwatch := tl (ac_unwatch cl)\<rparr>)"

text \<open>
  The calls of an agent's connection are those of the remote client: its view as a client of theory
  Remote_Client has the same counter, the same map and the same calls.
\<close>

definition call_view :: "aclient \<Rightarrow> client" where
  "call_view cl = new_client\<lparr>cl_seq := ac_seq cl, cl_pending := ac_pending cl, cl_closed := ac_closed cl,
     cl_calls := ac_calls cl\<rparr>"

lemma call_view_simps [simp]:
  "cl_seq (call_view cl) = ac_seq cl" "cl_pending (call_view cl) = ac_pending cl"
  "cl_closed (call_view cl) = ac_closed cl" "cl_calls (call_view cl) = ac_calls cl"
  by (simp_all add: call_view_def)

lemma ticket_view: "call_view (fst (ac_ticket m cl)) = fst (call_ticket m (call_view cl))"
  by (simp add: ac_ticket_def call_ticket_def call_view_def Let_def)

lemma returned_view: "call_view (ac_returned i cl) = returned i (call_view cl)"
  by (simp add: ac_returned_def returned_def set_acall_def set_call_def call_view_def)

lemma register_view: "call_view (fst (ac_register x d i cl)) = fst (call_register '''' x d i (call_view cl))"
  by (simp add: ac_register_def call_register_def returned_view Let_def)
    (simp add: set_acall_def set_call_def call_view_def)

lemma abandon_view: "call_view (ac_abandon i cl) = call_abandon i (call_view cl)"
  unfolding ac_abandon_def call_abandon_def returned_view by (simp add: call_view_def new_client_def)

lemma sent_view: "call_view (fst (ac_sent e i cl)) = fst (call_sent e i (call_view cl))"
  by (simp add: ac_sent_def call_sent_def abandon_view split: option.split)

lemma set_acall_view: "call_view (set_acall i c cl) = set_call i c (call_view cl)"
  by (simp add: set_acall_def set_call_def call_view_def)

lemma wait_view: "call_wait ctx p i (call_view cl) = map_option (\<lambda>(c, r). (call_view c, r)) (ac_wait ctx p i cl)"
  by (simp add: ac_wait_def call_wait_def Let_def abandon_view returned_view set_acall_view split: option.split)

lemma response_view: "deliver_response f (call_view cl) = map_option call_view (ac_response f cl)"
  by (simp add: ac_response_def deliver_response_def answer_call_def Let_def split: option.split)
    (simp add: set_acall_def set_call_def call_view_def)

subsection \<open>The invariant\<close>

text \<open>The view satisfies the invariant of the remote client, and a closed connection has no call in its map.\<close>

definition acalls_ok :: "aclient \<Rightarrow> bool" where
  "acalls_ok cl \<longleftrightarrow> calls_ok (call_view cl) \<and> (ac_closed cl \<longrightarrow> ac_pending cl = Map.empty)"

definition objs_ok :: "aclient \<Rightarrow> bool" where
  "objs_ok cl \<longleftrightarrow> (\<forall>t. ac_term cl = Some t \<longrightarrow> t < length (ac_terms cl)) \<and>
     (\<forall>b. ac_obs cl = Some b \<longrightarrow> b < length (ac_observations cl))"

definition ac_inv :: "aclient \<Rightarrow> bool" where
  "ac_inv cl \<longleftrightarrow> acalls_ok cl \<and> objs_ok cl"

text \<open>A section that leaves the calls alone, and one that leaves the objects in their places.\<close>

definition keeps_calls :: "aclient \<Rightarrow> aclient \<Rightarrow> bool" where
  "keeps_calls cl cl' \<longleftrightarrow> call_view cl' = call_view cl"

definition keeps_objs :: "aclient \<Rightarrow> aclient \<Rightarrow> bool" where
  "keeps_objs cl cl' \<longleftrightarrow> ac_term cl' = ac_term cl \<and> ac_obs cl' = ac_obs cl \<and>
     length (ac_terms cl') = length (ac_terms cl) \<and> length (ac_observations cl') = length (ac_observations cl)"

lemma keeps_refl [simp]: "keeps_calls cl cl" "keeps_objs cl cl"
  by (simp_all add: keeps_calls_def keeps_objs_def)

lemma keeps_callsD: "keeps_calls cl cl' \<Longrightarrow> ac_pending cl' = ac_pending cl \<and> ac_calls cl' = ac_calls cl \<and>
    ac_closed cl' = ac_closed cl"
  unfolding keeps_calls_def
  by (drule arg_cong[where f = "\<lambda>v. (cl_pending v, cl_calls v, cl_closed v)"]) simp

lemma objs_ok_keep: "keeps_objs cl cl' \<Longrightarrow> objs_ok cl \<Longrightarrow> objs_ok cl'"
  by (simp add: keeps_objs_def objs_ok_def)

lemma acalls_ok_keep: "keeps_calls cl cl' \<Longrightarrow> acalls_ok cl \<Longrightarrow> acalls_ok cl'"
  by (frule keeps_callsD) (simp add: acalls_ok_def keeps_calls_def)

lemma ac_inv_keep: "keeps_calls cl cl' \<Longrightarrow> (objs_ok cl \<longrightarrow> objs_ok cl') \<Longrightarrow> ac_inv cl \<Longrightarrow> ac_inv cl'"
  using acalls_ok_keep by (simp add: ac_inv_def)

lemma ac_inv_calls: "acalls_ok cl' \<Longrightarrow> keeps_objs cl cl' \<Longrightarrow> ac_inv cl \<Longrightarrow> ac_inv cl'"
  using objs_ok_keep by (simp add: ac_inv_def)

subsection \<open>Objects\<close>

lemma set_aterm_same [simp]: "keeps_calls cl (set_aterm t x cl)" "keeps_objs cl (set_aterm t x cl)"
  by (simp_all add: set_aterm_def keeps_calls_def call_view_def keeps_objs_def)

lemma set_aobs_same [simp]: "keeps_calls cl (set_aobs b x cl)" "keeps_objs cl (set_aobs b x cl)"
  by (simp_all add: set_aobs_def keeps_calls_def call_view_def keeps_objs_def)

lemma aterm_same [simp]:
  "keeps_calls cl (aterm_push p t cl)" "keeps_objs cl (aterm_push p t cl)"
  "keeps_calls cl (aterm_hangup e t cl)" "keeps_objs cl (aterm_hangup e t cl)"
  by (simp_all add: aterm_push_def aterm_hangup_def Let_def)

lemma aobs_same [simp]:
  "keeps_calls cl (aobs_fail e b cl)" "keeps_objs cl (aobs_fail e b cl)"
  "keeps_calls cl (aobs_initial c a b cl)" "keeps_objs cl (aobs_initial c a b cl)"
  by (simp_all add: aobs_fail_def aobs_initial_def Let_def)

lemma keeps_calls_eq [simp]:
  "keeps_calls cl (aterm_hangup e t cl') = keeps_calls cl cl'" "keeps_calls cl (aobs_fail er b cl') = keeps_calls cl cl'"
  using aterm_same(3)[of cl' e t] aobs_same(1)[of cl' er b] by (simp_all add: keeps_calls_def call_view_def)

lemma objs_ok_eq [simp]:
  "objs_ok (aterm_hangup e t cl) = objs_ok cl" "objs_ok (aobs_fail er b cl) = objs_ok cl"
  using aterm_same(4)[of cl e t] aobs_same(2)[of cl er b] by (simp_all add: keeps_objs_def objs_ok_def)

lemma aforget_ok [simp]:
  "keeps_calls cl (aterm_forget t cl)" "objs_ok cl \<Longrightarrow> objs_ok (aterm_forget t cl)"
  "keeps_calls cl (aobs_forget b cl)" "objs_ok cl \<Longrightarrow> objs_ok (aobs_forget b cl)"
  by (simp_all add: aterm_forget_def aobs_forget_def keeps_calls_def call_view_def objs_ok_def)

lemma finish_ok [simp]: "keeps_calls cl (ac_finish b e cl)" "objs_ok cl \<Longrightarrow> objs_ok (ac_finish b e cl)"
  using aforget_ok(3,4)[of cl b] by (simp_all add: ac_finish_def aobs_forget_def[symmetric])

lemma unwatch_same [simp]: "keeps_calls cl (cl'\<lparr>ac_unwatch := u\<rparr>) = keeps_calls cl cl'" "objs_ok (cl'\<lparr>ac_unwatch := u\<rparr>) = objs_ok cl'"
  by (simp_all add: keeps_calls_def call_view_def objs_ok_def)

lemma aobs_abort_ok: "keeps_calls cl (aobs_abort e b cl)" "objs_ok cl \<Longrightarrow> objs_ok (aobs_abort e b cl)"
  by (simp_all add: aobs_abort_def Let_def)

lemma aobs_push_ok: "aobs_push ev b cl = Some cl' \<Longrightarrow> keeps_calls cl cl' \<and> (objs_ok cl \<longrightarrow> objs_ok cl')"
  using objs_ok_keep[OF set_aobs_same(2)] aobs_abort_ok
  by (auto simp: aobs_push_def Let_def split: if_splits)

lemma aobs_next_ok: "aobs_next ctx p b cl = Some (cl', r) \<Longrightarrow> keeps_calls cl cl' \<and> (objs_ok cl \<longrightarrow> objs_ok cl')"
  using objs_ok_keep[OF set_aobs_same(2)]
  by (auto simp: aobs_next_def aobs_receive_def Let_def split: option.splits list.splits if_splits)

lemma aterm_read_ok: "aterm_read cap t cl = Some (cl', r) \<Longrightarrow> keeps_calls cl cl' \<and> (objs_ok cl \<longrightarrow> objs_ok cl')"
  using objs_ok_keep[OF set_aterm_same(2)]
  by (auto simp: aterm_read_def Let_def split: option.splits list.splits if_splits)

lemma open_ok:
  "keeps_calls cl (fst (ac_attach_open js win cl))" "objs_ok cl \<Longrightarrow> objs_ok (fst (ac_attach_open js win cl))"
  "keeps_calls cl (fst (ac_watch_open js after cl))" "objs_ok cl \<Longrightarrow> objs_ok (fst (ac_watch_open js after cl))"
  by (auto simp: ac_attach_open_def ac_watch_open_def Let_def keeps_calls_def call_view_def objs_ok_def less_SucI split: sum.split)

lemma ac_event_ok: "ac_event js f cl = Some cl' \<Longrightarrow> keeps_calls cl cl' \<and> (objs_ok cl \<longrightarrow> objs_ok cl')"
  using aobs_push_ok by (auto simp: ac_event_def split: option.splits if_splits sum.splits)

lemma ac_pty_ok: "keeps_calls cl (ac_pty f cl) \<and> keeps_objs cl (ac_pty f cl)"
  by (simp add: ac_pty_def split: option.split)

subsection \<open>Calls\<close>

lemma acall_keeps_objs [simp]: "keeps_objs cl (ac_returned i cl)" "keeps_objs cl (ac_abandon i cl)" "keeps_objs cl (set_acall i c cl)"
  by (simp_all add: ac_returned_def ac_abandon_def set_acall_def keeps_objs_def)

lemma ticket_ok: "ac_inv cl \<Longrightarrow> ac_inv (fst (ac_ticket m cl))"
  using ticket_calls_ok[of "call_view cl" m]
  by (simp add: ac_inv_def acalls_ok_def ticket_view objs_ok_def) (simp add: ac_ticket_def Let_def)

lemma register_ok:
  assumes "ac_inv cl" "i < length (ac_calls cl)" "rc_status (ac_calls cl ! i) = Ticketed"
  shows "ac_inv (fst (ac_register x d i cl))"
proof -
  have "calls_ok (call_view (fst (ac_register x d i cl)))"
    using register_calls_ok[of "call_view cl"] assms by (simp add: register_view ac_inv_def acalls_ok_def)
  then show ?thesis using assms(1)
    by (simp add: ac_inv_def acalls_ok_def ac_register_def ac_returned_def set_acall_def objs_ok_def Let_def)
qed

lemma abandon_ok:
  assumes "ac_inv cl" "i < length (ac_calls cl)" "rc_status (ac_calls cl ! i) = Sending"
  shows "ac_inv (ac_abandon i cl)"
proof -
  have "calls_ok (call_view (ac_abandon i cl))"
    using abandon_calls_ok[of "call_view cl"] assms by (simp add: abandon_view ac_inv_def acalls_ok_def)
  then show ?thesis using assms(1)
    by (auto simp: ac_inv_def acalls_ok_def ac_abandon_def ac_returned_def set_acall_def objs_ok_def)
qed

lemma wait_ok:
  assumes "ac_inv cl" "i < length (ac_calls cl)" "rc_status (ac_calls cl ! i) = Sending"
    and "ac_wait ctx p i cl = Some (cl', r)"
  shows "ac_inv cl'"
proof -
  have "call_wait ctx p i (call_view cl) = Some (call_view cl', r)" using assms(4) by (simp add: wait_view)
  then have "calls_ok (call_view cl')"
    using wait_calls_ok[of "call_view cl"] assms by (simp add: ac_inv_def acalls_ok_def)
  moreover have "ac_closed cl' = ac_closed cl" "ac_pending cl = Map.empty \<Longrightarrow> ac_pending cl' = Map.empty" "keeps_objs cl cl'"
    using assms(4) by (auto simp: ac_wait_def ac_abandon_def ac_returned_def set_acall_def keeps_objs_def Let_def
        split: option.splits if_splits)
  ultimately show ?thesis using assms(1) by (intro ac_inv_calls[OF _ _ assms(1)]) (simp_all add: ac_inv_def acalls_ok_def)
qed

lemma ac_response_ok:
  assumes "ac_inv cl"
  shows "\<exists>cl'. ac_response f cl = Some cl' \<and> ac_inv cl'"
proof -
  obtain v where v: "deliver_response f (call_view cl) = Some v" "calls_ok v"
    using response_never_blocks[of "call_view cl" f] assms by (auto simp: ac_inv_def acalls_ok_def)
  then obtain cl' where cl': "ac_response f cl = Some cl'" "v = call_view cl'" by (auto simp: response_view)
  have "ac_closed cl' = ac_closed cl" "ac_pending cl = Map.empty \<Longrightarrow> ac_pending cl' = Map.empty" "keeps_objs cl cl'"
    using cl'(1) by (auto simp: ac_response_def set_acall_def keeps_objs_def Let_def split: option.splits)
  then have "ac_inv cl'" using assms v(2) cl'(2) by (intro ac_inv_calls[OF _ _ assms]) (simp_all add: ac_inv_def acalls_ok_def)
  then show ?thesis using cl'(1) by blast
qed

text \<open>The frame that ends a call whose connection is gone.\<close>

definition hangup_frame :: "string \<Rightarrow> uint64 \<Rightarrow> frame" where
  "hangup_frame st q = \<lparr>fr_seq = q, fr_kind = 0, fr_method = '''', fr_grant = '''', fr_stream = 0, fr_status = st,
     fr_extra = [], fr_deadline = 0\<rparr>"

lemma answer_all_simps [simp]:
  "ac_pending (ac_answer_all st cl) = Map.empty" "length (ac_calls (ac_answer_all st cl)) = length (ac_calls cl)"
  "ac_closed (ac_answer_all st cl) = ac_closed cl" "ac_term (ac_answer_all st cl) = ac_term cl"
  "ac_obs (ac_answer_all st cl) = ac_obs cl" "ac_terms (ac_answer_all st cl) = ac_terms cl"
  "ac_observations (ac_answer_all st cl) = ac_observations cl" "ac_unwatch (ac_answer_all st cl) = ac_unwatch cl"
  by (simp_all add: ac_answer_all_def)

lemma answer_all_nth:
  assumes "i < length (ac_calls cl)"
  shows "ac_calls (ac_answer_all st cl) ! i =
    (if ac_pending cl (rc_seq (ac_calls cl ! i)) = Some i
     then (ac_calls cl ! i)\<lparr>rc_box := Some (hangup_frame st (rc_seq (ac_calls cl ! i)))\<rparr> else ac_calls cl ! i)"
  using assms by (simp add: ac_answer_all_def hangup_frame_def)

lemma answer_all_upd:
  "ac_answer_all st (cl\<lparr>ac_closed := c\<rparr>) = (ac_answer_all st cl)\<lparr>ac_closed := c\<rparr>"
  "ac_answer_all st (cl\<lparr>ac_term := t\<rparr>) = (ac_answer_all st cl)\<lparr>ac_term := t\<rparr>"
  "ac_answer_all st (cl\<lparr>ac_obs := b\<rparr>) = (ac_answer_all st cl)\<lparr>ac_obs := b\<rparr>"
  by (simp_all add: ac_answer_all_def)

lemma hangup_opt_keeps [simp]:
  "keeps_calls cl (hangup_opt e t cl') = keeps_calls cl cl'" "keeps_calls cl (fail_opt e t cl') = keeps_calls cl cl'"
  "objs_ok (hangup_opt e t cl) = objs_ok cl" "objs_ok (fail_opt e t cl) = objs_ok cl"
  by (simp_all add: hangup_opt_def fail_opt_def split: option.split)

lemma clear_objs_keeps [simp]:
  "keeps_calls cl (cl'\<lparr>ac_term := t\<rparr>) = keeps_calls cl cl'" "keeps_calls cl (cl'\<lparr>ac_obs := b\<rparr>) = keeps_calls cl cl'"
  "objs_ok cl \<Longrightarrow> objs_ok (cl\<lparr>ac_term := None\<rparr>)" "objs_ok cl \<Longrightarrow> objs_ok (cl\<lparr>ac_obs := None\<rparr>)"
  by (simp_all add: keeps_calls_def call_view_def objs_ok_def)

lemma answer_all_ok:
  assumes "calls_ok (call_view cl)"
  shows "acalls_ok ((ac_answer_all st cl)\<lparr>ac_closed := c\<rparr>)"
proof -
  have "call_ok (length (ac_calls cl)) Map.empty i (ac_calls (ac_answer_all st cl) ! i)" if "i < length (ac_calls cl)" for i
    using calls_okD(1)[OF assms, of i] that by (auto simp: call_ok_def answer_all_nth hangup_frame_def)
  moreover have "ac_seq (ac_answer_all st cl) = ac_seq cl" by (simp add: ac_answer_all_def)
  ultimately show ?thesis using assms by (simp add: acalls_ok_def calls_ok_def)
qed

lemma closed_objs [simp]: "objs_ok (cl\<lparr>ac_closed := c\<rparr>) = objs_ok cl" "objs_ok (ac_answer_all st cl) = objs_ok cl"
  by (simp_all add: objs_ok_def)

text \<open>Every ending of the connection leaves the calls as \<open>ac_answer_all\<close> does.\<close>

lemma ac_ends_calls:
  "keeps_calls ((ac_answer_all (status_of (Some e)) cl)\<lparr>ac_closed := True\<rparr>) (ac_hangup e cl)"
  "keeps_calls ((ac_answer_all ''unavailable'' cl)\<lparr>ac_closed := True\<rparr>) (ac_fail_all cl)"
  by (simp_all add: ac_hangup_def ac_fail_all_def answer_all_upd)

lemma ac_ends_ok:
  assumes "ac_inv cl"
  shows "ac_inv (ac_hangup e cl)" "ac_inv (ac_fail_all cl)"
  using assms acalls_ok_keep[OF ac_ends_calls(1) answer_all_ok] acalls_ok_keep[OF ac_ends_calls(2) answer_all_ok]
  by (simp_all add: ac_inv_def acalls_ok_def[of cl]) (simp_all add: ac_hangup_def ac_fail_all_def answer_all_upd)

lemma ac_recv_ok: "ac_inv cl \<Longrightarrow> ac_recv js f cl = Some cl' \<Longrightarrow> ac_inv cl'"
  using ac_response_ok[of cl f] ac_event_ok[of js f cl cl'] ac_pty_ok[of cl f] ac_inv_keep[of cl cl'] objs_ok_keep
  by (auto simp: ac_recv_def split: if_splits)

lemma ac_new_inv: "ac_inv new_aclient"
  by (simp add: ac_inv_def acalls_ok_def objs_ok_def calls_ok_def new_aclient_def)

subsection \<open>Every run\<close>

abbreviation ac_run :: "client_json \<Rightarrow> aclient \<Rightarrow> aclient \<Rightarrow> bool" where
  "ac_run js \<equiv> (ac_step js)\<^sup>*\<^sup>*"

lemma attach_end_ok: "keeps_calls cl (fst (ac_attach_end t r cl)) \<and> (objs_ok cl \<longrightarrow> objs_ok (fst (ac_attach_end t r cl)))"
  by (simp add: ac_attach_end_def split: sum.split)

lemma watch_end_ok: "keeps_calls cl (fst (ac_watch_end js after b r cl)) \<and> (objs_ok cl \<longrightarrow> objs_ok (fst (ac_watch_end js after b r cl)))"
  using objs_ok_keep[OF aobs_same(4), of cl] by (auto simp: ac_watch_end_def split: sum.split)

lemma freeze_end_ok: "keeps_calls cl (fst (ac_freeze_end r cl)) \<and> (objs_ok cl \<longrightarrow> objs_ok (fst (ac_freeze_end r cl)))"
  by (simp add: ac_freeze_end_def)

lemma sent_ok:
  "ac_inv cl \<Longrightarrow> i < length (ac_calls cl) \<Longrightarrow> rc_status (ac_calls cl ! i) = Sending \<Longrightarrow> ac_inv (fst (ac_sent e i cl))"
  by (simp add: ac_sent_def abandon_ok split: option.split)

lemma ac_step_inv: "ac_step js cl cl' \<Longrightarrow> ac_inv cl \<Longrightarrow> ac_inv cl'"
proof (induction rule: ac_step.induct)
  case (Read cap t cl cl' r)
  then show ?case using aterm_read_ok ac_inv_keep by blast
next
  case (Next ctx pick b cl cl' r)
  then show ?case using aobs_next_ok ac_inv_keep by blast
next
  case (Wait i cl ctx pick cl' r)
  then show ?case using wait_ok by blast
next
  case (CloseTerm cl t)
  then show ?case using set_aterm_same ac_inv_keep objs_ok_keep by blast
next
  case (AttachEnd t cl r)
  then show ?case using attach_end_ok ac_inv_keep by blast
next
  case (WatchEnd b cl after r)
  then show ?case using watch_end_ok ac_inv_keep by blast
next
  case (FreezeEnd cl r)
  then show ?case using freeze_end_ok ac_inv_keep by blast
next
  case (Spawned cl)
  then show ?case using ac_inv_keep[of cl "cl\<lparr>ac_unwatch := tl (ac_unwatch cl)\<rparr>"] by simp
next
  case (AttachOpen cl win)
  then show ?case using open_ok(1,2) ac_inv_keep by blast
next
  case (WatchOpen cl after)
  then show ?case using open_ok(3,4) ac_inv_keep by blast
next
  case (ForgetTerm cl t)
  then show ?case using aforget_ok(1,2) ac_inv_keep by blast
next
  case (ForgetObs cl b)
  then show ?case using aforget_ok(3,4) ac_inv_keep by blast
next
  case (CloseObs cl b)
  then show ?case using aobs_same(1) objs_ok_eq(2) ac_inv_keep by blast
qed (simp_all add: ticket_ok register_ok sent_ok ac_ends_ok ac_recv_ok)

interpretation agent_client_steps: steps_keep_from "ac_step js" ac_inv "\<lambda>cl. cl = new_aclient" for js
  by unfold_locales (auto intro: ac_step_inv ac_new_inv)

lemmas ac_run_inv = agent_client_steps.kept_along
lemmas ac_reachable = agent_client_steps.kept_reached[OF refl]

text \<open>A connection that has hung up stays so, whatever comes after.\<close>

lemma ac_event_keeps_closed: "ac_recv js f cl = Some cl' \<Longrightarrow> ac_closed cl' = ac_closed cl"
  using ac_event_ok[of js f cl cl'] keeps_callsD[of cl cl'] ac_pty_ok[of cl f] keeps_callsD[of cl "ac_pty f cl"]
  by (auto simp: ac_recv_def ac_response_def set_acall_def Let_def split: if_splits option.splits)

lemma ac_step_closed: "ac_step js cl cl' \<Longrightarrow> ac_closed cl \<Longrightarrow> ac_closed cl'"
proof (induction rule: ac_step.induct)
  case (Read cap t cl cl' r)
  then show ?case using aterm_read_ok keeps_callsD by blast
next
  case (Next ctx pick b cl cl' r)
  then show ?case using aobs_next_ok keeps_callsD by blast
next
  case (AttachEnd t cl r)
  then show ?case using attach_end_ok keeps_callsD by blast
next
  case (WatchEnd b cl after r)
  then show ?case using watch_end_ok keeps_callsD by blast
next
  case (FreezeEnd cl r)
  then show ?case using freeze_end_ok keeps_callsD by blast
next
  case (AttachOpen cl win)
  then show ?case using open_ok(1) keeps_callsD by blast
next
  case (WatchOpen cl after)
  then show ?case using open_ok(3) keeps_callsD by blast
next
  case (ForgetTerm cl t)
  then show ?case using aforget_ok(1) keeps_callsD by blast
next
  case (ForgetObs cl b)
  then show ?case using aforget_ok(3) keeps_callsD by blast
next
  case (CloseObs cl b)
  then show ?case using aobs_same(1) keeps_callsD by blast
next
  case (Hangup cl e)
  then show ?case using ac_ends_calls(1) keeps_callsD by fastforce
next
  case (FailAll cl)
  then show ?case using ac_ends_calls(2) keeps_callsD by fastforce
next
  case (Receive f cl cl')
  then show ?case using ac_event_keeps_closed by blast
qed (auto simp: ac_ticket_def ac_register_def ac_sent_def ac_abandon_def ac_returned_def set_acall_def set_aterm_def
    ac_wait_def Let_def split: option.splits if_splits)

interpretation agent_client_closed: steps_keep "ac_step js" ac_closed for js
  by unfold_locales (rule ac_step_closed)

lemmas ac_run_closed = agent_client_closed.kept_along

subsection \<open>The end of a connection\<close>

lemma hangup_frame_answer:
  "call_answer m (hangup_frame (status_of (Some e)) q) = Inl (OpError m (wire_error e))"
  by (simp add: call_answer_def hangup_frame_def annotate_def error_from_status_of_Some)

text \<open>
  Nobody waits for a guest that is gone. When the connection of a run hangs up with \<open>e\<close>, then
  however the run goes on: every call that has sent its request can return; a call waiting at the
  hang-up returns \<open>e\<close> as the wire carries it, under its own method; a new call is refused with
  \<open>ErrUnavailable\<close> and sends nothing.
\<close>

lemma agent_hangup_final:
  assumes "ac_run js new_aclient cl" and "ac_run js (ac_hangup e cl) cl2" and "length (ac_calls cl2) < 2 ^ 64"
  shows "(\<forall>i < length (ac_calls cl2). rc_status (ac_calls cl2 ! i) = Sending \<longrightarrow> ac_wait None p i cl2 \<noteq> None) \<and>
    (\<forall>q i. ac_pending cl q = Some i \<longrightarrow> (\<exists>c. ac_wait None p i (ac_hangup e cl) =
       Some (c, Inl (OpError (rc_method (ac_calls cl ! i)) (wire_error e))))) \<and>
    snd (ac_begin None d m x cl2) = Inl (OpError m (Sent ErrUnavailable))"
proof -
  have inv: "ac_inv cl" "ac_inv cl2" using ac_reachable[OF assms(1)] ac_run_inv[OF assms(2)] ac_ends_ok by blast+
  have h: "ac_calls (ac_hangup e cl) = ac_calls (ac_answer_all (status_of (Some e)) cl)" "ac_closed (ac_hangup e cl)"
    using keeps_callsD[OF ac_ends_calls(1), of e cl] by simp_all
  have closed: "ac_closed cl2" using ac_run_closed[OF assms(2) h(2)] .
  have "ac_wait None p i cl2 \<noteq> None" if "i < length (ac_calls cl2)" "rc_status (ac_calls cl2 ! i) = Sending" for i
    using calls_okD(1)[of "call_view cl2" i] inv(2) that assms(3) closed
    by (auto simp: ac_inv_def acalls_ok_def call_ok_def ac_wait_def Let_def)
  moreover have "\<exists>c. ac_wait None p i (ac_hangup e cl) = Some (c, Inl (OpError (rc_method (ac_calls cl ! i)) (wire_error e)))"
    if "ac_pending cl q = Some i" for q i
  proof -
    have "i < length (ac_calls cl)" "rc_seq (ac_calls cl ! i) = q"
      using calls_okD(2,3)[of "call_view cl"] inv(1) that by (auto simp: ac_inv_def acalls_ok_def)
    then show ?thesis using that by (simp add: ac_wait_def h(1) answer_all_nth hangup_frame_answer Let_def)
  qed
  moreover have "snd (ac_begin None d m x cl2) = Inl (OpError m (Sent ErrUnavailable))"
    using closed by (simp add: ac_begin_def ac_ticket_def ac_register_def Let_def nth_append)
  ultimately show ?thesis by blast
qed

text \<open>A connection with one call on the wire, one terminal and one observation.\<close>

definition sample_aclient :: aclient where
  "sample_aclient = fst (ac_watch_open sample_cj '''' (fst (ac_attach_open sample_cj (Window 0 0)
     (fst (ac_register [] 0 0 (fst (ac_ticket ''freeze'' new_aclient)))))))"

lemmas sample_aclient_defs = sample_aclient_def ac_watch_open_def ac_attach_open_def ac_register_def ac_ticket_def
  new_aclient_def sample_cj_def encode_extra_def set_acall_def Let_def

lemma sample_aclient_run: "ac_run sample_cj new_aclient sample_aclient"
proof -
  have "ac_step sample_cj (fst (ac_ticket ''freeze'' new_aclient))
      (fst (ac_register [] 0 0 (fst (ac_ticket ''freeze'' new_aclient))))"
    by (rule ac_step.Register) (simp_all add: ac_ticket_def new_aclient_def Let_def)
  then show ?thesis unfolding sample_aclient_def
    by (meson ac_step.Ticket ac_step.AttachOpen ac_step.WatchOpen rtranclp.rtrancl_into_rtrancl rtranclp.rtrancl_refl)
qed

lemma agent_hangup_final_witness:
  "\<exists>c. ac_wait None True 0 (ac_hangup (Sent ErrRevoked) sample_aclient) =
     Some (c, Inl (OpError ''freeze'' (Sent ErrRevoked)))"
proof -
  have l: "length (ac_calls (ac_hangup (Sent ErrRevoked) sample_aclient)) < 2 ^ 64"
    using keeps_callsD[OF ac_ends_calls(1), of "Sent ErrRevoked" sample_aclient] by (simp add: sample_aclient_defs)
  have "ac_pending sample_aclient 1 = Some 0" "rc_method (ac_calls sample_aclient ! 0) = ''freeze''"
    by (simp_all add: sample_aclient_defs)
  then show ?thesis
    using agent_hangup_final[OF sample_aclient_run rtranclp.rtrancl_refl l, of True, THEN conjunct2, THEN conjunct1,
        rule_format, of 1 0]
    by simp
qed

subsection \<open>A call over the hop\<close>

text \<open>
  A call to the guest is the agent's handler. When the connection takes frames, a call of a run
  whose request the agent runs, and whose answer is the next frame the host reads, returns exactly
  what the handler returned: its payload, or its error under the method, every sentinel kept.
\<close>

lemma agent_call_roundtrip:
  assumes "ac_run js new_aclient cl" and "ac_begin None d m x cl = (cl1, Inr (i, f))"
    and "agent_handle env sjs ctx f s = (s1, r)" and "ge_send env (ag_tick s1) = None"
  shows "\<exists>y cl2 cl3. ag_sent (agent_recv env sjs ctx f s) = ag_sent s1 @ [y] \<and> ac_recv js y cl1 = Some cl2 \<and>
    ac_wait None p i cl2 = Some (cl3, case r of Inl e \<Rightarrow> Inl (OpError m (wire_error e)) | Inr v \<Rightarrow> Inr v)"
proof -
  let ?c = "\<lparr>rc_seq = ac_seq cl + 1, rc_method = m, rc_box = None, rc_status = Sending\<rparr>"
  let ?y = "agent_reply f r"
  have f: "fr_kind f = KindRequest" "fr_seq f = ac_seq cl + 1" "fr_method f = m" and i: "i = length (ac_calls cl)"
    and c: "ac_calls cl1 = ac_calls cl @ [?c]" "ac_pending cl1 (ac_seq cl + 1) = Some i"
    using assms(2) by (auto simp: ac_begin_def ac_ticket_def ac_register_def set_acall_def Let_def nth_append split: if_splits)
  have s: "ag_sent (agent_recv env sjs ctx f s) = ag_sent s1 @ [?y]"
    using f(1) assms(3,4) by (simp add: agent_recv_def agent_send_def Let_def)
  have n: "ac_calls cl1 ! i = ?c" "i < length (ac_calls cl1)" using c i by (simp_all add: nth_append)
  have "ac_recv js ?y cl1 = Some (set_acall i (?c\<lparr>rc_box := Some ?y\<rparr>)
      (cl1\<lparr>ac_pending := (ac_pending cl1)(ac_seq cl + 1 := None)\<rparr>))" (is "_ = Some ?cl2")
    using f c n by (simp add: ac_recv_def ac_response_def agent_reply_def Let_def)
  moreover have "ac_calls ?cl2 ! i = ?c\<lparr>rc_box := Some ?y\<rparr>" using n(2) by (simp add: set_acall_def)
  then have "ac_wait None p i ?cl2 = Some (ac_returned i (set_acall i (?c\<lparr>rc_box := None\<rparr>) ?cl2), call_answer m ?y)"
    by (simp add: ac_wait_def Let_def)
  moreover have "call_answer m ?y = (case r of Inl e \<Rightarrow> Inl (OpError m (wire_error e)) | Inr v \<Rightarrow> Inr v)"
    by (cases r) (simp_all add: call_answer_def agent_reply_def annotate_def error_from_status_of_Some)
  ultimately show ?thesis using s by auto
qed

lemma agent_call_roundtrip_witness:
  "\<exists>y cl2 cl3. ag_sent (agent_recv (agent_env0 (\<lambda>_. False)) agent_json None
      ((agent_request ''thaw'')\<lparr>fr_seq := 1, fr_extra := []\<rparr>) agent0) = [y] \<and>
     ac_wait None True 0 cl2 = Some (cl3, Inr [])"
proof -
  let ?f = "(agent_request ''thaw'')\<lparr>fr_seq := 1, fr_extra := []\<rparr>"
  have b: "ac_begin None 0 ''thaw'' [] new_aclient = (fst (ac_begin None 0 ''thaw'' [] new_aclient), Inr (0, ?f))"
    by (simp add: ac_begin_def ac_ticket_def ac_register_def new_aclient_def agent_request_def Let_def)
  have h: "agent_handle (agent_env0 (\<lambda>_. False)) agent_json None ?f agent0 = (agent0\<lparr>ag_frozen := False\<rparr>, Inr [])"
    by (simp add: agent_handle_def agent_request_def agent_thaw_def Let_def)
  have send: "ge_send (agent_env0 (\<lambda>_. False)) k = None" for k by (simp add: agent_env0_def)
  have empty: "ag_sent (agent0\<lparr>ag_frozen := False\<rparr>) = []" by code_simp
  show ?thesis
    using agent_call_roundtrip[OF rtranclp.rtrancl_refl b h send, where p = True and js = sample_cj] empty
    by (simp del: split_paired_Ex) blast
qed

subsection \<open>Terminal bytes over the hop\<close>

text \<open>
  Terminal bytes cross the hop unchanged, both ways. Keys that \<open>Write\<close> accepts reach the shell the
  agent serves on that stream, after those it has had; and what one read of the copier brings
  from the shell arrives at the live terminal of that stream, after the bytes already there.
\<close>

lemma agent_terminal_bytes:
  assumes "ac_term cl = Some t" "t < length (ac_terms cl)" "\<not> at_closed (ac_terms cl ! t)" "at_dead (ac_terms cl ! t) = None"
    and "ag_term s = Some i" "i < length (ag_shells s)" "\<not> ag_frozen s" "ag_term_stream s = at_stream (ac_terms cl ! t)"
    and "ge_send env (ag_tick s) = None"
  shows "(\<exists>f. aterm_write p t cl = Inr f \<and>
      sh_input (ag_shells (agent_recv env sjs ctx f s) ! i) = sh_input (ag_shells s ! i) @ p) \<and>
    (\<exists>fs cl'. ag_sent (copy_data env (ag_term_stream s) bs s) = ag_sent s @ fs \<and>
      fold (\<lambda>f c. the (ac_recv js f c)) fs cl = cl' \<and>
      at_buf (ac_terms cl' ! t) = at_buf (ac_terms cl ! t) @ bs)"
proof
  show "\<exists>f. aterm_write p t cl = Inr f \<and>
      sh_input (ag_shells (agent_recv env sjs ctx f s) ! i) = sh_input (ag_shells s ! i) @ p"
    using assms(3-8) by (simp add: aterm_write_def agent_recv_def agent_write_pty_def pty_frame_def Let_def)
  let ?f = "pty_frame '''' (ag_term_stream s) bs None"
  let ?fs = "if bs = [] then [] else [?f]"
  have "ag_sent (copy_data env (ag_term_stream s) bs s) = ag_sent s @ ?fs"
    using assms(9) by (simp add: copy_data_def agent_send_def Let_def)
  moreover have "at_buf (ac_terms (fold (\<lambda>f c. the (ac_recv js f c)) ?fs cl) ! t) = at_buf (ac_terms cl ! t) @ bs"
    using assms(1-4,8) by (simp add: ac_recv_def ac_pty_def aterm_push_def pty_frame_def set_aterm_def Let_def)
  ultimately show "\<exists>fs cl'. ag_sent (copy_data env (ag_term_stream s) bs s) = ag_sent s @ fs \<and>
      fold (\<lambda>f c. the (ac_recv js f c)) fs cl = cl' \<and> at_buf (ac_terms cl' ! t) = at_buf (ac_terms cl ! t) @ bs"
    by blast
qed

definition sample_shell_agent :: agent where
  "sample_shell_agent = agent0\<lparr>ag_shells := [\<lparr>sh_open = True, sh_reaped = False, sh_window = Window 80 24, sh_input = [108]\<rparr>],
     ag_term := Some 0, ag_term_stream := 1\<rparr>"

lemma agent_terminal_bytes_witness:
  "\<exists>f. aterm_write [115, 10] 0 sample_aclient = Inr f \<and>
     sh_input (ag_shells (agent_recv (agent_env0 (\<lambda>_. False)) agent_json None f sample_shell_agent) ! 0) = [108, 115, 10]"
proof -
  let ?s = "sample_shell_agent"
  have c: "ac_term sample_aclient = Some 0" "0 < length (ac_terms sample_aclient)" "\<not> at_closed (ac_terms sample_aclient ! 0)"
    "at_dead (ac_terms sample_aclient ! 0) = None" and st: "at_stream (ac_terms sample_aclient ! 0) = 1"
    by (simp_all add: sample_aclient_defs)
  have a: "ag_term ?s = Some 0" "0 < length (ag_shells ?s)" "ag_term_stream ?s = at_stream (ac_terms sample_aclient ! 0)"
    and i: "sh_input (ag_shells ?s ! 0) = [108]"
    by (simp_all add: sample_shell_agent_def st)
  have frozen: "\<not> ag_frozen ?s" by code_simp
  have send: "ge_send (agent_env0 (\<lambda>_. False)) k = None" for k by (simp add: agent_env0_def)
  show ?thesis using agent_terminal_bytes[OF c a(1,2) frozen a(3) send] i by simp
qed

text \<open>
  A shell that ends by itself sends an empty status, which the host's side takes for output: its terminal
  stays in place, a \<open>Read\<close> goes on waiting and a second \<open>Attach\<close> is refused.
\<close>

lemma shell_end_unnoticed:
  assumes "ac_term cl = Some t" "t < length (ac_terms cl)" "at_buf (ac_terms cl ! t) = []"
    "\<not> at_closed (ac_terms cl ! t)" "at_dead (ac_terms cl ! t) = None"
    and "\<not> ag_frozen s" "f \<in> set (drop (length (ag_ending s)) (ag_ending (copy_unlock stream i hung_up IoEOF s)))"
  shows "ac_recv js f cl = Some cl \<and> aterm_read n t cl = None \<and>
    (\<exists>e. snd (ac_attach_open js win cl) = Inl e)"
proof -
  have f: "f = (pty_frame '''' stream [] None)\<lparr>fr_status := ''''\<rparr>"
    using assms(6,7) by (simp add: copy_unlock_def pty_end_status_def Let_def)
  have "set_aterm t (ac_terms cl ! t) cl = cl" by (simp add: set_aterm_def)
  then have "ac_recv js f cl = Some cl"
    using assms(1) by (simp add: f ac_recv_def ac_pty_def pty_frame_def aterm_push_def Let_def)
  moreover have "aterm_read n t cl = None" using assms(3-5) by (simp add: aterm_read_def Let_def)
  moreover have "\<exists>e. snd (ac_attach_open js win cl) = Inl e"
    using assms(1) by (simp add: ac_attach_open_def Let_def split: sum.split)
  ultimately show ?thesis by blast
qed

end
