(* ===== verification/Ctl_Host.thy ===== *)
theory Ctl_Host
  imports Daemon_Config
begin

text \<open>
  What the operator tool (\<open>internal/ctl\<close>) does its work with: the files of the host as a map from paths
  to contents, the operating system and the release server as arguments, and the tool's small
  functions: options and paths, downloads, the catalog, the checksum file, the ELF header. Every
  call outside may fail; what the \<open>k\<close>-th of them answers is a function of \<open>k\<close>. Directories are not
  tracked: making one only fails or not.
\<close>

subsection \<open>Errors and state\<close>

text \<open>\<open>Wrap op e\<close> is \<open>wrap(op, e)\<close> or another message around \<open>e\<close>, \<open>Text\<close> a message of \<open>fmt.Errorf\<close>, \<open>Api\<close> an error of Go or of the packages used.\<close>

datatype ctl_error = Wrap string ctl_error | Text string | Api go_error

definition os_not_exist :: go_error where
  "os_not_exist = Foreign ''file does not exist''"

fun is_not_exist :: "ctl_error \<Rightarrow> bool" where
  "is_not_exist (Wrap op e) = is_not_exist e"
| "is_not_exist (Text t) = False"
| "is_not_exist (Api e) = (root_error e = os_not_exist)"

type_synonym host_files = "string \<rightharpoonup> bytes"

record index_image =
  xi_id :: string
  xi_rootfs :: string
  xi_hash :: string

record index =
  ix_kernel :: string
  ix_images :: "index_image list"

datatype response = NoAnswer go_error | Answer nat string bytes "go_error option"

text \<open>
  \<open>oe_fault k\<close>: the error of the \<open>k\<close>-th call of the system; \<open>oe_left k\<close>: what a failing write leaves in the
  file. \<open>oe_get\<close>: the release server. \<open>oe_sha\<close>: SHA-256. \<open>oe_same\<close>: two paths name one file through a
  link. \<open>oe_look\<close>: \<open>exec.LookPath\<close>; \<open>oe_run k cmd\<close>: output and error of a command that fails.
  \<open>oe_download k url\<close>: what the \<open>k\<close>-th call, to curl, has in its output file at the end; \<open>oe_unpacked\<close>: the
  files that tar has written of an archive, below the directory where it unpacks. \<open>oe_walk\<close>: the files
  \<open>filepath.Walk\<close> visits below a directory, in order.
\<close>

record ctl_env =
  oe_fault :: "nat \<Rightarrow> go_error option"
  oe_left :: "nat \<Rightarrow> bytes option"
  oe_get :: "nat \<Rightarrow> string \<Rightarrow> response"
  oe_sha :: "bytes \<Rightarrow> bytes"
  oe_index :: "bytes \<Rightarrow> index option"
  oe_config :: "bytes \<Rightarrow> daemon_config option"
  oe_marshal :: "daemon_config \<Rightarrow> bytes option"
  oe_lower :: "string \<Rightarrow> string"
  oe_duration :: "string \<Rightarrow> int option"
  oe_same :: "string \<Rightarrow> string \<Rightarrow> bool"
  oe_device :: "string \<Rightarrow> bool"
  oe_look :: "string \<Rightarrow> string option"
  oe_run :: "nat \<Rightarrow> string list \<Rightarrow> (string \<times> go_error) option"
  oe_download :: "nat \<Rightarrow> string \<Rightarrow> bytes option"
  oe_unpacked :: "nat \<Rightarrow> bytes \<Rightarrow> (string \<times> bytes) list"
  oe_walk :: "string \<Rightarrow> host_files \<Rightarrow> string list"
  oe_random :: "nat \<Rightarrow> bytes res"
  oe_pair :: "nat \<Rightarrow> (bytes \<times> bytes) res"
  oe_arch :: string
  oe_vars :: build_vars
  oe_url_env :: string

record ctl =
  ct_files :: host_files
  ct_exec :: "string \<Rightarrow> bool"
  ct_tick :: nat
  ct_out :: "string list"
  ct_ran :: "string list list"

subsection \<open>Operations that may fail\<close>

type_synonym 'a oper = "ctl \<Rightarrow> ctl \<times> (ctl_error + 'a)"

definition give :: "'a \<Rightarrow> 'a oper" where
  "give x s = (s, Inr x)"

definition refuse_with :: "ctl_error \<Rightarrow> 'a oper" where
  "refuse_with e s = (s, Inl e)"

text \<open>\<open>if err != nil { return err }\<close>\<close>

definition and_then :: "'a oper \<Rightarrow> ('a \<Rightarrow> 'b oper) \<Rightarrow> 'b oper" where
  "and_then m k s = (case m s of (s', Inl e) \<Rightarrow> (s', Inl e) | (s', Inr x) \<Rightarrow> k x s')"

text \<open>The error is looked at; the error is wrapped; something is done before it is returned.\<close>

definition either_way :: "'a oper \<Rightarrow> (ctl_error \<Rightarrow> 'b oper) \<Rightarrow> ('a \<Rightarrow> 'b oper) \<Rightarrow> 'b oper" where
  "either_way m h k s = (case m s of (s', Inl e) \<Rightarrow> h e s' | (s', Inr x) \<Rightarrow> k x s')"

definition wrapping :: "string \<Rightarrow> 'a oper \<Rightarrow> 'a oper" where
  "wrapping op m = either_way m (\<lambda>e. refuse_with (Wrap op e)) give"

definition ignoring :: "unit oper \<Rightarrow> unit oper" where
  "ignoring m = either_way m (\<lambda>_. give ()) give"

definition cleaning :: "unit oper \<Rightarrow> 'a oper \<Rightarrow> 'a oper" where
  "cleaning c m = either_way m (\<lambda>e. and_then (ignoring c) (\<lambda>_. refuse_with e)) give"

definition given :: "(ctl \<Rightarrow> 'a) \<Rightarrow> ('a \<Rightarrow> 'b oper) \<Rightarrow> 'b oper" where
  "given f k s = k (f s) s"

fun each :: "('x \<Rightarrow> unit oper) \<Rightarrow> 'x list \<Rightarrow> unit oper" where
  "each f [] = give ()"
| "each f (x # xs) = and_then (f x) (\<lambda>_. each f xs)"

definition print_line :: "string \<Rightarrow> unit oper" where
  "print_line t s = (s\<lparr>ct_out := ct_out s @ [t]\<rparr>, Inr ())"

subsection \<open>The system\<close>

definition sys_call :: "ctl_env \<Rightarrow> (nat \<Rightarrow> ctl \<Rightarrow> ctl \<times> (ctl_error + 'a)) \<Rightarrow> 'a oper" where
  "sys_call env act s = act (ct_tick s) (s\<lparr>ct_tick := Suc (ct_tick s)\<rparr>)"

text \<open>A call that changes none of the files: it only fails or not.\<close>

definition may_fail :: "ctl_env \<Rightarrow> unit oper" where
  "may_fail env = sys_call env (\<lambda>k s. (s, case oe_fault env k of Some e \<Rightarrow> Inl (Api e) | None \<Rightarrow> Inr ()))"

definition mkdirs :: "ctl_env \<Rightarrow> string \<Rightarrow> unit oper" where
  "mkdirs env p = may_fail env"

text \<open>\<open>os.OpenFile\<close> for writing, with truncation.\<close>

definition create_file :: "ctl_env \<Rightarrow> string \<Rightarrow> unit oper" where
  "create_file env p = sys_call env (\<lambda>k s.
     (case oe_fault env k of
        Some e \<Rightarrow> (s, Inl (Api e))
      | None \<Rightarrow> (s\<lparr>ct_files := (ct_files s)(p \<mapsto> []),
                   ct_exec := (ct_exec s)(p := ct_files s p \<noteq> None \<and> ct_exec s p)\<rparr>, Inr ())))"

definition read_file :: "ctl_env \<Rightarrow> string \<Rightarrow> bytes oper" where
  "read_file env p = sys_call env (\<lambda>k s.
     (s, case oe_fault env k of
           Some e \<Rightarrow> Inl (Api e)
         | None \<Rightarrow> (case ct_files s p of None \<Rightarrow> Inl (Api os_not_exist) | Some bs \<Rightarrow> Inr bs)))"

text \<open>\<open>os.WriteFile\<close>; a new file's mode has the execute bits of \<open>x\<close>, an existing one keeps its own.\<close>

definition write_file :: "ctl_env \<Rightarrow> string \<Rightarrow> bool \<Rightarrow> bytes \<Rightarrow> unit oper" where
  "write_file env p x bs = sys_call env (\<lambda>k s.
     (let s1 = s\<lparr>ct_exec := (ct_exec s)(p := if ct_files s p = None then x else ct_exec s p)\<rparr> in
      case oe_fault env k of
        Some e \<Rightarrow> (s1\<lparr>ct_files := (ct_files s)(p := oe_left env k)\<rparr>, Inl (Api e))
      | None \<Rightarrow> (s1\<lparr>ct_files := (ct_files s)(p \<mapsto> bs)\<rparr>, Inr ())))"

definition rename_file :: "ctl_env \<Rightarrow> string \<Rightarrow> string \<Rightarrow> unit oper" where
  "rename_file env a b = sys_call env (\<lambda>k s.
     (case oe_fault env k of
        Some e \<Rightarrow> (s, Inl (Api e))
      | None \<Rightarrow>
          (case ct_files s a of
             None \<Rightarrow> (s, Inl (Api os_not_exist))
           | Some bs \<Rightarrow> (s\<lparr>ct_files := (ct_files s)(a := None, b \<mapsto> bs), ct_exec := (ct_exec s)(b := ct_exec s a)\<rparr>, Inr ()))))"

definition remove_path :: "ctl_env \<Rightarrow> string \<Rightarrow> unit oper" where
  "remove_path env p = sys_call env (\<lambda>k s.
     (case oe_fault env k of
        Some e \<Rightarrow> (s, Inl (Api e))
      | None \<Rightarrow>
          if ct_files s p = None then (s, Inl (Api os_not_exist))
          else (s\<lparr>ct_files := (ct_files s)(p := None)\<rparr>, Inr ())))"

text \<open>\<open>os.Chmod\<close> to a mode with execute bits.\<close>

definition make_executable :: "ctl_env \<Rightarrow> string \<Rightarrow> unit oper" where
  "make_executable env p = sys_call env (\<lambda>k s.
     (case oe_fault env k of
        Some e \<Rightarrow> (s, Inl (Api e))
      | None \<Rightarrow>
          if ct_files s p = None then (s, Inl (Api os_not_exist))
          else (s\<lparr>ct_exec := (ct_exec s)(p := True)\<rparr>, Inr ())))"

text \<open>\<open>os.Stat\<close> of a regular file.\<close>

definition stat_file :: "ctl_env \<Rightarrow> string \<Rightarrow> bool oper" where
  "stat_file env p = sys_call env (\<lambda>k s. (s, Inr (oe_fault env k = None \<and> ct_files s p \<noteq> None)))"

definition run_tool :: "ctl_env \<Rightarrow> string list \<Rightarrow> (string \<times> go_error) option oper" where
  "run_tool env cmd = sys_call env (\<lambda>k s. (s\<lparr>ct_ran := ct_ran s @ [cmd]\<rparr>, Inr (oe_run env k cmd)))"

subsection \<open>Text\<close>

text \<open>
  The length of the white space at the front, as \<open>unicode.IsSpace\<close> of the first rune has it. A byte that
  starts a rune is never inside another, so looking at bytes finds the same runes.
\<close>

definition space_len :: "string \<Rightarrow> nat" where
  "space_len s =
     (let b = map ord_of (take 3 s) in
      if take 1 b \<in> {[9], [10], [11], [12], [13], [32]} then 1
      else if take 2 b \<in> {[0xC2, 0x85], [0xC2, 0xA0]} then 2
      else if b \<in> {[0xE1, 0x9A, 0x80], [0xE2, 0x80, 0xA8], [0xE2, 0x80, 0xA9], [0xE2, 0x80, 0xAF],
                   [0xE2, 0x81, 0x9F], [0xE3, 0x80, 0x80]} \<or>
              (take 2 b = [0xE2, 0x80] \<and> length b = 3 \<and> 0x80 \<le> b ! 2 \<and> b ! 2 \<le> 0x8A) then 3
      else 0)"

lemma space_len_le: "space_len s \<le> length s"
proof (cases s rule: list.exhaust)
  case (Cons a t)
  then show ?thesis
    by (cases t; cases "tl t") (auto simp: space_len_def Let_def)
qed (simp add: space_len_def)

text \<open>\<open>strings.Fields\<close>: \<open>w\<close> is the field so far.\<close>

function text_fields_from :: "string \<Rightarrow> string \<Rightarrow> string list" where
  "text_fields_from w s =
     (if s = '''' then (if w = '''' then [] else [w])
      else if space_len s = 0 then text_fields_from (w @ [hd s]) (tl s)
      else (if w = '''' then [] else [w]) @ text_fields_from '''' (drop (space_len s) s))"
  by auto
termination by (relation "measure (\<lambda>(w, s). length s)") auto

declare text_fields_from.simps [simp del]

definition text_fields :: "string \<Rightarrow> string list" where
  "text_fields s = text_fields_from '''' s"

function trim_left :: "string \<Rightarrow> string" where
  "trim_left s = (if s = '''' \<or> space_len s = 0 then s else trim_left (drop (space_len s) s))"
  by auto
termination by (relation "measure length") auto

declare trim_left.simps [simp del]

fun trim_right :: "string \<Rightarrow> string" where
  "trim_right [] = []"
| "trim_right (c # s) = (if trim_left (c # s) = '''' then '''' else c # trim_right s)"

definition trim_space :: "string \<Rightarrow> string" where
  "trim_space s = trim_right (trim_left s)"

text \<open>\<open>filepath.Base\<close> and \<open>Dir\<close>.\<close>

definition fp_base :: "string \<Rightarrow> string" where
  "fp_base p =
     (let q = rev (dropWhile (\<lambda>c. c = CHR ''/'') (rev p)) in
      if p = '''' then ''.'' else if q = '''' then ''/''
      else rev (takeWhile (\<lambda>c. c \<noteq> CHR ''/'') (rev q)))"

definition fp_dir :: "string \<Rightarrow> string" where
  "fp_dir p = fp_clean (rev (dropWhile (\<lambda>c. c \<noteq> CHR ''/'') (rev p)))"

definition err_trim :: "string \<Rightarrow> go_error \<Rightarrow> ctl_error" where
  "err_trim out e = (if trim_space out = '''' then Api e else Text (trim_space out))"

subsection \<open>Options and paths\<close>

text \<open>\<open>op_reload\<close>: the operator's own reload, if there is one, by the number of the call.\<close>

record options =
  op_prefix :: string
  op_sysconf :: string
  op_state :: string
  op_device :: string
  op_listen :: string
  op_slots :: int
  op_execenv :: string
  op_no_start :: bool
  op_no_fetch :: bool
  op_insecure :: bool
  op_release_url :: string
  op_reload :: "(nat \<Rightarrow> ctl_error option) option"

definition ctl_defaults :: options where
  "ctl_defaults = \<lparr>op_prefix = ''/usr/local'', op_sysconf = ''/etc/execenv'', op_state = ''/var/lib/execenv'',
     op_device = ''/dev/kvm'', op_listen = ''0.0.0.0:8443'', op_slots = 8, op_execenv = '''', op_no_start = False,
     op_no_fetch = False, op_insecure = False, op_release_url = '''', op_reload = None\<rparr>"

definition or_default :: "string \<Rightarrow> string \<Rightarrow> string" where
  "or_default s d = (if s = '''' then d else s)"

definition op_resolved :: "options \<Rightarrow> options" where
  "op_resolved o' = o'\<lparr>op_prefix := or_default (op_prefix o') ''/usr/local'',
     op_sysconf := or_default (op_sysconf o') ''/etc/execenv'', op_state := or_default (op_state o') ''/var/lib/execenv'',
     op_device := or_default (op_device o') ''/dev/kvm'', op_listen := or_default (op_listen o') ''0.0.0.0:8443'',
     op_slots := (if op_slots o' \<le> 0 then 8 else op_slots o')\<rparr>"

definition bin_dir :: "options \<Rightarrow> string" where "bin_dir o' = fp_join (op_prefix o') ''bin''"
definition config_path :: "options \<Rightarrow> string" where "config_path o' = fp_join (op_sysconf o') ''host.json''"
definition work_dir :: "options \<Rightarrow> string" where "work_dir o' = fp_join (op_state o') ''work''"
definition unit_dir :: "options \<Rightarrow> string" where
  "unit_dir o' = fp_join (fp_join (fp_dir (op_sysconf o')) ''systemd'') ''system''"
definition unit_path :: "options \<Rightarrow> string" where "unit_path o' = fp_join (unit_dir o') ''execenv.service''"
definition runtime_path :: "options \<Rightarrow> string" where "runtime_path o' = fp_join (bin_dir o') ''firecracker''"
definition supervisor_path :: "options \<Rightarrow> string" where "supervisor_path o' = fp_join (bin_dir o') ''jailer''"
definition execenv_path :: "options \<Rightarrow> string" where "execenv_path o' = fp_join (bin_dir o') ''execenv''"

subsection \<open>The release channel\<close>

definition trim_slashes :: "string \<Rightarrow> string" where
  "trim_slashes s = rev (dropWhile (\<lambda>c. c = CHR ''/'') (rev s))"

definition resolve_release_url :: "string \<Rightarrow> string \<Rightarrow> string \<Rightarrow> ctl_error + string" where
  "resolve_release_url flag env tag =
     (if flag \<noteq> '''' then Inr (trim_slashes flag)
      else if env \<noteq> '''' then Inr (trim_slashes env)
      else if tag = '''' \<or> tag = ''dev''
        then Inl (Wrap ''release'' (Text ''unstamped binary; pass --release-url or EXECENV_RELEASE_URL''))
      else Inr (''https://github.com/sudosylabs/execenv/releases/download/'' @ tag))"

definition of_result :: "ctl_error + 'a \<Rightarrow> 'a oper" where
  "of_result r s = (s, r)"

definition release_base :: "ctl_env \<Rightarrow> options \<Rightarrow> string oper" where
  "release_base env o' = of_result (resolve_release_url (op_release_url o') (oe_url_env env) (bv_tag (oe_vars env)))"

definition http_get :: "ctl_env \<Rightarrow> string \<Rightarrow> response oper" where
  "http_get env url = sys_call env (\<lambda>k s. (s, Inr (oe_get env k url)))"

definition status_error :: "string \<Rightarrow> string \<Rightarrow> ctl_error" where
  "status_error url st = Wrap ''fetch'' (Text (fp_base url @ '': '' @ st))"

text \<open>The body goes into the sibling \<open>.tmp\<close>: opening, copying and closing it may each fail.\<close>

definition store_body :: "ctl_env \<Rightarrow> string \<Rightarrow> bytes \<Rightarrow> go_error option \<Rightarrow> unit oper" where
  "store_body env tmp body broken =
     and_then (create_file env tmp)
       (\<lambda>_. cleaning (remove_path env tmp)
          (and_then (write_file env tmp False body)
             (\<lambda>_. case broken of Some e \<Rightarrow> refuse_with (Api e) | None \<Rightarrow> may_fail env)))"

definition fetch_url :: "ctl_env \<Rightarrow> string \<Rightarrow> string \<Rightarrow> unit oper" where
  "fetch_url env url dest =
     and_then (wrapping ''fetch'' (mkdirs env (fp_dir dest)))
       (\<lambda>_. and_then (http_get env url)
          (\<lambda>resp. case resp of
             NoAnswer e \<Rightarrow> refuse_with (Wrap ''fetch'' (Api e))
           | Answer code st body broken \<Rightarrow>
               if code \<noteq> 200 then refuse_with (status_error url st)
               else wrapping ''fetch''
                 (and_then (store_body env (dest @ ''.tmp'') body broken)
                    (\<lambda>_. cleaning (remove_path env (dest @ ''.tmp'')) (rename_file env (dest @ ''.tmp'') dest)))))"

definition fetch_bytes :: "ctl_env \<Rightarrow> string \<Rightarrow> bytes oper" where
  "fetch_bytes env url =
     and_then (http_get env url)
       (\<lambda>resp. case resp of
          NoAnswer e \<Rightarrow> refuse_with (Wrap ''fetch'' (Api e))
        | Answer code st body broken \<Rightarrow>
            if code \<noteq> 200 then refuse_with (status_error url st)
            else (case broken of Some e \<Rightarrow> refuse_with (Api e) | None \<Rightarrow> give body))"

subsection \<open>The catalog\<close>

definition parse_index :: "ctl_env \<Rightarrow> bytes \<Rightarrow> ctl_error + index" where
  "parse_index env raw =
     (case oe_index env raw of
        None \<Rightarrow> Inl (Wrap ''catalog'' (Api (Sent ErrInvalid)))
      | Some idx \<Rightarrow> Inr (if ix_kernel idx = '''' then idx\<lparr>ix_kernel := ''vmlinux''\<rparr> else idx))"

text \<open>\<open>Index.lookup\<close>: the loop over the images.\<close>

fun lookup_image :: "string \<Rightarrow> index_image list \<Rightarrow> ctl_error + index_image" where
  "lookup_image i [] = Inl (Wrap ''catalog'' (Wrap i (Api (Sent ErrUnknownImage))))"
| "lookup_image i (img # imgs) =
     (if xi_id img = i
      then (if xi_rootfs img = '''' \<or> \<not> valid_digest (xi_hash img) then Inl (Wrap ''catalog'' (Api (Sent ErrInvalid)))
            else Inr img)
      else lookup_image i imgs)"

definition index_lookup :: "index \<Rightarrow> string \<Rightarrow> ctl_error + index_image" where
  "index_lookup idx i = lookup_image i (ix_images idx)"

subsection \<open>The host document\<close>

definition load_host :: "ctl_env \<Rightarrow> string \<Rightarrow> daemon_config oper" where
  "load_host env path = sys_call env (\<lambda>k s.
     (let raw = (case oe_fault env k of
                   Some e \<Rightarrow> Inl e
                 | None \<Rightarrow> (case ct_files s path of None \<Rightarrow> Inl os_not_exist | Some bs \<Rightarrow> Inr bs))
      in (s, case load_config (oe_lower env) (oe_duration env) path raw (oe_config env) of
               Inr cfg \<Rightarrow> Inr cfg
             | Inl e \<Rightarrow> if root_error e = os_not_exist then Inl (Api os_not_exist) else Inl (Api e))))"

text \<open>\<open>daemon.Save\<close> of theory Daemon_Config: three calls that may fail.\<close>

definition save_host :: "ctl_env \<Rightarrow> string \<Rightarrow> daemon_config \<Rightarrow> unit oper" where
  "save_host env path doc s =
     (let k = ct_tick s;
          r = save_config (oe_lower env) (oe_duration env) (oe_marshal env)
                (map_option (\<lambda>e. (e, oe_left env k)) (oe_fault env k)) (oe_fault env (k + 1)) (oe_fault env (k + 2))
                path doc (ct_files s)
      in (s\<lparr>ct_files := fst r, ct_tick := k + 3\<rparr>, case snd r of Inl e \<Rightarrow> Inl (Api e) | Inr u \<Rightarrow> Inr u))"

fun upsert_image :: "daemon_image list \<Rightarrow> daemon_image \<Rightarrow> daemon_image list" where
  "upsert_image [] img = [img]"
| "upsert_image (x # xs) img = (if di_id x = di_id img then img # xs else x # upsert_image xs img)"

subsection \<open>Checksums and the ELF header\<close>

definition drop_cr :: "string \<Rightarrow> string" where
  "drop_cr s = (if s \<noteq> '''' \<and> last s = CHR 0x0D then butlast s else s)"

text \<open>The lines of \<open>bufio.Scanner\<close>: one that does not fit its buffer of 64 KiB is an error, \<open>None\<close>.\<close>

definition scan_lines :: "string \<Rightarrow> string option list" where
  "scan_lines s =
     (let ls = split_on (CHR 0x0A) s; ls = (if last ls = '''' then butlast ls else ls)
      in map (\<lambda>l. if 65536 \<le> length l then None else Some (drop_cr l)) ls)"

fun checksum_lines :: "string option list \<Rightarrow> (string \<rightharpoonup> string) \<Rightarrow> ctl_error + (string \<rightharpoonup> string)" where
  "checksum_lines [] out = Inr out"
| "checksum_lines (None # ls) out = Inl (Wrap ''upgrade'' (Text ''bufio.Scanner: token too long''))"
| "checksum_lines (Some l # ls) out =
     (let line = trim_space l; fs = text_fields line in
      if line = '''' \<or> hd line = CHR ''#'' then checksum_lines ls out
      else if length fs < 2 \<or> length (hd fs) \<noteq> 64 then Inl (Wrap ''upgrade'' (Text ''invalid checksum file''))
      else checksum_lines ls (out(fp_base (fs ! 1) \<mapsto> hd fs)))"

definition parse_checksums :: "bytes \<Rightarrow> ctl_error + (string \<rightharpoonup> string)" where
  "parse_checksums raw = checksum_lines (scan_lines (string_of_bytes raw)) Map.empty"

definition file_sha256 :: "ctl_env \<Rightarrow> string \<Rightarrow> string oper" where
  "file_sha256 env p = and_then (wrapping ''upgrade'' (read_file env p)) (\<lambda>raw. give (hex_encode (oe_sha env raw)))"

definition verify_checksum :: "ctl_env \<Rightarrow> string \<Rightarrow> string \<Rightarrow> unit oper" where
  "verify_checksum env p want =
     and_then (file_sha256 env p)
       (\<lambda>got. if got \<noteq> want then refuse_with (Wrap ''upgrade'' (Text ''checksum mismatch'')) else give ())"

definition file_matches :: "ctl_env \<Rightarrow> string \<Rightarrow> string \<Rightarrow> bool oper" where
  "file_matches env p want = either_way (file_sha256 env p) (\<lambda>_. give False) (\<lambda>got. give (got = want))"

text \<open>The checks of \<open>requireLinuxAMD64\<close> on the contents of the file.\<close>

definition linux_amd64 :: "bytes \<Rightarrow> ctl_error option" where
  "linux_amd64 raw =
     (if length raw < 20 \<or> raw ! 0 \<noteq> 0x7F \<or> raw ! 1 \<noteq> 0x45 \<or> raw ! 2 \<noteq> 0x4C \<or> raw ! 3 \<noteq> 0x46
        then Some (Wrap ''upgrade'' (Text ''refusing a non-linux binary''))
      else if raw ! 4 \<noteq> 2 \<or> raw ! 5 \<noteq> 1 then Some (Wrap ''upgrade'' (Text ''refusing a non-linux amd64 binary''))
      else if raw ! 7 \<noteq> 0 \<and> raw ! 7 \<noteq> 3 then Some (Wrap ''upgrade'' (Text ''refusing a non-linux amd64 binary''))
      else if unat (raw ! 18) + 256 * unat (raw ! 19) = 62 then None
      else Some (Wrap ''upgrade'' (Text ''refusing a non-linux amd64 binary'')))"

definition require_linux_amd64 :: "ctl_env \<Rightarrow> string \<Rightarrow> unit oper" where
  "require_linux_amd64 env p =
     and_then (wrapping ''upgrade'' (read_file env p))
       (\<lambda>raw. case linux_amd64 raw of Some e \<Rightarrow> refuse_with e | None \<Rightarrow> give ())"

text \<open>\<open>isolated.Digest\<close> of two files.\<close>

definition digest_files :: "ctl_env \<Rightarrow> string \<Rightarrow> string \<Rightarrow> string oper" where
  "digest_files env kern rootfs =
     and_then (stat_file env kern) (\<lambda>k_ok. if \<not> k_ok then refuse_with (Api os_not_exist) else
     and_then (read_file env kern) (\<lambda>k.
     and_then (stat_file env rootfs) (\<lambda>r_ok. if \<not> r_ok then refuse_with (Api os_not_exist) else
     and_then (read_file env rootfs) (\<lambda>r. give (hex_encode (oe_sha env (k @ r)))))))"

end
