(* ===== verification/Ctl_Tool.thy ===== *)
theory Ctl_Tool
  imports Ctl_Host
begin

text \<open>
  The commands of the operator tool (\<open>internal/ctl\<close>): install, list, remove, upgrade, status and
  bootstrap, each composed of the calls of theory Ctl_Host in the order of the code. What goes to
  standard output is \<open>ct_out\<close>, the commands run are \<open>ct_ran\<close>.
\<close>

subsection \<open>The unit\<close>

definition restart_active_unit :: "ctl_env \<Rightarrow> unit oper" where
  "restart_active_unit env =
     (if oe_look env ''systemctl'' = None then give ()
      else and_then (run_tool env [''systemctl'', ''is-active'', ''--quiet'', ''execenv.service''])
        (\<lambda>idle. if idle \<noteq> None then give ()
           else and_then (run_tool env [''systemctl'', ''restart'', ''execenv.service''])
             (\<lambda>r. case r of None \<Rightarrow> give () | Some (out, e) \<Rightarrow> refuse_with (Wrap ''systemctl restart'' (err_trim out e)))))"

definition reload_unit :: "ctl_env \<Rightarrow> options \<Rightarrow> unit oper" where
  "reload_unit env o' =
     (case op_reload o' of
        Some f \<Rightarrow> sys_call env (\<lambda>k s. (s, case f k of Some e \<Rightarrow> Inl e | None \<Rightarrow> Inr ()))
      | None \<Rightarrow> restart_active_unit env)"

subsection \<open>Install\<close>

text \<open>\<open>if kernel != kernelDest { os.Remove(kernel) }\<close>\<close>

definition drop_new :: "ctl_env \<Rightarrow> string \<Rightarrow> string \<Rightarrow> unit oper" where
  "drop_new env kern dest = (if kern \<noteq> dest then ignoring (remove_path env kern) else give ())"

text \<open>\<open>fetchVerified\<close> after it has looked whether there is a kernel already.\<close>

definition fetch_rest :: "ctl_env \<Rightarrow> string \<Rightarrow> string \<Rightarrow> string \<Rightarrow> string \<Rightarrow> string \<Rightarrow> string \<Rightarrow> bool \<Rightarrow> (string \<times> string) oper" where
  "fetch_rest env base kernel_name rootfs_name kernel_dest rootfs_dest want have_kernel =
     (let kern = (if have_kernel then kernel_dest else kernel_dest @ ''.new'');
          rootfs = rootfs_dest @ ''.new''
      in and_then (if have_kernel then give ()
                   else fetch_url env (base @ ''/'' @ fp_base kernel_name) kern) (\<lambda>_.
         and_then (cleaning (drop_new env kern kernel_dest)
                     (fetch_url env (base @ ''/'' @ fp_base rootfs_name) rootfs)) (\<lambda>_.
         and_then (cleaning (and_then (ignoring (remove_path env rootfs)) (\<lambda>_. drop_new env kern kernel_dest))
                     (either_way (digest_files env kern rootfs)
                       (\<lambda>e. refuse_with (Wrap ''install'' e))
                       (\<lambda>got. if got \<noteq> want
                               then refuse_with (Wrap ''install'' (Text ''catalog hash does not match kernel+rootfs on disk''))
                               else give ()))) (\<lambda>_.
         and_then (if kern = kernel_dest then give ()
                   else cleaning (and_then (ignoring (remove_path env kern)) (\<lambda>_. ignoring (remove_path env rootfs)))
                          (wrapping ''install'' (rename_file env kern kernel_dest))) (\<lambda>_.
         and_then (cleaning (remove_path env rootfs) (wrapping ''install'' (rename_file env rootfs rootfs_dest))) (\<lambda>_.
         give (kernel_dest, rootfs_dest)))))))"

definition fetch_verified :: "ctl_env \<Rightarrow> string \<Rightarrow> string \<Rightarrow> string \<Rightarrow> string \<Rightarrow> string \<Rightarrow> string \<Rightarrow> (string \<times> string) oper" where
  "fetch_verified env base kernel_name rootfs_name kernel_dest rootfs_dest want =
     and_then (stat_file env kernel_dest) (fetch_rest env base kernel_name rootfs_name kernel_dest rootfs_dest want)"

definition install_missing :: ctl_error where
  "install_missing = Wrap ''install'' (Text ''host config missing; run execenvctl bootstrap first'')"

definition ctl_install :: "ctl_env \<Rightarrow> options \<Rightarrow> string \<Rightarrow> bool \<Rightarrow> unit oper" where
  "ctl_install env opts i loud =
     (let o' = op_resolved opts in
      if i = '''' then refuse_with (Wrap ''install'' (Api (Sent ErrInvalid)))
      else either_way (load_host env (config_path o'))
        (\<lambda>e. refuse_with (if is_not_exist e then install_missing else e))
        (\<lambda>doc.
          and_then (release_base env o') (\<lambda>base.
          and_then (fetch_bytes env (base @ ''/index.json'')) (\<lambda>raw.
          and_then (of_result (parse_index env raw)) (\<lambda>idx.
          and_then (of_result (index_lookup idx i)) (\<lambda>entry.
          let image_dir = fp_join (op_state o') ''images'' in
          and_then (wrapping ''install'' (mkdirs env image_dir)) (\<lambda>_.
          and_then (fetch_verified env base (ix_kernel idx) (xi_rootfs entry)
                      (fp_join image_dir (fp_base (ix_kernel idx))) (fp_join image_dir (fp_base (xi_rootfs entry)))
                      (xi_hash entry)) (\<lambda>(kern, rootfs).
          and_then (save_host env (config_path o')
                      (doc\<lparr>dc_images := upsert_image (dc_images doc)
                        \<lparr>di_id = xi_id entry, di_kernel = kern, di_rootfs = rootfs, di_hash = xi_hash entry\<rparr>\<rparr>)) (\<lambda>_.
          and_then (load_host env (config_path o')) (\<lambda>again.
          if dc_token again \<noteq> dc_token doc then refuse_with (Wrap ''install'' (Text ''host token changed''))
          else and_then (reload_unit env o') (\<lambda>_.
            if loud then and_then (print_line (''installed='' @ xi_id entry)) (\<lambda>_. print_line ''hash=written to config'')
            else give ())))))))))))"

subsection \<open>List\<close>

definition named_ids :: "string list \<Rightarrow> string list" where
  "named_ids ids = filter (\<lambda>i. i \<noteq> '''') ids"

definition installed_ids :: "ctl_env \<Rightarrow> options \<Rightarrow> string list oper" where
  "installed_ids env o' =
     either_way (load_host env (config_path o')) (\<lambda>_. give []) (\<lambda>doc. give (named_ids (map di_id (dc_images doc))))"

definition available_ids :: "ctl_env \<Rightarrow> options \<Rightarrow> string list oper" where
  "available_ids env o' =
     and_then (release_base env o') (\<lambda>base.
     and_then (fetch_bytes env (base @ ''/index.json'')) (\<lambda>raw.
     and_then (of_result (parse_index env raw)) (\<lambda>idx. give (named_ids (map xi_id (ix_images idx))))))"

definition join_ids :: "string list \<Rightarrow> string" where
  "join_ids ids = (if ids = [] then ''none'' else join_with CHR '','' ids)"

definition ctl_list :: "ctl_env \<Rightarrow> options \<Rightarrow> unit oper" where
  "ctl_list env opts =
     (let o' = op_resolved opts in
      and_then (installed_ids env o') (\<lambda>installed.
      and_then (print_line (''installed='' @ join_ids installed)) (\<lambda>_.
      either_way (available_ids env o')
        (\<lambda>e. and_then (print_line ''available=unavailable'') (\<lambda>_. refuse_with (Wrap ''list'' e)))
        (\<lambda>available. print_line (''available='' @ join_ids available)))))"

subsection \<open>Remove\<close>

definition remove_file :: "ctl_env \<Rightarrow> string \<Rightarrow> unit oper" where
  "remove_file env p =
     (if p = '''' then give ()
      else either_way (remove_path env p)
        (\<lambda>e. if is_not_exist e then give () else refuse_with (Wrap ''remove'' e)) give)"

fun kernel_still_used :: "daemon_image list \<Rightarrow> string \<Rightarrow> bool" where
  "kernel_still_used [] kern = False"
| "kernel_still_used (img # imgs) kern = (if di_kernel img = kern then True else kernel_still_used imgs kern)"

text \<open>The loop of \<open>Remove\<close>: the images kept, and the last one dropped.\<close>

fun drop_image :: "string \<Rightarrow> daemon_image list \<Rightarrow> daemon_image list \<times> daemon_image option \<Rightarrow>
    daemon_image list \<times> daemon_image option" where
  "drop_image i [] acc = acc"
| "drop_image i (img # imgs) (kept, dropped) =
     (if di_id img = i then drop_image i imgs (kept, Some img) else drop_image i imgs (kept @ [img], dropped))"

definition ctl_remove :: "ctl_env \<Rightarrow> options \<Rightarrow> string \<Rightarrow> unit oper" where
  "ctl_remove env opts i =
     (let o' = op_resolved opts in
      if i = '''' then refuse_with (Wrap ''remove'' (Text ''missing id''))
      else either_way (load_host env (config_path o'))
        (\<lambda>e. if is_not_exist e then print_line (''removed='' @ i) else refuse_with e)
        (\<lambda>doc. case drop_image i (dc_images doc) ([], None) of
           (kept, None) \<Rightarrow> print_line (''removed='' @ i)
         | (kept, Some dropped) \<Rightarrow>
             and_then (save_host env (config_path o') (doc\<lparr>dc_images := kept\<rparr>)) (\<lambda>_.
             and_then (load_host env (config_path o')) (\<lambda>again.
             if dc_token again \<noteq> dc_token doc then refuse_with (Wrap ''remove'' (Text ''host token changed''))
             else and_then (remove_file env (di_rootfs dropped)) (\<lambda>_.
               and_then (if kernel_still_used kept (di_kernel dropped) then give ()
                         else remove_file env (di_kernel dropped)) (\<lambda>_.
               and_then (reload_unit env o') (\<lambda>_. print_line (''removed='' @ i))))))))"

subsection \<open>Upgrade\<close>

record staged_file =
  sg_name :: string
  sg_dest :: string
  sg_tmp :: string
  sg_want :: string

definition upgrade_names :: "string list" where
  "upgrade_names = [''execenv'', ''execenvctl'']"

definition remove_staged :: "ctl_env \<Rightarrow> staged_file list \<Rightarrow> unit oper" where
  "remove_staged env items = each (\<lambda>item. ignoring (remove_path env (sg_tmp item))) items"

text \<open>The loop over \<open>upgradeNames\<close>: what has to be fetched.\<close>

fun needed :: "ctl_env \<Rightarrow> options \<Rightarrow> (string \<rightharpoonup> string) \<Rightarrow> string list \<Rightarrow> staged_file list \<Rightarrow> staged_file list oper" where
  "needed env o' sums [] need = give need"
| "needed env o' sums (name # names) need =
     (case sums name of
        None \<Rightarrow> refuse_with (Wrap ''upgrade'' (Text (name @ '' missing from SHA256SUMS'')))
      | Some want \<Rightarrow>
          (let dest = fp_join (bin_dir o') name in
           and_then (file_matches env dest want)
             (\<lambda>same. needed env o' sums names
                (if same then need
                 else need @ [\<lparr>sg_name = name, sg_dest = dest, sg_tmp = dest @ ''.new'', sg_want = want\<rparr>]))))"

definition stage_file :: "ctl_env \<Rightarrow> string \<Rightarrow> staged_file \<Rightarrow> unit oper" where
  "stage_file env base item =
     and_then (fetch_url env (base @ ''/'' @ sg_name item) (sg_tmp item)) (\<lambda>_.
     and_then (verify_checksum env (sg_tmp item) (sg_want item)) (\<lambda>_.
     and_then (require_linux_amd64 env (sg_tmp item)) (\<lambda>_.
     wrapping ''upgrade'' (make_executable env (sg_tmp item)))))"

definition place_file :: "ctl_env \<Rightarrow> staged_file \<Rightarrow> unit oper" where
  "place_file env item =
     cleaning (remove_path env (sg_tmp item)) (wrapping ''upgrade'' (rename_file env (sg_tmp item) (sg_dest item)))"

text \<open>An installed image that the index does not name or names with another hash.\<close>

definition image_differs :: "index \<Rightarrow> daemon_image \<Rightarrow> bool" where
  "image_differs idx img =
     (case index_lookup idx (di_id img) of Inl _ \<Rightarrow> True | Inr entry \<Rightarrow> xi_hash entry \<noteq> di_hash img)"

definition installed_disks_differ :: "ctl_env \<Rightarrow> options \<Rightarrow> index \<Rightarrow> bool oper" where
  "installed_disks_differ env o' idx =
     either_way (load_host env (config_path o')) (\<lambda>_. give False)
       (\<lambda>doc. give (list_ex (image_differs idx) (dc_images doc)))"

definition check_published :: "index \<Rightarrow> string \<Rightarrow> unit oper" where
  "check_published idx i =
     (case index_lookup idx i of
        Inl _ \<Rightarrow> refuse_with (Wrap ''upgrade'' (Text (''installed image '' @ i @ '' missing from this release'')))
      | Inr _ \<Rightarrow> give ())"

text \<open>What has to be fetched is, into files beside the binaries; an error removes them all.\<close>

definition upgrade_stage :: "ctl_env \<Rightarrow> options \<Rightarrow> string \<Rightarrow> (string \<rightharpoonup> string) \<Rightarrow> staged_file list oper" where
  "upgrade_stage env o' base sums =
     and_then (needed env o' sums upgrade_names []) (\<lambda>need.
     and_then (each (\<lambda>item. cleaning (remove_staged env need) (stage_file env base item)) need) (\<lambda>_. give need))"

text \<open>Up to the renames: the base URL, the index, the installed ids and the staged files.\<close>

definition upgrade_plan :: "ctl_env \<Rightarrow> options \<Rightarrow> (string \<times> index \<times> string list \<times> staged_file list) oper" where
  "upgrade_plan env o' =
     and_then (wrapping ''upgrade'' (mkdirs env (bin_dir o'))) (\<lambda>_.
     and_then (release_base env o') (\<lambda>base.
     and_then (fetch_bytes env (base @ ''/index.json'')) (\<lambda>raw.
     and_then (of_result (parse_index env raw)) (\<lambda>idx.
     and_then (installed_ids env o') (\<lambda>ids.
     and_then (each (check_published idx) ids) (\<lambda>_.
     and_then (fetch_bytes env (base @ ''/SHA256SUMS'')) (\<lambda>sums_raw.
     and_then (of_result (parse_checksums sums_raw)) (\<lambda>sums.
     and_then (upgrade_stage env o' base sums) (\<lambda>need.
     give (base, idx, ids, need))))))))))"

definition ctl_upgrade :: "ctl_env \<Rightarrow> options \<Rightarrow> unit oper" where
  "ctl_upgrade env opts =
     (let o' = op_resolved opts in
      and_then (upgrade_plan env o') (\<lambda>(base, idx, ids, need).
      and_then (each (place_file env) need) (\<lambda>_.
      and_then (if need = [] then installed_disks_differ env o' idx else give True) (\<lambda>differ.
      if \<not> differ then print_line ''upgraded=already current''
      else and_then (if need \<noteq> [] then reload_unit env o' else give ()) (\<lambda>_.
        and_then (each (\<lambda>i. ctl_install env o' i False) ids) (\<lambda>_.
        print_line (''upgraded='' @ join_with CHR '','' (map sg_name need @ ids))))))))"

subsection \<open>Status\<close>

definition check_device :: "ctl_env \<Rightarrow> string \<Rightarrow> unit oper" where
  "check_device env p =
     (if oe_device env p then give ()
      else refuse_with (Text (''isolation device '' @ p @
        '' is missing or not usable; this host cannot occupy grants (no container fallback)'')))"

definition stamp_release :: "ctl_env \<Rightarrow> string" where
  "stamp_release env = (if bv_tag (oe_vars env) \<noteq> '''' then bv_tag (oe_vars env) else bv_release (oe_vars env))"

definition unit_state :: "ctl_env \<Rightarrow> options \<Rightarrow> string oper" where
  "unit_state env o' =
     (let by_file = and_then (stat_file env (unit_path o')) (\<lambda>there. give (if there then ''inactive'' else ''unknown'')) in
      if oe_look env ''systemctl'' = None then by_file
      else and_then (run_tool env [''systemctl'', ''is-active'', ''--quiet'', ''execenv.service''])
        (\<lambda>r. if r = None then give ''active'' else by_file))"

definition ctl_status :: "ctl_env \<Rightarrow> options \<Rightarrow> unit oper" where
  "ctl_status env opts =
     (let o' = op_resolved opts in
      and_then (either_way (load_host env (config_path o')) (\<lambda>_. give (op_device o'))
                 (\<lambda>doc. give (or_default (dc_device doc) (op_device o')))) (\<lambda>device_path.
      and_then (either_way (check_device env device_path) (\<lambda>_. give ''missing'') (\<lambda>_. give ''ok'')) (\<lambda>device.
      and_then (unit_state env o') (\<lambda>unit'.
      and_then (print_line (''device='' @ device)) (\<lambda>_.
      and_then (print_line (''unit='' @ unit')) (\<lambda>_.
      and_then (installed_ids env o') (\<lambda>ids.
      and_then (print_line (''installed='' @ join_ids ids)) (\<lambda>_.
      print_line (''release='' @ stamp_release env)))))))))"

subsection \<open>Bootstrap\<close>

definition same_file :: "ctl_env \<Rightarrow> string \<Rightarrow> string \<Rightarrow> bool oper" where
  "same_file env a b =
     and_then (stat_file env a) (\<lambda>a_ok. if \<not> a_ok then give False
       else and_then (stat_file env b) (\<lambda>b_ok. give (b_ok \<and> (a = b \<or> oe_same env a b))))"

definition install_file :: "ctl_env \<Rightarrow> string \<Rightarrow> string \<Rightarrow> unit oper" where
  "install_file env src dest =
     and_then (same_file env src dest) (\<lambda>same.
     if same then make_executable env dest
     else
       and_then (wrapping ''bootstrap'' (mkdirs env (fp_dir dest))) (\<lambda>_.
       and_then (wrapping ''bootstrap'' (read_file env src)) (\<lambda>data.
       and_then (wrapping ''bootstrap'' (write_file env (dest @ ''.tmp'') True data)) (\<lambda>_.
       and_then (cleaning (remove_path env (dest @ ''.tmp''))
                   (wrapping ''bootstrap'' (rename_file env (dest @ ''.tmp'') dest))) (\<lambda>_.
       make_executable env dest)))))"

definition install_execenv :: "ctl_env \<Rightarrow> options \<Rightarrow> unit oper" where
  "install_execenv env o' =
     (let src = or_default (op_execenv o') (execenv_path o') in
      and_then (stat_file env src) (\<lambda>there.
      if \<not> there then refuse_with (Text ''need --execenv (linux execenv binary)'')
      else install_file env src (execenv_path o')))"

definition executable :: "ctl_env \<Rightarrow> string \<Rightarrow> bool oper" where
  "executable env p = and_then (stat_file env p) (\<lambda>there. given (\<lambda>s. there \<and> ct_exec s p) give)"

definition ensure_binary :: "ctl_env \<Rightarrow> string \<Rightarrow> string \<Rightarrow> unit oper" where
  "ensure_binary env dest name =
     and_then (executable env dest) (\<lambda>ok.
     if ok then give ()
     else (case oe_look env name of
             None \<Rightarrow> refuse_with (Text (name @ '': executable file not found in $PATH''))
           | Some found \<Rightarrow> install_file env found dest))"

definition release_arch :: "ctl_env \<Rightarrow> ctl_error + string" where
  "release_arch env =
     (if oe_arch env = ''amd64'' then Inr ''x86_64''
      else if oe_arch env = ''arm64'' then Inr ''aarch64''
      else Inl (Text (''unsupported machine '' @ oe_arch env)))"

definition tool_error :: "string \<Rightarrow> (string \<times> go_error) option \<Rightarrow> unit oper" where
  "tool_error what r = (case r of None \<Rightarrow> give () | Some (out, e) \<Rightarrow> refuse_with (Wrap what (err_trim out e)))"

definition fetch_file :: "ctl_env \<Rightarrow> string \<Rightarrow> string \<Rightarrow> unit oper" where
  "fetch_file env url dest =
     and_then (sys_call env (\<lambda>k s. (s\<lparr>ct_files := (ct_files s)(dest := oe_download env k url)\<rparr>,
         Inr (oe_run env k [''curl'', ''-fsSL'', url, ''-o'', dest]))))
       (tool_error (''fetch '' @ fp_base dest))"

definition extract_named :: "ctl_env \<Rightarrow> string \<Rightarrow> string \<Rightarrow> string \<Rightarrow> string \<Rightarrow> unit oper" where
  "extract_named env tgz dir name dest =
     and_then (sys_call env (\<lambda>k s.
         (case ct_files s tgz of
            None \<Rightarrow> (s, Inr (Some ('''', os_not_exist)))
          | Some archive \<Rightarrow>
              (s\<lparr>ct_files := ct_files s ++ map_of (map (\<lambda>(p, bs). (fp_join dir p, bs)) (oe_unpacked env k archive))\<rparr>,
               Inr (oe_run env k [''tar'', ''-xzf'', tgz, ''-C'', dir]))))) (\<lambda>r.
     and_then (tool_error ''extract runtime archive'' r) (\<lambda>_.
     given (\<lambda>s. filter (\<lambda>p. fp_base p = name) (oe_walk env dir (ct_files s))) (\<lambda>found.
     case found of
       [] \<Rightarrow> refuse_with (Text ''runtime archive is missing a required binary'')
     | p # _ \<Rightarrow> install_file env p dest)))"

definition runtime_url :: "string \<Rightarrow> string" where
  "runtime_url arch = ''https://github.com/firecracker-microvm/firecracker/releases/download/v1.16.1/firecracker-v1.16.1-'' @
     arch @ ''.tgz''"

definition always :: "unit oper \<Rightarrow> unit oper \<Rightarrow> unit oper" where
  "always c m = either_way m (\<lambda>e. and_then (ignoring c) (\<lambda>_. refuse_with e)) (\<lambda>_. ignoring c)"

definition fetch_supervisors :: "ctl_env \<Rightarrow> options \<Rightarrow> unit oper" where
  "fetch_supervisors env o' =
     and_then (of_result (release_arch env)) (\<lambda>arch.
     let tgz = fp_join (op_state o') ''runtime.tgz'' in
     and_then (wrapping ''bootstrap'' (fetch_file env (runtime_url arch) tgz)) (\<lambda>_.
     always (remove_path env tgz)
       (and_then (extract_named env tgz (op_state o') (''firecracker-v1.16.1-'' @ arch) (runtime_path o')) (\<lambda>_.
        extract_named env tgz (op_state o') (''jailer-v1.16.1-'' @ arch) (supervisor_path o')))))"

text \<open>\<open>if err := ensureBinary(...); err != nil && !NoFetch\<close>\<close>

definition ensure_or_fetch :: "ctl_env \<Rightarrow> options \<Rightarrow> string \<Rightarrow> string \<Rightarrow> unit oper" where
  "ensure_or_fetch env o' dest name =
     either_way (ensure_binary env dest name)
       (\<lambda>_. if op_no_fetch o' then give () else fetch_supervisors env o') give"

definition ensure_required :: "ctl_env \<Rightarrow> string \<Rightarrow> string \<Rightarrow> unit oper" where
  "ensure_required env dest name =
     either_way (ensure_binary env dest name)
       (\<lambda>_. refuse_with (Text ''runtime and supervisor binaries are required'')) give"

definition install_supervisors :: "ctl_env \<Rightarrow> options \<Rightarrow> unit oper" where
  "install_supervisors env o' =
     and_then (ensure_or_fetch env o' (runtime_path o') ''firecracker'') (\<lambda>_.
     and_then (ensure_or_fetch env o' (supervisor_path o') ''jailer'') (\<lambda>_.
     and_then (ensure_required env (runtime_path o') ''firecracker'') (\<lambda>_.
     ensure_required env (supervisor_path o') ''jailer'')))"

text \<open>\<open>ensureTLS\<close>: \<open>oe_pair\<close> is what generating a key and a certificate gives.\<close>

definition store_pair :: "ctl_env \<Rightarrow> string \<Rightarrow> string \<Rightarrow> bytes \<times> bytes \<Rightarrow> unit oper" where
  "store_pair env cert key pair =
     and_then (wrapping ''bootstrap'' (write_file env cert False (fst pair))) (\<lambda>_.
     wrapping ''bootstrap'' (write_file env key False (snd pair)))"

definition ensure_tls :: "ctl_env \<Rightarrow> string \<Rightarrow> string \<Rightarrow> unit oper" where
  "ensure_tls env cert key =
     and_then (stat_file env cert) (\<lambda>c.
     and_then (if c then stat_file env key else give False) (\<lambda>both.
     if both then give ()
     else
       and_then (sys_call env (\<lambda>k s. (s, case oe_pair env k of Inl e \<Rightarrow> Inl (Wrap ''bootstrap'' (Api e)) | Inr x \<Rightarrow> Inr x)))
         (store_pair env cert key)))"

definition zero_config :: daemon_config where
  "zero_config = \<lparr>dc_listen = '''', dc_token = '''', dc_security = '''', dc_adapter = '''', dc_tls_cert = '''', dc_tls_key = '''',
     dc_tls_client_ca = '''', dc_work_dir = '''', dc_device = '''', dc_runtime = '''', dc_supervisor = '''', dc_images = [],
     dc_slots = 0, dc_cpu_millis = 0, dc_memory_bytes = 0, dc_disk_bytes = 0, dc_network = '''', dc_allow = [],
     dc_grace = 0, dc_grace_text = ''''\<rparr>"

definition host_token :: "ctl_env \<Rightarrow> daemon_config \<Rightarrow> string oper" where
  "host_token env existing =
     (if dc_token existing \<noteq> '''' then give (dc_token existing)
      else sys_call env (\<lambda>k s. (s, case oe_random env k of
             Inl e \<Rightarrow> Inl (Wrap ''bootstrap'' (Api e)) | Inr raw \<Rightarrow> Inr (hex_encode raw))))"

text \<open>Security, certificate and key: files named by the document that are there stay in use.\<close>

definition host_security :: "ctl_env \<Rightarrow> options \<Rightarrow> daemon_config \<Rightarrow> (string \<times> string \<times> string) oper" where
  "host_security env o' existing =
     (let cert = fp_join (op_sysconf o') ''tls.crt''; key = fp_join (op_sysconf o') ''tls.key'' in
      and_then (if dc_tls_cert existing \<noteq> '''' \<and> dc_tls_key existing \<noteq> '''' then stat_file env (dc_tls_cert existing)
                else give False) (\<lambda>c.
      and_then (if c then stat_file env (dc_tls_key existing) else give False) (\<lambda>both.
      if both then
        and_then (ensure_tls env (dc_tls_cert existing) (dc_tls_key existing))
          (\<lambda>_. give (''tls'', dc_tls_cert existing, dc_tls_key existing))
      else if op_insecure o' then give (''insecure_local'', '''', '''')
      else and_then (ensure_tls env cert key) (\<lambda>_. give (''tls'', cert, key)))))"

definition host_document :: "options \<Rightarrow> bool \<Rightarrow> string \<Rightarrow> string \<times> string \<times> string \<Rightarrow> daemon_config \<Rightarrow> daemon_config" where
  "host_document o' first token sec existing =
     (let doc = existing\<lparr>dc_listen := op_listen o', dc_token := token, dc_security := fst sec, dc_tls_cert := fst (snd sec),
                         dc_tls_key := snd (snd sec), dc_work_dir := work_dir o', dc_device := op_device o',
                         dc_runtime := runtime_path o', dc_supervisor := supervisor_path o', dc_slots := op_slots o',
                         dc_adapter := or_default (dc_adapter existing) ''isolated''\<rparr>
      in if first then doc\<lparr>dc_network := ''none'', dc_allow := [], dc_grace_text := ''30s''\<rparr> else doc)"

definition write_host_config :: "ctl_env \<Rightarrow> options \<Rightarrow> unit oper" where
  "write_host_config env o' =
     and_then (either_way (load_host env (config_path o'))
                (\<lambda>e. if is_not_exist e then give (zero_config, True) else refuse_with e) (\<lambda>doc. give (doc, False)))
       (\<lambda>(existing, first).
     and_then (host_token env existing) (\<lambda>token.
     and_then (host_security env o' existing) (\<lambda>sec.
     save_host env (config_path o') (host_document o' first token sec existing))))"

definition image_summary :: "ctl_env \<Rightarrow> options \<Rightarrow> string oper" where
  "image_summary env o' =
     either_way (load_host env (config_path o')) (\<lambda>_. give ''none'')
       (\<lambda>doc. give (case dc_images doc of [] \<Rightarrow> ''none'' | img # _ \<Rightarrow> di_id img))"

definition hash_summary :: "ctl_env \<Rightarrow> options \<Rightarrow> string oper" where
  "hash_summary env o' =
     either_way (load_host env (config_path o')) (\<lambda>_. give ''none'')
       (\<lambda>doc. give (case dc_images doc of
          [] \<Rightarrow> ''none'' | img # _ \<Rightarrow> if di_hash img = '''' then ''none'' else ''written to config''))"

definition unit_body :: "options \<Rightarrow> string" where
  "unit_body o' = concat (map (\<lambda>l. l @ [CHR 0x0A])
     [''[Unit]'', ''Description=execenv host'', ''After=network-online.target'', ''Wants=network-online.target'', '''',
      ''[Service]'', ''Type=simple'', ''ExecStart='' @ execenv_path o' @ '' -config '' @ config_path o',
      ''Restart=on-failure'', ''KillMode=control-group'', ''NoNewPrivileges=true'', '''',
      ''[Install]'', ''WantedBy=multi-user.target''])"

definition write_unit :: "ctl_env \<Rightarrow> options \<Rightarrow> unit oper" where
  "write_unit env o' = wrapping ''bootstrap'' (write_file env (unit_path o') False (bytes_of_string (unit_body o')))"

definition start_unit :: "ctl_env \<Rightarrow> options \<Rightarrow> unit oper" where
  "start_unit env o' =
     (if op_no_start o' \<or> oe_look env ''systemctl'' = None then give ()
      else and_then (and_then (run_tool env [''systemctl'', ''daemon-reload'']) (tool_error ''systemctl daemon-reload''))
        (\<lambda>_. and_then (run_tool env [''systemctl'', ''enable'', ''--now'', ''execenv.service'']) (tool_error ''systemctl enable'')))"

definition ctl_bootstrap :: "ctl_env \<Rightarrow> options \<Rightarrow> unit oper" where
  "ctl_bootstrap env opts =
     (let o' = op_resolved opts in
      and_then (check_device env (op_device o')) (\<lambda>_.
      and_then (wrapping ''bootstrap'' (mkdirs env (bin_dir o'))) (\<lambda>_.
      and_then (wrapping ''bootstrap'' (mkdirs env (work_dir o'))) (\<lambda>_.
      and_then (wrapping ''bootstrap'' (mkdirs env (op_sysconf o'))) (\<lambda>_.
      and_then (wrapping ''bootstrap'' (mkdirs env (unit_dir o'))) (\<lambda>_.
      and_then (install_execenv env o') (\<lambda>_.
      and_then (install_supervisors env o') (\<lambda>_.
      and_then (write_host_config env o') (\<lambda>_.
      and_then (write_unit env o') (\<lambda>_.
      and_then (start_unit env o') (\<lambda>_.
      and_then (print_line ''execenv installed'') (\<lambda>_.
      and_then (print_line (''config='' @ config_path o')) (\<lambda>_.
      and_then (image_summary env o') (\<lambda>img.
      and_then (print_line (''image='' @ img)) (\<lambda>_.
      and_then (print_line ''device=ok'') (\<lambda>_.
      and_then (print_line ''token=written to config'') (\<lambda>_.
      and_then (hash_summary env o') (\<lambda>h.
      and_then (print_line (''hash='' @ h)) (\<lambda>_.
      print_line ''ready=device+runtime+supervisor'')))))))))))))))))))"

end
