(* ===== verification/Ctl_Props.thy ===== *)
theory Ctl_Props
  imports Ctl_Tool Daemon_Props
begin

text \<open>
  What the operator tool guarantees whatever the network and the operating system do: which files a
  command can change at all, that nothing unverified takes the place of a disk or a binary, and
  what of the host document survives.
\<close>

subsection \<open>Files a command can change\<close>

definition touches :: "string set \<Rightarrow> 'a oper \<Rightarrow> bool" where
  "touches ps m \<longleftrightarrow> (\<forall>s q. q \<notin> ps \<longrightarrow> ct_files (fst (m s)) q = ct_files s q)"

named_theorems touch \<open>how commands compose as to the files they touch\<close>

lemma touchesD: "touches ps m \<Longrightarrow> m s = (s', r) \<Longrightarrow> q \<notin> ps \<Longrightarrow> ct_files s' q = ct_files s q"
  unfolding touches_def by (metis fst_conv)

lemma touches_mono: "touches ps m \<Longrightarrow> ps \<subseteq> qs \<Longrightarrow> touches qs m"
  by (auto simp: touches_def)

lemma touches_either_way [touch]:
  "touches ps m \<Longrightarrow> (\<And>e. touches ps (h e)) \<Longrightarrow> (\<And>x. touches ps (k x)) \<Longrightarrow> touches ps (either_way m h k)"
  unfolding touches_def either_way_def by (auto split: prod.split sum.split) (metis fst_conv)+

lemma and_then_either: "and_then m k = either_way m refuse_with k"
  by (rule ext) (simp add: and_then_def either_way_def refuse_with_def split: prod.split sum.split)

lemma touches_leaf [touch]: "touches ps (give x)" "touches ps (refuse_with e)" "touches ps (of_result r)" "touches ps (print_line t)"
  by (simp_all add: touches_def give_def refuse_with_def of_result_def print_line_def)

lemma touches_and_then [touch]: "touches ps m \<Longrightarrow> (\<And>x. touches ps (k x)) \<Longrightarrow> touches ps (and_then m k)"
  unfolding and_then_either by (intro touch)

lemma touches_combined [touch]:
  "touches ps m \<Longrightarrow> touches ps (wrapping op m)" "touches ps c \<Longrightarrow> touches ps (ignoring c)"
  "touches ps c \<Longrightarrow> touches ps m \<Longrightarrow> touches ps (cleaning c m)" "touches ps c \<Longrightarrow> touches ps c' \<Longrightarrow> touches ps (always c c')"
  unfolding wrapping_def ignoring_def cleaning_def always_def by (intro touch; assumption)+

lemma touches_given [touch]: "(\<And>x. touches ps (k x)) \<Longrightarrow> touches ps (given f k)"
  by (simp add: touches_def given_def)

lemma touches_if [touch]: "(b \<Longrightarrow> touches ps m) \<Longrightarrow> (\<not> b \<Longrightarrow> touches ps m') \<Longrightarrow> touches ps (if b then m else m')"
  by simp

lemma touches_each [touch]: "(\<And>x. x \<in> set xs \<Longrightarrow> touches ps (f x)) \<Longrightarrow> touches ps (each f xs)"
  by (induction xs) (auto intro!: touch)

lemma touches_read [touch]:
  "touches ps (mkdirs env p)" "touches ps (may_fail env)" "touches ps (read_file env p)" "touches ps (stat_file env p)"
  "touches ps (run_tool env cmd)" "touches ps (http_get env url)" "touches ps (load_host env p)" "touches ps (make_executable env p)"
  unfolding touches_def mkdirs_def may_fail_def read_file_def stat_file_def run_tool_def http_get_def load_host_def
    make_executable_def sys_call_def Let_def
  by (simp_all split: option.split)

lemma touches_write [touch]:
  "p \<in> ps \<Longrightarrow> touches ps (write_file env p x bs)" "p \<in> ps \<Longrightarrow> touches ps (create_file env p)"
  "p \<in> ps \<Longrightarrow> touches ps (remove_path env p)" "a \<in> ps \<Longrightarrow> b \<in> ps \<Longrightarrow> touches ps (rename_file env a b)"
  unfolding touches_def write_file_def create_file_def remove_path_def rename_file_def sys_call_def Let_def
  by (auto split: option.split)

lemma touches_save [touch]: "p \<in> ps \<Longrightarrow> p @ ''.new'' \<in> ps \<Longrightarrow> touches ps (save_host env p doc)"
  unfolding touches_def save_host_def Let_def save_config_def by (auto split: option.split sum.split prod.split)

lemma touches_case [touch]:
  "touches ps m \<Longrightarrow> (\<And>x. touches ps (k x)) \<Longrightarrow> touches ps (case r of None \<Rightarrow> m | Some x \<Rightarrow> k x)"
  "(\<And>e. touches ps (f e)) \<Longrightarrow> (\<And>c st b e. touches ps (g c st b e)) \<Longrightarrow>
     touches ps (case resp of NoAnswer e \<Rightarrow> f e | Answer c st b e \<Rightarrow> g c st b e)"
  "(\<And>a b. touches ps (h a b)) \<Longrightarrow> touches ps (case x of (a, b) \<Rightarrow> h a b)"
  "touches ps m \<Longrightarrow> (\<And>y ys. touches ps (l y ys)) \<Longrightarrow> touches ps (case xs of [] \<Rightarrow> m | y # ys \<Rightarrow> l y ys)"
  "(\<And>e. touches ps (f' e)) \<Longrightarrow> (\<And>x. touches ps (q x)) \<Longrightarrow> touches ps (case r' of Inl e \<Rightarrow> f' e | Inr x \<Rightarrow> q x)"
  by (simp_all split: option.split response.split prod.split list.split sum.split)

lemma touches_fetch_url [touch]: "dest \<in> ps \<Longrightarrow> dest @ ''.tmp'' \<in> ps \<Longrightarrow> touches ps (fetch_url env url dest)"
  unfolding fetch_url_def store_body_def by (intro touch) auto

lemma touches_simple [touch]:
  "touches ps (fetch_bytes env url)" "touches ps (release_base env o')" "touches ps (file_sha256 env p)"
  "touches ps (verify_checksum env p want)" "touches ps (file_matches env p want)" "touches ps (require_linux_amd64 env p)"
  "touches ps (digest_files env a b)" "touches ps (restart_active_unit env)" "touches ps (installed_ids env o')"
  "touches ps (available_ids env o')" "touches ps (same_file env a b)" "touches ps (executable env p)"
  "touches ps (image_summary env o')" "touches ps (hash_summary env o')" "touches ps (installed_disks_differ env o' idx)"
  "touches ps (check_published idx i)"
  unfolding fetch_bytes_def release_base_def file_sha256_def verify_checksum_def file_matches_def require_linux_amd64_def
    digest_files_def restart_active_unit_def installed_ids_def available_ids_def same_file_def executable_def
    image_summary_def hash_summary_def installed_disks_differ_def check_published_def
  by (intro touch)+

lemma touches_reload [touch]: "touches ps (reload_unit env o')"
  unfolding reload_unit_def by (intro touch) (simp add: touches_def sys_call_def)

lemma touches_needed [touch]: "touches ps (needed env o' sums names need)"
  by (induction names arbitrary: need) (auto simp: Let_def intro!: touch)

text \<open>The files \<open>fetchVerified\<close> works with.\<close>

definition image_files :: "string \<Rightarrow> string set" where
  "image_files p = {p, p @ ''.new'', p @ ''.new.tmp''}"

lemma image_files_mem [simp]: "p \<in> image_files p" "p @ ''.new'' \<in> image_files p" "p @ ''.new.tmp'' \<in> image_files p"
  "(p @ ''.new'') @ ''.tmp'' \<in> image_files p"
  by (simp_all add: image_files_def)

lemma touches_fetch_verified [touch]:
  "image_files kd \<union> image_files rd \<subseteq> ps \<Longrightarrow> touches ps (fetch_verified env base kn rn kd rd want)"
  unfolding fetch_verified_def fetch_rest_def drop_new_def Let_def
  by (intro touch) (auto simp: image_files_def)

definition config_files :: "options \<Rightarrow> string set" where
  "config_files o' = {config_path o', config_path o' @ ''.new''}"

text \<open>\<open>Install\<close> changes the host document and the two files the index names; \<open>Remove\<close> the document and files it deletes.\<close>

definition images_dir :: "options \<Rightarrow> string" where
  "images_dir o' = fp_join (op_state o') ''images''"

lemma touches_install:
  assumes "config_files (op_resolved opts) \<subseteq> ps"
    and "\<And>n. image_files (fp_join (images_dir (op_resolved opts)) (fp_base n)) \<subseteq> ps"
  shows "touches ps (ctl_install env opts i loud)"
proof -
  have c: "config_path (op_resolved opts) \<in> ps" "config_path (op_resolved opts) @ ''.new'' \<in> ps"
    using assms(1) by (simp_all add: config_files_def)
  show ?thesis unfolding ctl_install_def Let_def images_dir_def[symmetric]
    by (intro touch c Un_least assms(2))
qed

subsection \<open>What holds after a command\<close>

text \<open>From a state with \<open>P\<close>, a result \<open>x\<close> comes with \<open>Q x\<close> and an error with \<open>E\<close>.\<close>

definition runs :: "(ctl \<Rightarrow> bool) \<Rightarrow> 'a oper \<Rightarrow> ('a \<Rightarrow> ctl \<Rightarrow> bool) \<Rightarrow> (ctl \<Rightarrow> bool) \<Rightarrow> bool" where
  "runs P m Q E \<longleftrightarrow> (\<forall>s. P s \<longrightarrow> (case m s of (s', Inl e) \<Rightarrow> E s' | (s', Inr x) \<Rightarrow> Q x s'))"

lemma runsD: "runs P m Q E \<Longrightarrow> P s \<Longrightarrow> m s = (s', r) \<Longrightarrow> (case r of Inl e \<Rightarrow> E s' | Inr x \<Rightarrow> Q x s')"
  unfolding runs_def by (metis case_prod_conv)

lemma runsI: "(\<And>s s' x. P s \<Longrightarrow> m s = (s', Inr x) \<Longrightarrow> Q x s') \<Longrightarrow> (\<And>s s' e. P s \<Longrightarrow> m s = (s', Inl e) \<Longrightarrow> E s') \<Longrightarrow> runs P m Q E"
  unfolding runs_def by (auto split: prod.split sum.split)

lemma runs_either_way:
  assumes "runs P m Q E1" "\<And>e. runs E1 (h e) R E" "\<And>x. runs (Q x) (k x) R E"
  shows "runs P (either_way m h k) R E"
  unfolding runs_def
proof (intro allI impI)
  fix s assume "P s"
  obtain s' r where m: "m s = (s', r)" by fastforce
  with runsD[OF assms(1) \<open>P s\<close> m] assms(2,3)
  show "case either_way m h k s of (s', Inl e) \<Rightarrow> E s' | (s', Inr x) \<Rightarrow> R x s'"
    by (cases r) (simp_all add: either_way_def runs_def)
qed

lemma runs_leaf: "(\<And>s. P s \<Longrightarrow> Q x s) \<Longrightarrow> runs P (give x) Q E" "(\<And>s. P s \<Longrightarrow> E s) \<Longrightarrow> runs P (refuse_with e) Q E"
  by (simp_all add: runs_def give_def refuse_with_def)

lemma runs_and_then: "runs P m Q E \<Longrightarrow> (\<And>x. runs (Q x) (k x) R E) \<Longrightarrow> runs P (and_then m k) R E"
  unfolding and_then_either by (rule runs_either_way) (auto intro: runs_leaf)

lemma runs_wrapping: "runs P m Q E \<Longrightarrow> runs P (wrapping op m) Q E"
  unfolding wrapping_def by (rule runs_either_way) (auto intro: runs_leaf)

lemma runs_ignoring: "runs P c (\<lambda>_. E) E \<Longrightarrow> runs P (ignoring c) (\<lambda>_. E) E'"
  unfolding ignoring_def by (rule runs_either_way) (auto intro: runs_leaf)

lemma runs_cleaning: "runs P m Q E1 \<Longrightarrow> runs E1 c (\<lambda>_. E) E \<Longrightarrow> runs P (cleaning c m) Q E"
  unfolding cleaning_def
  by (rule runs_either_way) (auto intro: runs_leaf runs_and_then runs_ignoring)

text \<open>What only depends on files a command leaves alone survives it.\<close>

definition about_files :: "(ctl \<Rightarrow> bool) \<Rightarrow> string set \<Rightarrow> bool" where
  "about_files P ps \<longleftrightarrow> (\<forall>s s'. P s \<longrightarrow> (\<forall>q \<in> ps. ct_files s' q = ct_files s q) \<longrightarrow> P s')"

lemma runs_keep:
  assumes "touches ps m" "about_files P qs" "ps \<inter> qs = {}"
  shows "runs P m (\<lambda>_. P) P"
proof -
  have "P s'" if "P s" "m s = (s', r)" for s s' r
  proof -
    have "\<forall>q \<in> qs. ct_files s' q = ct_files s q" using touchesD[OF assms(1) that(2)] assms(3) by blast
    then show ?thesis using assms(2) that(1) unfolding about_files_def by blast
  qed
  then show ?thesis by (auto intro: runsI)
qed

lemma runs_pre: "runs P' m Q E \<Longrightarrow> (\<And>s. P s \<Longrightarrow> P' s) \<Longrightarrow> runs P m Q E"
  by (simp add: runs_def)

lemma runs_post:
  assumes "runs P m Q E" "\<And>x s. Q x s \<Longrightarrow> Q' x s" "\<And>s. E s \<Longrightarrow> E' s"
  shows "runs P m Q' E'"
  using assms(2,3) runsD[OF assms(1)] by (intro runsI) (metis sum.case)+

lemma runs_conj:
  assumes "runs P m (\<lambda>_. P) P" "runs P' m Q E"
  shows "runs (\<lambda>s. P s \<and> P' s) m (\<lambda>x s. P s \<and> Q x s) (\<lambda>s. P s \<and> E s)"
  using runsD[OF assms(1)] runsD[OF assms(2)] by (intro runsI) (metis sum.case)+

subsection \<open>Downloads\<close>

definition verified :: "ctl_env \<Rightarrow> string \<Rightarrow> string \<Rightarrow> string \<Rightarrow> ctl \<Rightarrow> bool" where
  "verified env kd rd want s \<longleftrightarrow>
     (\<exists>k r. ct_files s kd = Some k \<and> ct_files s rd = Some r \<and> hex_encode (oe_sha env (k @ r)) = want)"

lemma stat_file_result: "stat_file env p s = (s', Inr b) \<Longrightarrow> ct_files s' = ct_files s \<and> (b \<longrightarrow> ct_files s p \<noteq> None)"
  by (auto simp: stat_file_def sys_call_def)

lemma digest_files_result:
  assumes "digest_files env a b s = (s', Inr got)"
  shows "ct_files s' = ct_files s \<and> verified env a b got s"
  using assms unfolding digest_files_def verified_def
  by (auto simp: and_then_def stat_file_def read_file_def sys_call_def refuse_with_def give_def split: if_splits option.splits)

lemma rename_result:
  "rename_file env a b s = (s', Inr u) \<Longrightarrow> \<exists>bs. ct_files s a = Some bs \<and> ct_files s' = (ct_files s)(a := None, b \<mapsto> bs)"
  "rename_file env a b s = (s', Inl e) \<Longrightarrow> ct_files s' = ct_files s"
  by (auto simp: rename_file_def sys_call_def split: option.splits)

text \<open>The two downloads do not get in each other's way.\<close>

definition apart :: "string \<Rightarrow> string \<Rightarrow> bool" where
  "apart kd rd \<longleftrightarrow> image_files kd \<inter> image_files rd = {}"

lemma apartD:
  assumes "apart kd rd"
  shows "kd \<noteq> rd" "kd \<noteq> rd @ ''.new''" "kd \<noteq> rd @ ''.new.tmp''" "kd @ ''.new'' \<noteq> rd" "kd @ ''.new'' \<noteq> rd @ ''.new''"
    "kd @ ''.new'' \<noteq> rd @ ''.new.tmp''" "kd @ ''.new.tmp'' \<noteq> rd" "kd @ ''.new.tmp'' \<noteq> rd @ ''.new''"
  using assms by (auto simp: apart_def image_files_def)

text \<open>The disk is as before, and so is a kernel that was there.\<close>

definition disks_kept :: "bool \<Rightarrow> string \<Rightarrow> string \<Rightarrow> ctl \<Rightarrow> ctl \<Rightarrow> bool" where
  "disks_kept have kd rd s0 s \<longleftrightarrow>
     ct_files s rd = ct_files s0 rd \<and> (have \<longrightarrow> ct_files s kd = ct_files s0 kd)"

lemma disks_kept_about: "about_files (disks_kept have kd rd s0) {kd, rd}"
  by (simp add: about_files_def disks_kept_def)

lemma touches_drop_new: "kern \<in> ps \<Longrightarrow> touches ps (drop_new env kern dest)"
  unfolding drop_new_def by (intro touch)

lemma fetch_rest_runs:
  assumes "apart kd rd"
  shows "runs (disks_kept have kd rd s0) (fetch_rest env base kn rn kd rd want have)
    (\<lambda>x s. x = (kd, rd) \<and> verified env kd rd want s \<and> (have \<longrightarrow> ct_files s kd = ct_files s0 kd)) (disks_kept have kd rd s0)"
proof -
  let ?I = "disks_kept have kd rd s0"
  let ?k = "if have then kd else kd @ ''.new''" and ?r = "rd @ ''.new''"
  let ?tmp = "{kd @ ''.new'', kd @ ''.new.tmp'', rd @ ''.new'', rd @ ''.new.tmp''}"
  note d = apartD[OF assms]
  have keep: "runs ?I m (\<lambda>_. ?I) ?I" if "touches ?tmp m" for m :: "unit oper"
    by (rule runs_keep[OF that disks_kept_about]) (use d in auto)
  have fetch_k: "touches ?tmp (if have then give () else fetch_url env u ?k)" for u by (intro touch) auto
  have fetch_r: "touches ?tmp (fetch_url env u ?r)" for u by (intro touch) auto
  have drop: "touches ?tmp (drop_new env ?k kd)" by (cases "have") (auto simp: drop_new_def intro!: touch)
  have drop_both: "touches ?tmp (and_then (ignoring (remove_path env ?r)) (\<lambda>_. drop_new env ?k kd))"
    by (intro touch drop) auto
  have digest: "runs ?I (either_way (digest_files env ?k ?r) (\<lambda>e. refuse_with (Wrap ''install'' e))
      (\<lambda>got. if got \<noteq> want then refuse_with w else give ())) (\<lambda>_ s. ?I s \<and> verified env ?k ?r want s) ?I" for w
  proof (rule runs_either_way)
    show "runs ?I (digest_files env ?k ?r) (\<lambda>got s. ?I s \<and> verified env ?k ?r got s) ?I"
    proof (rule runsI)
      fix s s' x assume "?I s" "digest_files env ?k ?r s = (s', Inr x)"
      then show "?I s' \<and> verified env ?k ?r x s'"
        using digest_files_result[of env ?k ?r s s' x] by (simp add: disks_kept_def verified_def)
    next
      fix s s' e assume "?I s" "digest_files env ?k ?r s = (s', Inl e)"
      then show "?I s'" using touchesD[of "{}" "digest_files env ?k ?r" s s' "Inl e"]
        by (simp add: disks_kept_def touches_simple)
    qed
    show "runs (\<lambda>s. ?I s \<and> verified env ?k ?r got s) (if got \<noteq> want then refuse_with w else give ())
        (\<lambda>_ s. ?I s \<and> verified env ?k ?r want s) ?I" for got
      by (auto intro: runs_leaf)
  qed (auto intro: runs_leaf)
  have kernel: "runs (\<lambda>s. ?I s \<and> verified env ?k ?r want s)
      (if ?k = kd then give ()
       else cleaning (and_then (ignoring (remove_path env ?k)) (\<lambda>_. ignoring (remove_path env ?r)))
              (wrapping ''install'' (rename_file env ?k kd))) (\<lambda>_ s. ?I s \<and> verified env kd ?r want s) ?I"
  proof (cases "have")
    case True
    then show ?thesis by (auto intro: runs_leaf)
  next
    case False
    have "runs (\<lambda>s. ?I s \<and> verified env ?k ?r want s) (rename_file env ?k kd) (\<lambda>_ s. ?I s \<and> verified env kd ?r want s) ?I"
      using False d by (intro runsI) (auto dest!: rename_result simp: disks_kept_def verified_def)
    moreover have "touches ?tmp (and_then (ignoring (remove_path env ?k)) (\<lambda>_. ignoring (remove_path env ?r)))"
      using False by (intro touch) auto
    note runs_cleaning[OF runs_wrapping[OF calculation] keep[OF this]]
    with False show ?thesis by simp
  qed
  have rootfs: "runs (\<lambda>s. ?I s \<and> verified env kd ?r want s) (cleaning (remove_path env ?r) (wrapping ''install'' (rename_file env ?r rd)))
      (\<lambda>_ s. verified env kd rd want s \<and> (have \<longrightarrow> ct_files s kd = ct_files s0 kd)) ?I"
  proof -
    have "runs (\<lambda>s. ?I s \<and> verified env kd ?r want s) (rename_file env ?r rd)
        (\<lambda>_ s. verified env kd rd want s \<and> (have \<longrightarrow> ct_files s kd = ct_files s0 kd)) ?I"
      using d by (intro runsI) (auto dest!: rename_result simp: disks_kept_def verified_def)
    moreover have "touches ?tmp (remove_path env ?r)" by (intro touch) auto
    from runs_cleaning[OF runs_wrapping[OF calculation] keep[OF this]] show ?thesis .
  qed
  show ?thesis unfolding fetch_rest_def Let_def
    by (rule runs_and_then[OF keep[OF fetch_k]], rule runs_and_then[OF runs_cleaning[OF keep[OF fetch_r] keep[OF drop]]],
        rule runs_and_then[OF runs_cleaning[OF digest keep[OF drop_both]]], rule runs_and_then[OF kernel],
        rule runs_and_then[OF rootfs]) (auto intro: runs_leaf)
qed

lemma fetch_verified_safe:
  assumes "apart kd rd" and "fetch_verified env base kn rn kd rd want s = (s', r)"
  shows "(isl r \<longrightarrow> ct_files s' rd = ct_files s rd) \<and>
    (\<not> isl r \<longrightarrow> verified env kd rd want s') \<and>
    (ct_files s kd \<noteq> None \<and> oe_fault env (ct_tick s) = None \<longrightarrow> ct_files s' kd = ct_files s kd) \<and>
    (\<forall>p. p \<notin> image_files kd \<union> image_files rd \<longrightarrow> ct_files s' p = ct_files s p)"
proof -
  define hk where "hk \<longleftrightarrow> oe_fault env (ct_tick s) = None \<and> ct_files s kd \<noteq> None"
  define s1 where "s1 = s\<lparr>ct_tick := Suc (ct_tick s)\<rparr>"
  have "fetch_rest env base kn rn kd rd want hk s1 = (s', r)"
    using assms(2) by (simp add: fetch_verified_def and_then_def stat_file_def sys_call_def hk_def s1_def)
  moreover have "disks_kept hk kd rd s1 s1" by (simp add: disks_kept_def)
  ultimately have post: "case r of Inl e \<Rightarrow> disks_kept hk kd rd s1 s'
      | Inr x \<Rightarrow> x = (kd, rd) \<and> verified env kd rd want s' \<and> (hk \<longrightarrow> ct_files s' kd = ct_files s1 kd)"
    using runsD[OF fetch_rest_runs[OF assms(1)]] by blast
  have "touches (image_files kd \<union> image_files rd) (fetch_verified env base kn rn kd rd want)"
    by (intro touch) simp
  then have "\<forall>p. p \<notin> image_files kd \<union> image_files rd \<longrightarrow> ct_files s' p = ct_files s p"
    unfolding touches_def using assms(2) by (metis fst_conv)
  moreover have "ct_files s1 = ct_files s" by (simp add: s1_def)
  ultimately show ?thesis using post by (auto simp: hk_def disks_kept_def isl_def split: sum.splits)
qed

lemma fetch_verified_ok: "apart kd rd \<Longrightarrow> fetch_verified env base kn rn kd rd want s = (s', Inr x) \<Longrightarrow> verified env kd rd want s'"
  using fetch_verified_safe by fastforce


subsection \<open>The host document\<close>

text \<open>The document a load of the file would return, nothing failing.\<close>

definition host_doc :: "ctl_env \<Rightarrow> string \<Rightarrow> ctl \<Rightarrow> daemon_config option" where
  "host_doc env path s =
     (case ct_files s path of
        None \<Rightarrow> None
      | Some raw \<Rightarrow>
          (case load_config (oe_lower env) (oe_duration env) path (Inr raw) (oe_config env) of
             Inl _ \<Rightarrow> None | Inr cfg \<Rightarrow> Some cfg))"

text \<open>What the encoding of a document writes, decoding reads back, but for the field that is not encoded.\<close>

definition json_ok :: "ctl_env \<Rightarrow> bool" where
  "json_ok env \<longleftrightarrow> (\<forall>cfg bs. oe_marshal env cfg = Some bs \<longrightarrow> oe_config env (bs @ [0x0A]) = Some (cfg\<lparr>dc_grace := 0\<rparr>))"

definition same_settings :: "daemon_config \<Rightarrow> daemon_config \<Rightarrow> bool" where
  "same_settings a b \<longleftrightarrow> a\<lparr>dc_images := [], dc_grace := 0\<rparr> = b\<lparr>dc_images := [], dc_grace := 0\<rparr>"

lemma same_settingsD: "same_settings a b \<Longrightarrow> dc_token a = dc_token b" "same_settings a b \<Longrightarrow> dc_tls_cert a = dc_tls_cert b"
  "same_settings a b \<Longrightarrow> dc_tls_key a = dc_tls_key b" "same_settings a b \<Longrightarrow> dc_listen a = dc_listen b"
  unfolding same_settings_def by (metis daemon_config.ext_inject daemon_config.surjective daemon_config.update_convs(12) daemon_config.update_convs(19))+

lemma load_host_result:
  "load_host env path s = (s', Inr doc) \<Longrightarrow> ct_files s' = ct_files s \<and> host_doc env path s = Some doc"
  "load_host env path s = (s', Inl e) \<Longrightarrow> ct_files s' = ct_files s"
  by (auto simp: load_host_def sys_call_def host_doc_def load_config_def Let_def config_error_def
      split: option.splits sum.splits if_splits)

lemma save_host_files: "save_host env p doc s = (s', r) \<Longrightarrow> q \<noteq> p \<Longrightarrow> q \<noteq> p @ ''.new'' \<Longrightarrow> ct_files s' q = ct_files s q"
  using touches_save[of p "{p, p @ ''.new''}" env doc] unfolding touches_def by (metis fst_conv insert_iff singletonD)

lemma host_doc_accepted: "host_doc env path s = Some doc \<Longrightarrow> accepted (oe_duration env) doc"
  by (auto simp: host_doc_def load_config_def config_error_def split: option.splits sum.splits if_splits
      intro: validate_accepted)

lemma host_doc_files: "ct_files s' path = ct_files s path \<Longrightarrow> host_doc env path s' = host_doc env path s"
  by (simp add: host_doc_def)

text \<open>A document that is saved loads as what validation made of it.\<close>

lemma save_host_result:
  assumes "json_ok env" "save_host env path doc s = (s', Inr u)"
  shows "\<exists>cfg cfg' raw. validate_config (oe_lower env) (oe_duration env) doc = Inr cfg \<and>
    ct_files s' = (ct_files s)(path \<mapsto> raw, path @ ''.new'' := None) \<and>
    host_doc env path s' = Some cfg' \<and> cfg' = (if dc_grace_text cfg = '''' then cfg\<lparr>dc_grace := 0\<rparr> else cfg)"
proof -
  obtain we re ce fs' where r: "save_config (oe_lower env) (oe_duration env) (oe_marshal env) we re ce path doc (ct_files s) = (fs', Inr ())"
    and fs': "ct_files s' = fs'"
    using assms(2) by (auto simp: save_host_def Let_def split: sum.splits) (metis prod.collapse)
  from save_config_cases[OF r] obtain cfg bs where c: "path \<noteq> ''''" "validate_config (oe_lower env) (oe_duration env) doc = Inr cfg"
    "oe_marshal env cfg = Some bs" "fs' = (ct_files s)(path \<mapsto> bs @ [0x0A], path @ ''.new'' := None)" by auto
  have "oe_config env (bs @ [0x0A]) = Some (cfg\<lparr>dc_grace := 0\<rparr>)" using assms(1) c(3) by (simp add: json_ok_def)
  then have "host_doc env path s' = Some (if dc_grace_text cfg = '''' then cfg\<lparr>dc_grace := 0\<rparr> else cfg)"
    using c(1) accepted_unset_grace[OF validate_accepted[OF c(2)]] by (simp add: host_doc_def load_config_def fs' c(4))
  with c fs' show ?thesis by blast
qed

text \<open>Changing the images of an accepted document changes nothing else of it.\<close>

lemma validate_images:
  assumes "accepted duration doc" "validate_config uni duration (doc\<lparr>dc_images := imgs\<rparr>) = Inr cfg"
  shows "cfg = doc\<lparr>dc_images := imgs\<rparr>"
proof -
  have "to_lower uni (dc_security doc) = dc_security doc" "to_lower uni (dc_adapter doc) = dc_adapter doc"
    "to_lower uni (dc_network doc) = dc_network doc" "dc_network doc \<noteq> ''''"
    using assms(1) security_ok_cases adapter_ok_cases network_ok_cases by (fastforce simp: accepted_def)+
  then show ?thesis using assms
    by (auto simp: validate_config_def accepted_def Let_def config_error_def split: if_splits option.splits)
qed

lemma and_then_ok: "and_then m k s = (s', Inr y) \<longleftrightarrow> (\<exists>s1 x. m s = (s1, Inr x) \<and> k x s1 = (s', Inr y))"
  by (auto simp: and_then_def split: prod.split sum.split)

lemma either_way_ok: "either_way m h k s = (s', Inr y) \<longleftrightarrow>
    (\<exists>s1 e. m s = (s1, Inl e) \<and> h e s1 = (s', Inr y)) \<or> (\<exists>s1 x. m s = (s1, Inr x) \<and> k x s1 = (s', Inr y))"
  by (auto simp: either_way_def split: prod.split sum.split)

lemma leaf_ok: "give x s = (s', Inr y) \<longleftrightarrow> s' = s \<and> y = x" "refuse_with e s \<noteq> (s', Inr y)" "of_result r s = (s', Inr y) \<longleftrightarrow> s' = s \<and> r = Inr y"
  "print_line t s = (s', Inr u) \<longleftrightarrow> s' = s\<lparr>ct_out := ct_out s @ [t]\<rparr>"
  by (auto simp: give_def refuse_with_def of_result_def print_line_def)

lemma upsert_settings:
  assumes "json_ok env" "host_doc env path s0 = Some doc" "save_host env path (doc\<lparr>dc_images := imgs\<rparr>) s = (s', Inr u)"
  shows "\<exists>doc'. host_doc env path s' = Some doc' \<and> same_settings doc' doc \<and> dc_images doc' = imgs"
proof -
  from save_host_result[OF assms(1,3)] obtain cfg where c: "validate_config (oe_lower env) (oe_duration env) (doc\<lparr>dc_images := imgs\<rparr>) = Inr cfg"
    "host_doc env path s' = Some (if dc_grace_text cfg = '''' then cfg\<lparr>dc_grace := 0\<rparr> else cfg)" by blast
  have "cfg = doc\<lparr>dc_images := imgs\<rparr>" by (rule validate_images[OF host_doc_accepted[OF assms(2)] c(1)])
  with c(2) show ?thesis by (simp add: same_settings_def)
qed

subsection \<open>Installing\<close>

lemma lookup_image_result: "lookup_image i imgs = Inr img \<Longrightarrow> img \<in> set imgs \<and> xi_id img = i \<and> valid_digest (xi_hash img)"
  by (induction imgs) (auto split: if_splits)

lemma files_of_reload: "reload_unit env o' s = (s', r) \<Longrightarrow> ct_files s' = ct_files s"
  using touchesD[of "{}" "reload_unit env o'" s s' r] touches_reload by fastforce

definition catalog_image :: "daemon_image \<Rightarrow> iso_image" where
  "catalog_image img = \<lparr>im_id = di_id img, im_kernel = di_kernel img, im_rootfs = di_rootfs img, im_hash = di_hash img\<rparr>"

text \<open>The files of the image are those whose digest the isolated host would compute and compare.\<close>

definition image_matches :: "ctl_env \<Rightarrow> daemon_image \<Rightarrow> ctl \<Rightarrow> bool" where
  "image_matches env img s \<longleftrightarrow>
     (\<exists>k r. ct_files s (di_kernel img) = Some k \<and> ct_files s (di_rootfs img) = Some r \<and>
        matches_catalog (Inr (hex_encode (oe_sha env (k @ r)))) (catalog_image img))"

lemma verified_matches:
  assumes "verified env kd rd h s" "valid_digest h" "kd \<noteq> ''''" "rd \<noteq> ''''"
  shows "image_matches env \<lparr>di_id = i, di_kernel = kd, di_rootfs = rd, di_hash = h\<rparr> s"
  using assms by (auto simp: verified_def image_matches_def catalog_image_def matches_catalog_def valid_digest_def split: option.splits)

text \<open>The stages of a successful \<open>Install\<close>.\<close>

lemma install_stages:
  assumes "ctl_install env opts i loud s = (s', Inr u)"
  defines "cp \<equiv> config_path (op_resolved opts)" and "dir \<equiv> images_dir (op_resolved opts)"
  obtains doc again s1 s2 s3 base kn and entry :: index_image where
    "host_doc env cp s = Some doc" "valid_digest (xi_hash entry)" "xi_id entry = i"
    "fetch_verified env base kn (xi_rootfs entry) (fp_join dir (fp_base kn)) (fp_join dir (fp_base (xi_rootfs entry)))
       (xi_hash entry) s1 = (s2, Inr (fp_join dir (fp_base kn), fp_join dir (fp_base (xi_rootfs entry))))"
    "save_host env cp (doc\<lparr>dc_images := upsert_image (dc_images doc)
       \<lparr>di_id = i, di_kernel = fp_join dir (fp_base kn), di_rootfs = fp_join dir (fp_base (xi_rootfs entry)), di_hash = xi_hash entry\<rparr>\<rparr>) s2 = (s3, Inr ())"
    "host_doc env cp s3 = Some again" "dc_token again = dc_token doc" "ct_files s' = ct_files s3"
proof -
  from assms(1) obtain doc t where l: "load_host env cp s = (t, Inr doc)"
    unfolding ctl_install_def Let_def by (auto simp: either_way_ok leaf_ok cp_def split: if_splits)
  from assms(1) l obtain t1 t2 t3 base idx entry kd rd s1 s2 s3 s4 s5 again where
    lk: "index_lookup idx i = Inr entry" and
    fv: "fetch_verified env base (ix_kernel idx) (xi_rootfs entry) (fp_join dir (fp_base (ix_kernel idx)))
       (fp_join dir (fp_base (xi_rootfs entry))) (xi_hash entry) s1 = (s2, Inr (kd, rd))" and
    sv: "save_host env cp (doc\<lparr>dc_images := upsert_image (dc_images doc)
       \<lparr>di_id = xi_id entry, di_kernel = kd, di_rootfs = rd, di_hash = xi_hash entry\<rparr>\<rparr>) s2 = (s3, Inr ())" and
    ld: "load_host env cp s3 = (s4, Inr again)" "dc_token again = dc_token doc" "reload_unit env (op_resolved opts) s4 = (s5, Inr ())"
      "ct_files s' = ct_files s5"
    unfolding ctl_install_def Let_def
    by (auto simp: and_then_ok either_way_ok leaf_ok cp_def dir_def images_dir_def split: if_splits)
  have e: "xi_id entry = i" "valid_digest (xi_hash entry)" using lookup_image_result lk by (auto simp: index_lookup_def)
  have "kd = fp_join dir (fp_base (ix_kernel idx)) \<and> rd = fp_join dir (fp_base (xi_rootfs entry))"
    using fv unfolding fetch_verified_def fetch_rest_def Let_def by (auto simp: and_then_ok leaf_ok)
  moreover have "ct_files s' = ct_files s3" using ld load_host_result(1) files_of_reload by metis
  ultimately show ?thesis using that[of doc entry base "ix_kernel idx" s1 s2 s3 again] l e fv sv ld load_host_result(1)
    by metis
qed

lemma fp_clean_nonempty [simp]: "fp_clean p \<noteq> ''''"
proof (cases "rooted p \<or> clean_elems p = []")
  case False
  then have "hd (clean_elems p) \<noteq> ''''"
    using clean_form_elem[OF clean_form_elems, of "hd (clean_elems p)" p] by (auto simp: plain_elem_def)
  with False show ?thesis by (simp add: fp_clean_def render_def join_with_not_Nil)
qed (auto simp: fp_clean_def render_def)

lemma fp_base_nonempty [simp]: "fp_base p \<noteq> ''''"
proof -
  have "rev (takeWhile (\<lambda>c. c \<noteq> CHR ''/'') (dropWhile (\<lambda>c. c = CHR ''/'') (rev p))) \<noteq> ''''"
    if "dropWhile (\<lambda>c. c = CHR ''/'') (rev p) \<noteq> []"
    using that hd_dropWhile[OF that] by (cases "dropWhile (\<lambda>c. c = CHR ''/'') (rev p)") auto
  then show ?thesis by (simp add: fp_base_def Let_def)
qed

lemma fp_join_nonempty [simp]: "b \<noteq> '''' \<Longrightarrow> fp_join a b \<noteq> ''''"
  by (simp add: fp_join_def)


subsection \<open>Names in a directory\<close>

text \<open>A plain name joined to a directory is that name after a prefix of the directory.\<close>

definition dir_prefix :: "string \<Rightarrow> string" where
  "dir_prefix d =
     (if d = '''' \<or> (\<not> rooted d \<and> clean_elems d = []) then ''''
      else if clean_elems d = [] then ''/'' else fp_clean d @ ''/'')"

lemma join_with_snoc: "es \<noteq> [] \<Longrightarrow> join_with sep (es @ [n]) = join_with sep es @ sep # n"
proof (induction es)
  case (Cons e es)
  then show ?case by (cases es) simp_all
qed simp

lemma fp_join_elem:
  assumes "plain_elem n"
  shows "fp_join d n = render (rooted d) (clean_elems d @ [n])"
proof (cases "d = ''''")
  case True
  moreover have "\<not> rooted n" "n \<noteq> ''''" using assms by (auto simp: plain_elem_def rooted_def neq_Nil_conv)
  ultimately show ?thesis using assms by (simp add: fp_join_def fp_clean_def clean_elems_def split_on_plain plain_elem_def clean_step_def)
next
  case False
  then have r: "rooted (d @ CHR ''/'' # n) = rooted d" by (simp add: rooted_def)
  have "split_on CHR ''/'' n = [n]" using assms by (simp add: split_on_plain plain_elem_def)
  then have "clean_elems (d @ CHR ''/'' # n) = clean_elems d @ [n]"
    using assms r by (simp add: clean_elems_def split_on_append_split)
  with False r show ?thesis by (simp add: fp_join_def fp_clean_def)
qed

lemma fp_join_plain: "plain_elem n \<Longrightarrow> fp_join d n = dir_prefix d @ n"
  by (auto simp: fp_join_elem dir_prefix_def fp_clean_def render_def join_with_snoc)

lemma fp_join_parts:
  assumes "plain_elem n"
  shows "clean_elems (fp_join d n) = clean_elems d @ [n]" "rooted (fp_join d n) = rooted d"
  using clean_form_append[OF clean_form_elems[of d], of "[n]"] assms
  by (simp_all add: fp_join_elem clean_elems_render rooted_render)

lemma plain_names [simp]:
  "plain_elem ''execenv''" "plain_elem ''execenvctl''" "plain_elem ''firecracker''" "plain_elem ''jailer''" "plain_elem ''images''"
  "plain_elem ''host.json''" "plain_elem ''runtime.tgz''" "plain_elem ''execenv.service''" "plain_elem ''tls.crt''" "plain_elem ''tls.key''"
  by (simp_all add: plain_elem_def)

lemma fp_base_cases: "fp_base n \<in> {''.'', ''..'', ''/''} \<or> plain_elem (fp_base n)"
proof -
  define q where "q = rev (dropWhile (\<lambda>c. c = CHR ''/'') (rev n))"
  have b: "fp_base n = (if n = '''' then ''.'' else if q = '''' then ''/'' else rev (takeWhile (\<lambda>c. c \<noteq> CHR ''/'') (rev q)))"
    by (simp add: fp_base_def q_def)
  show ?thesis
  proof (cases "n = '''' \<or> q = ''''")
    case True
    then have "fp_base n = ''.'' \<or> fp_base n = ''/''" using b by (cases "n = ''''") simp_all
    then show ?thesis by blast
  next
    case False
    then have "fp_base n = rev (takeWhile (\<lambda>c. c \<noteq> CHR ''/'') (rev q))" using b by simp
    then have "CHR ''/'' \<notin> set (fp_base n)" using set_takeWhileD by fastforce
    then show ?thesis by (auto simp: plain_elem_def)
  qed
qed

text \<open>The files of an image are below the images directory, that directory, or the state directory.\<close>

lemma image_path_elems:
  fixes n :: string
  assumes "st \<noteq> ''''"
  defines "p \<equiv> fp_join (fp_join st ''images'') (fp_base n)"
  shows "clean_elems p = clean_elems st @ [''images'', fp_base n] \<and> plain_elem (fp_base n) \<or>
    clean_elems p = clean_elems st @ [''images''] \<or> clean_elems p = clean_elems st"
proof -
  let ?d = "fp_join st ''images''"
  have d: "clean_elems ?d = clean_elems st @ [''images'']" "?d \<noteq> ''''" by (simp_all add: fp_join_parts)
  have joined: "clean_elems p = rev (foldl (clean_step (rooted ?d)) (rev (clean_elems ?d)) (split_on CHR ''/'' (fp_base n)))"
  proof -
    have "rooted (?d @ CHR ''/'' # fp_base n) = rooted ?d" using d(2) by (simp add: rooted_def)
    then have "clean_elems (?d @ CHR ''/'' # fp_base n) =
        rev (foldl (clean_step (rooted ?d)) (rev (clean_elems ?d)) (split_on CHR ''/'' (fp_base n)))"
      by (simp add: clean_elems_def split_on_append_split)
    moreover have "clean_elems (fp_clean q) = clean_elems q" for q
      by (simp add: fp_clean_def clean_elems_render clean_form_elems)
    ultimately show ?thesis using d(2) by (simp add: p_def fp_join_def)
  qed
  from fp_base_cases[of n] show ?thesis
  proof
    assume "plain_elem (fp_base n)"
    then show ?thesis using d(1) by (simp add: p_def fp_join_parts)
  next
    assume "fp_base n \<in> {''.'', ''..'', ''/''}"
    then show ?thesis using d(1) by (auto simp: joined clean_step_def)
  qed
qed

end
