(* ===== verification/Ctl_Commands.thy ===== *)
theory Ctl_Commands
  imports Ctl_Props
begin

text \<open>
  Upgrade, Remove and Bootstrap: the binaries an upgrade can leave, the catalog a removal leaves, what a
  second bootstrap keeps of the host's identity.
\<close>

subsection \<open>Upgrading\<close>

text \<open>A file that carries the checksum and is a Linux binary for the machine.\<close>

definition good_binary :: "ctl_env \<Rightarrow> string \<Rightarrow> bytes option \<Rightarrow> bool" where
  "good_binary env want c \<longleftrightarrow> (\<exists>bs. c = Some bs \<and> hex_encode (oe_sha env bs) = want \<and> linux_amd64 bs = None)"

lemma binary_dest: "n \<in> set upgrade_names \<Longrightarrow> fp_join (bin_dir o') n = dir_prefix (bin_dir o') @ n"
  by (auto simp: upgrade_names_def fp_join_plain)

definition staging_files :: "options \<Rightarrow> string set" where
  "staging_files o' = (\<Union>n \<in> set upgrade_names. {fp_join (bin_dir o') n @ ''.new'', fp_join (bin_dir o') n @ ''.new.tmp''})"

lemma dest_not_staging: "n \<in> set upgrade_names \<Longrightarrow> fp_join (bin_dir o') n \<notin> staging_files o'"
  by (auto simp: staging_files_def binary_dest) (auto simp: upgrade_names_def)

text \<open>The items of the plan: their names are the two tools', each once, with the release's checksum.\<close>

definition item_of :: "options \<Rightarrow> (string \<rightharpoonup> string) \<Rightarrow> staged_file \<Rightarrow> bool" where
  "item_of o' sums x \<longleftrightarrow> sg_name x \<in> set upgrade_names \<and> sg_dest x = fp_join (bin_dir o') (sg_name x) \<and>
     sg_tmp x = sg_dest x @ ''.new'' \<and> sums (sg_name x) = Some (sg_want x)"

lemma needed_result:
  assumes "needed env o' sums names need s = (s', Inr items)" "set names \<subseteq> set upgrade_names" "\<forall>x \<in> set need. item_of o' sums x"
    and "distinct (map sg_name need @ names)"
  shows "(\<forall>x \<in> set items. item_of o' sums x) \<and> distinct (map sg_name items)"
  using assms
proof (induction names arbitrary: need s)
  case Nil
  then show ?case by (simp add: leaf_ok)
next
  case (Cons n names)
  then obtain want where w: "sums n = Some want" by (auto simp: leaf_ok split: option.splits)
  let ?x = "\<lparr>sg_name = n, sg_dest = fp_join (bin_dir o') n, sg_tmp = fp_join (bin_dir o') n @ ''.new'', sg_want = want\<rparr>"
  from Cons.prems(1) w obtain s1 same where
    "needed env o' sums names (if same then need else need @ [?x]) s1 = (s', Inr items)"
    by (auto simp: Let_def and_then_ok)
  moreover have "\<forall>x \<in> set (if same then need else need @ [?x]). item_of o' sums x"
    using Cons.prems(2,3) w by (auto simp: item_of_def)
  ultimately show ?case using Cons.IH[of "if same then need else need @ [?x]" s1] Cons.prems(2,4) by (cases same) auto
qed

lemma item_files:
  assumes "item_of o' sums x" "item_of o' sums y" "sg_name x \<noteq> sg_name y"
  shows "sg_tmp x \<noteq> sg_tmp y" "sg_tmp x \<noteq> sg_tmp y @ ''.tmp''" "sg_dest x \<noteq> sg_dest y" "sg_tmp x \<noteq> sg_dest y"
  using assms by (auto simp: item_of_def upgrade_names_def fp_join_plain)

lemma read_file_result: "read_file env p s = (s', Inr bs) \<Longrightarrow> ct_files s p = Some bs \<and> ct_files s' = ct_files s"
  by (auto simp: read_file_def sys_call_def split: option.splits)

lemma verify_checksum_result:
  "verify_checksum env p want s = (s', Inr u) \<Longrightarrow> \<exists>bs. ct_files s p = Some bs \<and> hex_encode (oe_sha env bs) = want \<and> ct_files s' = ct_files s"
  by (auto simp: verify_checksum_def file_sha256_def wrapping_def and_then_ok either_way_ok leaf_ok split: if_splits dest!: read_file_result)

lemma require_linux_result:
  "require_linux_amd64 env p s = (s', Inr u) \<Longrightarrow> \<exists>bs. ct_files s p = Some bs \<and> linux_amd64 bs = None \<and> ct_files s' = ct_files s"
  by (auto simp: require_linux_amd64_def wrapping_def and_then_ok either_way_ok leaf_ok split: option.splits dest!: read_file_result)

lemma stage_file_result:
  assumes "stage_file env base x s = (s', Inr u)"
  shows "good_binary env (sg_want x) (ct_files s' (sg_tmp x))"
proof -
  from assms obtain s1 s2 s3 where v: "verify_checksum env (sg_tmp x) (sg_want x) s1 = (s2, Inr ())"
    and e: "require_linux_amd64 env (sg_tmp x) s2 = (s3, Inr ())"
    and m: "wrapping ''upgrade'' (make_executable env (sg_tmp x)) s3 = (s', Inr u)"
    unfolding stage_file_def by (auto simp: and_then_ok)
  have t: "touches {} (wrapping ''upgrade'' (make_executable env (sg_tmp x)))" by (intro touch)
  have "ct_files s' = ct_files s3" using touchesD[OF t m] by blast
  with verify_checksum_result[OF v] require_linux_result[OF e] show ?thesis by (auto simp: good_binary_def)
qed

lemma touches_stage [touch]: "sg_tmp x \<in> ps \<Longrightarrow> sg_tmp x @ ''.tmp'' \<in> ps \<Longrightarrow> touches ps (stage_file env base x)"
  unfolding stage_file_def by (intro touch)

lemma touches_remove_staged [touch]: "(\<And>x. x \<in> set items \<Longrightarrow> sg_tmp x \<in> ps) \<Longrightarrow> touches ps (remove_staged env items)"
  unfolding remove_staged_def by (intro touch)

lemma item_staging: "item_of o' sums x \<Longrightarrow> sg_tmp x \<in> staging_files o'" "item_of o' sums x \<Longrightarrow> sg_tmp x @ ''.tmp'' \<in> staging_files o'"
  by (auto simp: item_of_def staging_files_def)

text \<open>Staging one file after the other: those staged before stay good.\<close>

definition staged_good :: "ctl_env \<Rightarrow> staged_file set \<Rightarrow> ctl \<Rightarrow> bool" where
  "staged_good env D s \<longleftrightarrow> (\<forall>x \<in> D. good_binary env (sg_want x) (ct_files s (sg_tmp x)))"

lemma stage_one:
  assumes "item_of o' sums x" "\<forall>y \<in> D. item_of o' sums y \<and> sg_name y \<noteq> sg_name x"
  shows "runs (staged_good env D) (cleaning c (stage_file env base x)) (\<lambda>_. staged_good env (insert x D)) (\<lambda>_. True)"
proof (rule runs_cleaning)
  have t: "touches {sg_tmp x, sg_tmp x @ ''.tmp''} (stage_file env base x)" by (intro touch) auto
  show "runs (staged_good env D) (stage_file env base x) (\<lambda>_. staged_good env (insert x D)) (\<lambda>_. True)"
  proof (rule runsI)
    fix s s' u assume D: "staged_good env D s" and r: "stage_file env base x s = (s', Inr u)"
    have "ct_files s' (sg_tmp y) = ct_files s (sg_tmp y)" if "y \<in> D" for y
      using touchesD[OF t r] item_files(1,2)[of o' sums y x] assms that by auto
    with D stage_file_result[OF r] show "staged_good env (insert x D) s'" by (simp add: staged_good_def)
  qed simp
qed (simp add: runs_def split: prod.split sum.split)

lemma stage_all:
  "\<lbrakk>\<forall>x \<in> set xs \<union> D. item_of o' sums x; distinct (map sg_name xs); \<forall>x \<in> set xs. \<forall>y \<in> D. sg_name y \<noteq> sg_name x\<rbrakk> \<Longrightarrow>
   runs (staged_good env D) (each (\<lambda>x. cleaning c (stage_file env base x)) xs) (\<lambda>_. staged_good env (D \<union> set xs)) (\<lambda>_. True)"
proof (induction xs arbitrary: D)
  case Nil
  then show ?case by (auto intro: runs_leaf)
next
  case (Cons x xs)
  have "runs (staged_good env D) (cleaning c (stage_file env base x)) (\<lambda>_. staged_good env (insert x D)) (\<lambda>_. True)"
    using Cons.prems by (intro stage_one) auto
  moreover have "runs (staged_good env (insert x D)) (each (\<lambda>x. cleaning c (stage_file env base x)) xs)
      (\<lambda>_. staged_good env (insert x D \<union> set xs)) (\<lambda>_. True)"
    using Cons.prems by (intro Cons.IH) auto
  ultimately show ?case by (auto intro: runs_and_then)
qed

text \<open>Every binary is the one that was there or a good one.\<close>

definition binaries_sound :: "ctl_env \<Rightarrow> options \<Rightarrow> (string \<rightharpoonup> string) \<Rightarrow> ctl \<Rightarrow> ctl \<Rightarrow> bool" where
  "binaries_sound env o' sums s0 s \<longleftrightarrow>
     (\<forall>n \<in> set upgrade_names. ct_files s (fp_join (bin_dir o') n) = ct_files s0 (fp_join (bin_dir o') n) \<or>
        (\<exists>want. sums n = Some want \<and> good_binary env want (ct_files s (fp_join (bin_dir o') n))))"

lemma place_one:
  assumes "item_of o' sums x" "\<forall>y \<in> D. item_of o' sums y \<and> sg_name y \<noteq> sg_name x"
  shows "runs (\<lambda>s. binaries_sound env o' sums s0 s \<and> staged_good env (insert x D) s) (place_file env x)
    (\<lambda>_ s. binaries_sound env o' sums s0 s \<and> staged_good env D s) (binaries_sound env o' sums s0)"
  unfolding place_file_def
proof (intro runs_cleaning runs_wrapping)
  let ?B = "binaries_sound env o' sums s0"
  have x: "sg_dest x = fp_join (bin_dir o') (sg_name x)" "sums (sg_name x) = Some (sg_want x)" "sg_tmp x \<noteq> sg_dest x"
    using assms(1) by (auto simp: item_of_def)
  show "runs (\<lambda>s. ?B s \<and> staged_good env (insert x D) s) (rename_file env (sg_tmp x) (sg_dest x))
      (\<lambda>_ s. ?B s \<and> staged_good env D s) ?B"
  proof (rule runsI)
    fix s s' u assume pre: "?B s \<and> staged_good env (insert x D) s" and r: "rename_file env (sg_tmp x) (sg_dest x) s = (s', Inr u)"
    obtain bs where bs: "ct_files s (sg_tmp x) = Some bs" "ct_files s' = (ct_files s)(sg_tmp x := None, sg_dest x \<mapsto> bs)"
      using rename_result(1)[OF r] by blast
    have good: "good_binary env (sg_want x) (Some bs)" using pre bs(1) by (simp add: staged_good_def)
    have "staged_good env D s'"
      using pre item_files[OF _ assms(1)] item_files[OF assms(1)] assms(2) by (fastforce simp: staged_good_def bs(2))
    moreover have "?B s'" unfolding binaries_sound_def
    proof
      fix n assume n: "n \<in> set upgrade_names"
      show "ct_files s' (fp_join (bin_dir o') n) = ct_files s0 (fp_join (bin_dir o') n) \<or>
        (\<exists>want. sums n = Some want \<and> good_binary env want (ct_files s' (fp_join (bin_dir o') n)))"
      proof (cases "n = sg_name x")
        case True
        then show ?thesis using x good by (simp add: bs(2))
      next
        case False
        moreover have "sg_name x \<in> set upgrade_names" using assms(1) by (simp add: item_of_def)
        ultimately have "fp_join (bin_dir o') n \<noteq> sg_dest x" "fp_join (bin_dir o') n \<noteq> sg_tmp x"
          using n dest_not_staging[OF n, of o'] item_staging(1)[OF assms(1)] x(1) by (auto simp: binary_dest)
        then show ?thesis using pre n by (simp add: binaries_sound_def bs(2))
      qed
    qed
    ultimately show "?B s' \<and> staged_good env D s'" by blast
  next
    fix s s' e assume "?B s \<and> staged_good env (insert x D) s" "rename_file env (sg_tmp x) (sg_dest x) s = (s', Inl e)"
    then show "?B s'" using rename_result(2) by (fastforce simp: binaries_sound_def)
  qed
  have "touches (staging_files o') (remove_path env (sg_tmp x))" using item_staging(1)[OF assms(1)] by (intro touch)
  moreover have "about_files ?B ((\<lambda>n. fp_join (bin_dir o') n) ` set upgrade_names)" by (simp add: about_files_def binaries_sound_def)
  ultimately show "runs ?B (remove_path env (sg_tmp x)) (\<lambda>_. ?B) ?B"
    using dest_not_staging by (intro runs_keep) auto
qed

lemma place_all:
  "\<lbrakk>\<forall>x \<in> set xs. item_of o' sums x; distinct (map sg_name xs)\<rbrakk> \<Longrightarrow>
   runs (\<lambda>s. binaries_sound env o' sums s0 s \<and> staged_good env (set xs) s) (each (place_file env) xs)
     (\<lambda>_. binaries_sound env o' sums s0) (binaries_sound env o' sums s0)"
proof (induction xs)
  case Nil
  then show ?case by (auto intro: runs_leaf)
next
  case (Cons x xs)
  have one: "runs (\<lambda>s. binaries_sound env o' sums s0 s \<and> staged_good env (set (x # xs)) s) (place_file env x)
      (\<lambda>_ s. binaries_sound env o' sums s0 s \<and> staged_good env (set xs) s) (binaries_sound env o' sums s0)"
  proof -
    have "\<forall>y \<in> set xs. sg_name y \<noteq> sg_name x" using Cons.prems(2) by (metis distinct.simps(2) image_eqI list.set_map list.simps(9))
    then show ?thesis using place_one[of o' sums x "set xs" env s0] Cons.prems(1) by simp
  qed
  show ?case using runs_and_then[OF one Cons.IH] Cons.prems by simp
qed

lemma fetch_bytes_result: "fetch_bytes env url s = (s', Inr raw) \<Longrightarrow> \<exists>k st. oe_get env k url = Answer 200 st raw None"
  by (auto simp: fetch_bytes_def and_then_ok http_get_def sys_call_def leaf_ok split: response.splits if_splits option.splits)

text \<open>A checksum that the release's own list gives for a tool.\<close>

definition published :: "ctl_env \<Rightarrow> options \<Rightarrow> (string \<rightharpoonup> string) \<Rightarrow> bool" where
  "published env o' sums \<longleftrightarrow>
     (\<exists>base k st raw. resolve_release_url (op_release_url o') (oe_url_env env) (bv_tag (oe_vars env)) = Inr base \<and>
        oe_get env k (base @ ''/SHA256SUMS'') = Answer 200 st raw None \<and> parse_checksums raw = Inr sums)"

lemma upgrade_plan_result:
  assumes "upgrade_plan env o' s = (s', Inr (base, idx, ids, need))"
  shows "\<exists>sums. published env o' sums \<and> (\<forall>x \<in> set need. item_of o' sums x) \<and> distinct (map sg_name need) \<and>
    staged_good env (set need) s'"
proof -
  from assms obtain s1 s2 s3 s4 raw sums where
    "resolve_release_url (op_release_url o') (oe_url_env env) (bv_tag (oe_vars env)) = Inr base"
    "fetch_bytes env (base @ ''/SHA256SUMS'') s1 = (s2, Inr raw)" "parse_checksums raw = Inr sums" and
    n: "needed env o' sums upgrade_names [] s2 = (s3, Inr need)" and
    st: "each (\<lambda>item. cleaning (remove_staged env need) (stage_file env base item)) need s3 = (s', Inr ())"
    unfolding upgrade_plan_def release_base_def upgrade_stage_def by (auto simp: and_then_ok leaf_ok)
  then have "published env o' sums" using fetch_bytes_result unfolding published_def by blast
  moreover have items: "\<forall>x \<in> set need. item_of o' sums x" "distinct (map sg_name need)"
    using needed_result[OF n] by (auto simp: upgrade_names_def)
  moreover have "staged_good env (set need) s'"
    using runsD[OF stage_all[of need "{}" o' sums] _ st] items by (simp add: staged_good_def)
  ultimately show ?thesis by blast
qed

lemma touches_upgrade_stage [touch]: "touches (staging_files o') (upgrade_stage env o' base sums)"
  unfolding touches_def
proof (intro allI impI)
  fix s q assume q: "q \<notin> staging_files o'"
  let ?rest = "\<lambda>need. and_then (each (\<lambda>item. cleaning (remove_staged env need) (stage_file env base item)) need) (\<lambda>_. give need)"
  obtain s1 r where n: "needed env o' sums upgrade_names [] s = (s1, r)" by fastforce
  have t: "touches {} (needed env o' sums upgrade_names [])" by (intro touch)
  have s1: "ct_files s1 q = ct_files s q" using touchesD[OF t n] by blast
  show "ct_files (fst (upgrade_stage env o' base sums s)) q = ct_files s q"
  proof (cases r)
    case (Inr need)
    then have "\<forall>x \<in> set need. item_of o' sums x" using needed_result[of env o' sums upgrade_names "[]" s s1 need] n
      by (simp add: upgrade_names_def)
    then have "touches (staging_files o') (?rest need)" by (intro touch) (auto intro: item_staging)
    then show ?thesis using q s1 n Inr by (simp add: upgrade_stage_def and_then_def touches_def)
  qed (use n s1 in \<open>simp add: upgrade_stage_def and_then_def\<close>)
qed

lemma touches_plan: "touches (staging_files o') (upgrade_plan env o')"
  unfolding upgrade_plan_def by (intro touch)

text \<open>The binaries are neither images nor the host document.\<close>

lemma binary_elems:
  assumes "n \<in> set upgrade_names"
  shows "clean_elems (fp_join (bin_dir o') n) = clean_elems (op_prefix o') @ [''bin'', n]"
    "last (fp_join (bin_dir o') n) \<in> {CHR ''v'', CHR ''l''}"
proof -
  have "plain_elem ''bin''" "plain_elem n" using assms by (auto simp: plain_elem_def upgrade_names_def)
  then show "clean_elems (fp_join (bin_dir o') n) = clean_elems (op_prefix o') @ [''bin'', n]"
    by (simp add: bin_dir_def fp_join_parts)
  show "last (fp_join (bin_dir o') n) \<in> {CHR ''v'', CHR ''l''}"
    using assms by (auto simp: upgrade_names_def fp_join_plain)
qed

lemma binary_not_image:
  assumes "n \<in> set upgrade_names" "op_state o' \<noteq> ''''" "clean_elems (op_state o') \<noteq> clean_elems (fp_join (bin_dir o') n)"
  shows "fp_join (bin_dir o') n \<notin> image_files (fp_join (images_dir o') (fp_base m))"
proof -
  let ?p = "fp_join (images_dir o') (fp_base m)"
  have "n \<noteq> ''images''" using assms(1) by (auto simp: upgrade_names_def)
  then have "fp_join (bin_dir o') n \<noteq> ?p"
    using image_path_elems[OF assms(2), of m] binary_elems[OF assms(1), of o'] assms(3) unfolding images_dir_def by fastforce
  moreover have "last (?p @ ''.new'') = CHR ''w''" "last (?p @ ''.new.tmp'') = CHR ''p''" by simp_all
  then have "fp_join (bin_dir o') n \<noteq> ?p @ ''.new''" "fp_join (bin_dir o') n \<noteq> ?p @ ''.new.tmp''"
    using binary_elems[OF assms(1), of o'] by fastforce+
  ultimately show ?thesis by (simp add: image_files_def)
qed

lemma binary_not_config:
  assumes "n \<in> set upgrade_names"
  shows "fp_join (bin_dir o') n \<notin> config_files o'"
proof -
  have "last (config_path o') = CHR ''n''" "last (config_path o' @ ''.new'') = CHR ''w''"
    by (simp_all add: config_path_def fp_join_plain)
  then show ?thesis using binary_elems[OF assms, of o'] by (fastforce simp: config_files_def)
qed

text \<open>
  C4. Upgrade only ever puts published binaries in place. If anything fails before all files have been
  fetched and checked, no file but the staging ones has changed. However the command ends, each of the two
  tools is the file that was there or one with the checksum the release's own list gives for it and
  with the header of a Linux binary for this machine.
\<close>

theorem upgrade_checked:
  assumes "\<forall>n \<in> set upgrade_names. clean_elems (op_state (op_resolved opts)) \<noteq> clean_elems (fp_join (bin_dir (op_resolved opts)) n)"
    and "ctl_upgrade env opts s = (s', r)"
  shows "(isl (snd (upgrade_plan env (op_resolved opts) s)) \<longrightarrow>
      (\<forall>p. p \<notin> staging_files (op_resolved opts) \<longrightarrow> ct_files s' p = ct_files s p)) \<and>
    (\<forall>n \<in> set upgrade_names. ct_files s' (fp_join (bin_dir (op_resolved opts)) n) = ct_files s (fp_join (bin_dir (op_resolved opts)) n) \<or>
      (\<exists>sums want. published env (op_resolved opts) sums \<and> sums n = Some want \<and>
         good_binary env want (ct_files s' (fp_join (bin_dir (op_resolved opts)) n))))"
proof -
  define o' where "o' = op_resolved opts"
  define dest where "dest n = fp_join (bin_dir o') n" for n
  obtain s1 r1 where plan: "upgrade_plan env o' s = (s1, r1)" by fastforce
  have s1: "p \<notin> staging_files o' \<Longrightarrow> ct_files s1 p = ct_files s p" for p using touchesD[OF touches_plan plan] by blast
  show ?thesis
  proof (cases r1)
    case (Inl e)
    then have "s' = s1" using assms(2) plan by (simp add: ctl_upgrade_def and_then_def o'_def[symmetric])
    then show ?thesis using s1 dest_not_staging[of _ o'] by (simp add: o'_def[symmetric])
  next
    case (Inr x)
    obtain base idx ids need where x: "x = (base, idx, ids, need)" by (cases x)
    from upgrade_plan_result plan Inr x obtain sums where sums: "published env o' sums" "\<forall>y \<in> set need. item_of o' sums y"
      "distinct (map sg_name need)" "staged_good env (set need) s1" by blast
    let ?B = "binaries_sound env o' sums s"
    have "?B s1" using s1 dest_not_staging by (simp add: binaries_sound_def)
    have about: "about_files ?B (dest ` set upgrade_names)" by (simp add: about_files_def binaries_sound_def dest_def)
    have state: "op_state o' \<noteq> ''''" by (simp add: o'_def op_resolved_def or_default_def)
    have inst: "touches (- (dest ` set upgrade_names)) (ctl_install env o' i False)" for i
    proof (rule touches_install)
      have "op_resolved o' = o'" by (simp add: o'_def op_resolved_def or_default_def)
      then show "config_files (op_resolved o') \<subseteq> - (dest ` set upgrade_names)"
        "image_files (fp_join (images_dir (op_resolved o')) (fp_base n)) \<subseteq> - (dest ` set upgrade_names)" for n
        using binary_not_config[of _ o'] binary_not_image[of _ o' n] state assms(1) by (auto simp: dest_def o'_def[symmetric])
    qed
    define rest where "rest = and_then (if need = [] then installed_disks_differ env o' idx else give True) (\<lambda>differ.
      if \<not> differ then print_line ''upgraded=already current''
      else and_then (if need \<noteq> [] then reload_unit env o' else give ()) (\<lambda>_.
        and_then (each (\<lambda>i. ctl_install env o' i False) ids) (\<lambda>_.
        print_line (''upgraded='' @ join_with CHR '','' (map sg_name need @ ids)))))"
    have t: "touches (- (dest ` set upgrade_names)) rest" unfolding rest_def by (intro touch inst)
    have "runs ?B rest (\<lambda>_. ?B) ?B" by (rule runs_keep[OF t about]) blast
    then have "runs (\<lambda>s. ?B s \<and> staged_good env (set need) s) (and_then (each (place_file env) need) (\<lambda>_. rest)) (\<lambda>_. ?B) ?B"
      by (rule runs_and_then[OF place_all[OF sums(2,3)]])
    moreover have "and_then (each (place_file env) need) (\<lambda>_. rest) s1 = (s', r)"
      using assms(2) plan Inr x by (simp add: ctl_upgrade_def and_then_def o'_def[symmetric] rest_def)
    ultimately have "?B s'" using runsD \<open>?B s1\<close> sums(4) by (fastforce split: sum.splits)
    then show ?thesis using sums(1) plan Inr by (auto simp: binaries_sound_def o'_def[symmetric])
  qed
qed

subsection \<open>Removing\<close>

lemma drop_image_result:
  "drop_image i imgs (kept, dropped) = (kept', dropped') \<Longrightarrow>
   kept' = kept @ filter (\<lambda>img. di_id img \<noteq> i) imgs \<and>
   (dropped' = dropped \<and> (\<forall>img \<in> set imgs. di_id img \<noteq> i) \<or> (\<exists>img \<in> set imgs. dropped' = Some img \<and> di_id img = i))"
proof (induction imgs arbitrary: kept dropped)
  case (Cons img imgs)
  then show ?case by (cases "di_id img = i") force+
qed simp

lemma kernel_still_used_iff: "kernel_still_used imgs kern \<longleftrightarrow> (\<exists>img \<in> set imgs. di_kernel img = kern)"
  by (induction imgs) auto

lemma touches_remove_file [touch]: "p \<in> ps \<Longrightarrow> touches ps (remove_file env p)"
  unfolding remove_file_def by (intro touch)

lemma remove_file_result: "remove_file env p s = (s', Inr u) \<Longrightarrow> p \<noteq> '''' \<Longrightarrow> oe_fault env (ct_tick s) = None \<Longrightarrow> ct_files s' p = None"
  by (auto simp: remove_file_def either_way_ok leaf_ok remove_path_def sys_call_def split: if_splits)

text \<open>A failing system call is never mistaken for a file that does not exist.\<close>

definition honest_faults :: "ctl_env \<Rightarrow> bool" where
  "honest_faults env \<longleftrightarrow> (\<forall>k e. oe_fault env k = Some e \<longrightarrow> root_error e \<noteq> os_not_exist)"

lemma load_host_present:
  assumes "honest_faults env" "host_doc env path s = Some doc"
  shows "\<exists>s' r. load_host env path s = (s', r) \<and> ct_files s' = ct_files s \<and>
    (r = Inr doc \<or> (\<exists>e. r = Inl e \<and> \<not> is_not_exist e))"
  using assms
  by (auto simp: host_doc_def load_host_def sys_call_def load_config_def honest_faults_def Let_def config_error_def
      split: option.splits sum.splits if_splits)

text \<open>The stages of a successful \<open>Remove\<close> of an image that is installed.\<close>

lemma remove_stages:
  assumes "ctl_remove env opts i s = (s', Inr u)" and "host_doc env (config_path (op_resolved opts)) s = Some doc" "honest_faults env"
  defines "cp \<equiv> config_path (op_resolved opts)" and "kept \<equiv> filter (\<lambda>img. di_id img \<noteq> i) (dc_images doc)"
  shows "ct_files s' = ct_files s \<and> (\<forall>img \<in> set (dc_images doc). di_id img \<noteq> i) \<or>
    (\<exists>x s1 s2 s3 s4. x \<in> set (dc_images doc) \<and> di_id x = i \<and>
       save_host env cp (doc\<lparr>dc_images := kept\<rparr>) s1 = (s2, Inr ()) \<and> ct_files s1 = ct_files s \<and> ct_files s3 = ct_files s2 \<and>
       and_then (remove_file env (di_rootfs x)) (\<lambda>_. if kernel_still_used kept (di_kernel x) then give ()
          else remove_file env (di_kernel x)) s3 = (s4, Inr ()) \<and> ct_files s' = ct_files s4)"
proof -
  obtain s1 r where l: "load_host env cp s = (s1, r)" "ct_files s1 = ct_files s" "r = Inr doc \<or> (\<exists>e. r = Inl e \<and> \<not> is_not_exist e)"
    using load_host_present[OF assms(3,2)] cp_def by blast
  have "r = Inr doc" using l(1,3) assms(1)
    by (auto simp: ctl_remove_def Let_def cp_def either_way_def leaf_ok split: if_splits)
  obtain kept' dropped where d: "drop_image i (dc_images doc) ([], None) = (kept', dropped)" by fastforce
  note dr = drop_image_result[OF d]
  show ?thesis
  proof (cases dropped)
    case None
    then have "ct_files s' = ct_files s1" using assms(1) l(1) \<open>r = Inr doc\<close> d
      by (auto simp: ctl_remove_def Let_def cp_def either_way_def leaf_ok split: if_splits)
    with None dr l(2) show ?thesis by auto
  next
    case (Some x)
    then have x: "x \<in> set (dc_images doc)" "di_id x = i" "kept' = kept" using dr by (auto simp: kept_def)
    from assms(1) l(1) \<open>r = Inr doc\<close> d Some obtain s2 s3 again s4 where
      "save_host env cp (doc\<lparr>dc_images := kept'\<rparr>) s1 = (s2, Inr ())" and ld: "load_host env cp s2 = (s3, Inr again)" and
      rm: "and_then (remove_file env (di_rootfs x)) (\<lambda>_. and_then (if kernel_still_used kept' (di_kernel x) then give ()
          else remove_file env (di_kernel x)) (\<lambda>_. and_then (reload_unit env (op_resolved opts)) (\<lambda>_. print_line (''removed='' @ i)))) s3 = (s', Inr u)"
      by (auto simp: ctl_remove_def Let_def cp_def either_way_def and_then_ok leaf_ok split: if_splits)
    moreover from rm obtain s4 where "and_then (remove_file env (di_rootfs x)) (\<lambda>_. if kernel_still_used kept' (di_kernel x) then give ()
          else remove_file env (di_kernel x)) s3 = (s4, Inr ()) \<and> ct_files s' = ct_files s4"
      by (auto simp: and_then_ok leaf_ok dest!: files_of_reload)
    ultimately show ?thesis using x l(2) load_host_result(1)[OF ld] by blast
  qed
qed


text \<open>
  The disk has no such check: when two entries name the same disk file, removing one leaves the other
  without it.
\<close>

lemma remove_shared_disk:
  assumes "honest_faults env" "\<forall>k. oe_fault env k = None" "host_doc env (config_path (op_resolved opts)) s = Some doc"
    and "dc_images doc = [a, b]" "di_id a \<noteq> di_id b" "di_rootfs a = di_rootfs b" "di_rootfs a \<noteq> ''''"
    and "di_kernel a \<noteq> di_rootfs a" "ctl_remove env opts (di_id a) s = (s', Inr u)"
  shows "ct_files s' (di_rootfs b) = None"
proof -
  let ?kept = "filter (\<lambda>img. di_id img \<noteq> di_id a) (dc_images doc)"
  from remove_stages[OF assms(9,3,1)] obtain x s3 s4 where x: "x \<in> set (dc_images doc)" "di_id x = di_id a"
    and r: "and_then (remove_file env (di_rootfs x)) (\<lambda>_. if kernel_still_used ?kept (di_kernel x) then give ()
          else remove_file env (di_kernel x)) s3 = (s4, Inr ())" and s': "ct_files s' = ct_files s4"
    using assms(4) by auto
  have "x = a" using x assms(4,5) by auto
  then obtain s5 where r1: "remove_file env (di_rootfs a) s3 = (s5, Inr ())"
    and r2: "(if kernel_still_used ?kept (di_kernel a) then give () else remove_file env (di_kernel a)) s5 = (s4, Inr ())"
    using r by (auto simp: and_then_ok)
  have "ct_files s5 (di_rootfs a) = None" using remove_file_result[OF r1] assms(2,7) by simp
  moreover have t: "touches {di_kernel a} (if kernel_still_used ?kept (di_kernel a) then give () else remove_file env (di_kernel a))"
    by (intro touch) simp
  have "ct_files s4 (di_rootfs a) = ct_files s5 (di_rootfs a)" using touchesD[OF t r2] assms(8) by auto
  ultimately show ?thesis using assms(6) s' by simp
qed

subsection \<open>Bootstrapping again\<close>

lemma touches_install_file [touch]: "dest \<in> ps \<Longrightarrow> dest @ ''.tmp'' \<in> ps \<Longrightarrow> touches ps (install_file env src dest)"
  unfolding install_file_def by (intro touch)

lemma touches_ensure_binary [touch]: "dest \<in> ps \<Longrightarrow> dest @ ''.tmp'' \<in> ps \<Longrightarrow> touches ps (ensure_binary env dest name)"
  unfolding ensure_binary_def by (intro touch)

lemma touches_tool_error [touch]: "touches ps (tool_error what r)"
  by (cases r) (auto simp: tool_error_def intro!: touch)

lemma touches_fetch_file [touch]: "dest \<in> ps \<Longrightarrow> touches ps (fetch_file env url dest)"
  unfolding fetch_file_def by (intro touch) (auto simp: touches_def sys_call_def)

text \<open>What an archive unpacks stays within \<open>ps\<close>.\<close>

definition unpacks_within :: "ctl_env \<Rightarrow> string \<Rightarrow> string set \<Rightarrow> bool" where
  "unpacks_within env dir ps \<longleftrightarrow> (\<forall>k a. \<forall>(p, bs) \<in> set (oe_unpacked env k a). fp_join dir p \<in> ps)"

lemma touches_extract [touch]:
  assumes "unpacks_within env dir ps" "dest \<in> ps" "dest @ ''.tmp'' \<in> ps"
  shows "touches ps (extract_named env tgz dir name dest)"
proof -
  have "map_of (map (\<lambda>(p, bs). (fp_join dir p, bs)) (oe_unpacked env k a)) q = None" if "q \<notin> ps" for k a q
    using assms(1) that by (force simp: unpacks_within_def map_of_eq_None_iff)
  then show ?thesis using assms(2,3) unfolding extract_named_def
    by (intro touch) (auto simp: touches_def sys_call_def map_add_def split: option.split)
qed

definition boot_files :: "options \<Rightarrow> string set" where
  "boot_files o' = {execenv_path o', execenv_path o' @ ''.tmp'', runtime_path o', runtime_path o' @ ''.tmp'',
     supervisor_path o', supervisor_path o' @ ''.tmp'', fp_join (op_state o') ''runtime.tgz'', unit_path o'}"

lemma touches_fetch_supervisors [touch]:
  "boot_files o' \<subseteq> ps \<Longrightarrow> unpacks_within env (op_state o') ps \<Longrightarrow> touches ps (fetch_supervisors env o')"
  unfolding fetch_supervisors_def Let_def boot_files_def by (intro touch) auto

lemma touches_install_supervisors [touch]:
  "boot_files o' \<subseteq> ps \<Longrightarrow> unpacks_within env (op_state o') ps \<Longrightarrow> touches ps (install_supervisors env o')"
  unfolding install_supervisors_def ensure_or_fetch_def ensure_required_def
  by (intro touch) (auto simp: boot_files_def)

lemma touches_install_execenv [touch]: "boot_files o' \<subseteq> ps \<Longrightarrow> touches ps (install_execenv env o')"
  unfolding install_execenv_def Let_def boot_files_def by (intro touch) auto

lemma touches_boot_rest [touch]: "touches ps (check_device env p)" "touches ps (start_unit env o')" "unit_path o' \<in> ps \<Longrightarrow> touches ps (write_unit env o')"
  unfolding check_device_def start_unit_def write_unit_def by (intro touch | simp)+

text \<open>The document is none of these files: no name ends as its own does.\<close>

lemma disjoint_by_image: "f ` A = C \<Longrightarrow> f ` B \<subseteq> D \<Longrightarrow> C \<inter> D = {} \<Longrightarrow> A \<inter> B = {}"
  by blast

lemma config_not_boot: "config_files o' \<inter> boot_files o' = {}"
proof (rule disjoint_by_image)
  show "last ` config_files o' = {CHR ''n'', CHR ''w''}"
    by (simp add: config_files_def config_path_def fp_join_plain)
  show "last ` boot_files o' \<subseteq> {CHR ''v'', CHR ''p'', CHR ''r'', CHR ''z'', CHR ''e''}"
    by (simp add: boot_files_def execenv_path_def runtime_path_def supervisor_path_def unit_path_def fp_join_plain)
qed simp

text \<open>What identifies the host to its callers and what the operator chose.\<close>

definition same_identity :: "daemon_config \<Rightarrow> daemon_config \<Rightarrow> bool" where
  "same_identity a b \<longleftrightarrow> dc_token a = dc_token b \<and> dc_tls_client_ca a = dc_tls_client_ca b \<and> dc_images a = dc_images b \<and>
     dc_network a = dc_network b \<and> dc_allow a = dc_allow b \<and> dc_cpu_millis a = dc_cpu_millis b \<and>
     dc_memory_bytes a = dc_memory_bytes b \<and> dc_grace_text a = dc_grace_text b"

lemma validate_fields:
  assumes "validate_config uni duration doc = Inr cfg"
  shows "\<exists>g. cfg = doc\<lparr>dc_security := to_lower uni (dc_security doc), dc_adapter := to_lower uni (dc_adapter doc),
    dc_network := to_lower uni (if dc_network doc = '''' then ''none'' else dc_network doc), dc_grace := g\<rparr>"
proof -
  define c where "c = doc\<lparr>dc_security := to_lower uni (dc_security doc), dc_adapter := to_lower uni (dc_adapter doc),
    dc_network := to_lower uni (if dc_network doc = '''' then ''none'' else dc_network doc)\<rparr>"
  have "cfg = c \<or> (\<exists>g. cfg = c\<lparr>dc_grace := g\<rparr>)"
    using assms unfolding validate_config_def Let_def c_def[symmetric] config_error_def
    by (auto split: if_splits option.splits)
  moreover have "c = c\<lparr>dc_grace := dc_grace c\<rparr>" by simp
  ultimately obtain g where "cfg = c\<lparr>dc_grace := g\<rparr>" by metis
  then show ?thesis unfolding c_def by blast
qed

lemma validate_identity:
  assumes "validate_config uni duration doc = Inr cfg" "to_lower uni (dc_network doc) = dc_network doc" "dc_network doc \<noteq> ''''"
  shows "same_identity cfg doc \<and> dc_tls_cert cfg = dc_tls_cert doc \<and> dc_tls_key cfg = dc_tls_key doc"
proof -
  obtain g where "cfg = doc\<lparr>dc_security := to_lower uni (dc_security doc), dc_adapter := to_lower uni (dc_adapter doc),
    dc_network := dc_network doc, dc_grace := g\<rparr>" using validate_fields[OF assms(1)] assms(2,3) by auto
  then show ?thesis by (simp add: same_identity_def)
qed

lemma save_host_any:
  assumes "json_ok env" "save_host env path doc s = (s', r)"
  shows "(isl r \<and> ct_files s' path = ct_files s path) \<or>
    (\<exists>cfg cfg'. validate_config (oe_lower env) (oe_duration env) doc = Inr cfg \<and> host_doc env path s' = Some cfg' \<and>
       cfg' = (if dc_grace_text cfg = '''' then cfg\<lparr>dc_grace := 0\<rparr> else cfg))"
proof -
  obtain we re ce fs' r' where r: "save_config (oe_lower env) (oe_duration env) (oe_marshal env) we re ce path doc (ct_files s) = (fs', r')"
    and fs': "ct_files s' = fs'" and rr: "r = (case r' of Inl e \<Rightarrow> Inl (Api e) | Inr u \<Rightarrow> Inr u)"
    using assms(2) by (auto simp: save_host_def Let_def) (metis prod.collapse)
  from save_config_cases[OF r] show ?thesis
  proof
    assume "\<exists>e. r' = Inl e \<and> fs' path = ct_files s path"
    then show ?thesis using fs' rr by auto
  next
    assume "\<exists>cfg bs. path \<noteq> '''' \<and> validate_config (oe_lower env) (oe_duration env) doc = Inr cfg \<and> oe_marshal env cfg = Some bs \<and>
      fs' = (ct_files s)(path \<mapsto> bs @ [0x0A], path @ ''.new'' := None) \<and> r' = (case ce of Some e \<Rightarrow> Inl (OpError ''config'' e) | None \<Rightarrow> Inr ())"
    then obtain cfg bs where c: "path \<noteq> ''''" "validate_config (oe_lower env) (oe_duration env) doc = Inr cfg"
      "oe_marshal env cfg = Some bs" "fs' = (ct_files s)(path \<mapsto> bs @ [0x0A], path @ ''.new'' := None)" by blast
    have "oe_config env (bs @ [0x0A]) = Some (cfg\<lparr>dc_grace := 0\<rparr>)" using assms(1) c(3) by (simp add: json_ok_def)
    then have "host_doc env path s' = Some (if dc_grace_text cfg = '''' then cfg\<lparr>dc_grace := 0\<rparr> else cfg)"
      using c(1) accepted_unset_grace[OF validate_accepted[OF c(2)]] by (simp add: host_doc_def load_config_def fs' c(4))
    with c(2) show ?thesis by blast
  qed
qed

text \<open>
  The part of \<open>writeHostConfig\<close> that matters: a token that is there is the token that is written, and so are
  certificate and key when both files are there and can be looked at.
\<close>

lemma host_token_result: "dc_token doc \<noteq> '''' \<Longrightarrow> host_token env doc s = (s, Inr (dc_token doc))"
  by (simp add: host_token_def give_def)

lemma host_security_kept:
  assumes "\<forall>k. oe_fault env k = None" "dc_tls_cert doc \<noteq> ''''" "dc_tls_key doc \<noteq> ''''"
    "ct_files s (dc_tls_cert doc) \<noteq> None" "ct_files s (dc_tls_key doc) \<noteq> None"
  shows "\<exists>s'. host_security env o' doc s = (s', Inr (''tls'', dc_tls_cert doc, dc_tls_key doc)) \<and> ct_files s' = ct_files s"
  using assms by (simp add: host_security_def ensure_tls_def and_then_def stat_file_def sys_call_def give_def Let_def)

lemma touches_host_security:
  "dc_tls_cert doc \<in> ps \<Longrightarrow> dc_tls_key doc \<in> ps \<Longrightarrow> fp_join (op_sysconf o') ''tls.crt'' \<in> ps \<Longrightarrow>
   fp_join (op_sysconf o') ''tls.key'' \<in> ps \<Longrightarrow> touches ps (host_security env o' doc)"
proof -
  have sys: "touches ps (sys_call env (\<lambda>k s. (s, f k)))" for f :: "nat \<Rightarrow> ctl_error + bytes \<times> bytes"
    by (simp add: touches_def sys_call_def)
  show "dc_tls_cert doc \<in> ps \<Longrightarrow> dc_tls_key doc \<in> ps \<Longrightarrow> fp_join (op_sysconf o') ''tls.crt'' \<in> ps \<Longrightarrow>
   fp_join (op_sysconf o') ''tls.key'' \<in> ps \<Longrightarrow> ?thesis"
    unfolding host_security_def ensure_tls_def store_pair_def Let_def by (intro touch sys)
qed

text \<open>Certificate and key that the document names are there, no call fails, and neither is the document itself.\<close>

definition tls_present :: "ctl_env \<Rightarrow> daemon_config \<Rightarrow> ctl \<Rightarrow> bool" where
  "tls_present env doc s \<longleftrightarrow> (\<forall>k. oe_fault env k = None) \<and> dc_tls_cert doc \<noteq> '''' \<and> dc_tls_key doc \<noteq> '''' \<and>
     ct_files s (dc_tls_cert doc) \<noteq> None \<and> ct_files s (dc_tls_key doc) \<noteq> None"

definition same_tls :: "daemon_config \<Rightarrow> daemon_config \<Rightarrow> ctl \<Rightarrow> ctl \<Rightarrow> bool" where
  "same_tls d doc s' s \<longleftrightarrow> dc_tls_cert d = dc_tls_cert doc \<and> dc_tls_key d = dc_tls_key doc \<and>
     ct_files s' (dc_tls_cert doc) = ct_files s (dc_tls_cert doc) \<and> ct_files s' (dc_tls_key doc) = ct_files s (dc_tls_key doc)"

text \<open>The document the tool writes over, with the token kept, has the identity of the old one once it is validated.\<close>

lemma written_identity:
  assumes "accepted (oe_duration env) doc"
    and "validate_config uni duration (host_document o' False (dc_token doc) sec doc) = Inr cfg"
    and "d = (if dc_grace_text cfg = '''' then cfg\<lparr>dc_grace := 0\<rparr> else cfg)"
  shows "same_identity d doc \<and> dc_tls_cert d = fst (snd sec) \<and> dc_tls_key d = snd (snd sec)"
proof -
  have n: "to_lower uni (dc_network doc) = dc_network doc" "dc_network doc \<noteq> ''''"
    using assms(1) network_ok_cases by (fastforce simp: accepted_def)+
  let ?h = "host_document o' False (dc_token doc) sec doc"
  have h: "same_identity ?h doc" "dc_tls_cert ?h = fst (snd sec)" "dc_tls_key ?h = snd (snd sec)" "dc_network ?h = dc_network doc"
    by (simp_all add: host_document_def same_identity_def Let_def)
  have "same_identity cfg ?h \<and> dc_tls_cert cfg = dc_tls_cert ?h \<and> dc_tls_key cfg = dc_tls_key ?h"
    using validate_identity[OF assms(2)] n h(4) by simp
  with h assms(3) show ?thesis by (simp add: same_identity_def)
qed

lemma write_host_config_identity:
  assumes "json_ok env" "honest_faults env" "host_doc env (config_path o') s = Some doc" "dc_token doc \<noteq> ''''"
    and "{dc_tls_cert doc, dc_tls_key doc} \<inter> config_files o' = {}" and "write_host_config env o' s = (s', r)"
  shows "\<exists>d. host_doc env (config_path o') s' = Some d \<and> same_identity d doc \<and> (tls_present env doc s \<longrightarrow> same_tls d doc s' s)"
proof -
  define cp where "cp = config_path o'"
  note doc = assms(3)[folded cp_def]
  obtain s1 r1 where l: "load_host env cp s = (s1, r1)" "ct_files s1 = ct_files s" "r1 = Inr doc \<or> (\<exists>e. r1 = Inl e \<and> \<not> is_not_exist e)"
    using load_host_present[OF assms(2) doc] by blast
  have unchanged: ?thesis if "ct_files s' = ct_files s"
    using that doc host_doc_files[of s' cp s env] by (simp add: cp_def same_identity_def same_tls_def)
  show ?thesis
  proof (cases r1)
    case (Inl e)
    then have "s' = s1" using l assms(6) by (auto simp: write_host_config_def cp_def and_then_def either_way_def refuse_with_def)
    then show ?thesis using l(2) unchanged by blast
  next
    case (Inr x)
    then have r1: "r1 = Inr doc" using l(3) by auto
    obtain s2 r2 where sec: "host_security env o' doc s1 = (s2, r2)" by fastforce
    have "last cp = CHR ''n''" "last (fp_join (op_sysconf o') ''tls.crt'') = CHR ''t''" "last (fp_join (op_sysconf o') ''tls.key'') = CHR ''y''"
      by (simp_all add: cp_def config_path_def fp_join_plain)
    then have ne: "cp \<noteq> fp_join (op_sysconf o') ''tls.crt''" "cp \<noteq> fp_join (op_sysconf o') ''tls.key''" by force+
    have t: "touches {dc_tls_cert doc, dc_tls_key doc, fp_join (op_sysconf o') ''tls.crt'', fp_join (op_sysconf o') ''tls.key''} (host_security env o' doc)"
      by (rule touches_host_security) simp_all
    have s2: "ct_files s2 cp = ct_files s cp" using touchesD[OF t sec] ne assms(5) l(2) by (auto simp: config_files_def cp_def)
    have tls: "r2 = Inr (''tls'', dc_tls_cert doc, dc_tls_key doc) \<and> ct_files s2 = ct_files s" if "tls_present env doc s"
      using host_security_kept[of env doc s1 o'] that l(2) sec by (auto simp: tls_present_def)
    have w: "write_host_config env o' s = (case r2 of Inl e \<Rightarrow> (s2, Inl e)
        | Inr sec \<Rightarrow> save_host env cp (host_document o' False (dc_token doc) sec doc) s2)"
      using l(1) r1 sec host_token_result[OF assms(4)]
      by (simp add: write_host_config_def and_then_def either_way_def give_def cp_def split: sum.split)
    show ?thesis
    proof (cases r2)
      case (Inl e)
      then have "s' = s2" using w assms(6) by simp
      moreover have "\<not> tls_present env doc s" using tls Inl by auto
      ultimately show ?thesis using s2 doc host_doc_files[of s' cp s env] by (simp add: cp_def same_identity_def)
    next
      case (Inr sc)
      then have sv: "save_host env cp (host_document o' False (dc_token doc) sc doc) s2 = (s', r)" using w assms(6) by simp
      have other: "q \<notin> config_files o' \<Longrightarrow> ct_files s' q = ct_files s2 q" for q
        using save_host_files[OF sv] by (simp add: config_files_def cp_def)
      from save_host_any[OF assms(1) sv] obtain d where d: "host_doc env cp s' = Some d" "same_identity d doc"
        "tls_present env doc s \<longrightarrow> dc_tls_cert d = dc_tls_cert doc \<and> dc_tls_key d = dc_tls_key doc"
      proof (elim disjE exE conjE, goal_cases)
        case 1
        then show ?case using s2 doc host_doc_files[of s' cp s env] by (simp add: same_identity_def)
      next
        case (2 cfg cfg')
        then show ?case using written_identity[OF host_doc_accepted[OF doc] 2(2) 2(4)] tls Inr by auto
      qed
      moreover have "tls_present env doc s \<longrightarrow> ct_files s' (dc_tls_cert doc) = ct_files s (dc_tls_cert doc) \<and>
          ct_files s' (dc_tls_key doc) = ct_files s (dc_tls_key doc)"
        using other assms(5) tls by auto
      ultimately show ?thesis by (auto simp: cp_def same_tls_def)
    qed
  qed
qed


end
