(* ===== verification/Ctl_Sums.thy ===== *)
theory Ctl_Sums
  imports Ctl_Commands
begin

text \<open>
  The checksum list of a release (\<open>parseChecksums\<close>): what it reads of a list in the format of
  \<open>sha256sum\<close>, and the inputs on which the theorems about the operator's commands are used.
\<close>

subsection \<open>Printable text has no space\<close>

definition graphic :: "char \<Rightarrow> bool" where
  "graphic c \<longleftrightarrow> 32 < ord_of c \<and> ord_of c < 127"

lemma space_len_graphic [simp]: "graphic c \<Longrightarrow> space_len (c # s) = 0"
  by (cases s; cases "tl s") (auto simp: space_len_def graphic_def)

lemma space_len_blank [simp]: "space_len (CHR '' '' # s) = 1"
  by (simp add: space_len_def)

lemma spaces_not_graphic: "c \<in> set (take (space_len t) t) \<Longrightarrow> \<not> graphic c"
  by (cases t; cases "tl t"; cases "tl (tl t)") (auto simp: space_len_def graphic_def Let_def split: if_splits)

lemma trim_left_graphic: "graphic c \<Longrightarrow> trim_left (c # s) = c # s"
  by (subst trim_left.simps) simp

lemma trim_left_keeps: "c \<in> set t \<Longrightarrow> graphic c \<Longrightarrow> c \<in> set (trim_left t)"
proof (induction t rule: trim_left.induct)
  case (1 t)
  have "c \<in> set (drop (space_len t) t)"
    using 1(2,3) spaces_not_graphic[of c t] append_take_drop_id[of "space_len t" t] by (metis UnE set_append)
  then show ?case using 1 by (subst trim_left.simps) auto
qed

lemma trim_right_graphic: "graphic c \<Longrightarrow> trim_right (s @ [c]) = s @ [c]"
proof (induction s)
  case (Cons x s)
  then have "trim_left (x # s @ [c]) \<noteq> ''''" using trim_left_keeps[of c "x # s @ [c]"] by auto
  with Cons show ?case by simp
qed (simp add: trim_left_graphic)

lemma trim_space_graphic: "graphic c \<Longrightarrow> graphic d \<Longrightarrow> trim_space (c # s @ [d]) = c # s @ [d]"
  using trim_right_graphic[of d "c # s"] by (simp add: trim_space_def trim_left_graphic)

lemma text_fields_graphic: "list_all graphic s \<Longrightarrow> text_fields_from w (s @ t) = text_fields_from (w @ s) t"
proof (induction s arbitrary: w)
  case (Cons c s)
  then show ?case by (subst text_fields_from.simps) simp
qed simp

lemma text_fields_two:
  assumes "list_all graphic d" "list_all graphic n" "d \<noteq> ''''" "n \<noteq> ''''"
  shows "text_fields (d @ ''  '' @ n) = [d, n]"
proof -
  have "text_fields_from n '''' = [n]" using assms(4) by (subst text_fields_from.simps) simp
  then have n: "text_fields_from '''' n = [n]" using text_fields_graphic[OF assms(2), of "''''" "''''"] by simp
  have "text_fields_from '''' ('' '' @ n) = [n]" using n by (subst text_fields_from.simps) simp
  then have "text_fields_from d (''  '' @ n) = [d, n]" using assms(3) by (subst text_fields_from.simps) simp
  then show ?thesis using text_fields_graphic[OF assms(1), of "''''" "''  '' @ n"] by (simp add: text_fields_def)
qed

subsection \<open>A list that was written is read back\<close>

text \<open>A line of \<open>sha256sum\<close>: the digest, two blanks, the name.\<close>

definition sum_line :: "string \<times> string \<Rightarrow> string" where
  "sum_line e = fst e @ ''  '' @ snd e"

definition sums_file :: "(string \<times> string) list \<Rightarrow> bytes" where
  "sums_file es = bytes_of_string (concat (map (\<lambda>e. sum_line e @ [CHR 0x0A]) es))"

definition listable :: "string \<times> string \<Rightarrow> bool" where
  "listable e \<longleftrightarrow> length (fst e) = 64 \<and> list_all graphic (fst e) \<and> hd (fst e) \<noteq> CHR ''#'' \<and>
     snd e \<noteq> '''' \<and> list_all graphic (snd e) \<and> CHR ''/'' \<notin> set (snd e) \<and> length (snd e) < 65000"

lemma fp_base_plain: "n \<noteq> '''' \<Longrightarrow> CHR ''/'' \<notin> set n \<Longrightarrow> fp_base n = n"
proof -
  assume n: "n \<noteq> ''''" "CHR ''/'' \<notin> set n"
  then have "dropWhile (\<lambda>c. c = CHR ''/'') (rev n) = rev n" by (cases "rev n") (auto simp: rev_eq_Cons_iff)
  moreover have "takeWhile (\<lambda>c. c \<noteq> CHR ''/'') (rev n) = rev n" using n(2) by (auto simp: takeWhile_eq_all_conv)
  ultimately show ?thesis using n(1) by (simp add: fp_base_def Let_def del: takeWhile_eq_all_conv)
qed

lemma graphic_not_newline: "list_all graphic s \<Longrightarrow> CHR 0x0A \<notin> set s"
  by (auto simp: list_all_iff graphic_def)

lemma sum_line_shape:
  assumes "listable e"
  shows "\<exists>c s d. sum_line e = c # s @ [d] \<and> graphic c \<and> graphic d \<and> c = hd (fst e)"
proof -
  have "fst e \<noteq> ''''" "snd e \<noteq> ''''" using assms by (auto simp: listable_def)
  then obtain c s t d where "fst e = c # s" "snd e = t @ [d]" by (metis list.exhaust rev_exhaust)
  then show ?thesis using assms by (auto simp: sum_line_def listable_def)
qed

lemma split_sums: "(\<And>e. e \<in> set es \<Longrightarrow> CHR 0x0A \<notin> set (f e)) \<Longrightarrow>
    split_on CHR 0x0A (concat (map (\<lambda>e. f e @ [CHR 0x0A]) es)) = map f es @ ['''']"
  by (induction es) (auto simp: split_on_append)

lemma scan_sums: "list_all listable es \<Longrightarrow> scan_lines (string_of_bytes (sums_file es)) = map (\<lambda>e. Some (sum_line e)) es"
proof -
  assume es: "list_all listable es"
  have line: "CHR 0x0A \<notin> set (sum_line e)" "length (sum_line e) < 65536" "drop_cr (sum_line e) = sum_line e" if "e \<in> set es" for e
  proof -
    from that es have e: "listable e" by (simp add: list_all_iff)
    then show "CHR 0x0A \<notin> set (sum_line e)" "length (sum_line e) < 65536"
      using graphic_not_newline by (auto simp: sum_line_def listable_def)
    obtain c s d where "sum_line e = c # s @ [d]" "graphic d" using sum_line_shape[OF e] by blast
    then show "drop_cr (sum_line e) = sum_line e" by (auto simp: drop_cr_def graphic_def)
  qed
  show ?thesis using line by (simp add: scan_lines_def sums_file_def split_sums Let_def not_le)
qed

lemma read_sums:
  "list_all listable es \<Longrightarrow> checksum_lines (map (\<lambda>e. Some (sum_line e)) es) out = Inr (out ++ map_of (rev (map prod.swap es)))"
proof (induction es arbitrary: out)
  case (Cons e es)
  then have e: "listable e" by simp
  obtain c s d where l: "sum_line e = c # s @ [d]" "graphic c" "graphic d" "c = hd (fst e)" using sum_line_shape[OF e] by blast
  have t: "trim_space (sum_line e) = sum_line e" using trim_space_graphic[OF l(2,3), of s] l(1) by simp
  have "fst e \<noteq> ''''" using e by (auto simp: listable_def)
  then have f: "text_fields (sum_line e) = [fst e, snd e]"
    using text_fields_two[of "fst e" "snd e"] e by (simp add: sum_line_def listable_def)
  have "checksum_lines (Some (sum_line e) # map (\<lambda>e. Some (sum_line e)) es) out =
      checksum_lines (map (\<lambda>e. Some (sum_line e)) es) (out(snd e \<mapsto> fst e))"
  proof -
    have "sum_line e \<noteq> ''''" "hd (sum_line e) \<noteq> CHR ''#''" using e l(1,4) by (auto simp: listable_def)
    moreover have "fp_base (snd e) = snd e" "length (fst e) = 64" using e fp_base_plain by (auto simp: listable_def)
    ultimately show ?thesis by (simp add: t f Let_def)
  qed
  then show ?case using Cons by (simp add: map_add_def fun_eq_iff split: option.splits)
qed simp

text \<open>
  C38. The checksum list survives being written and read: for a list in the format of \<open>sha256sum\<close>
  \<open>parseChecksums\<close> gives each name the digest of its last line, and no other name a digest.
\<close>

theorem checksums_roundtrip:
  assumes "list_all listable es"
  shows "parse_checksums (sums_file es) = Inr (map_of (rev (map prod.swap es)))"
  using read_sums[OF assms, of Map.empty] scan_sums[OF assms] by (simp add: parse_checksums_def)

lemma checksums_roundtrip_witness:
  "parse_checksums (sums_file [(replicate 64 CHR ''a'', ''execenv''), (replicate 64 CHR ''b'', ''execenvctl'')]) =
     Inr [''execenv'' \<mapsto> replicate 64 CHR ''a'', ''execenvctl'' \<mapsto> replicate 64 CHR ''b'']"
proof -
  have "list_all listable [(replicate 64 CHR ''a'', ''execenv''), (replicate 64 CHR ''b'', ''execenvctl'')]"
    by (simp add: listable_def list_all_iff graphic_def)
  from checksums_roundtrip[OF this] show ?thesis by (auto simp: fun_upd_twist)
qed

subsection \<open>The shared kernel\<close>

text \<open>
  A kernel that is there is never fetched again. When a release comes with another kernel under the
  same name, no root file system the server could send matches, and the image cannot be installed.
\<close>

lemma stale_kernel_refused:
  assumes "apart kd rd" "ct_files s kd = Some k" "oe_fault env (ct_tick s) = None"
    and "\<forall>rootfs. hex_encode (oe_sha env (k @ rootfs)) \<noteq> want"
    and "fetch_verified env base kn rn kd rd want s = (s', r)"
  shows "isl r"
proof (rule ccontr)
  assume "\<not> isl r"
  with fetch_verified_safe[OF assms(1,5)] have "verified env kd rd want s'" "ct_files s' kd = Some k"
    using assms(2,3) by auto
  with assms(4) show False by (auto simp: verified_def)
qed

subsection \<open>The commands on a small host\<close>

definition sample_image :: daemon_image where
  "sample_image = \<lparr>di_id = ''a'', di_kernel = ''/s/images/vmlinux'', di_rootfs = ''/s/images/a'',
     di_hash = replicate 64 CHR ''0''\<rparr>"

definition sample_host :: "daemon_image list \<Rightarrow> daemon_config" where
  "sample_host imgs = \<lparr>dc_listen = ''0.0.0.0:8443'', dc_token = ''t'', dc_security = ''tls'', dc_adapter = ''isolated'',
     dc_tls_cert = ''/c'', dc_tls_key = ''/k'', dc_tls_client_ca = '''', dc_work_dir = ''/s/work'', dc_device = ''/d'',
     dc_runtime = ''/p/bin/firecracker'', dc_supervisor = ''/p/bin/jailer'', dc_images = imgs, dc_slots = 8,
     dc_cpu_millis = 0, dc_memory_bytes = 0, dc_disk_bytes = 0, dc_network = ''none'', dc_allow = [],
     dc_grace = 0, dc_grace_text = ''''\<rparr>"

text \<open>A 64-bit little-endian ELF header for the machine 62, and the digest of everything: 32 zero bytes.\<close>

definition sample_elf :: bytes where
  "sample_elf = [0x7F, 0x45, 0x4C, 0x46, 2, 1, 1, 0, 0, 0, 0, 0, 0, 0, 0, 0, 2, 0, 62, 0]"

definition sample_get :: "string \<Rightarrow> bytes" where
  "sample_get url =
     (if url = ''u/SHA256SUMS'' then sums_file [(replicate 64 CHR ''0'', ''execenv''), (replicate 64 CHR ''0'', ''execenvctl'')]
      else sample_elf)"

definition sample_index :: index where
  "sample_index = \<lparr>ix_kernel = '''', ix_images = [\<lparr>xi_id = ''a'', xi_rootfs = ''a'', xi_hash = replicate 64 CHR ''0''\<rparr>]\<rparr>"

definition sample_env :: ctl_env where
  "sample_env = \<lparr>oe_fault = \<lambda>_. None, oe_left = \<lambda>_. None, oe_get = \<lambda>_ url. Answer 200 '''' (sample_get url) None,
     oe_sha = \<lambda>_. replicate 32 0, oe_index = \<lambda>_. Some sample_index,
     oe_config = \<lambda>bs. if bs = [1, 0x0A] then Some (sample_host []) else if bs = [2, 0x0A] then Some (sample_host [sample_image])
       else None,
     oe_marshal = \<lambda>cfg. if cfg = sample_host [] then Some [1] else if cfg = sample_host [sample_image] then Some [2] else None,
     oe_lower = id, oe_duration = \<lambda>_. None, oe_same = \<lambda>_ _. False, oe_device = \<lambda>_. True, oe_look = \<lambda>_. None,
     oe_run = \<lambda>_ _. None, oe_download = \<lambda>_ _. None, oe_unpacked = \<lambda>_ _. [], oe_walk = \<lambda>_ _. [],
     oe_random = \<lambda>_. Inr [], oe_pair = \<lambda>_. Inr ([], []), oe_arch = ''amd64'',
     oe_vars = \<lparr>bv_release = ''r'', bv_build = '''', bv_tag = ''v1''\<rparr>, oe_url_env = ''''\<rparr>"

definition sample_options :: options where
  "sample_options = \<lparr>op_prefix = ''/p'', op_sysconf = ''/e'', op_state = ''/s'', op_device = ''/d'', op_listen = '''',
     op_slots = 0, op_execenv = '''', op_no_start = True, op_no_fetch = True, op_insecure = False,
     op_release_url = ''u/'', op_reload = Some (\<lambda>_. None)\<rparr>"

definition sample_ctl :: "(string \<rightharpoonup> bytes) \<Rightarrow> ctl" where
  "sample_ctl fs = \<lparr>ct_files = fs, ct_exec = \<lambda>_. True, ct_tick = 0, ct_out = [], ct_ran = []\<rparr>"

lemma sample_json: "json_ok sample_env"
  by (auto simp: json_ok_def sample_env_def sample_host_def)

lemma sample_honest: "honest_faults sample_env"
  by (simp add: honest_faults_def sample_env_def)

text \<open>Runs are evaluated from the outside: what comes later is not looked at before its state is known.\<close>

lemma outside_in:
  "and_then m k s = and_then m k s" "either_way m h g s = either_way m h g s" "wrapping t n s = wrapping t n s"
  "cleaning c n s = cleaning c n s" "ignoring c s = ignoring c s"
  by (rule refl)+

lemma sample_resolved [simp]:
  "op_reload (op_resolved sample_options) = Some (\<lambda>_. None)" "op_release_url (op_resolved sample_options) = ''u/''"
  "op_state (op_resolved sample_options) = ''/s''"
  by (simp_all add: op_resolved_def sample_options_def or_default_def)

lemma sample_paths:
  "config_path (op_resolved sample_options) = ''/e/host.json''"
  "bin_dir (op_resolved sample_options) = ''/p/bin''"
  "fp_join ''/s'' ''images'' = ''/s/images''"
  "fp_join ''/s/images'' (fp_base ''vmlinux'') = ''/s/images/vmlinux''"
  "fp_join ''/s/images'' (fp_base ''a'') = ''/s/images/a''"
  by code_simp+

definition sample_before :: ctl where
  "sample_before = sample_ctl [''/e/host.json'' \<mapsto> [2, 0x0A], ''/s/images/a'' \<mapsto> [], ''/s/images/vmlinux'' \<mapsto> []]"

lemma sample_validate: "validate_config id (\<lambda>_. None) (sample_host []) = Inr (sample_host [])"
  "validate_config id (\<lambda>_. None) (sample_host [sample_image]) = Inr (sample_host [sample_image])"
  by code_simp+

lemma sample_env_simps [simp]:
  "oe_fault sample_env k = None" "oe_lower sample_env = id" "oe_duration sample_env = (\<lambda>_. None)"
  "oe_get sample_env k url = Answer 200 '''' (sample_get url) None" "oe_sha sample_env bs = replicate 32 0"
  "oe_index sample_env bs = Some sample_index" "oe_config sample_env [1, 0x0A] = Some (sample_host [])"
  "oe_config sample_env [2, 0x0A] = Some (sample_host [sample_image])"
  "oe_marshal sample_env (sample_host []) = Some [1]" "oe_marshal sample_env (sample_host [sample_image]) = Some [2]"
  by (simp_all add: sample_env_def sample_host_def)

lemma sample_host_simps [simp]:
  "dc_images (sample_host imgs) = imgs" "(sample_host imgs)\<lparr>dc_images := k\<rparr> = sample_host k" "dc_token (sample_host imgs) = ''t''"
  "di_id sample_image = ''a''" "di_kernel sample_image = ''/s/images/vmlinux''" "di_rootfs sample_image = ''/s/images/a''"
  "di_hash sample_image = replicate 64 CHR ''0''"
  by (simp_all add: sample_host_def sample_image_def)

lemmas sample_run = and_then_def either_way_def wrapping_def cleaning_def ignoring_def give_def refuse_with_def print_line_def
  load_host_def load_config_def save_host_def save_config_def sys_call_def may_fail_def mkdirs_def create_file_def read_file_def
  write_file_def rename_file_def remove_path_def stat_file_def sample_validate of_result_def reload_unit_def
  sample_ctl_def Let_def sample_paths

lemma sample_removes: "snd (ctl_remove sample_env sample_options ''a'' sample_before) = Inr ()"
  unfolding ctl_remove_def Let_def sample_paths
  by (simp cong: outside_in add: sample_run sample_before_def remove_file_def)

lemma sample_url: "resolve_release_url ''u/'' e t = Inr ''u''"
  by (simp add: resolve_release_url_def trim_slashes_def)

lemma sample_lookup: "index_lookup (sample_index\<lparr>ix_kernel := k\<rparr>) ''a'' = Inr \<lparr>xi_id = ''a'', xi_rootfs = ''a'', xi_hash = replicate 64 CHR ''0''\<rparr>"
proof -
  have "valid_digest (replicate 64 CHR ''0'')" by code_simp
  then show ?thesis by (simp add: index_lookup_def sample_index_def)
qed

lemma sample_parse: "parse_index sample_env raw = Inr (sample_index\<lparr>ix_kernel := ''vmlinux''\<rparr>)"
  by (simp add: parse_index_def sample_index_def)

lemma sample_digest: "hex_encode (replicate 32 0) = replicate 64 CHR ''0''"
  by code_simp

lemma sample_installs: "snd (ctl_install sample_env sample_options ''a'' True (sample_ctl [''/e/host.json'' \<mapsto> [1, 0x0A]])) = Inr ()"
  unfolding ctl_install_def sample_paths
  by (simp cong: outside_in add: sample_run release_base_def sample_url fetch_bytes_def http_get_def sample_parse sample_lookup
     fetch_verified_def fetch_rest_def fetch_url_def store_body_def digest_files_def sample_digest drop_new_def
     sample_image_def [symmetric])

text \<open>The theorems at these inputs.\<close>

definition sample_fresh :: ctl where
  "sample_fresh = sample_ctl [''/e/host.json'' \<mapsto> [1, 0x0A]]"

lemma ran: "snd x = r \<Longrightarrow> \<exists>s. x = (s, r)"
  by (cases x) auto



lemma upgrade_checked_witness:
  "\<exists>s' r. ctl_upgrade sample_env sample_options sample_fresh = (s', r) \<and>
    (\<forall>n \<in> set upgrade_names. ct_files s' (fp_join (bin_dir (op_resolved sample_options)) n) = None \<or>
      (\<exists>sums want. published sample_env (op_resolved sample_options) sums \<and> sums n = Some want \<and>
         good_binary sample_env want (ct_files s' (fp_join (bin_dir (op_resolved sample_options)) n))))"
proof -
  obtain s' r where run: "ctl_upgrade sample_env sample_options sample_fresh = (s', r)" by fastforce
  have "clean_elems ''/s'' \<noteq> clean_elems (fp_join ''/p/bin'' n)" if "n \<in> set upgrade_names" for n
  proof -
    have "clean_elems ''/s'' \<noteq> clean_elems (fp_join ''/p/bin'' ''execenv'')" by code_simp
    moreover have "clean_elems ''/s'' \<noteq> clean_elems (fp_join ''/p/bin'' ''execenvctl'')" by code_simp
    ultimately show ?thesis using that by (auto simp: upgrade_names_def)
  qed
  then have apart: "\<forall>n \<in> set upgrade_names. clean_elems (op_state (op_resolved sample_options)) \<noteq>
      clean_elems (fp_join (bin_dir (op_resolved sample_options)) n)" by (simp add: sample_paths)
  have none: "ct_files sample_fresh (fp_join (bin_dir (op_resolved sample_options)) n) = None" if "n \<in> set upgrade_names" for n
    using that by (auto simp: sample_fresh_def sample_ctl_def sample_paths upgrade_names_def fp_join_plain)
  show ?thesis using upgrade_checked[OF apart run] run none by metis
qed

lemma sample_docs: "host_doc sample_env (config_path (op_resolved sample_options)) sample_fresh = Some (sample_host [])"
  "host_doc sample_env (config_path (op_resolved sample_options)) sample_before = Some (sample_host [sample_image])"
  by (simp_all add: host_doc_def sample_fresh_def sample_before_def sample_run)



end
