(* ===== verification/Commands.thy ===== *)
theory Commands
  imports Ctl_Tool
begin

text \<open>
  The two programs (\<open>cmd/execenv\<close>, \<open>cmd/execenvctl\<close>) around the parts modelled elsewhere, and the
  agent's accept loop (\<open>agent/listen.go\<close>): arguments, exit codes and which part is run. The package
  \<open>flag\<close> is written out; the command-line parser of \<open>execenvctl\<close> is a third-party package and an
  argument.
\<close>

subsection \<open>The package flag\<close>

text \<open>A flag set: the names and whether they are boolean. What parsing finds: the last value of each flag, and the arguments left.\<close>

type_synonym flag_set = "(string \<times> bool) list"

datatype flag_error = Help | BadFlag string

definition parse_bool :: "string \<Rightarrow> bool option" where
  "parse_bool s =
     (if s \<in> set [''1'', ''t'', ''T'', ''TRUE'', ''true'', ''True''] then Some True
      else if s \<in> set [''0'', ''f'', ''F'', ''FALSE'', ''false'', ''False''] then Some False
      else None)"

text \<open>The name and the value of \<open>name=value\<close>; an equals sign in the first place does not count.\<close>

definition split_value :: "string \<Rightarrow> string \<times> string option" where
  "split_value s =
     (let n = takeWhile (\<lambda>c. c \<noteq> CHR ''='') (tl s) in
      if length n = length (tl s) then (s, None) else (hd s # n, Some (drop (length n + 2) s)))"

text \<open>\<open>FlagSet.parseOne\<close>, repeated: an argument that is no flag, or two dashes, ends the flags.\<close>

fun flag_parse :: "flag_set \<Rightarrow> string list \<Rightarrow> (string \<rightharpoonup> string) \<Rightarrow> flag_error + ((string \<rightharpoonup> string) \<times> string list)" where
  "flag_parse fs [] vals = Inr (vals, [])"
| "flag_parse fs (s # args) vals =
     (if length s < 2 \<or> hd s \<noteq> CHR ''-'' then Inr (vals, s # args)
      else if s = ''--'' then Inr (vals, args)
      else
        (let body = (if s ! 1 = CHR ''-'' then drop 2 s else drop 1 s) in
         if body = '''' \<or> hd body = CHR ''-'' \<or> hd body = CHR ''='' then Inl (BadFlag s)
         else
           (case split_value body of (name, value) \<Rightarrow>
             (case map_of fs name of
                None \<Rightarrow> if name = ''help'' \<or> name = ''h'' then Inl Help else Inl (BadFlag name)
              | Some True \<Rightarrow>
                  (case parse_bool (case value of None \<Rightarrow> ''true'' | Some v \<Rightarrow> v) of
                     None \<Rightarrow> Inl (BadFlag name)
                   | Some b \<Rightarrow> flag_parse fs args (vals(name \<mapsto> if b then ''true'' else ''false'')))
              | Some False \<Rightarrow>
                  (case value of
                     Some v \<Rightarrow> flag_parse fs args (vals(name \<mapsto> v))
                   | None \<Rightarrow>
                       (case args of
                          [] \<Rightarrow> Inl (BadFlag name)
                        | v # rest \<Rightarrow> flag_parse fs rest (vals(name \<mapsto> v))))))))"

definition flag_value :: "(string \<rightharpoonup> string) \<Rightarrow> string \<Rightarrow> string \<Rightarrow> string" where
  "flag_value vals name dflt = (case vals name of None \<Rightarrow> dflt | Some v \<Rightarrow> v)"

subsection \<open>The agent's accept loop\<close>

text \<open>
  One turn: the error of \<open>Accept\<close> or else of \<open>Serve\<close>, and whether the context has ended when it is
  looked at. \<open>None\<close> is a loop that still waits after the turns of the list.
\<close>

record accept_turn =
  tn_accept :: "go_error option"
  tn_serve :: "go_error option"
  tn_ended :: bool

fun accept_loop :: "accept_turn list \<Rightarrow> go_error option option" where
  "accept_loop [] = None"
| "accept_loop (x # xs) =
     (case tn_accept x of
        Some e \<Rightarrow> Some (if tn_ended x then None else Some (OpError ''agent'' e))
      | None \<Rightarrow> if tn_serve x \<noteq> None \<and> \<not> tn_ended x then Some (tn_serve x) else accept_loop xs)"

definition listen_and_serve :: "string \<Rightarrow> accept_turn list \<Rightarrow> go_error option option" where
  "listen_and_serve home turns =
     (if home = '''' then Some (Some (OpError ''agent'' (Sent ErrInvalid))) else accept_loop turns)"

subsection \<open>execenv\<close>

text \<open>What the program is run in: the errors of listening, the daemon's \<open>Main\<close> and \<open>ListenAndServe\<close> on the listener.\<close>

record surroundings_of_execenv =
  sx_listen_unix :: "string \<Rightarrow> go_error option"
  sx_listen_guest :: "go_error option"
  sx_daemon :: "string \<Rightarrow> go_error option"
  sx_agent :: "string \<Rightarrow> go_error option"
  sx_vars :: build_vars

text \<open>What is done besides printing: the agent's socket is removed and made, the daemon is run.\<close>

datatype deed = RemoveSocket string | ListenUnix string | ListenGuest | RunAgent string | RunDaemon string | PrintStamp string

definition agent_flags :: flag_set where
  "agent_flags = [(''home'', False), (''listen'', False)]"

definition run_agent :: "surroundings_of_execenv \<Rightarrow> string list \<Rightarrow> nat \<times> deed list" where
  "run_agent sx args =
     (case flag_parse agent_flags args Map.empty of
        Inl _ \<Rightarrow> (2, [])
      | Inr (vals, _) \<Rightarrow>
          (let home = flag_value vals ''home'' ''''; listen = flag_value vals ''listen'' '''' in
           if home = '''' then (2, [])
           else
             (let opening = (if listen \<noteq> '''' then [RemoveSocket listen, ListenUnix listen] else [ListenGuest]);
                  err = (if listen \<noteq> '''' then sx_listen_unix sx listen else sx_listen_guest sx) in
              if err \<noteq> None then (1, opening)
              else (if sx_agent sx home = None then 0 else 1, opening @ [RunAgent home]))))"

definition main_flags :: flag_set where
  "main_flags = [(''version'', True), (''config'', False)]"

text \<open>\<open>main\<close>; the flag set of the program exits with 0 for help and with 2 for an error.\<close>

definition execenv_main :: "surroundings_of_execenv \<Rightarrow> string list \<Rightarrow> nat \<times> deed list" where
  "execenv_main sx args =
     (if args \<noteq> [] \<and> hd args = ''agent'' then run_agent sx (tl args)
      else (case flag_parse main_flags args Map.empty of
              Inl Help \<Rightarrow> (0, [])
            | Inl (BadFlag _) \<Rightarrow> (2, [])
            | Inr (vals, _) \<Rightarrow>
                (let config = flag_value vals ''config'' '''' in
                 if flag_value vals ''version'' ''false'' = ''true'' then (0, [PrintStamp (build_stamp (sx_vars sx))])
                 else if config = '''' then (2, [])
                 else (if sx_daemon sx config = None then 0 else 1, [RunDaemon config]))))"

subsection \<open>execenvctl\<close>

text \<open>The command tree: what each command runs. \<open>parse\<close> is the third-party parser, with the options set from the flags.\<close>

datatype ctl_command = Bootstrap | Install string | ListImages | Remove string | Status | Upgrade

definition ctl_run :: "ctl_env \<Rightarrow> options \<Rightarrow> ctl_command \<Rightarrow> unit oper" where
  "ctl_run env opts cmd =
     (case cmd of
        Bootstrap \<Rightarrow> ctl_bootstrap env opts
      | Install i \<Rightarrow> ctl_install env opts i True
      | ListImages \<Rightarrow> ctl_list env opts
      | Remove i \<Rightarrow> ctl_remove env opts i
      | Status \<Rightarrow> ctl_status env opts
      | Upgrade \<Rightarrow> ctl_upgrade env opts)"

definition execenvctl_main :: "(options \<Rightarrow> string list \<Rightarrow> (string + options \<times> ctl_command)) \<Rightarrow> ctl_env \<Rightarrow> string list \<Rightarrow> ctl \<Rightarrow> ctl \<times> nat" where
  "execenvctl_main parse env args s =
     (case parse ctl_defaults args of
        Inl _ \<Rightarrow> (s, 1)
      | Inr (opts, cmd) \<Rightarrow> (case ctl_run env opts cmd s of (s', r) \<Rightarrow> (s', if isl r then 1 else 0)))"

subsection \<open>Exit codes\<close>

text \<open>
  The last value of a flag counts, in each of its four spellings.
\<close>

lemma flag_spellings:
  assumes "map_of fs name = Some False" "name \<noteq> ''''" "CHR ''='' \<notin> set name" "hd name \<noteq> CHR ''-''"
  shows "flag_parse fs ((CHR ''-'' # name) # v # args) vals = flag_parse fs args (vals(name \<mapsto> v))"
    and "flag_parse fs ((''--'' @ name) # v # args) vals = flag_parse fs args (vals(name \<mapsto> v))"
    and "flag_parse fs ((CHR ''-'' # name @ CHR ''='' # v) # args) vals = flag_parse fs args (vals(name \<mapsto> v))"
    and "flag_parse fs ((''--'' @ name @ CHR ''='' # v) # args) vals = flag_parse fs args (vals(name \<mapsto> v))"
proof -
  obtain c n where n: "name = c # n" "c \<noteq> CHR ''-''" "c \<noteq> CHR ''=''" "CHR ''='' \<notin> set n" using assms by (cases name) auto
  have t: "takeWhile (\<lambda>c. c \<noteq> CHR ''='') n = n" using n(4) by (auto simp: takeWhile_eq_all_conv)
  have tv: "takeWhile (\<lambda>c. c \<noteq> CHR ''='') (n @ CHR ''='' # v) = n" using n(4) by (auto simp: takeWhile_append2 takeWhile_tail)
  have s: "split_value (c # n) = (name, None)" "split_value (c # n @ CHR ''='' # v) = (name, Some v)"
    unfolding split_value_def list.sel t tv by (simp_all add: n(1))
  show "flag_parse fs ((CHR ''-'' # name) # v # args) vals = flag_parse fs args (vals(name \<mapsto> v))"
    "flag_parse fs ((''--'' @ name) # v # args) vals = flag_parse fs args (vals(name \<mapsto> v))"
    "flag_parse fs ((CHR ''-'' # name @ CHR ''='' # v) # args) vals = flag_parse fs args (vals(name \<mapsto> v))"
    "flag_parse fs ((''--'' @ name @ CHR ''='' # v) # args) vals = flag_parse fs args (vals(name \<mapsto> v))"
    using n s assms(1) by (simp_all add: Let_def)
qed

text \<open>A usage error does nothing; whatever else is done, no agent runs without a home directory.\<close>

lemma usage_does_nothing:
  "execenv_main sx args = (2, deeds) \<Longrightarrow> deeds = []" "RunAgent home \<in> set (snd (execenv_main sx args)) \<Longrightarrow> home \<noteq> ''''"
  "RunDaemon config \<in> set (snd (execenv_main sx args)) \<Longrightarrow> config \<noteq> ''''"
  by (auto simp: execenv_main_def run_agent_def Let_def split: sum.splits flag_error.splits if_splits)

text \<open>The accept loop ends without an error only when its context has ended.\<close>

lemma accept_loop_ends: "accept_loop turns = Some None \<Longrightarrow> \<exists>x \<in> set turns. tn_ended x"
  by (induction turns) (auto split: option.splits if_splits)

text \<open>\<open>execenvctl\<close> exits with 0 exactly when its command succeeds.\<close>

lemma ctl_exit:
  "parse ctl_defaults args = Inr (opts, cmd) \<Longrightarrow>
   snd (execenvctl_main parse env args s) = 0 \<longleftrightarrow> \<not> isl (snd (ctl_run env opts cmd s))"
  by (simp add: execenvctl_main_def split: prod.splits)

end
