(* ===== verification/Agent_Pty.thy ===== *)
theory Agent_Pty
  imports Contract
begin

text \<open>
  How the agent asks the guest's kernel for a pseudo-terminal with a shell on it (\<open>agent/pty_unix.go\<close>,
  \<open>agent/pty_linux.go\<close>), hangs the shell up (\<open>agent/hangup_unix.go\<close>) and listens for the host
  (\<open>agent/listen_linux.go\<close>). The agent's descriptors are a table; any call may fail, and \<open>kn_err k\<close> says
  whether the \<open>k\<close>-th does.
\<close>

subsection \<open>Descriptors\<close>

record kernel =
  kn_err :: "nat \<Rightarrow> go_error option"
  kn_number :: "nat \<Rightarrow> nat"

text \<open>What each descriptor is open on.\<close>

record descriptors =
  fd_table :: "string option list"
  fd_calls :: nat

text \<open>POSIX: a new descriptor is the lowest that is not in use.\<close>

fun lowest_free :: "string option list \<Rightarrow> nat" where
  "lowest_free [] = 0"
| "lowest_free (None # xs) = 0"
| "lowest_free (Some _ # xs) = Suc (lowest_free xs)"

definition opened :: "descriptors \<Rightarrow> nat \<Rightarrow> string option" where
  "opened t fd = (if fd < length (fd_table t) then fd_table t ! fd else None)"

definition place :: "nat \<Rightarrow> string \<Rightarrow> string option list \<Rightarrow> string option list" where
  "place fd name xs = (if fd < length xs then xs[fd := Some name] else xs @ [Some name])"

definition sys_open :: "kernel \<Rightarrow> string \<Rightarrow> descriptors \<Rightarrow> descriptors \<times> nat res" where
  "sys_open kn name t =
     (let t1 = t\<lparr>fd_calls := Suc (fd_calls t)\<rparr>; fd = lowest_free (fd_table t) in
      case kn_err kn (fd_calls t) of
        Some e \<Rightarrow> (t1, Inl e)
      | None \<Rightarrow> (t1\<lparr>fd_table := place fd name (fd_table t)\<rparr>, Inr fd))"

text \<open>A call that opens nothing: \<open>ioctl\<close>, \<open>bind\<close>, \<open>listen\<close>, the start of a process.\<close>

definition sys_do :: "kernel \<Rightarrow> descriptors \<Rightarrow> descriptors \<times> go_error option" where
  "sys_do kn t = (t\<lparr>fd_calls := Suc (fd_calls t)\<rparr>, kn_err kn (fd_calls t))"

text \<open>Linux gives the descriptor up whatever \<open>close\<close> answers, and the code does not look.\<close>

definition sys_close :: "nat \<Rightarrow> descriptors \<Rightarrow> descriptors" where
  "sys_close fd t = t\<lparr>fd_table := (fd_table t)[fd := None], fd_calls := Suc (fd_calls t)\<rparr>"

subsection \<open>The pseudo-terminal\<close>

definition open_pty :: "kernel \<Rightarrow> descriptors \<Rightarrow> descriptors \<times> (nat \<times> nat) res" where
  "open_pty kn t =
     (case sys_open kn ''/dev/ptmx'' t of (t1, Inl e) \<Rightarrow> (t1, Inl e) | (t1, Inr fd) \<Rightarrow>
     (case sys_do kn t1 of (t2, Some e) \<Rightarrow> (sys_close fd t2, Inl e) | (t2, None) \<Rightarrow>
     (case sys_do kn t2 of (t3, Some e) \<Rightarrow> (sys_close fd t3, Inl e) | (t3, None) \<Rightarrow>
     (case sys_open kn (''/dev/pts/'' @ format_uint (kn_number kn (fd_calls t2))) t3 of
        (t4, Inl e) \<Rightarrow> (sys_close fd t4, Inl e)
      | (t4, Inr slave) \<Rightarrow> (t4, Inr (fd, slave))))))"

record command =
  cmd_args :: "string list"
  cmd_dir :: string
  cmd_env :: "string list"

text \<open>
  A running shell: its master end, what it is run as, the files its three standard descriptors are, the
  window, and the attributes \<open>Setsid\<close>, \<open>Setctty\<close> and \<open>Ctty\<close>.
\<close>

record started =
  sd_master :: nat
  sd_command :: command
  sd_stdio :: "string option list"
  sd_window :: window
  sd_setsid :: bool
  sd_setctty :: bool
  sd_ctty :: nat

definition close_both :: "nat \<Rightarrow> nat \<Rightarrow> descriptors \<Rightarrow> descriptors" where
  "close_both pts master t = sys_close master (sys_close pts t)"

definition start_pty :: "kernel \<Rightarrow> command \<Rightarrow> window \<Rightarrow> descriptors \<Rightarrow> descriptors \<times> started res" where
  "start_pty kn cmd win t =
     (case open_pty kn t of (t1, Inl e) \<Rightarrow> (t1, Inl e) | (t1, Inr (master, pts)) \<Rightarrow>
     (case sys_do kn t1 of (t2, Some e) \<Rightarrow> (close_both pts master t2, Inl e) | (t2, None) \<Rightarrow>
     (case sys_do kn t2 of (t3, Some e) \<Rightarrow> (close_both pts master t3, Inl e) | (t3, None) \<Rightarrow>
        (sys_close pts t3,
         Inr \<lparr>sd_master = master, sd_command = cmd, sd_stdio = replicate 3 (opened t3 pts),
              sd_window = default_window win, sd_setsid = True, sd_setctty = True, sd_ctty = 0\<rparr>))))"

definition shell_command :: "string \<Rightarrow> string \<Rightarrow> command" where
  "shell_command home path =
     \<lparr>cmd_args = [''/bin/sh'', ''-l''], cmd_dir = home,
      cmd_env = [''HOME='' @ home, ''PWD='' @ home, ''TERM=xterm-256color'', ''PATH='' @ path]\<rparr>"

definition start_shell :: "kernel \<Rightarrow> string \<Rightarrow> string \<Rightarrow> window \<Rightarrow> descriptors \<Rightarrow> descriptors \<times> started res" where
  "start_shell kn home path win = start_pty kn (shell_command home path) win"

subsection \<open>Hanging up\<close>

text \<open>
  \<open>dy_hup\<close>: the milliseconds until the process ends after \<open>SIGHUP\<close>, \<open>None\<close> if it ignores the signal; \<open>dy_kill\<close>: until it is
  collected after \<open>SIGKILL\<close>. \<open>pick\<close> says which of two ready cases the \<open>select\<close> takes.
\<close>

record dying =
  dy_hup :: "nat option"
  dy_kill :: nat

datatype signal = SIGHUP | SIGKILL

definition hangup :: "bool \<Rightarrow> dying option \<Rightarrow> signal list \<times> nat" where
  "hangup pick proc =
     (case proc of
        None \<Rightarrow> ([], 0)
      | Some d \<Rightarrow>
          (case dy_hup d of
             None \<Rightarrow> ([SIGHUP, SIGKILL], 2000 + dy_kill d)
           | Some n \<Rightarrow>
               if n < 2000 \<or> n = 2000 \<and> pick then ([SIGHUP], n)
               else ([SIGHUP, SIGKILL], min n (2000 + dy_kill d))))"

subsection \<open>Listening for the host\<close>

definition guest_port :: uint32 where "guest_port = 5000"

definition listen_guest :: "kernel \<Rightarrow> descriptors \<Rightarrow> descriptors \<times> nat res" where
  "listen_guest kn t =
     (case sys_open kn ''vsock'' t of (t1, Inl _) \<Rightarrow> (t1, Inl (Sent ErrUnavailable)) | (t1, Inr fd) \<Rightarrow>
     (case sys_do kn t1 of (t2, Some _) \<Rightarrow> (sys_close fd t2, Inl (Sent ErrUnavailable)) | (t2, None) \<Rightarrow>
     (case sys_do kn t2 of (t3, Some _) \<Rightarrow> (sys_close fd t3, Inl (Sent ErrUnavailable)) | (t3, None) \<Rightarrow>
        (t3, Inr fd))))"

text \<open>
  What the polling of the listener finds, in turn: nothing yet, an error (of the call, or of a listener that
  is closed while it waits), or a connection. \<open>None\<close> is a call that still waits.
\<close>

datatype accepting = Again | Broke go_error | Connected nat

fun guest_wait :: "accepting list \<Rightarrow> nat res option" where
  "guest_wait [] = None"
| "guest_wait (Again # xs) = guest_wait xs"
| "guest_wait (Broke e # xs) = Some (Inl e)"
| "guest_wait (Connected fd # xs) = Some (Inr fd)"

definition guest_accept :: "nat option \<Rightarrow> bool \<Rightarrow> accepting list \<Rightarrow> nat res option" where
  "guest_accept l raw_ok xs =
     (if l = None then Some (Inl (Sent ErrUnavailable))
      else if \<not> raw_ok then Some (Inl (Sent ErrUnavailable))
      else guest_wait xs)"

definition guest_close :: "nat option \<Rightarrow> descriptors \<Rightarrow> descriptors" where
  "guest_close l t = (case l of None \<Rightarrow> t | Some fd \<Rightarrow> sys_close fd t)"

definition guest_addr :: string where
  "guest_addr = format_uint (unat guest_port)"

subsection \<open>Nothing stays open\<close>

lemma lowest_free_free: "lowest_free xs < length xs \<Longrightarrow> xs ! lowest_free xs = None"
  by (induction xs rule: lowest_free.induct) auto

lemma lowest_free_bound: "lowest_free xs \<le> length xs"
  by (induction xs rule: lowest_free.induct) auto

lemma opened_calls [simp]: "opened (t\<lparr>fd_calls := n\<rparr>) = opened t"
  by (simp add: opened_def fun_eq_iff)

lemma opened_close [simp]: "opened (sys_close fd t) = (opened t)(fd := None)"
  by (auto simp: opened_def sys_close_def fun_eq_iff nth_list_update)

lemma opened_lowest: "opened t (lowest_free (fd_table t)) = None"
  by (simp add: opened_def lowest_free_free)

lemma sys_open_opened:
  "sys_open kn name t = (t', Inr fd) \<Longrightarrow> opened t fd = None \<and> opened t' = (opened t)(fd \<mapsto> name)"
  "sys_open kn name t = (t', Inl e) \<Longrightarrow> opened t' = opened t"
  using opened_lowest[of t] lowest_free_bound[of "fd_table t"]
  by (auto simp: sys_open_def Let_def place_def opened_def fun_eq_iff nth_append nth_list_update split: option.splits if_splits)

lemma sys_do_opened: "sys_do kn t = (t', r) \<Longrightarrow> opened t' = opened t"
  by (auto simp: sys_do_def)

lemma opened_sys_close: "opened t = f \<Longrightarrow> opened (sys_close fd t) = f(fd := None)"
  by simp

lemmas opens = sys_open_opened sys_do_opened

lemma restored: "f fd = None \<Longrightarrow> (f(fd \<mapsto> x))(fd := None) = f"
  by auto

lemma open_pty_opened:
  "open_pty kn t = (t', Inl e) \<Longrightarrow> opened t' = opened t"
  "open_pty kn t = (t', Inr (master, pts)) \<Longrightarrow> opened t master = None \<and> opened t pts = None \<and> master \<noteq> pts \<and>
     (\<exists>n. opened t' = (opened t)(master \<mapsto> ''/dev/ptmx'', pts \<mapsto> ''/dev/pts/'' @ format_uint n))"
  unfolding open_pty_def
  by (auto simp: restored dest!: opens split: prod.splits sum.splits option.splits if_splits)
subsection \<open>Properties\<close>

text \<open>
  C40. Starting a shell leaks nothing. Whichever call fails, every descriptor the agent opened on the way is closed
  again and the others are as they were. When it succeeds exactly one descriptor is new, the master end; the
  shell's three standard descriptors are the slave end of that terminal, it runs in the projected tree, which is
  its \<open>HOME\<close> too, in a session of its own with the terminal as the controlling one, and neither side of its window is zero.
\<close>

theorem shell_start_exact:
  "case start_shell kn home path win t of
     (t', Inl e) \<Rightarrow> opened t' = opened t
   | (t', Inr sh) \<Rightarrow>
       opened t (sd_master sh) = None \<and> opened t' = (opened t)(sd_master sh \<mapsto> ''/dev/ptmx'') \<and>
       (\<exists>n. sd_stdio sh = replicate 3 (Some (''/dev/pts/'' @ format_uint n))) \<and>
       cmd_dir (sd_command sh) = home \<and> ''HOME='' @ home \<in> set (cmd_env (sd_command sh)) \<and>
       sd_setsid sh \<and> sd_setctty sh \<and> sd_ctty sh < length (sd_stdio sh) \<and>
       win_cols (sd_window sh) \<noteq> 0 \<and> win_rows (sd_window sh) \<noteq> 0"
proof -
  have twice: "m \<noteq> p \<Longrightarrow> f m = None \<Longrightarrow> f p = None \<Longrightarrow> (f(m \<mapsto> x, p \<mapsto> y))(p := None, m := None) = f"
    "m \<noteq> p \<Longrightarrow> f p = None \<Longrightarrow> (f(m \<mapsto> x, p \<mapsto> y))(p := None) = f(m \<mapsto> x)" for f :: "nat \<rightharpoonup> string" and m p x y
    by auto
  show ?thesis
    unfolding start_shell_def start_pty_def
    by (auto simp: close_both_def twice shell_command_def default_window_nonzero
        dest!: open_pty_opened sys_do_opened split: prod.splits sum.splits option.splits)
qed

text \<open>The same holds of the listener, and its errors all read as the host being unavailable.\<close>

lemma listen_guest_exact:
  "case listen_guest kn t of
     (t', Inl e) \<Rightarrow> e = Sent ErrUnavailable \<and> opened t' = opened t
   | (t', Inr fd) \<Rightarrow> opened t fd = None \<and> opened t' = (opened t)(fd \<mapsto> ''vsock'') \<and> opened (guest_close (Some fd) t') = opened t"
  unfolding listen_guest_def guest_close_def
  by (auto simp: restored dest!: opens split: prod.splits sum.splits option.splits)

text \<open>
  Hanging a shell up takes two seconds and the time of a kill at most, and a shell that ends within two
  seconds of its hangup is not killed.
\<close>

lemma hangup_bounded: "snd (hangup pick (Some d)) \<le> 2000 + dy_kill d"
  by (auto simp: hangup_def split: option.split)

lemma hangup_polite: "dy_hup d = Some n \<Longrightarrow> n < 2000 \<Longrightarrow> hangup pick (Some d) = ([SIGHUP], n)"
  by (simp add: hangup_def)

lemma accept_waits: "guest_accept (Some l) True (replicate n Again @ Connected fd # xs) = Some (Inr fd)"
  by (induction n) (auto simp: guest_accept_def)

text \<open>A whole start: descriptor 0 is free, and the terminal is number 3.\<close>

lemma sample_shell:
  "snd (start_shell \<lparr>kn_err = \<lambda>_. None, kn_number = \<lambda>_. 3\<rparr> ''/home'' ''/bin'' \<lparr>win_cols = 0, win_rows = 0\<rparr>
     \<lparr>fd_table = [], fd_calls = 0\<rparr>) = Inr \<lparr>sd_master = 0, sd_command = shell_command ''/home'' ''/bin'',
       sd_stdio = replicate 3 (Some ''/dev/pts/3''), sd_window = \<lparr>win_cols = 80, win_rows = 24\<rparr>,
       sd_setsid = True, sd_setctty = True, sd_ctty = 0\<rparr>"
  by code_simp

end
