(* ===== verification/Conformance.thy ===== *)
theory Conformance
  imports Remote_Memory
begin

text \<open>
  The conformance suite of the adapters (\<open>execenvtest/suite.go\<close>) as functions of a host, and that the memory
  host passes every case of it, whatever it draws and whichever ready case its \<open>select\<close> picks. A case runs on a
  host of its own; what it does in its clean-up comes after the verdict and is left out.
\<close>

subsection \<open>A test\<close>

text \<open>\<open>Fatal\<close>: the test failed; \<open>Skipped\<close>: \<open>t.Skip\<close>; \<open>Hung\<close>: a call of it does not return.\<close>

datatype 'a verdict = Went 'a | Fatal | Skipped | Hung

type_synonym ('h, 'a) testing = "'h \<Rightarrow> 'h \<times> 'a verdict"

record 'h guest_writer =
  gw_write :: "go_error option \<Rightarrow> grant_id \<Rightarrow> string \<Rightarrow> bytes \<Rightarrow> 'h \<Rightarrow> 'h \<times> unit res"
  gw_remove :: "go_error option \<Rightarrow> grant_id \<Rightarrow> string \<Rightarrow> 'h \<Rightarrow> 'h \<times> unit res"
  gw_move :: "go_error option \<Rightarrow> grant_id \<Rightarrow> string \<Rightarrow> string \<Rightarrow> 'h \<Rightarrow> 'h \<times> unit res"

text \<open>What the suite asks of a host beside the operations a server needs; \<open>ts_guest\<close> is the assertion to \<open>GuestWriter\<close>.\<close>

record 'h tested =
  ts_ops :: "'h host_ops"
  ts_capabilities :: "'h \<Rightarrow> capabilities"
  ts_id :: "nat \<Rightarrow> 'h \<Rightarrow> grant_id"
  ts_revoke :: "go_error option \<Rightarrow> nat \<Rightarrow> 'h \<Rightarrow> 'h \<times> unit res"
  ts_guest :: "'h guest_writer option"

definition went :: "'a \<Rightarrow> ('h, 'a) testing" where
  "went a h = (h, Went a)"

definition next_step :: "('h, 'a) testing \<Rightarrow> ('a \<Rightarrow> ('h, 'b) testing) \<Rightarrow> ('h, 'b) testing" where
  "next_step m f h =
     (case m h of
        (h', Went a) \<Rightarrow> f a h'
      | (h', Fatal) \<Rightarrow> (h', Fatal)
      | (h', Skipped) \<Rightarrow> (h', Skipped)
      | (h', Hung) \<Rightarrow> (h', Hung))"

definition must :: "('h \<Rightarrow> 'h \<times> 'a res) \<Rightarrow> ('h, 'a) testing" where
  "must op h = (case op h of (h', Inl e) \<Rightarrow> (h', Fatal) | (h', Inr a) \<Rightarrow> (h', Went a))"

text \<open>\<open>if !errors.Is(err, want)\<close>\<close>

definition turned_down :: "go_error \<Rightarrow> ('h \<Rightarrow> 'h \<times> 'a res) \<Rightarrow> ('h, unit) testing" where
  "turned_down want op h =
     (case op h of
        (h', Inl e) \<Rightarrow> (h', if errors_is e want then Went () else Fatal)
      | (h', Inr _) \<Rightarrow> (h', Fatal))"

definition expect :: "('h \<Rightarrow> bool) \<Rightarrow> ('h, unit) testing" where
  "expect b h = (h, if b h then Went () else Fatal)"

text \<open>A call that changes nothing, and one that may block.\<close>

definition reading :: "('h \<Rightarrow> 'a res) \<Rightarrow> 'h \<Rightarrow> 'h \<times> 'a res" where
  "reading op h = (h, op h)"

definition blocking :: "('h \<Rightarrow> ('h \<times> 'a res) option) \<Rightarrow> ('h, 'a) testing" where
  "blocking op h = (case op h of None \<Rightarrow> (h, Hung) | Some r \<Rightarrow> must (\<lambda>_. r) h)"

fun has_network :: "network list \<Rightarrow> network \<Rightarrow> bool" where
  "has_network [] want = False"
| "has_network (n # ns) want = (if n = want then True else has_network ns want)"

fun has_image :: "image_name list \<Rightarrow> image_name \<Rightarrow> bool" where
  "has_image [] want = False"
| "has_image (i # is) want = (if i = want then True else has_image is want)"

subsection \<open>Occupancy\<close>

definition grant_spec :: "grant_id \<Rightarrow> image_name \<Rightarrow> spec" where
  "grant_spec i img = \<lparr>spec_id = i, spec_image = img, spec_network = NetworkNone\<rparr>"

definition ensured :: "'h tested \<Rightarrow> grant_id \<Rightarrow> image_name \<Rightarrow> 'h \<Rightarrow> 'h \<times> nat res" where
  "ensured x i img = ho_ensure (ts_ops x) None (grant_spec i img)"

abbreviation granted :: "'h tested \<Rightarrow> ('h, nat) testing" where
  "granted x \<equiv> must (ensured x ''grant-1'' ''default'')"

definition case_ready :: "'h tested \<Rightarrow> ('h, unit) testing" where
  "case_ready x =
     next_step (must (reading (ho_ready (ts_ops x) None))) (\<lambda>rep.
     expect (\<lambda>_. rep_usable rep \<and> has_image (rep_images rep) ''default'' \<and>
       has_network (rep_networks rep) NetworkNone \<and> \<not> rep_slots rep < 1))"

definition case_occupies :: "'h tested \<Rightarrow> ('h, unit) testing" where
  "case_occupies x = next_step (granted x) (\<lambda>e. expect (\<lambda>h. ts_id x e h = ''grant-1''))"

definition case_reattaches :: "'h tested \<Rightarrow> ('h, unit) testing" where
  "case_reattaches x =
     next_step (granted x) (\<lambda>first.
     next_step (granted x) (\<lambda>second.
     expect (\<lambda>h. ts_id x first h = ts_id x second h)))"

definition case_unknown_image :: "'h tested \<Rightarrow> ('h, unit) testing" where
  "case_unknown_image x = turned_down (Sent ErrUnknownImage) (ensured x ''grant-1'' ''missing'')"

definition case_conflict_first :: "'h tested \<Rightarrow> ('h, unit) testing" where
  "case_conflict_first x =
     next_step (granted x) (\<lambda>_. turned_down (Sent ErrConflict) (ensured x ''grant-1'' ''missing''))"

definition case_invalid_spec :: "'h tested \<Rightarrow> ('h, unit) testing" where
  "case_invalid_spec x = turned_down (Sent ErrInvalid) (ensured x ''bad id'' ''default'')"

definition case_changed_spec :: "'h tested \<Rightarrow> ('h, unit) testing" where
  "case_changed_spec x =
     next_step (granted x) (\<lambda>_.
     next_step (turned_down (Sent ErrConflict) (ensured x ''grant-1'' ''alt'')) (\<lambda>_.
     turned_down (Sent ErrConflict) (ho_ensure (ts_ops x) None
       \<lparr>spec_id = ''grant-1'', spec_image = ''default'', spec_network = NetworkAllowlist\<rparr>)))"

definition case_capacity :: "'h tested \<Rightarrow> ('h, unit) testing" where
  "case_capacity x =
     next_step (granted x) (\<lambda>_.
     next_step (must (ensured x ''grant-2'' ''default'')) (\<lambda>_.
     turned_down (Sent ErrCapacity) (ensured x ''grant-3'' ''default'')))"

subsection \<open>Terminals\<close>

definition no_window :: window where
  "no_window = \<lparr>win_cols = 0, win_rows = 0\<rparr>"

definition attached :: "'h tested \<Rightarrow> nat \<Rightarrow> 'h \<Rightarrow> 'h \<times> nat res" where
  "attached x e = ho_attach (ts_ops x) None e no_window"

definition wrote :: "'h tested \<Rightarrow> string \<Rightarrow> nat \<Rightarrow> 'h \<Rightarrow> 'h \<times> nat res" where
  "wrote x s t = ho_term_write (ts_ops x) (bytes_of_string s) t"

definition case_pty_writes :: "'h tested \<Rightarrow> ('h, unit) testing" where
  "case_pty_writes x =
     next_step (granted x) (\<lambda>e.
     next_step (must (attached x e)) (\<lambda>t.
     next_step (must (wrote x ''ping'' t)) (\<lambda>_. went ())))"

definition case_second_attach :: "'h tested \<Rightarrow> ('h, unit) testing" where
  "case_second_attach x =
     next_step (granted x) (\<lambda>e.
     next_step (must (attached x e)) (\<lambda>first.
     next_step (turned_down (Sent ErrBusy) (attached x e)) (\<lambda>_.
     next_step (must (ho_term_close (ts_ops x) first)) (\<lambda>_.
     next_step (must (attached x e)) (\<lambda>_. went ())))))"

definition case_freeze :: "'h tested \<Rightarrow> ('h, unit) testing" where
  "case_freeze x =
     next_step (\<lambda>h. (h, if cap_freeze (ts_capabilities x h) then Went () else Skipped)) (\<lambda>_.
     next_step (granted x) (\<lambda>e.
     next_step (must (attached x e)) (\<lambda>t.
     next_step (must (ho_freeze (ts_ops x) None e)) (\<lambda>_.
     next_step (turned_down (Sent ErrFrozen) (wrote x ''x'' t)) (\<lambda>_.
     next_step (turned_down (Sent ErrFrozen) (attached x e)) (\<lambda>_.
     next_step (must (ho_thaw (ts_ops x) None e)) (\<lambda>_.
     next_step (turned_down (Sent ErrFrozen) (wrote x ''x'' t)) (\<lambda>_.
     next_step (must (attached x e)) (\<lambda>t'.
     next_step (must (wrote x ''ok'' t')) (\<lambda>_. went ()))))))))))"

definition case_revoke :: "'h tested \<Rightarrow> ('h, unit) testing" where
  "case_revoke x =
     next_step (granted x) (\<lambda>e.
     next_step (must (attached x e)) (\<lambda>t.
     next_step (must (ts_revoke x None e)) (\<lambda>_.
     next_step (turned_down (Sent ErrRevoked) (wrote x ''x'' t)) (\<lambda>_.
     next_step (must (ho_revoke (ts_ops x) None ''grant-1'')) (\<lambda>_.
     next_step (turned_down (Sent ErrRevoked) (attached x e)) (\<lambda>_.
     next_step (granted x) (\<lambda>_. went ())))))))"

subsection \<open>The tree\<close>

definition file_node :: "string \<Rightarrow> version \<Rightarrow> string option \<Rightarrow> node" where
  "file_node p v s = \<lparr>nd_path = p, nd_kind = KindFile, nd_version = v, nd_data = map_option bytes_of_string s\<rparr>"

definition replaced :: "'h tested \<Rightarrow> nat \<Rightarrow> node \<Rightarrow> 'h \<Rightarrow> 'h \<times> unit res" where
  "replaced x e n = ho_replace (ts_ops x) None e [n]"

definition holds_file :: "'h tested \<Rightarrow> nat \<Rightarrow> string \<Rightarrow> string \<Rightarrow> ('h, unit) testing" where
  "holds_file x e p s =
     next_step (must (reading (ho_open (ts_ops x) None e p))) (\<lambda>got. expect (\<lambda>_. got = bytes_of_string s))"

definition case_replace_open :: "'h tested \<Rightarrow> ('h, unit) testing" where
  "case_replace_open x =
     next_step (granted x) (\<lambda>e.
     next_step (must (replaced x e (file_node ''src/main.go'' ''v1'' (Some (''package main'' @ [CHR 0x0A]))))) (\<lambda>_.
     holds_file x e ''src/main.go'' (''package main'' @ [CHR 0x0A])))"

definition case_version_skip :: "'h tested \<Rightarrow> ('h, unit) testing" where
  "case_version_skip x =
     next_step (granted x) (\<lambda>e.
     next_step (must (replaced x e (file_node ''a.txt'' ''v1'' (Some ''one'')))) (\<lambda>_.
     next_step (must (replaced x e (file_node ''a.txt'' ''v1'' None))) (\<lambda>_.
     turned_down (Sent ErrInvalid) (replaced x e (file_node ''a.txt'' ''v2'' None)))))"

definition mutating :: "op \<Rightarrow> string \<Rightarrow> mutation" where
  "mutating op p = \<lparr>mu_op = op, mu_path = p, mu_from = '''', mu_kind = KindFile, mu_version = '''', mu_expected = '''',
     mu_data = None\<rparr>"

definition applied :: "'h tested \<Rightarrow> nat \<Rightarrow> mutation \<Rightarrow> 'h \<Rightarrow> 'h \<times> unit res" where
  "applied x e m = ho_apply (ts_ops x) None e [m]"

definition case_apply :: "'h tested \<Rightarrow> ('h, unit) testing" where
  "case_apply x =
     next_step (granted x) (\<lambda>e.
     next_step (must (applied x e ((mutating OpCreate ''a.txt'')
       \<lparr>mu_version := ''v1'', mu_data := Some (bytes_of_string ''one'')\<rparr>))) (\<lambda>_.
     next_step (turned_down (Sent ErrConflict) (applied x e ((mutating OpReplace ''a.txt'')
       \<lparr>mu_version := ''v2'', mu_expected := ''nope'', mu_data := Some (bytes_of_string ''two'')\<rparr>))) (\<lambda>_.
     next_step (holds_file x e ''a.txt'' ''one'') (\<lambda>_.
     next_step (turned_down (Sent ErrInvalid) (applied x e ((mutating OpCreate ''/abs'')
       \<lparr>mu_data := Some (bytes_of_string ''x'')\<rparr>))) (\<lambda>_.
     next_step (must (applied x e ((mutating OpMove ''b.txt'')\<lparr>mu_from := ''a.txt''\<rparr>))) (\<lambda>_.
     next_step (must (applied x e (mutating OpDelete ''b.txt''))) (\<lambda>_.
     turned_down (Sent ErrNotFound) (reading (ho_open (ts_ops x) None e ''b.txt'')))))))))"

definition case_directory_body :: "'h tested \<Rightarrow> ('h, unit) testing" where
  "case_directory_body x =
     next_step (granted x) (\<lambda>e.
     turned_down (Sent ErrInvalid) (replaced x e
       \<lparr>nd_path = ''src'', nd_kind = KindDirectory, nd_version = '''', nd_data = Some (bytes_of_string ''no'')\<rparr>))"

subsection \<open>Guest changes and cancelled calls\<close>

definition harvest :: "'h tested \<Rightarrow> 'h guest_writer \<Rightarrow> nat \<Rightarrow> nat \<Rightarrow> ('h, unit) testing" where
  "harvest x w e b =
     next_step (must (gw_write w None ''grant-1'' ''out.txt'' (bytes_of_string ''hi''))) (\<lambda>_.
     next_step (blocking (ho_obs_next (ts_ops x) None b)) (\<lambda>ev.
     next_step (expect (\<lambda>_. ev_op ev = OpCreate \<and> ev_path ev = ''out.txt'')) (\<lambda>_.
     next_step (expect (\<lambda>h. ev_cursor ev \<noteq> '''' \<and> ho_obs_cursor (ts_ops x) b h = ev_cursor ev)) (\<lambda>_.
     next_step (holds_file x e ''out.txt'' ''hi'') (\<lambda>_.
     next_step (must (gw_move w None ''grant-1'' ''out.txt'' ''renamed.txt'')) (\<lambda>_.
     next_step (blocking (ho_obs_next (ts_ops x) None b)) (\<lambda>ev.
     next_step (expect (\<lambda>_. ev_op ev = OpMove \<and> ev_from ev = ''out.txt'')) (\<lambda>_.
     next_step (must (gw_remove w None ''grant-1'' ''renamed.txt'')) (\<lambda>_.
     next_step (blocking (ho_obs_next (ts_ops x) None b)) (\<lambda>ev.
     expect (\<lambda>_. ev_op ev = OpDelete \<and> ev_path ev = ''renamed.txt'')))))))))))"

definition case_harvest :: "'h tested \<Rightarrow> ('h, unit) testing" where
  "case_harvest x =
     (case ts_guest x of
        None \<Rightarrow> (\<lambda>h. (h, Skipped))
      | Some w \<Rightarrow>
          next_step (granted x) (\<lambda>e.
          next_step (must (ho_watch (ts_ops x) None e '''')) (\<lambda>b. harvest x w e b)))"

definition case_cancelled_replace :: "'h tested \<Rightarrow> ('h, unit) testing" where
  "case_cancelled_replace x =
     next_step (granted x) (\<lambda>e.
     turned_down CtxCanceled (ho_replace (ts_ops x) (Some CtxCanceled) e [file_node ''a.txt'' ''v1'' (Some ''x'')]))"

definition case_cancelled_ensure :: "'h tested \<Rightarrow> ('h, unit) testing" where
  "case_cancelled_ensure x =
     turned_down CtxCanceled (ho_ensure (ts_ops x) (Some CtxCanceled) (grant_spec ''grant-1'' ''default''))"

text \<open>The suite, in its order.\<close>

definition suite :: "'h tested \<Rightarrow> ('h, unit) testing list" where
  "suite x =
     [case_ready x, case_occupies x, case_reattaches x, case_unknown_image x, case_conflict_first x,
      case_invalid_spec x, case_changed_spec x, case_capacity x, case_pty_writes x, case_second_attach x,
      case_freeze x, case_revoke x, case_replace_open x, case_version_skip x, case_apply x,
      case_directory_body x, case_harvest x, case_cancelled_replace x, case_cancelled_ensure x]"

subsection \<open>The memory host passes\<close>

definition memory_tested :: "string \<Rightarrow> (mem_state \<Rightarrow> entropy) \<Rightarrow> bool \<Rightarrow> mem_state tested" where
  "memory_tested release draw pick =
     \<lparr>ts_ops = memory_ops release draw pick, ts_capabilities = host_capabilities,
      ts_id = (\<lambda>r m. en_id (ms_envs m ! r)), ts_revoke = env_revoke,
      ts_guest = Some \<lparr>gw_write = host_write_guest, gw_remove = host_remove_guest, gw_move = host_move_guest\<rparr>\<rparr>"

lemmas case_run = next_step_def must_def turned_down_def expect_def went_def reading_def blocking_def ensured_def attached_def
  wrote_def replaced_def applied_def holds_file_def memory_tested_def memory_ops_def grant_spec_def fail_op_def

lemma suite_names:
  "validate_spec (grant_spec ''grant-1'' ''default'') = None" "validate_spec (grant_spec ''grant-1'' ''missing'') = None"
  "validate_spec (grant_spec ''grant-1'' ''alt'') = None" "validate_spec (grant_spec ''grant-2'' ''default'') = None"
  "validate_spec (grant_spec ''grant-3'' ''default'') = None"
  "validate_spec (grant_spec ''bad id'' ''default'') = Some (Sent ErrInvalid)"
  "validate_spec \<lparr>spec_id = ''grant-1'', spec_image = ''default'', spec_network = NetworkAllowlist\<rparr> = None"
  by code_simp+

lemma has_image_iff: "has_image is want \<longleftrightarrow> want \<in> set is"
  by (induction "is") auto

lemma granted_memory:
  assumes "''default'' \<in> set images"
  shows "ensured (memory_tested release draw pick) ''grant-1'' ''default'' (host_new images 2 False) =
    (let m = host_new images 2 False in
     m\<lparr>ms_envs := [new_environment (grant_spec ''grant-1'' ''default'') (draw_epoch (draw m))],
       ms_grants := [(''grant-1'', 0)]\<rparr>, Inr 0)"
  using assms suite_names(1)
  by (simp add: ensured_def memory_tested_def memory_ops_def host_ensure_def host_new_def grant_spec_def Let_def)

lemma occupancy_cases:
  assumes "''default'' \<in> set images" "''missing'' \<notin> set images"
  shows "\<forall>c \<in> {case_ready, case_occupies, case_reattaches, case_unknown_image, case_conflict_first, case_invalid_spec,
    case_changed_spec, case_capacity}. snd (c (memory_tested release draw pick) (host_new images 2 False)) = Went ()"
  using assms suite_names
  apply (simp add: case_ready_def case_occupies_def case_reattaches_def case_unknown_image_def case_conflict_first_def
    case_invalid_spec_def case_changed_spec_def case_capacity_def case_run has_image_iff host_ready_def host_ensure_def host_new_def
    new_environment_def Let_def)
  done

lemmas memory_run = env_attach_def env_freeze_def env_thaw_def env_revoke_def host_revoke_def revoke_delete_def
  env_do_revoke_def drop_term_def kill_term_def fail_watch_def term_write_def term_close_def finished_def
  new_terminal_def set_env_def set_term_def set_obs_def host_capabilities_def guard_def

lemma terminal_cases:
  assumes "''default'' \<in> set images"
  shows "\<forall>c \<in> {case_pty_writes, case_second_attach, case_freeze, case_revoke}.
    snd (c (memory_tested release draw pick) (host_new images 2 False)) = Went ()"
  using assms suite_names(1)
  by (simp add: case_pty_writes_def case_second_attach_def case_freeze_def case_revoke_def case_run memory_run
    host_ensure_def host_new_def new_environment_def Let_def)

lemma suite_paths:
  "validate_path ''src/main.go'' = None" "validate_path ''a.txt'' = None" "validate_path ''b.txt'' = None"
  "validate_path ''src'' = None" "validate_path ''out.txt'' = None" "validate_path ''renamed.txt'' = None"
  "validate_path ''/abs'' = Some (Sent ErrInvalid)"
  by code_simp+

lemmas tree_run = replace_tree_def replace_loop.simps resolve_body_def apply_batch_def apply_loop.simps apply_one_def
  put_def map_index_def max_tree_entries_def max_file_bytes_def max_tree_bytes_def env_replace_tree_def env_apply_def env_open_def

lemma tree_cases:
  assumes "''default'' \<in> set images"
  shows "\<forall>c \<in> {case_replace_open, case_version_skip, case_apply, case_directory_body, case_cancelled_replace}.
    snd (c (memory_tested release draw pick) (host_new images 2 False)) = Went ()"
  using assms suite_names(1)
  by (simp add: case_replace_open_def case_version_skip_def case_apply_def case_directory_body_def
    case_cancelled_replace_def case_run memory_run tree_run suite_paths file_node_def mutating_def
    host_ensure_def host_new_def new_environment_def Let_def)

lemma guest_cases:
  assumes "''default'' \<in> set images"
  shows "\<forall>c \<in> {case_harvest, case_cancelled_ensure}.
    snd (c (memory_tested release draw pick) (host_new images 2 False)) = Went ()"
  using assms suite_names(1)
  by (simp add: case_harvest_def harvest_def case_cancelled_ensure_def case_run memory_run suite_paths
    env_watch_def watch_buffer_def since_log_def emit_def append_log_def new_log_def default_capacity_def guest_event_def
    host_grant_def host_write_guest_def host_move_guest_def host_remove_guest_def write_guest_check_def
    env_write_guest_def env_move_guest_def env_remove_guest_def obs_next_def next_check_def next_select_def
    next_receive_def make_cursor_nonempty env_open_def max_file_bytes_def
    host_ensure_def host_new_def new_environment_def Let_def)

text \<open>
  C39. The memory host passes the whole conformance suite: started with two slots and a catalog that has the
  images the suite asks for and not the one it takes for unknown, every case goes through, none is skipped and no
  call in it blocks, whatever the host draws for its cursors and whichever ready case its \<open>select\<close> picks.
\<close>

theorem memory_conforms:
  assumes "''default'' \<in> set images" "''missing'' \<notin> set images"
  shows "list_all (\<lambda>c. snd (c (host_new images 2 False)) = Went ()) (suite (memory_tested release draw pick))"
  using occupancy_cases[OF assms] terminal_cases[OF assms(1)] tree_cases[OF assms(1)] guest_cases[OF assms(1)]
  by (simp add: suite_def)

theorem memory_conforms_witness:
  "list_all (\<lambda>c. snd (c (host_new [''default'', ''alt''] 2 False)) = Went ())
    (suite (memory_tested ''v1'' (\<lambda>_. (None, 0, 0)) True))"
  by (rule memory_conforms) simp_all

text \<open>The suite does tell hosts apart: one with a single slot does not get through its eighth case.\<close>

lemma one_slot_fails: "snd (case_capacity (memory_tested release draw pick) (host_new [''default''] 1 False)) = Fatal"
  using suite_names(1,4)
  by (simp add: case_capacity_def case_run host_ensure_def host_new_def Let_def)

end
