(* ===== verification/Spec2Isabelle.thy ===== *)
theory Spec2Isabelle
  imports Memory_Props Client_Props Network_Props Isolated_Launch Remote_Endpoints Daemon_Props Agent_Client_Props Ctl_Sums Commands Agent_Pty Conformance
begin

text \<open>
  A verification development of execenv: hosts that occupy execution environments (a \<^emph>\<open>grant\<close> each) with one
  terminal, one projected file tree and one stream of the guest's file events.

  \<^bold>\<open>The program.\<close> An application holds an \<open>execenv.Host\<close> (\<open>execenv.go\<close>). Three adapters implement it:
  \<open>memory\<close> (in process, for tests and development), \<open>isolated\<close> (a microVM per grant) and \<open>remote\<close> (a client of a
  daemon that serves another host). The daemon (\<open>cmd/execenv\<close>, \<open>daemon\<close>) reads an operator document, makes the
  adapter it names and serves it over TLS (\<open>remote/server.go\<close>). Inside a microVM an agent (\<open>agent\<close>) serves the
  same operations to the isolated host. Both hops speak the frames of \<open>internal/mux\<close>, both sides of the tree share
  \<open>internal/tree\<close> and \<open>internal/watchlog\<close>. The operator installs disks and binaries with \<open>execenvctl\<close>
  (\<open>internal/ctl\<close>).

  \<^bold>\<open>How the model follows the code.\<close> A Go struct is a record, an error a \<open>go_error\<close>, a function with an error
  result a sum with the error on the left. Objects that the code shares by pointer (environments, terminals,
  observations, calls in flight) live in stores, lists indexed by the reference, so that aliasing is visible. What
  the code does under one lock is one function of the whole state; a method that takes its lock twice, or that
  blocks, is as many functions, and an inductive step relation over those functions stands for every interleaving
  of the goroutines: \<open>mstep\<close> (memory host), \<open>dstep\<close> (dispatcher of a connection), \<open>cstep\<close> (remote client), \<open>istep\<close>
  (isolated host), \<open>agent_step\<close> (guest agent), \<open>ac_step\<close> (the agent's client). A blocked receive and a panic
  are values (\<open>None\<close>). What is not under the code's control is an argument: the context, randomness and clocks, JSON,
  the outcome of each system call, the order in which a Go map is walked.
\<close>

text \<open>
  \<^bold>\<open>The contract and what the components share.\<close>
  \<^item> Prelude: bytes, big-endian integers, \<open>utf8.ValidString\<close>, \<open>strings.Split\<close>; the locales \<open>steps_keep\<close> and
    \<open>steps_keep_from\<close>, the contract between a step relation and the predicate its steps preserve, interpreted on
    every step relation of the development.
  \<^item> Errors (\<open>errors.go\<close>, \<open>internal/mux/status.go\<close>): sentinels, \<open>OpError\<close>, \<open>errors.Is\<close>, the status names of the
    wire; a sentinel survives the wire.
  \<^item> Contract (\<open>execenv.go\<close>, \<open>id.go\<close>, \<open>isolated.go\<close>): the public records, \<open>ValidateSpec\<close>, \<open>RequireIsolated\<close>.
  \<^item> Paths (\<open>tree.go\<close>): \<open>ValidatePath\<close>, \<open>ValidateEvent\<close>, \<open>ResolvePath\<close>; validation is equal to a declarative
    reference, and a resolved path never leaves its root.
  \<^item> Tree_Ops (\<open>internal/tree\<close>): \<open>Replace\<close> and \<open>Apply\<close>; what a replacement makes of its list exactly, and that a
    batch is the sequence of its mutations in a relational specification (\<open>mut_step\<close>) or nothing at all.
  \<^item> Watch_Log (\<open>internal/watchlog\<close>): cursors, epochs and the window. The locale \<open>replay_log\<close> is what the owners of
    a log rely on: it stands for the whole history of its generation and replays the last part of it exactly; the
    theory interprets it on the code's ring.
  \<^item> Mux_Frame (\<open>internal/mux/mux.go\<close>): the codec and the session over partial writes; receiving yields exactly
    the frames whose encodings make up the stream.

  \<^bold>\<open>The memory host\<close> (\<open>memory\<close>). Memory_Host has every method; Memory_Inv the step relation and its invariant;
  Memory_Props bounded and exclusive occupancy, lossless resumption of a watch, and final revocation. Conformance is
  the adapters' test suite (\<open>execenvtest\<close>) as functions of a host, and the proof that the memory host passes it.

  \<^bold>\<open>The remote hop\<close> (\<open>remote\<close>).
  \<^item> Remote_Dispatch: the dispatcher of a connection (slots, the tail of each grant). Requests of one grant run one
    at a time in their order while the connection lives, every admitted request ends within a bounded number of
    steps.
  \<^item> Remote_Server: authentication, the handler of each method, the copiers, teardown, over a record of host
    operations. The locale \<open>served_host\<close> is what the server asks of a host; Remote_Memory interprets it on the memory
    host, as \<open>daemon/run.go\<close> wires it, and has the gate of the authentication and the isolation of grants.
  \<^item> Remote_Client, Client_Inv, Client_Props: the client's maps of pending calls, terminals and observations, their
    invariant, answers that reach the call that asked, loss of the connection, overflow, the round trip with the
    server, and the one step that can panic.
  \<^item> Remote_Endpoints: \<open>remote.New\<close> with its configuration, and the server's accept loop.
\<close>

text \<open>
  \<^bold>\<open>The isolated host\<close> (\<open>isolated\<close>).
  \<^item> Isolated_Host (\<open>isolated.go\<close>, \<open>env.go\<close>, \<open>catalog.go\<close>): the tables of grants, calls and machines, one function
    per locked section. Isolated_Inv accounts for every machine exactly once; Isolated_Props has occupancy, one
    launch per grant, final revocation, and the runs in which two calls of one id get in each other's way.
  \<^item> Isolated_Network (\<open>network.go\<close>, \<open>network_linux.go\<close>) and Network_Props: the operator's destinations and
    the commands \<open>ip\<close> and \<open>iptables\<close> over a state of devices, chains and rules. A machine that gets a device is
    confined whichever commands fail and whatever other grants do in between, and a failed set-up takes back what
    it did.
  \<^item> Isolated_Process (\<open>process.go\<close>, \<open>probe.go\<close>, \<open>workdir_posix.go\<close>, \<open>tree.go\<close>) and Isolated_Process_Props:
    the machine's document and process, dialling the guest (\<open>connect_from\<close>, a \<open>partial_function\<close> whose \<open>None\<close> is
    a call that never returns; that it returns is proved), the lock on the work directory, and the guest's edits.
    The process refines the machine of Isolated_Host.
  \<^item> Isolated_Launch: \<open>Ensure\<close>'s launch composed of all of these; it succeeds or leaves no machine and no network.

  \<^bold>\<open>The guest agent\<close> (\<open>agent\<close>).
  \<^item> Agent_Disk (\<open>agent/tree.go\<close>): the projected tree on a disk, every system call of which may break; Agent_Disk_Props:
    undo restores the disk, a rewrite makes the disk the snapshot and nothing else.
  \<^item> Agent_Watch (\<open>agent/watch.go\<close>): scans and their difference, against a declarative account of what changed.
  \<^item> Agent_Server (\<open>agent/server.go\<close>) and Agent_Props: every handler, polling, terminals and shells; an \<open>Apply\<close> is all or
    nothing, and a frozen agent does nothing.
  \<^item> Agent_Pty (\<open>agent/pty_unix.go\<close>, \<open>pty_linux.go\<close>, \<open>hangup_unix.go\<close>, \<open>listen_linux.go\<close>): the descriptors a shell and the
    guest listener need; whichever call fails, none stays open.
  \<^item> Agent_Client (\<open>agent/client.go\<close>) and Agent_Client_Props: the host's side of this hop and its round trip.

  \<^bold>\<open>Operation.\<close>
  \<^item> Daemon_Config (\<open>daemon\<close>, \<open>build.go\<close>) and Daemon_Props: the document, the adapter and the server configuration
    made of it; the daemon never serves without authentication, and a saved document loads as itself.
  \<^item> Ctl_Host and Ctl_Tool (\<open>internal/ctl\<close>): files as a map from paths to contents, every outside call with an answer
    of its own, and the commands in the code's order. Ctl_Props, Ctl_Commands, Ctl_Sums: a disk or binary is only
    replaced by a verified one, a second bootstrap keeps the host's identity, a removal removes one entry, and what
    a checksum file says is what is read.
  \<^item> Commands (\<open>cmd\<close>, \<open>agent/listen.go\<close>): flags, exit codes and which part runs.
\<close>

text \<open>
  \<^bold>\<open>Bounds.\<close> No recursion is cut off by fuel that a run could exhaust. The walk of a directory takes the length
  of the list of paths as its depth, which no path on the disk exceeds; the reader of an IPv6 address takes its eight groups;
  a line of a checksum file longer than the scanner's 65536 bytes is the scanner's error. The accept loops take the
  list of what the listener answers, of any length. Machine integers are words where their width matters (frame
  lengths, stream and request numbers, sequence numbers of a log, enumerations, checksums of interface
  names); sizes that the code compares with a bound after each addition are naturals.

  \<^bold>\<open>Not modelled.\<close> \<open>encoding/json\<close>, TLS and certificates, sockets with their deadlines and real
  processes are the operating system's or libraries'; the code that uses them is modelled with their outcome as an
  argument. \<open>isolated/child_linux.go\<close> sets one attribute of a process.
  Symbolic links on a disk are left out: the scan and the walks of the code skip what is not a regular file or a
  directory. The parser of \<open>execenvctl\<close>'s command line is a third-party package. The files for other systems
  (\<open>*_other.go\<close>, \<open>*_darwin.go\<close>) only answer \<open>ErrUnavailable\<close> or repeat the Linux calls. \<open>loadIndexFile\<close> is used by
  tests only.
\<close>

end
